(* ===== verification/Prelude.thy ===== *)
theory Prelude
  imports Main "HOL-Library.Word" "HOL-Library.Multiset"
begin

text \<open>
  What the component theories share.

  \<^item> the parameters of the kernel (\<^verbatim>\<open>param.h\<close>, \<^verbatim>\<open>rsdl.h\<close>);
  \<^item> the result type of kernel code: \<open>Inr\<close> a value, or \<open>Inl\<close> an error: a call of
    \<^verbatim>\<open>panic\<close> with its message, a spin lock that another CPU holds (the code loops
    until it is released), a loop that does not end, or behaviour that C leaves undefined;
  \<^item> sequencing of fallible code (\<open>bindE\<close>) and its rewrite rules;
  \<^item> the wrap-around of a C \<^verbatim>\<open>int\<close>;
  \<^item> generic lemmas on lists that the components use.
\<close>

named_theorems frame_simps \<open>fields that an operation does not change\<close>

section \<open>Parameters\<close>

definition NPROC :: nat where "NPROC = 64"
definition KSTACKSIZE :: "32 word" where "KSTACKSIZE = 4096"
definition NCPU :: nat where "NCPU = 8"
definition NOFILE :: nat where "NOFILE = 16"
definition NFILE :: nat where "NFILE = 100"
definition NINODE :: nat where "NINODE = 50"
definition NDEV :: nat where "NDEV = 10"
definition ROOTDEV :: nat where "ROOTDEV = 1"
definition MAXARG :: nat where "MAXARG = 32"
definition MAXOPBLOCKS :: nat where "MAXOPBLOCKS = 10"
definition LOGSIZE :: nat where "LOGSIZE = MAXOPBLOCKS * 3"
definition NBUF :: nat where "NBUF = MAXOPBLOCKS * 3"
definition FSSIZE :: nat where "FSSIZE = 2000"

definition RSDL_LEVELS :: nat where "RSDL_LEVELS = 3"
definition RSDL_STARTING_LEVEL :: int where "RSDL_STARTING_LEVEL = 0"
definition RSDL_PROC_QUANTUM :: int where "RSDL_PROC_QUANTUM = 20"
definition RSDL_LEVEL_QUANTUM :: int where "RSDL_LEVEL_QUANTUM = 100"

lemmas params_defs = NPROC_def KSTACKSIZE_def NCPU_def NOFILE_def NFILE_def NINODE_def
  NDEV_def ROOTDEV_def MAXARG_def MAXOPBLOCKS_def LOGSIZE_def NBUF_def FSSIZE_def

lemmas rsdl_defs = RSDL_LEVELS_def RSDL_STARTING_LEVEL_def RSDL_PROC_QUANTUM_def
  RSDL_LEVEL_QUANTUM_def

text \<open>What the proofs about the scheduler use of the numbers.\<close>

lemma RSDL_LEVELS_pos [simp]: "0 < RSDL_LEVELS"
  by (simp add: RSDL_LEVELS_def)

lemma NPROC_pos [simp]: "0 < NPROC"
  by (simp add: NPROC_def)

lemma quantum_pos [simp]: "0 < RSDL_PROC_QUANTUM" "0 < RSDL_LEVEL_QUANTUM"
  by (simp_all add: rsdl_defs)

lemma quantum_not_le [simp]: "\<not> RSDL_PROC_QUANTUM \<le> 0" "\<not> RSDL_LEVEL_QUANTUM \<le> 0"
  by (simp_all add: rsdl_defs)

section \<open>Results of kernel code\<close>

datatype error = Panic string | Spin | NoReturn | Undef

type_synonym 'a result = "error + 'a"

definition bindE :: "'a result \<Rightarrow> ('a \<Rightarrow> 'b result) \<Rightarrow> 'b result" where
  "bindE m f = (case m of Inl e \<Rightarrow> Inl e | Inr x \<Rightarrow> f x)"

definition panic :: "string \<Rightarrow> 'a result" where
  "panic s = Inl (Panic s)"

lemma bindE_simps [simp]: "bindE (Inl e) f = Inl e" "bindE (Inr x) f = f x"
  by (simp_all add: bindE_def)

lemma bindE_panic [simp]: "bindE (panic s) f = panic s"
  by (simp add: panic_def)

lemma panic_neq_Inr [simp]: "panic s \<noteq> Inr x" "Inr x \<noteq> panic s"
  by (simp_all add: panic_def)

lemma bindE_eq_Inr: "bindE m f = Inr y \<longleftrightarrow> (\<exists>x. m = Inr x \<and> f x = Inr y)"
  by (cases m) simp_all

lemma bindE_InrE:
  assumes "bindE m f = Inr y"
  obtains x where "m = Inr x" "f x = Inr y"
  using assms by (auto simp: bindE_eq_Inr)

lemma bindE_assoc: "bindE (bindE m f) g = bindE m (\<lambda>x. bindE (f x) g)"
  by (cases m) simp_all

lemma bindE_Inr_right [simp]: "bindE m Inr = m"
  by (cases m) simp_all

lemma bindE_cong [fundef_cong]:
  assumes "m = m'" and "\<And>x. m' = Inr x \<Longrightarrow> f x = f' x"
  shows "bindE m f = bindE m' f'"
  using assms by (cases m') simp_all

text \<open>A kernel access through a NULL pointer: the page fault ends in \<open>panic("trap")\<close>.\<close>

definition nullderef :: "'a result" where
  "nullderef = panic ''trap''"

section \<open>Memory layout\<close>

definition KERNBASE :: "32 word" where "KERNBASE = 0x80000000"
definition PHYSTOP :: "32 word" where "PHYSTOP = 0xE000000"
definition EXTMEM :: "32 word" where "EXTMEM = 0x100000"
definition DEVSPACE :: "32 word" where "DEVSPACE = 0xFE000000"
definition KERNLINK :: "32 word" where "KERNLINK = KERNBASE + EXTMEM"

definition V2P :: "32 word \<Rightarrow> (32 word) result" where
  "V2P a = (if a < KERNBASE then panic ''V2P on address < KERNBASE (not a kernel virtual address; consider walking page table to determine physical address of a user virtual address)'' else Inr (a - KERNBASE))"

definition P2V :: "32 word \<Rightarrow> (32 word) result" where
  "P2V a = (if a > KERNBASE then panic ''P2V on address > KERNBASE'' else Inr (a + KERNBASE))"

lemmas layout_defs = KERNBASE_def PHYSTOP_def EXTMEM_def DEVSPACE_def KERNLINK_def

section \<open>C integers\<close>

text \<open>
  The value a C \<^verbatim>\<open>int\<close> holds after an arithmetic result \<open>x\<close> is stored in it: the
  32-bit two's complement reading of \<open>x\<close>.
\<close>

definition c_int :: "int \<Rightarrow> int" where
  "c_int x = (x + 2 ^ 31) mod 2 ^ 32 - 2 ^ 31"

definition c_int_range :: "int \<Rightarrow> bool" where
  "c_int_range x \<longleftrightarrow> - (2 ^ 31) \<le> x \<and> x < 2 ^ 31"

lemma c_int_id: "c_int_range x \<Longrightarrow> c_int x = x"
  by (simp add: c_int_def c_int_range_def)

lemma c_int_in_range: "c_int_range (c_int x)"
  using pos_mod_bound [of "2 ^ 32" "x + 2 ^ 31"] pos_mod_sign [of "2 ^ 32" "x + 2 ^ 31"]
  by (auto simp: c_int_def c_int_range_def)

lemma c_int_sint: "c_int (sint (w :: 32 word)) = sint w"
  by (rule c_int_id) (use sint_lt [of w] sint_ge [of w] in \<open>simp add: c_int_range_def\<close>)

section \<open>Lists\<close>

lemma nth_list_update_if:
  "j < length xs \<Longrightarrow> (xs[i := v]) ! j = (if i = j then v else xs ! j)"
  by (simp add: nth_list_update)

lemma list_update_same_nth [simp]: "xs[i := xs ! i] = xs"
  by (cases "i < length xs") (auto simp: list_update_beyond)

lemma concat_map_split:
  assumes "i < length xs"
  shows "concat (map f xs) = concat (map f (take i xs)) @ f (xs ! i) @ concat (map f (drop (Suc i) xs))"
  by (subst id_take_nth_drop [OF assms]) simp

lemma mset_concat_update:
  assumes "i < length xs"
  shows "mset (concat (map f (xs[i := v]))) + mset (f (xs ! i)) = mset (concat (map f xs)) + mset (f v)"
  using assms by (simp add: concat_map_split [of i xs] concat_map_split [of i "xs[i := v]"])

end
