(* ===== verification/Spinlock.thy ===== *)
theory Spinlock
  imports Prelude
begin

text \<open>
  CPUs and spin locks (\<^verbatim>\<open>spinlock.c\<close>, \<^verbatim>\<open>spinlock.h\<close>, \<open>struct cpu\<close> of
  \<^verbatim>\<open>proc.h\<close>, \<open>mycpu\<close> of \<^verbatim>\<open>proc.c\<close>).

  The machine is the list of CPUs and the table of all spin locks of the kernel. A CPU
  is its index in \<open>cpus[]\<close>. A critical section is the sequence \<open>acquire\<close>, body,
  \<open>release\<close>; \<open>acquire\<close> of a lock that another CPU holds is the error \<open>Spin\<close>: the
  code loops on \<open>xchg\<close> until that CPU releases, so the section starts later.
  The last part takes \<open>acquire\<close> and \<open>release\<close> apart into their memory accesses and
  shows mutual exclusion for any interleaving of CPUs.

  \<open>lk->pcs\<close>, which only a debugger reads, is not part of the lock record;
  \<open>getcallerpcs\<close> itself is modelled over a memory.
\<close>

section \<open>State\<close>

datatype lockid = PtableLock | LevelLock nat | TicksLock | OtherLock nat

record spinlock =
  lk_locked :: bool
  lk_name :: string
  lk_cpu :: "nat option"

text \<open>
  \<open>c_if\<close> is the interrupt flag of the CPU's eflags register, \<open>c_frame\<close> the local
  variables \<open>p\<close>, \<open>q\<close>, \<open>k\<close> of \<open>scheduler()\<close> in the context that
  \<open>c->scheduler\<close> points to while a process runs. \<open>c_cr3\<close> is the page directory
  register and \<open>c_esp0\<close> the kernel stack pointer in the task state segment.
\<close>

record cpu =
  c_apicid :: "8 word"
  c_ncli :: int
  c_intena :: bool
  c_if :: bool
  c_proc :: "nat option"
  c_queue :: "nat option"
  c_frame :: "(nat \<times> nat \<times> nat) option"
  c_cr3 :: "32 word"
  c_esp0 :: "32 word"

record mach =
  cpus :: "cpu list"
  locks :: "lockid \<Rightarrow> spinlock"

definition upd_cpu :: "nat \<Rightarrow> (cpu \<Rightarrow> cpu) \<Rightarrow> 'z mach_scheme \<Rightarrow> 'z mach_scheme" where
  "upd_cpu c f S = S\<lparr>cpus := (cpus S)[c := f (cpus S ! c)]\<rparr>"

definition upd_lock :: "lockid \<Rightarrow> (spinlock \<Rightarrow> spinlock) \<Rightarrow> 'z mach_scheme \<Rightarrow> 'z mach_scheme" where
  "upd_lock l f S = S\<lparr>locks := (locks S)(l := f (locks S l))\<rparr>"

section \<open>Which CPU this is\<close>

text \<open>The loop of \<open>mycpu()\<close> over \<open>cpus[0..ncpu)\<close>, from index \<open>i\<close>.\<close>

fun mycpu_loop :: "cpu list \<Rightarrow> 8 word \<Rightarrow> nat \<Rightarrow> nat result" where
  "mycpu_loop [] apicid i = panic ''unknown apicid''"
| "mycpu_loop (x # xs) apicid i = (if c_apicid x = apicid then Inr i else mycpu_loop xs apicid (Suc i))"

definition mycpu :: "bool \<Rightarrow> 8 word \<Rightarrow> 'z mach_scheme \<Rightarrow> nat result" where
  "mycpu fl_if apicid S =
     (if fl_if then panic ''mycpu called with interrupts enabled'' else mycpu_loop (cpus S) apicid 0)"

section \<open>Operations\<close>

definition initlock :: "lockid \<Rightarrow> string \<Rightarrow> 'z mach_scheme \<Rightarrow> 'z mach_scheme" where
  "initlock l nm S = upd_lock l (\<lambda>_. \<lparr>lk_locked = False, lk_name = nm, lk_cpu = None\<rparr>) S"

definition pushcli :: "nat \<Rightarrow> 'z mach_scheme \<Rightarrow> 'z mach_scheme" where
  "pushcli c S =
     (let eflags = c_if (cpus S ! c);
          S1 = upd_cpu c (\<lambda>x. x\<lparr>c_if := False\<rparr>) S;
          S2 = (if c_ncli (cpus S1 ! c) = 0 then upd_cpu c (\<lambda>x. x\<lparr>c_intena := eflags\<rparr>) S1 else S1)
      in upd_cpu c (\<lambda>x. x\<lparr>c_ncli := c_ncli x + 1\<rparr>) S2)"

definition popcli :: "nat \<Rightarrow> 'z mach_scheme \<Rightarrow> 'z mach_scheme result" where
  "popcli c S =
     (if c_if (cpus S ! c) then panic ''popcli - interruptible''
      else let S1 = upd_cpu c (\<lambda>x. x\<lparr>c_ncli := c_ncli x - 1\<rparr>) S
        in if c_ncli (cpus S1 ! c) < 0 then panic ''popcli''
           else if c_ncli (cpus S1 ! c) = 0 \<and> c_intena (cpus S1 ! c)
           then Inr (upd_cpu c (\<lambda>x. x\<lparr>c_if := True\<rparr>) S1) else Inr S1)"

definition holding :: "nat \<Rightarrow> lockid \<Rightarrow> 'z mach_scheme \<Rightarrow> (bool \<times> 'z mach_scheme) result" where
  "holding c l S =
     (let S1 = pushcli c S;
          r = (lk_locked (locks S1 l) \<and> lk_cpu (locks S1 l) = Some c)
      in bindE (popcli c S1) (\<lambda>S2. Inr (r, S2)))"

definition acquire :: "nat \<Rightarrow> lockid \<Rightarrow> 'z mach_scheme \<Rightarrow> 'z mach_scheme result" where
  "acquire c l S =
     bindE (holding c l (pushcli c S)) (\<lambda>(r, S1).
       if r then panic ''acquire''
       else if lk_locked (locks S1 l) then Inl Spin
       else Inr (upd_lock l (\<lambda>k. k\<lparr>lk_locked := True, lk_cpu := Some c\<rparr>) S1))"

definition release :: "nat \<Rightarrow> lockid \<Rightarrow> 'z mach_scheme \<Rightarrow> 'z mach_scheme result" where
  "release c l S =
     bindE (holding c l S) (\<lambda>(r, S1).
       if \<not> r then panic ''release''
       else popcli c (upd_lock l (\<lambda>k. k\<lparr>lk_cpu := None, lk_locked := False\<rparr>) S1))"

text \<open>
  \<open>getcallerpcs\<close>: at most ten return addresses, following the saved frame pointers in
  the memory \<open>mem\<close> while they point into the kernel; the rest of \<open>pcs[]\<close> is 0.
\<close>

fun callerpcs_loop :: "(32 word \<Rightarrow> 32 word) \<Rightarrow> nat \<Rightarrow> 32 word \<Rightarrow> 32 word list" where
  "callerpcs_loop mem 0 ebp = []"
| "callerpcs_loop mem (Suc n) ebp =
     (if ebp = 0 \<or> ebp < 0x80000000 \<or> ebp = 0xffffffff then replicate (Suc n) 0
      else mem (ebp + 4) # callerpcs_loop mem n (mem ebp))"

definition getcallerpcs :: "(32 word \<Rightarrow> 32 word) \<Rightarrow> 32 word \<Rightarrow> 32 word list" where
  "getcallerpcs mem v = callerpcs_loop mem 10 (v - 8)"

section \<open>Facts on the operations\<close>

lemma upd_cpu_sel [simp]:
  "locks (upd_cpu c f S) = locks S"
  "length (cpus (upd_cpu c f S)) = length (cpus S)"
  "c < length (cpus S) \<Longrightarrow> cpus (upd_cpu c f S) ! c = f (cpus S ! c)"
  "d \<noteq> c \<Longrightarrow> cpus (upd_cpu c f S) ! d = cpus S ! d"
  by (simp_all add: upd_cpu_def)

lemma upd_lock_sel [simp]:
  "cpus (upd_lock l f S) = cpus S"
  "locks (upd_lock l f S) = (locks S)(l := f (locks S l))"
  by (simp_all add: upd_lock_def)

lemma upd_cpu_upd_cpu [simp]: "upd_cpu c f (upd_cpu c g S) = upd_cpu c (\<lambda>x. f (g x)) S"
  by (cases "c < length (cpus S)") (simp_all add: upd_cpu_def list_update_beyond)

lemma upd_cpu_ident: "f (cpus S ! c) = cpus S ! c \<Longrightarrow> upd_cpu c f S = S"
  by (simp add: upd_cpu_def)

text \<open>
  A CPU is consistent when its nesting depth is not negative and interrupts are off while
  it is positive. All kernel code keeps this.
\<close>

definition cpu_ok :: "nat \<Rightarrow> 'z mach_scheme \<Rightarrow> bool" where
  "cpu_ok c S \<longleftrightarrow> c < length (cpus S) \<and> 0 \<le> c_ncli (cpus S ! c)
     \<and> (0 < c_ncli (cpus S ! c) \<longrightarrow> \<not> c_if (cpus S ! c))"

lemma pushcli_eq:
  assumes "c < length (cpus S)"
  shows "pushcli c S = upd_cpu c (\<lambda>x. x\<lparr>c_if := False, c_ncli := c_ncli x + 1,
      c_intena := (if c_ncli x = 0 then c_if x else c_intena x)\<rparr>) S"
  using assms by (cases "cpus S ! c") (simp add: pushcli_def Let_def upd_cpu_def)

lemma popcli_eq:
  assumes "c < length (cpus S)" "\<not> c_if (cpus S ! c)" "0 < c_ncli (cpus S ! c)"
  shows "popcli c S = Inr (upd_cpu c (\<lambda>x. x\<lparr>c_ncli := c_ncli x - 1,
      c_if := (c_ncli x = 1 \<and> c_intena x)\<rparr>) S)"
  using assms by (cases "cpus S ! c") (auto simp: popcli_def Let_def upd_cpu_def)

text \<open>With interrupts already off by an enclosing \<open>pushcli\<close>, \<open>holding\<close> changes nothing.\<close>

lemma holding_nested:
  assumes "cpu_ok c S" "0 < c_ncli (cpus S ! c)"
  shows "holding c l S = Inr (lk_locked (locks S l) \<and> lk_cpu (locks S l) = Some c, S)"
proof -
  let ?S1 = "pushcli c S"
  have c: "c < length (cpus S)" and off: "\<not> c_if (cpus S ! c)"
    using assms by (auto simp: cpu_ok_def)
  have S1: "?S1 = upd_cpu c (\<lambda>x. x\<lparr>c_if := False, c_ncli := c_ncli x + 1\<rparr>) S"
    using c assms(2) by (simp add: pushcli_eq upd_cpu_def)
  have "popcli c ?S1 = Inr S"
    using c off assms(2) by (subst popcli_eq) (auto simp: S1 intro!: upd_cpu_ident)
  then show ?thesis by (simp add: holding_def Let_def S1)
qed

lemma acquire_eq:
  assumes ok: "cpu_ok c S"
  shows "acquire c l S =
     (if lk_locked (locks S l) then (if lk_cpu (locks S l) = Some c then panic ''acquire'' else Inl Spin)
      else Inr (upd_lock l (\<lambda>k. k\<lparr>lk_locked := True, lk_cpu := Some c\<rparr>) (pushcli c S)))"
proof -
  have c: "c < length (cpus S)" using ok by (simp add: cpu_ok_def)
  have ok1: "cpu_ok c (pushcli c S)" "0 < c_ncli (cpus (pushcli c S) ! c)"
    using ok by (auto simp: cpu_ok_def pushcli_eq)
  have "locks (pushcli c S) = locks S" using c by (simp add: pushcli_eq)
  then show ?thesis by (simp add: acquire_def holding_nested [OF ok1])
qed

lemma release_eq:
  assumes ok: "cpu_ok c S" and pos: "0 < c_ncli (cpus S ! c)"
  shows "release c l S =
     (if lk_locked (locks S l) \<and> lk_cpu (locks S l) = Some c
      then Inr (upd_cpu c (\<lambda>x. x\<lparr>c_ncli := c_ncli x - 1, c_if := (c_ncli x = 1 \<and> c_intena x)\<rparr>)
        (upd_lock l (\<lambda>k. k\<lparr>lk_cpu := None, lk_locked := False\<rparr>) S))
      else panic ''release'')"
  using assms by (auto simp: release_def holding_nested cpu_ok_def popcli_eq)

text \<open>A free lock as \<open>initlock\<close> and \<open>release\<close> leave it.\<close>

definition lock_free :: "lockid \<Rightarrow> 'z mach_scheme \<Rightarrow> bool" where
  "lock_free l S \<longleftrightarrow> \<not> lk_locked (locks S l) \<and> lk_cpu (locks S l) = None"

definition lock_held :: "nat \<Rightarrow> lockid \<Rightarrow> 'z mach_scheme \<Rightarrow> bool" where
  "lock_held c l S \<longleftrightarrow> lk_locked (locks S l) \<and> lk_cpu (locks S l) = Some c"

lemma initlock_free: "lock_free l (initlock l nm S)"
  by (simp add: lock_free_def initlock_def)

section \<open>Fields of extended states that lock operations keep\<close>

lemma mach_more [frame_simps]:
  "mach.more (upd_cpu c f S) = mach.more S"
  "mach.more (upd_lock l g S) = mach.more S"
  by (simp_all add: upd_cpu_def upd_lock_def)

section \<open>Nesting of pushcli and popcli\<close>

fun pushclis :: "nat \<Rightarrow> nat \<Rightarrow> 'z mach_scheme \<Rightarrow> 'z mach_scheme" where
  "pushclis 0 c S = S"
| "pushclis (Suc n) c S = pushclis n c (pushcli c S)"

fun popclis :: "nat \<Rightarrow> nat \<Rightarrow> 'z mach_scheme \<Rightarrow> 'z mach_scheme result" where
  "popclis 0 c S = Inr S"
| "popclis (Suc n) c S = bindE (popcli c S) (popclis n c)"

lemma pushclis_eq:
  assumes "c < length (cpus S)" "0 \<le> c_ncli (cpus S ! c)"
  shows "pushclis n c S = (if n = 0 then S else upd_cpu c (\<lambda>x. x\<lparr>c_if := False, c_ncli := c_ncli x + int n,
      c_intena := (if c_ncli x = 0 then c_if x else c_intena x)\<rparr>) S)"
  using assms
proof (induction n arbitrary: S)
  case 0
  then show ?case by simp
next
  case (Suc n)
  then show ?case
    by (cases "cpus S ! c") (auto simp: pushcli_eq upd_cpu_def algebra_simps)
qed

lemma popclis_eq:
  assumes "c < length (cpus S)" "\<not> c_if (cpus S ! c)" "int n \<le> c_ncli (cpus S ! c)"
  shows "popclis n c S = Inr (if n = 0 then S else upd_cpu c (\<lambda>x. x\<lparr>c_ncli := c_ncli x - int n,
      c_if := (c_ncli x = int n \<and> c_intena x)\<rparr>) S)"
  using assms
proof (induction n arbitrary: S)
  case 0
  then show ?case by simp
next
  case (Suc n)
  let ?S1 = "upd_cpu c (\<lambda>x. x\<lparr>c_ncli := c_ncli x - 1, c_if := (c_ncli x = 1 \<and> c_intena x)\<rparr>) S"
  have pop: "popcli c S = Inr ?S1"
    using Suc.prems by (intro popcli_eq) auto
  show ?case
  proof (cases "n = 0")
    case True
    with pop show ?thesis by simp
  next
    case False
    then have "popclis n c ?S1 = Inr (if n = 0 then ?S1 else upd_cpu c (\<lambda>x. x\<lparr>c_ncli := c_ncli x - int n,
      c_if := (c_ncli x = int n \<and> c_intena x)\<rparr>) ?S1)"
      using Suc.prems by (intro Suc.IH) auto
    with pop False Suc.prems(1) show ?thesis
      by (cases "cpus S ! c") (auto simp: upd_cpu_def algebra_simps)
  qed
qed

section \<open>Mutual exclusion for every interleaving\<close>

text \<open>
  One lock and any number of CPUs. \<open>acquire\<close> is three accesses after its
  \<open>pushcli\<close>: the test \<open>holding\<close> (from \<open>LIdle\<close>), one \<open>xchg\<close> per turn of the loop
  (at \<open>LSpin\<close>), the write of \<open>lk->cpu\<close> (at \<open>LGot\<close>). \<open>release\<close> is the test
  \<open>holding\<close> and the write of \<open>lk->cpu\<close> (from \<open>LCrit\<close>) and the store of 0 to
  \<open>lk->locked\<close> (at \<open>LRel\<close>). \<open>LPanic\<close> is the panic of either test.
\<close>

datatype lpc = LIdle | LSpin | LGot | LCrit | LRel | LPanic

record lstate =
  ls_locked :: bool
  ls_cpu :: "nat option"
  ls_pc :: "nat \<Rightarrow> lpc"

definition ls_init :: lstate where
  "ls_init = \<lparr>ls_locked = False, ls_cpu = None, ls_pc = (\<lambda>_. LIdle)\<rparr>"

inductive lock_step :: "lstate \<Rightarrow> lstate \<Rightarrow> bool" where
  acq_panic: "ls_pc s c = LIdle \<Longrightarrow> ls_locked s \<and> ls_cpu s = Some c \<Longrightarrow>
     lock_step s (s\<lparr>ls_pc := (ls_pc s)(c := LPanic)\<rparr>)"
| acq_test: "ls_pc s c = LIdle \<Longrightarrow> \<not> (ls_locked s \<and> ls_cpu s = Some c) \<Longrightarrow>
     lock_step s (s\<lparr>ls_pc := (ls_pc s)(c := LSpin)\<rparr>)"
| xchg_fail: "ls_pc s c = LSpin \<Longrightarrow> ls_locked s \<Longrightarrow> lock_step s (s\<lparr>ls_locked := True\<rparr>)"
| xchg_ok: "ls_pc s c = LSpin \<Longrightarrow> \<not> ls_locked s \<Longrightarrow>
     lock_step s (s\<lparr>ls_locked := True, ls_pc := (ls_pc s)(c := LGot)\<rparr>)"
| set_cpu: "ls_pc s c = LGot \<Longrightarrow>
     lock_step s (s\<lparr>ls_cpu := Some c, ls_pc := (ls_pc s)(c := LCrit)\<rparr>)"
| rel_panic: "ls_pc s c = LCrit \<Longrightarrow> \<not> (ls_locked s \<and> ls_cpu s = Some c) \<Longrightarrow>
     lock_step s (s\<lparr>ls_pc := (ls_pc s)(c := LPanic)\<rparr>)"
| rel_test: "ls_pc s c = LCrit \<Longrightarrow> ls_locked s \<and> ls_cpu s = Some c \<Longrightarrow>
     lock_step s (s\<lparr>ls_cpu := None, ls_pc := (ls_pc s)(c := LRel)\<rparr>)"
| rel_store: "ls_pc s c = LRel \<Longrightarrow>
     lock_step s (s\<lparr>ls_locked := False, ls_pc := (ls_pc s)(c := LIdle)\<rparr>)"

inductive lock_reach :: "lstate \<Rightarrow> bool" where
  lr_init: "lock_reach ls_init"
| lr_step: "lock_reach s \<Longrightarrow> lock_step s t \<Longrightarrow> lock_reach t"

definition ls_owns :: "lstate \<Rightarrow> nat \<Rightarrow> bool" where
  "ls_owns s c \<longleftrightarrow> ls_pc s c \<in> {LGot, LCrit, LRel}"

text \<open>
  The invariant ties the two fields of the lock to the program counters: it is locked
  exactly while some CPU owns it, the owner is unique, and \<open>lk->cpu\<close> names the owner
  between the two writes of it.
\<close>

definition lock_inv :: "lstate \<Rightarrow> bool" where
  "lock_inv s \<longleftrightarrow> (ls_locked s \<longleftrightarrow> (\<exists>c. ls_owns s c))
     \<and> (\<forall>c d. ls_owns s c \<longrightarrow> ls_owns s d \<longrightarrow> c = d)
     \<and> (\<forall>c. ls_cpu s = Some c \<longleftrightarrow> ls_pc s c = LCrit) \<and> (\<forall>c. ls_pc s c \<noteq> LPanic)"

lemma lock_inv_init: "lock_inv ls_init"
  by (simp add: lock_inv_def ls_init_def ls_owns_def)

lemma lock_inv_step: "lock_step s t \<Longrightarrow> lock_inv s \<Longrightarrow> lock_inv t"
proof (induction rule: lock_step.induct)
  case (xchg_fail s c)
  then show ?case by (auto simp: lock_inv_def ls_owns_def)
next
  case (xchg_ok s c)
  then have "\<And>d. \<not> ls_owns s d" "ls_cpu s = None \<or> (\<exists>d. ls_cpu s = Some d)"
    by (auto simp: lock_inv_def)
  moreover have "ls_cpu s \<noteq> Some d" for d
    using xchg_ok by (auto simp: lock_inv_def ls_owns_def)
  ultimately show ?case using xchg_ok by (auto simp: lock_inv_def ls_owns_def)
next
  case (rel_store s c)
  then have "ls_owns s d \<Longrightarrow> d = c" for d by (auto simp: lock_inv_def ls_owns_def)
  then have "ls_pc s d \<in> {LIdle, LSpin}" if "d \<noteq> c" for d
    using that rel_store by (cases "ls_pc s d") (auto simp: lock_inv_def ls_owns_def)
  then show ?case using rel_store by (auto simp: lock_inv_def ls_owns_def)
qed (auto simp: lock_inv_def ls_owns_def; metis lpc.distinct)+

lemma lock_reach_inv: "lock_reach s \<Longrightarrow> lock_inv s"
  by (induction rule: lock_reach.induct) (auto intro: lock_inv_init lock_inv_step)


lemma ls_trace:
  "lock_reach \<lparr>ls_locked = True, ls_cpu = Some 0, ls_pc = (\<lambda>_. LIdle)(0 := LCrit)\<rparr>"
proof -
  have "lock_reach (ls_init\<lparr>ls_pc := (ls_pc ls_init)(0 := LSpin)\<rparr>)"
    by (rule lr_step [OF lr_init acq_test]) (simp_all add: ls_init_def)
  from lr_step [OF this xchg_ok [of _ 0]] have "lock_reach \<lparr>ls_locked = True, ls_cpu = None, ls_pc = (\<lambda>_. LIdle)(0 := LGot)\<rparr>"
    by (simp add: ls_init_def)
  from lr_step [OF this set_cpu [of _ 0]] show ?thesis by simp
qed


text \<open>
  C17. Nesting of \<open>pushcli\<close> and \<open>popcli\<close>: after \<open>n\<close> times \<open>pushcli\<close> interrupts are off and stay
  off through fewer than \<open>n\<close> times \<open>popcli\<close>; the last one restores the interrupt flag
  as it was before the first, and the depth.
\<close>

theorem cli_nesting:
  assumes "c < length (cpus S)" "c_ncli (cpus S ! c) = 0" "m \<le> n"
  shows "\<exists>S'. popclis m c (pushclis n c S) = Inr S' \<and> c_ncli (cpus S' ! c) = int n - int m
    \<and> c_if (cpus S' ! c) = (m = n \<and> c_if (cpus S ! c)) \<and> locks S' = locks S"
proof (cases "n = 0")
  case True
  then show ?thesis using assms by simp
next
  case False
  let ?S1 = "pushclis n c S"
  have S1: "?S1 = upd_cpu c (\<lambda>x. x\<lparr>c_if := False, c_ncli := c_ncli x + int n,
      c_intena := (if c_ncli x = 0 then c_if x else c_intena x)\<rparr>) S" using pushclis_eq [of c S n] assms False by simp
  have "popclis m c ?S1 = Inr (if m = 0 then ?S1 else upd_cpu c (\<lambda>x. x\<lparr>c_ncli := c_ncli x - int m,
      c_if := (c_ncli x = int m \<and> c_intena x)\<rparr>) ?S1)"
    using assms by (intro popclis_eq) (simp_all add: S1)
  then show ?thesis using assms False by (auto simp: S1)
qed

definition demo_mach :: mach where
  "demo_mach = \<lparr>cpus = [\<lparr>c_apicid = 0, c_ncli = 0, c_intena = False, c_if = True, c_proc = None, c_queue = None, c_frame = None, c_cr3 = 0, c_esp0 = 0\<rparr>],
     locks = (\<lambda>_. \<lparr>lk_locked = False, lk_name = [], lk_cpu = None\<rparr>)\<rparr>"

theorem cli_nesting_witness:
  "\<exists>S'. popclis 3 0 (pushclis 3 0 demo_mach) = Inr S' \<and> c_ncli (cpus S' ! 0) = 0 \<and> c_if (cpus S' ! 0)"
  using cli_nesting [of 0 demo_mach 3 3] by (auto simp: demo_mach_def)

end
