(* ===== verification/Proc.thy ===== *)
theory Proc
  imports Spinlock
begin

text \<open>
  The process table and the level queues: the data of \<^verbatim>\<open>proc.h\<close> and of the
  \<open>ptable\<close> of \<^verbatim>\<open>proc.c\<close>, and \<open>pinit\<close>, \<open>is_active_set\<close>.

  Pointers. A \<open>struct proc *\<close> is the index of its slot in \<open>ptable.proc[]\<close>, a
  \<open>struct level_queue *\<close> the index of its element in the contiguous array
  \<open>ptable.level[2][RSDL_LEVELS]\<close>, so that \<open>&level[s][k]\<close> is \<open>s * RSDL_LEVELS + k\<close>
  and the address comparisons of \<open>is_active_set\<close> are comparisons of indices. Pointers
  that may be NULL are options. \<open>struct file *\<close> and \<open>struct inode *\<close> are indices too.
  A kernel access through NULL is a page fault in the kernel, on which \<open>trap()\<close> panics
  with \<open>''trap''\<close>.
\<close>

section \<open>Processes\<close>

datatype procstate = UNUSED | EMBRYO | SLEEPING | RUNNABLE | RUNNING | ZOMBIE

text \<open>
  Sleep channels are addresses; the ones the code uses are the address of a process
  (\<open>wait\<close>), of \<open>ticks\<close>, and of other kernel objects.
\<close>

datatype chan = Chan_proc nat | Chan_ticks | Chan_addr nat

text \<open>
  The registers of a trap frame that kernel code reads or writes (the others are only
  saved and restored as a whole).
\<close>

record trapframe =
  tf_eax :: "32 word"
  tf_trapno :: "32 word"
  tf_err :: "32 word"
  tf_eip :: "32 word"
  tf_cs :: "16 word"
  tf_ds :: "16 word"
  tf_es :: "16 word"
  tf_ss :: "16 word"
  tf_eflags :: "32 word"
  tf_esp :: "32 word"

definition tf_zero :: trapframe where
  "tf_zero = \<lparr>tf_eax = 0, tf_trapno = 0, tf_err = 0, tf_eip = 0, tf_cs = 0, tf_ds = 0, tf_es = 0,
     tf_ss = 0, tf_eflags = 0, tf_esp = 0\<rparr>"

text \<open>
  A saved kernel context, as the place where the thread goes on when it is switched to:
  \<open>forkret\<close> for a new process, otherwise the return of \<open>sched()\<close> with its local
  variable \<open>intena\<close>, in the function that called it.
\<close>

datatype sched_caller = From_yield | From_sleep lockid | From_exit

datatype kctx = Ctx_none | Ctx_forkret | Ctx_sched bool sched_caller

record proc =
  p_sz :: "32 word"
  p_pgdir :: "32 word"
  p_kstack :: "32 word"
  p_state :: procstate
  p_pid :: int
  p_parent :: "nat option"
  p_tf :: trapframe
  p_context :: kctx
  p_chan :: "chan option"
  p_killed :: bool
  p_ofile :: "nat option list"
  p_cwd :: "nat option"
  p_name :: string
  p_ticks_left :: int
  p_default_level :: int

definition proc_zero :: proc where
  "proc_zero = \<lparr>p_sz = 0, p_pgdir = 0, p_kstack = 0, p_state = UNUSED, p_pid = 0, p_parent = None,
     p_tf = tf_zero, p_context = Ctx_none, p_chan = None, p_killed = False,
     p_ofile = replicate NOFILE None, p_cwd = None, p_name = [], p_ticks_left = 0, p_default_level = 0\<rparr>"

section \<open>Level queues\<close>

record level_queue =
  lq_numproc :: nat
  lq_ticks_left :: int
  lq_proc :: "nat option list"

text \<open>The processes in a level, first to last.\<close>

definition lq_list :: "level_queue \<Rightarrow> nat option list" where
  "lq_list q = take (lq_numproc q) (lq_proc q)"

section \<open>Kernel state\<close>

text \<open>
  \<open>k_out\<close> is the console output so far, \<open>k_kpgdir\<close> the kernel page directory of \<^verbatim>\<open>vm.c\<close>, \<open>k_first\<close> the static variable \<open>first\<close> of
  \<open>forkret\<close>, \<open>k_env\<close> the state of the parts below the process table: physical
  memory with its page tables, and the file system.
\<close>

record 'e kstate = mach +
  k_procs :: "proc list"
  k_active :: nat
  k_expired :: nat
  k_levels :: "level_queue list"
  k_initproc :: "nat option"
  k_nextpid :: int
  k_ticks :: "32 word"
  k_schedlog_active :: bool
  k_schedlog_lasttick :: int
  k_out :: string
  k_first :: bool
  k_kpgdir :: "32 word"
  k_env :: 'e

text \<open>
  The operations of the lower parts that the process code calls, on their state \<open>'e\<close>:
  \<^verbatim>\<open>kalloc.c\<close>, \<^verbatim>\<open>vm.c\<close>, \<^verbatim>\<open>file.c\<close>, \<^verbatim>\<open>fs.c\<close>, \<^verbatim>\<open>log.c\<close>.
\<close>

record 'e kops =
  op_kalloc :: "'e \<Rightarrow> 32 word \<times> 'e"
  op_kfree :: "32 word \<Rightarrow> 'e \<Rightarrow> 'e result"
  op_setupkvm :: "'e \<Rightarrow> (32 word \<times> 'e) result"
  op_inituvm :: "32 word \<Rightarrow> 'e \<Rightarrow> 'e result"
  op_allocuvm :: "32 word \<Rightarrow> 32 word \<Rightarrow> 32 word \<Rightarrow> 'e \<Rightarrow> (32 word \<times> 'e) result"
  op_deallocuvm :: "32 word \<Rightarrow> 32 word \<Rightarrow> 32 word \<Rightarrow> 'e \<Rightarrow> (32 word \<times> 'e) result"
  op_copyuvm :: "32 word \<Rightarrow> 32 word \<Rightarrow> 'e \<Rightarrow> (32 word \<times> 'e) result"
  op_freevm :: "32 word \<Rightarrow> 'e \<Rightarrow> 'e result"
  op_filedup :: "nat \<Rightarrow> 'e \<Rightarrow> 'e result"
  op_fileclose :: "nat \<Rightarrow> 'e \<Rightarrow> 'e result"
  op_idup :: "nat \<Rightarrow> 'e \<Rightarrow> 'e result"
  op_iput :: "nat \<Rightarrow> 'e \<Rightarrow> 'e result"
  op_begin_op :: "'e \<Rightarrow> 'e result"
  op_end_op :: "'e \<Rightarrow> 'e result"
  op_namei :: "string \<Rightarrow> 'e \<Rightarrow> (nat option \<times> 'e) result"
  op_fsinit :: "'e \<Rightarrow> 'e result"

abbreviation proc_at :: "('e, 'z) kstate_scheme \<Rightarrow> nat \<Rightarrow> proc" where
  "proc_at S p \<equiv> k_procs S ! p"

abbreviation level_at :: "('e, 'z) kstate_scheme \<Rightarrow> nat \<Rightarrow> level_queue" where
  "level_at S q \<equiv> k_levels S ! q"

definition upd_proc :: "nat \<Rightarrow> (proc \<Rightarrow> proc) \<Rightarrow> ('e, 'z) kstate_scheme \<Rightarrow> ('e, 'z) kstate_scheme" where
  "upd_proc p f S = S\<lparr>k_procs := (k_procs S)[p := f (proc_at S p)]\<rparr>"

definition upd_level :: "nat \<Rightarrow> (level_queue \<Rightarrow> level_queue) \<Rightarrow> ('e, 'z) kstate_scheme \<Rightarrow> ('e, 'z) kstate_scheme" where
  "upd_level q f S = S\<lparr>k_levels := (k_levels S)[q := f (level_at S q)]\<rparr>"

definition is_active_set :: "('e, 'z) kstate_scheme \<Rightarrow> nat \<Rightarrow> bool" where
  "is_active_set S q \<longleftrightarrow> k_active S \<le> q \<and> q < k_active S + RSDL_LEVELS"

definition is_expired_set :: "('e, 'z) kstate_scheme \<Rightarrow> nat \<Rightarrow> bool" where
  "is_expired_set S q \<longleftrightarrow> \<not> is_active_set S q"

text \<open>
  The kernel's data segment before \<open>main()\<close>: everything zero, and \<open>ncpu\<close> CPUs found by
  \<open>mpinit\<close>; \<open>nextpid\<close> and \<open>first\<close> have initialisers.
\<close>

definition kstate_zero :: "8 word list \<Rightarrow> 'e \<Rightarrow> 'e kstate" where
  "kstate_zero ids e = \<lparr>
     cpus = map (\<lambda>a. \<lparr>c_apicid = a, c_ncli = 0, c_intena = False, c_if = False, c_proc = None,
       c_queue = None, c_frame = None, c_cr3 = 0, c_esp0 = 0\<rparr>) ids,
     locks = (\<lambda>_. \<lparr>lk_locked = False, lk_name = [], lk_cpu = None\<rparr>),
     k_procs = replicate NPROC proc_zero, k_active = 0, k_expired = 0,
     k_levels = replicate (2 * RSDL_LEVELS) \<lparr>lq_numproc = 0, lq_ticks_left = 0, lq_proc = replicate NPROC None\<rparr>,
     k_initproc = None, k_nextpid = 1, k_ticks = 0, k_schedlog_active = False, k_schedlog_lasttick = 0,
     k_out = [], k_first = True, k_kpgdir = 0, k_env = e\<rparr>"

text \<open>\<open>pinit\<close>, on CPU \<open>c\<close>: the inner loop body, then both loops over the contiguous levels.\<close>

definition pinit_level :: "nat \<Rightarrow> nat \<Rightarrow> ('e, 'z) kstate_scheme \<Rightarrow> ('e, 'z) kstate_scheme result" where
  "pinit_level c q S =
     bindE (acquire c (LevelLock q) (initlock (LevelLock q) ''level queue'' S)) (\<lambda>S1.
     release c (LevelLock q) (upd_level q (\<lambda>_. \<lparr>lq_numproc = 0, lq_ticks_left = RSDL_LEVEL_QUANTUM,
       lq_proc = replicate NPROC None\<rparr>) S1))"

fun pinit_levels :: "nat \<Rightarrow> nat list \<Rightarrow> ('e, 'z) kstate_scheme \<Rightarrow> ('e, 'z) kstate_scheme result" where
  "pinit_levels c [] S = Inr S"
| "pinit_levels c (q # qs) S = bindE (pinit_level c q S) (pinit_levels c qs)"

definition pinit :: "nat \<Rightarrow> ('e, 'z) kstate_scheme \<Rightarrow> ('e, 'z) kstate_scheme result" where
  "pinit c S =
     bindE (acquire c PtableLock (initlock PtableLock ''ptable'' S)) (\<lambda>S1.
     bindE (pinit_levels c [0..<2 * RSDL_LEVELS] S1) (\<lambda>S2.
     release c PtableLock (S2\<lparr>k_active := 0, k_expired := RSDL_LEVELS\<rparr>)))"

section \<open>Frame facts\<close>

lemma upd_proc_sel [simp]:
  "length (k_procs (upd_proc p f S)) = length (k_procs S)"
  "p < length (k_procs S) \<Longrightarrow> proc_at (upd_proc p f S) p = f (proc_at S p)"
  "r \<noteq> p \<Longrightarrow> proc_at (upd_proc p f S) r = proc_at S r"
  "cpus (upd_proc p f S) = cpus S" "locks (upd_proc p f S) = locks S"
  "k_active (upd_proc p f S) = k_active S" "k_expired (upd_proc p f S) = k_expired S"
  "k_levels (upd_proc p f S) = k_levels S" "k_initproc (upd_proc p f S) = k_initproc S"
  "k_nextpid (upd_proc p f S) = k_nextpid S" "k_ticks (upd_proc p f S) = k_ticks S"
  "k_schedlog_active (upd_proc p f S) = k_schedlog_active S"
  "k_schedlog_lasttick (upd_proc p f S) = k_schedlog_lasttick S"
  "k_env (upd_proc p f S) = k_env S" "k_kpgdir (upd_proc p f S) = k_kpgdir S"
  "k_first (upd_proc p f S) = k_first S" "k_out (upd_proc p f S) = k_out S"
  by (simp_all add: upd_proc_def)

lemma upd_level_sel [simp]:
  "length (k_levels (upd_level q f S)) = length (k_levels S)"
  "q < length (k_levels S) \<Longrightarrow> level_at (upd_level q f S) q = f (level_at S q)"
  "r \<noteq> q \<Longrightarrow> level_at (upd_level q f S) r = level_at S r"
  "cpus (upd_level q f S) = cpus S" "locks (upd_level q f S) = locks S"
  "k_active (upd_level q f S) = k_active S" "k_expired (upd_level q f S) = k_expired S"
  "k_procs (upd_level q f S) = k_procs S" "k_initproc (upd_level q f S) = k_initproc S"
  "k_nextpid (upd_level q f S) = k_nextpid S" "k_ticks (upd_level q f S) = k_ticks S"
  "k_schedlog_active (upd_level q f S) = k_schedlog_active S"
  "k_schedlog_lasttick (upd_level q f S) = k_schedlog_lasttick S"
  "k_env (upd_level q f S) = k_env S" "k_kpgdir (upd_level q f S) = k_kpgdir S"
  "k_first (upd_level q f S) = k_first S" "k_out (upd_level q f S) = k_out S"
  by (simp_all add: upd_level_def)

lemma kstate_frame_lock [simp]:
  "k_procs (upd_cpu c f S) = k_procs S" "k_procs (upd_lock l g S) = k_procs S"
  "k_active (upd_cpu c f S) = k_active S" "k_active (upd_lock l g S) = k_active S"
  "k_expired (upd_cpu c f S) = k_expired S" "k_expired (upd_lock l g S) = k_expired S"
  "k_levels (upd_cpu c f S) = k_levels S" "k_levels (upd_lock l g S) = k_levels S"
  "k_initproc (upd_cpu c f S) = k_initproc S" "k_initproc (upd_lock l g S) = k_initproc S"
  "k_nextpid (upd_cpu c f S) = k_nextpid S" "k_nextpid (upd_lock l g S) = k_nextpid S"
  "k_ticks (upd_cpu c f S) = k_ticks S" "k_ticks (upd_lock l g S) = k_ticks S"
  "k_schedlog_active (upd_cpu c f S) = k_schedlog_active S"
  "k_schedlog_active (upd_lock l g S) = k_schedlog_active S"
  "k_schedlog_lasttick (upd_cpu c f S) = k_schedlog_lasttick S"
  "k_schedlog_lasttick (upd_lock l g S) = k_schedlog_lasttick S"
  "k_env (upd_cpu c f S) = k_env S" "k_env (upd_lock l g S) = k_env S"
  "k_kpgdir (upd_cpu c f S) = k_kpgdir S" "k_kpgdir (upd_lock l g S) = k_kpgdir S"
  "k_first (upd_cpu c f S) = k_first S" "k_first (upd_lock l g S) = k_first S"
  "k_out (upd_cpu c f S) = k_out S" "k_out (upd_lock l g S) = k_out S"
  by (simp_all add: upd_cpu_def upd_lock_def)

end
