(* ===== verification/LevelQueue.thy ===== *)
theory LevelQueue
  imports Proc
begin

text \<open>
  The level queues of the scheduler (\<open>enqueue_proc\<close> to \<open>find_available_queue\<close> of
  \<^verbatim>\<open>proc.c\<close>).

  A level is a fixed array with a counter; what the scheduler relies on is that it behaves
  as a bounded FIFO list from which any element may be taken out. That contract is the
  locale \<open>fifo\<close>; it is interpreted on the array operations of the code.
\<close>

section \<open>The array operations\<close>

text \<open>\<open>q->proc[q->numproc++] = p\<close>\<close>

definition lq_push :: "nat option \<Rightarrow> level_queue \<Rightarrow> level_queue" where
  "lq_push p q = q\<lparr>lq_proc := (lq_proc q)[lq_numproc q := p], lq_numproc := lq_numproc q + 1\<rparr>"

text \<open>The search loop of \<open>unqueue_proc_full\<close>, from index \<open>i\<close> with \<open>n\<close> slots to look at.\<close>

fun lq_find :: "nat option list \<Rightarrow> nat option \<Rightarrow> nat \<Rightarrow> nat \<Rightarrow> nat option" where
  "lq_find xs p i 0 = None"
| "lq_find xs p i (Suc n) = (if xs ! i = p then Some i else lq_find xs p (Suc i) n)"

text \<open>The loop that moves the succeeding processes up, from index \<open>j\<close>, \<open>n\<close> times.\<close>

fun lq_shift :: "nat option list \<Rightarrow> nat \<Rightarrow> nat \<Rightarrow> nat option list" where
  "lq_shift xs j 0 = xs"
| "lq_shift xs j (Suc n) = lq_shift (xs[j - 1 := xs ! j]) (Suc j) n"

definition lq_remove_at :: "nat \<Rightarrow> level_queue \<Rightarrow> level_queue" where
  "lq_remove_at i q = q\<lparr>lq_proc := lq_shift (lq_proc q) (i + 1) (lq_numproc q - (i + 1)),
     lq_numproc := lq_numproc q - 1\<rparr>"

section \<open>The operations of the code\<close>

definition enqueue_proc :: "nat \<Rightarrow> nat option \<Rightarrow> nat option \<Rightarrow> ('e, 'z) kstate_scheme \<Rightarrow> ('e, 'z) kstate_scheme result" where
  "enqueue_proc c p q S =
     (if p = None then panic ''enqueue of NULL proc node''
      else case q of None \<Rightarrow> panic ''enqueue in NULL queue''
      | Some a \<Rightarrow>
          bindE (acquire c (LevelLock a) S) (\<lambda>S1.
          if lq_numproc (level_at S1 a) \<ge> NPROC then panic ''enqueue in full level''
          else release c (LevelLock a) (upd_level a (lq_push p) S1)))"

definition unqueue_proc_full ::
  "nat \<Rightarrow> nat option \<Rightarrow> nat option \<Rightarrow> bool \<Rightarrow> ('e, 'z) kstate_scheme \<Rightarrow> (int \<times> ('e, 'z) kstate_scheme) result" where
  "unqueue_proc_full c p q isTry S =
     (case q of None \<Rightarrow> panic ''unqueue in NULL queue''
      | Some a \<Rightarrow>
          if lq_numproc (level_at S a) = 0
          then (if \<not> isTry then panic ''unqueue on empty level'' else Inr (-1, S))
          else bindE (acquire c (LevelLock a) S) (\<lambda>S1.
            case lq_find (lq_proc (level_at S1 a)) p 0 (lq_numproc (level_at S1 a)) of
              Some i \<Rightarrow> bindE (release c (LevelLock a) (upd_level a (lq_remove_at i) S1)) (\<lambda>S2. Inr (int i, S2))
            | None \<Rightarrow> bindE (release c (LevelLock a) S1) (\<lambda>S2.
                if \<not> isTry then panic ''unqueue of node not belonging to level'' else Inr (-1, S2))))"

definition unqueue_proc :: "nat \<Rightarrow> nat option \<Rightarrow> nat option \<Rightarrow> ('e, 'z) kstate_scheme \<Rightarrow> (int \<times> ('e, 'z) kstate_scheme) result" where
  "unqueue_proc c p q S = unqueue_proc_full c p q False S"

definition try_unqueue_proc :: "nat \<Rightarrow> nat option \<Rightarrow> nat option \<Rightarrow> ('e, 'z) kstate_scheme \<Rightarrow> (int \<times> ('e, 'z) kstate_scheme) result" where
  "try_unqueue_proc c p q S = unqueue_proc_full c p q True S"

text \<open>
  The two nested loops of \<open>remove_proc_from_levels\<close> visit \<open>level[0][0]\<close> to
  \<open>level[1][RSDL_LEVELS-1]\<close> in the order of their addresses and stop at the first
  level that held the process.
\<close>

fun remove_from :: "nat \<Rightarrow> nat option \<Rightarrow> nat list \<Rightarrow> ('e, 'z) kstate_scheme \<Rightarrow> (int \<times> ('e, 'z) kstate_scheme) result" where
  "remove_from c p [] S = Inr (-1, S)"
| "remove_from c p (q # qs) S =
     bindE (try_unqueue_proc c p (Some q) S) (\<lambda>(r, S1).
     if r \<noteq> -1 then Inr (0, S1) else remove_from c p qs S1)"

definition remove_proc_from_levels :: "nat \<Rightarrow> nat option \<Rightarrow> ('e, 'z) kstate_scheme \<Rightarrow> (int \<times> ('e, 'z) kstate_scheme) result" where
  "remove_proc_from_levels c p S = remove_from c p [0..<2 * RSDL_LEVELS] S"

text \<open>\<open>next_level\<close>: the loop from level \<open>k\<close> with \<open>n\<close> levels left, then the function.\<close>

fun next_level_loop :: "('e, 'z) kstate_scheme \<Rightarrow> nat \<Rightarrow> nat \<Rightarrow> nat \<Rightarrow> int" where
  "next_level_loop S lset k 0 = -1"
| "next_level_loop S lset k (Suc n) =
     (if lq_ticks_left (level_at S (lset + k)) > 0 \<and> lq_numproc (level_at S (lset + k)) < NPROC then int k
      else next_level_loop S lset (Suc k) n)"

definition next_level :: "int \<Rightarrow> bool \<Rightarrow> ('e, 'z) kstate_scheme \<Rightarrow> int" where
  "next_level start use_expired S =
     (let lset = (if use_expired then k_expired S else k_active S)
      in if start < 0 then -1 else next_level_loop S lset (nat start) (RSDL_LEVELS - nat start))"

definition next_active_level :: "int \<Rightarrow> ('e, 'z) kstate_scheme \<Rightarrow> int" where
  "next_active_level start S = next_level start False S"

definition next_expired_level :: "int \<Rightarrow> ('e, 'z) kstate_scheme \<Rightarrow> int" where
  "next_expired_level start S = next_level start True S"

definition find_available_queue :: "int \<Rightarrow> int \<Rightarrow> ('e, 'z) kstate_scheme \<Rightarrow> nat result" where
  "find_available_queue active_start expired_start S =
     (let level = next_active_level active_start S
      in if level = -1
         then let level' = next_expired_level expired_start S
           in if level' = -1 then panic ''No free level in expired and active set, too many procs''
              else Inr (k_expired S + nat level')
         else Inr (k_active S + nat level))"

section \<open>Arrays as lists\<close>

definition lq_wf :: "level_queue \<Rightarrow> bool" where
  "lq_wf q \<longleftrightarrow> length (lq_proc q) = NPROC \<and> lq_numproc q \<le> NPROC"

lemma lq_list_length [simp]: "lq_wf q \<Longrightarrow> length (lq_list q) = lq_numproc q"
  by (simp add: lq_list_def lq_wf_def)

lemma lq_list_cap: "lq_wf q \<Longrightarrow> lq_numproc q \<le> NPROC"
  by (simp add: lq_wf_def)

lemma lq_push_wf: "lq_wf q \<Longrightarrow> lq_numproc q < NPROC \<Longrightarrow> lq_wf (lq_push p q)"
  by (simp add: lq_wf_def lq_push_def)

lemma lq_push_list:
  assumes "lq_wf q" "lq_numproc q < NPROC"
  shows "lq_list (lq_push p q) = lq_list q @ [p]"
  using assms by (simp add: lq_list_def lq_push_def lq_wf_def take_Suc_conv_app_nth)

lemma lq_shift_length [simp]: "length (lq_shift xs j n) = length xs"
  by (induction n arbitrary: xs j) simp_all

lemma lq_shift_list:
  assumes "0 < j" "j + n \<le> length xs"
  shows "take (j + n - 1) (lq_shift xs j n) = take (j - 1) xs @ take n (drop j xs)"
  using assms
proof (induction n arbitrary: xs j)
  case 0
  then show ?case by simp
next
  case (Suc n)
  let ?ys = "xs[j - 1 := xs ! j]"
  have "take (j + Suc n - 1) (lq_shift xs j (Suc n)) = take (Suc j - 1) ?ys @ take n (drop (Suc j) ?ys)"
    using Suc.IH [of "Suc j" ?ys] Suc.prems by simp
  also have "take (Suc j - 1) ?ys = take (j - 1) xs @ [xs ! j]"
    using Suc.prems by (cases j) (simp_all add: take_Suc_conv_app_nth)
  also have "take n (drop (Suc j) ?ys) = take n (drop (Suc j) xs)"
    using Suc.prems by simp
  also have "(take (j - 1) xs @ [xs ! j]) @ take n (drop (Suc j) xs) = take (j - 1) xs @ take (Suc n) (drop j xs)"
    using Suc.prems by (simp add: Cons_nth_drop_Suc [symmetric])
  finally show ?case .
qed

lemma lq_remove_at_wf: "lq_wf q \<Longrightarrow> lq_wf (lq_remove_at i q)"
  by (auto simp: lq_wf_def lq_remove_at_def)

lemma lq_remove_at_list:
  assumes "lq_wf q" "i < lq_numproc q"
  shows "lq_list (lq_remove_at i q) = take i (lq_list q) @ drop (Suc i) (lq_list q)"
proof -
  have "lq_list (lq_remove_at i q) = take (i + 1 + (lq_numproc q - (i + 1)) - 1)
      (lq_shift (lq_proc q) (i + 1) (lq_numproc q - (i + 1)))"
    using assms by (simp add: lq_list_def lq_remove_at_def)
  also have "\<dots> = take i (lq_proc q) @ take (lq_numproc q - (i + 1)) (drop (i + 1) (lq_proc q))"
    using assms by (subst lq_shift_list) (auto simp: lq_wf_def)
  also have "\<dots> = take i (lq_list q) @ drop (Suc i) (lq_list q)"
    using assms by (simp add: lq_list_def drop_take min_def)
  finally show ?thesis .
qed

lemma lq_find_SomeD:
  assumes "lq_find xs p i n = Some j"
  shows "i \<le> j \<and> j < i + n \<and> xs ! j = p \<and> (\<forall>m. i \<le> m \<and> m < j \<longrightarrow> xs ! m \<noteq> p)"
  using assms
proof (induction n arbitrary: i)
  case (Suc n)
  show ?case
  proof (cases "xs ! i = p")
    case False
    with Suc.prems have "lq_find xs p (Suc i) n = Some j" by simp
    from Suc.IH [OF this] False show ?thesis by (metis Suc_leD Suc_leI add_Suc_shift le_neq_implies_less)
  qed (use Suc.prems in auto)
qed simp

lemma lq_find_NoneD: "lq_find xs p i n = None \<Longrightarrow> i \<le> j \<Longrightarrow> j < i + n \<Longrightarrow> xs ! j \<noteq> p"
proof (induction n arbitrary: i)
  case (Suc n)
  then show ?case by (cases "j = i") (auto split: if_splits)
qed simp

section \<open>The contract of a level\<close>

lemma remove1_first:
  assumes "i < length xs" "xs ! i = p" "\<forall>m < i. xs ! m \<noteq> p"
  shows "take i xs @ drop (Suc i) xs = remove1 p xs"
proof -
  have "xs = take i xs @ p # drop (Suc i) xs"
    using assms(1,2) id_take_nth_drop by auto
  moreover have "p \<notin> set (take i xs)"
    using assms(1,3) by (auto simp: in_set_conv_nth)
  ultimately show ?thesis by (metis remove1.simps(2) remove1_append)
qed

locale fifo =
  fixes inv :: "'q \<Rightarrow> bool"
    and items :: "'q \<Rightarrow> 'p list"
    and cap :: nat
    and push :: "'p \<Rightarrow> 'q \<Rightarrow> 'q"
    and find :: "'q \<Rightarrow> 'p \<Rightarrow> nat option"
    and remove_at :: "nat \<Rightarrow> 'q \<Rightarrow> 'q"
  assumes inv_cap: "inv q \<Longrightarrow> length (items q) \<le> cap"
    and inv_push: "inv q \<Longrightarrow> length (items q) < cap \<Longrightarrow> inv (push p q)"
    and items_push: "inv q \<Longrightarrow> length (items q) < cap \<Longrightarrow> items (push p q) = items q @ [p]"
    and find_Some: "inv q \<Longrightarrow> find q p = Some i \<Longrightarrow>
        i < length (items q) \<and> items q ! i = p \<and> (\<forall>m < i. items q ! m \<noteq> p)"
    and find_None: "inv q \<Longrightarrow> find q p = None \<Longrightarrow> p \<notin> set (items q)"
    and inv_remove_at: "inv q \<Longrightarrow> i < length (items q) \<Longrightarrow> inv (remove_at i q)"
    and items_remove_at: "inv q \<Longrightarrow> i < length (items q) \<Longrightarrow>
        items (remove_at i q) = take i (items q) @ drop (Suc i) (items q)"
begin

text \<open>Taking out one process: what \<open>unqueue_proc_full\<close> does when the process is found or not.\<close>

definition unq :: "'p \<Rightarrow> 'q \<Rightarrow> 'q" where
  "unq p q = (case find q p of Some i \<Rightarrow> remove_at i q | None \<Rightarrow> q)"

lemma items_unq: "inv q \<Longrightarrow> items (unq p q) = remove1 p (items q)"
  using find_Some [of q p] find_None [of q p]
  by (auto simp: unq_def items_remove_at remove1_first remove1_idem split: option.split)

lemma inv_unq: "inv q \<Longrightarrow> inv (unq p q)"
  using find_Some [of q p] by (auto simp: unq_def inv_remove_at split: option.split)

lemma find_index:
  assumes "inv q" "p \<in> set (items q)"
  obtains i where "find q p = Some i" "i < length (items q)" "items q ! i = p"
  using assms find_None [of q p] find_Some [of q p] by (cases "find q p") auto

text \<open>
  A process that gave up the CPU goes to the back: taking it out and putting it in again
  never needs more room, and moves exactly that process behind all others.
\<close>

lemma requeue:
  assumes "inv q" "p \<in> set (items q)"
  shows "inv (push p (unq p q))" "items (push p (unq p q)) = remove1 p (items q) @ [p]"
proof -
  have "length (items (unq p q)) < cap"
    using inv_cap [OF assms(1)] length_pos_if_in_set [OF assms(2)] assms
    by (simp add: items_unq length_remove1 del: length_greater_0_conv)
  then show "inv (push p (unq p q))" "items (push p (unq p q)) = remove1 p (items q) @ [p]"
    using assms by (auto simp: inv_push items_push inv_unq items_unq)
qed

text \<open>Draining from the front visits the processes in the order in which they were put in.\<close>

lemma drain_front:
  assumes "inv q" "items q = p # ps"
  shows "items (unq p q) = ps"
  using assms by (simp add: items_unq)

end

definition lq_index :: "level_queue \<Rightarrow> nat option \<Rightarrow> nat option" where
  "lq_index q p = lq_find (lq_proc q) p 0 (lq_numproc q)"

interpretation lq: fifo lq_wf lq_list NPROC lq_push lq_index lq_remove_at
proof unfold_locales
  fix q p i
  assume wf: "lq_wf q" and f: "lq_index q p = Some i"
  from lq_find_SomeD [OF f [unfolded lq_index_def]] wf
  show "i < length (lq_list q) \<and> lq_list q ! i = p \<and> (\<forall>m<i. lq_list q ! m \<noteq> p)"
    by (auto simp: lq_list_def lq_wf_def)
next
  fix q p
  assume wf: "lq_wf q" and f: "lq_index q p = None"
  show "p \<notin> set (lq_list q)"
  proof
    assume "p \<in> set (lq_list q)"
    then obtain j where "j < lq_numproc q" "lq_proc q ! j = p"
      using wf by (auto simp: lq_list_def lq_wf_def in_set_conv_nth)
    with lq_find_NoneD [OF f [unfolded lq_index_def], of j] show False by simp
  qed
qed (simp_all add: lq_push_wf lq_push_list lq_remove_at_wf lq_remove_at_list lq_list_cap)

definition lq_remove :: "nat option \<Rightarrow> level_queue \<Rightarrow> level_queue" where
  "lq_remove p q = (case lq_index q p of Some i \<Rightarrow> lq_remove_at i q | None \<Rightarrow> q)"

lemma lq_remove_unq: "lq.unq = lq_remove"
  by (intro ext) (simp add: lq.unq_def lq_remove_def)

lemmas lq_remove_list [simp] = lq.items_unq [unfolded lq_remove_unq]
lemmas lq_remove_wf [simp] = lq.inv_unq [unfolded lq_remove_unq]

lemma lq_remove_sel [simp]: "lq_ticks_left (lq_remove p q) = lq_ticks_left q"
  by (simp add: lq_remove_def lq_remove_at_def split: option.split)

lemma lq_push_sel [simp]:
  "lq_ticks_left (lq_push p q) = lq_ticks_left q" "lq_numproc (lq_push p q) = Suc (lq_numproc q)"
  by (simp_all add: lq_push_def)

section \<open>What the operations do in their calling context\<close>

text \<open>
  All callers hold \<open>ptable.lock\<close>, so interrupts are off; the lock of the level is free.
\<close>

definition level_ctx :: "nat \<Rightarrow> ('e, 'z) kstate_scheme \<Rightarrow> bool" where
  "level_ctx c S \<longleftrightarrow> cpu_ok c S \<and> 0 < c_ncli (cpus S ! c) \<and> (\<forall>q. lock_free (LevelLock q) S)"

lemma level_ctx_upd [simp]:
  "level_ctx c (upd_level q f S) = level_ctx c S" "level_ctx c (upd_proc p g S) = level_ctx c S"
  by (simp_all add: level_ctx_def cpu_ok_def lock_free_def)

lemma locked_section:
  fixes S :: "('e, 'z) kstate_scheme"
  assumes "level_ctx c S"
  obtains S1 where "acquire c (LevelLock a) S = Inr S1" "k_levels S1 = k_levels S"
    "release c (LevelLock a) S1 = Inr S" "\<And>f. release c (LevelLock a) (upd_level b f S1) = Inr (upd_level b f S)"
    "k_procs S1 = k_procs S"
proof -
  let ?S0 = "pushcli c S"
  let ?S1 = "upd_lock (LevelLock a) (\<lambda>k. k\<lparr>lk_locked := True, lk_cpu := Some c\<rparr>) ?S0"
  have ok: "cpu_ok c S" and pos: "0 < c_ncli (cpus S ! c)" and fr: "lock_free (LevelLock a) S"
    using assms by (auto simp: level_ctx_def)
  have c: "c < length (cpus S)" and off: "\<not> c_if (cpus S ! c)" using ok pos by (auto simp: cpu_ok_def)
  have S0: "?S0 = upd_cpu c (\<lambda>x. x\<lparr>c_ncli := c_ncli x + 1\<rparr>) S"
    using c off pos by (cases "cpus S ! c") (simp add: pushcli_eq upd_cpu_def)
  have acq: "acquire c (LevelLock a) S = Inr ?S1"
    using fr by (simp add: acquire_eq [OF ok] lock_free_def)
  have lvl: "k_levels ?S1 = k_levels S" "k_procs ?S1 = k_procs S" by (simp_all add: S0)
  have lk: "(locks S)(LevelLock a := (locks S (LevelLock a))\<lparr>lk_cpu := None, lk_locked := False\<rparr>) = locks S"
    using fr by (cases "locks S (LevelLock a)") (auto simp: lock_free_def fun_eq_iff)
  have cp: "(cpus S)[c := (cpus S ! c)\<lparr>c_ncli := c_ncli (cpus S ! c), c_if := False\<rparr>] = cpus S"
    using off c by (cases "cpus S ! c") (simp add: list_update_same_conv)
  have ok1: "cpu_ok c ?S1" "0 < c_ncli (cpus ?S1 ! c)"
    using ok pos by (auto simp: cpu_ok_def S0)
  have rel: "release c (LevelLock a) ?S1 = Inr S"
    using c pos lk cp by (subst release_eq [OF ok1]) (simp add: S0 upd_cpu_def upd_lock_def)
  have ok2: "cpu_ok c (upd_level b f ?S1)" "0 < c_ncli (cpus (upd_level b f ?S1) ! c)" for f
    using ok1 by (simp_all add: cpu_ok_def)
  have rel2: "release c (LevelLock a) (upd_level b f ?S1) = Inr (upd_level b f S)" for f
    using c pos lk cp by (subst release_eq [OF ok2]) (simp add: S0 upd_cpu_def upd_lock_def upd_level_def)
  show thesis by (rule that [OF acq lvl(1) rel rel2 lvl(2)])
qed

lemma enqueue_ok:
  assumes "level_ctx c S" "lq_numproc (level_at S q) < NPROC"
  shows "enqueue_proc c (Some p) (Some q) S = Inr (upd_level q (lq_push (Some p)) S)"
  by (rule locked_section [OF assms(1), of q q]) (use assms(2) in \<open>auto simp: enqueue_proc_def\<close>)

lemma enqueue_full:
  assumes "level_ctx c S" "NPROC \<le> lq_numproc (level_at S q)"
  shows "enqueue_proc c (Some p) (Some q) S = panic ''enqueue in full level''"
  by (rule locked_section [OF assms(1), of q q]) (use assms(2) in \<open>auto simp: enqueue_proc_def\<close>)

lemma unqueue_ok:
  assumes ctx: "level_ctx c S" and wf: "lq_wf (level_at S q)" and mem: "p \<in> set (lq_list (level_at S q))"
  obtains i where "unqueue_proc_full c p (Some q) isTry S = Inr (int i, upd_level q (lq_remove p) S)"
    "i < lq_numproc (level_at S q)" "lq_list (level_at S q) ! i = p"
proof -
  obtain i where i: "lq_index (level_at S q) p = Some i" "i < lq_numproc (level_at S q)"
      "lq_list (level_at S q) ! i = p"
    using lq.find_index [OF wf mem] wf by auto
  have "upd_level q (lq_remove_at i) S = upd_level q (lq_remove p) S"
    using i(1) by (simp add: upd_level_def lq_remove_def)
  then have "unqueue_proc_full c p (Some q) isTry S = Inr (int i, upd_level q (lq_remove p) S)"
    using i by - (rule locked_section [OF ctx, of q q], auto simp: unqueue_proc_full_def lq_index_def)
  then show thesis using i that by blast
qed

lemma unqueue_absent:
  assumes ctx: "level_ctx c S" and wf: "lq_wf (level_at S q)" and mem: "p \<notin> set (lq_list (level_at S q))"
  shows "try_unqueue_proc c p (Some q) S = Inr (-1, S)"
    "unqueue_proc c p (Some q) S = (if lq_numproc (level_at S q) = 0 then panic ''unqueue on empty level''
       else panic ''unqueue of node not belonging to level'')"
proof -
  have f: "lq_find (lq_proc (level_at S q)) p 0 (lq_numproc (level_at S q)) = None"
    using lq.find_Some [OF wf, of p] mem
    by (cases "lq_index (level_at S q) p") (force simp: lq_index_def in_set_conv_nth)+
  show "try_unqueue_proc c p (Some q) S = Inr (-1, S)"
    using f by - (rule locked_section [OF ctx, of q q], auto simp: try_unqueue_proc_def unqueue_proc_full_def)
  show "unqueue_proc c p (Some q) S = (if lq_numproc (level_at S q) = 0 then panic ''unqueue on empty level''
       else panic ''unqueue of node not belonging to level'')"
    using f by - (rule locked_section [OF ctx, of q q], auto simp: unqueue_proc_def unqueue_proc_full_def)
qed

text \<open>
  C18. A level is a FIFO list. With \<open>ptable.lock\<close> held, \<open>enqueue_proc\<close> puts a process at the
  end of the list unless the level is full, when it panics; \<open>unqueue_proc\<close> takes exactly that
  process out and returns its position; if the process is not there \<open>try_unqueue_proc\<close> returns -1 and changes
  nothing, and \<open>unqueue_proc\<close> panics.
\<close>

theorem level_fifo:
  assumes ctx: "level_ctx c S" and wf: "lq_wf (level_at S q)" and q: "q < length (k_levels S)"
  shows "(if lq_numproc (level_at S q) < NPROC
      then \<exists>S'. enqueue_proc c (Some p) (Some q) S = Inr S' \<and> lq_list (level_at S' q) = lq_list (level_at S q) @ [Some p] \<and> lq_wf (level_at S' q)
      else enqueue_proc c (Some p) (Some q) S = panic ''enqueue in full level'')
    \<and> (if Some p \<in> set (lq_list (level_at S q))
      then \<exists>i S'. unqueue_proc c (Some p) (Some q) S = Inr (int i, S') \<and> i < length (lq_list (level_at S q)) \<and> lq_list (level_at S q) ! i = Some p
         \<and> lq_list (level_at S' q) = remove1 (Some p) (lq_list (level_at S q)) \<and> lq_wf (level_at S' q)
      else try_unqueue_proc c (Some p) (Some q) S = Inr (-1, S) \<and> (\<exists>msg. unqueue_proc c (Some p) (Some q) S = panic msg))"
proof (intro conjI)
  show "if lq_numproc (level_at S q) < NPROC
      then \<exists>S'. enqueue_proc c (Some p) (Some q) S = Inr S' \<and> lq_list (level_at S' q) = lq_list (level_at S q) @ [Some p] \<and> lq_wf (level_at S' q)
      else enqueue_proc c (Some p) (Some q) S = panic ''enqueue in full level''"
    using enqueue_ok [OF ctx, of q p] enqueue_full [OF ctx, of q p] wf q by (simp add: lq_push_list lq_push_wf)
  show "if Some p \<in> set (lq_list (level_at S q))
      then \<exists>i S'. unqueue_proc c (Some p) (Some q) S = Inr (int i, S') \<and> i < length (lq_list (level_at S q)) \<and> lq_list (level_at S q) ! i = Some p
         \<and> lq_list (level_at S' q) = remove1 (Some p) (lq_list (level_at S q)) \<and> lq_wf (level_at S' q)
      else try_unqueue_proc c (Some p) (Some q) S = Inr (-1, S) \<and> (\<exists>msg. unqueue_proc c (Some p) (Some q) S = panic msg)"
  proof (cases "Some p \<in> set (lq_list (level_at S q))")
    case True
    obtain i where "unqueue_proc_full c (Some p) (Some q) False S = Inr (int i, upd_level q (lq_remove (Some p)) S)"
      "i < lq_numproc (level_at S q)" "lq_list (level_at S q) ! i = Some p" by (rule unqueue_ok [OF ctx wf True, of False])
    then show ?thesis using True wf q by (auto simp: unqueue_proc_def)
  qed (use unqueue_absent [OF ctx wf] in auto)
qed

definition demo_queues :: "unit kstate" where
  "demo_queues = upd_cpu 0 (\<lambda>x. x\<lparr>c_ncli := 1\<rparr>) (kstate_zero [0] ())"

theorem level_fifo_witness:
  "\<exists>S'. enqueue_proc 0 (Some 5) (Some 2) demo_queues = Inr S' \<and> lq_list (level_at S' 2) = [Some 5]"
proof -
  have "level_ctx 0 demo_queues" "lq_wf (level_at demo_queues 2)" "2 < length (k_levels demo_queues)" "lq_list (level_at demo_queues 2) = []"
      "lq_numproc (level_at demo_queues 2) = 0"
    by (simp_all add: demo_queues_def level_ctx_def cpu_ok_def lock_free_def kstate_zero_def upd_cpu_def lq_wf_def lq_list_def rsdl_defs)
  then show ?thesis using level_fifo [of 0 demo_queues 2 5] by auto
qed

end
