(* ===== verification/Printf.thy ===== *)
theory Printf
  imports Prelude
begin

text \<open>
  Formatted output: \<open>printint\<close> and \<open>cprintf\<close> of the kernel (\<^verbatim>\<open>console.c\<close>),
  \<open>printint\<close> and \<open>printf\<close> of the user library (\<^verbatim>\<open>printf.c\<close>), and \<open>atoi\<close>
  (\<^verbatim>\<open>ulib.c\<close>), which reads back what \<open>%d\<close> prints.

  Output is the string of characters passed to \<open>consputc\<close> or \<open>putc\<close>. A format
  string is given without its final NUL. Arguments are words, or strings (None for a NULL
  pointer); a conversion without a matching argument is undefined.
\<close>

datatype parg = PWord "32 word" | PStr "string option"

definition digits :: string where "digits = ''0123456789abcdef''"
definition udigits :: string where "udigits = ''0123456789ABCDEF''"

text \<open>
  The loop \<open>do buf[i++] = digits[x % base]; while((x /= base) != 0)\<close>, least significant
  digit first. The callers' bases are 10 and 16; below 2 the loop would not end.
\<close>

function digit_loop :: "string \<Rightarrow> nat \<Rightarrow> nat \<Rightarrow> string" where
  "digit_loop ds base x =
     (if base < 2 then [] else ds ! (x mod base) # (if x div base = 0 then [] else digit_loop ds base (x div base)))"
  by pat_completeness auto
termination
  by (relation "measure (\<lambda>(ds, base, x). x)") (auto simp: div_greater_zero_iff intro!: div_less_dividend)

declare digit_loop.simps [simp del]

text \<open>\<open>printint(xx, base, sign)\<close>: \<open>buf\<close> is filled from the right end of the number and printed backwards.\<close>

definition printint :: "32 word \<Rightarrow> nat \<Rightarrow> bool \<Rightarrow> string" where
  "printint xx base sign =
     (let sign' = (sign \<and> sint xx < 0);
          x = (if sign' then - xx else xx);
          buf = digit_loop digits base (unat x) @ (if sign' then ''-'' else [])
      in rev buf)"

fun cprintf :: "string \<Rightarrow> parg list \<Rightarrow> string result" where
  "cprintf [] args = Inr []"
| "cprintf (c # fmt) args =
     (if c \<noteq> CHR ''%'' then bindE (cprintf fmt args) (\<lambda>out. Inr (c # out))
      else case fmt of [] \<Rightarrow> Inr []
      | d # fmt' \<Rightarrow>
          if d = CHR ''d'' then (case args of PWord w # args' \<Rightarrow>
              bindE (cprintf fmt' args') (\<lambda>out. Inr (printint w 10 True @ out)) | _ \<Rightarrow> Inl Undef)
          else if d = CHR ''x'' \<or> d = CHR ''p'' then (case args of PWord w # args' \<Rightarrow>
              bindE (cprintf fmt' args') (\<lambda>out. Inr (printint w 16 False @ out)) | _ \<Rightarrow> Inl Undef)
          else if d = CHR ''s'' then (case args of PStr s # args' \<Rightarrow>
              bindE (cprintf fmt' args') (\<lambda>out. Inr ((case s of None \<Rightarrow> ''(null)'' | Some t \<Rightarrow> t) @ out))
              | _ \<Rightarrow> Inl Undef)
          else if d = CHR ''%'' then bindE (cprintf fmt' args) (\<lambda>out. Inr (CHR ''%'' # out))
          else bindE (cprintf fmt' args) (\<lambda>out. Inr (CHR ''%'' # d # out)))"

section \<open>User library\<close>

definition uprintint :: "32 word \<Rightarrow> nat \<Rightarrow> bool \<Rightarrow> string" where
  "uprintint xx base sg =
     (let neg = (sg \<and> sint xx < 0);
          x = (if neg then - xx else xx);
          buf = digit_loop udigits base (unat x) @ (if neg then ''-'' else [])
      in rev buf)"

text \<open>
  \<open>printf(fd, fmt, ...)\<close>, character by character with the variable \<open>state\<close> (\<open>pct\<close>:
  the last character was an unconsumed \<open>%\<close>). The result is what is written to \<open>fd\<close>.
\<close>

fun printf_loop :: "bool \<Rightarrow> string \<Rightarrow> parg list \<Rightarrow> string result" where
  "printf_loop pct [] ap = Inr []"
| "printf_loop False (c # fmt) ap =
     (if c = CHR ''%'' then printf_loop True fmt ap
      else bindE (printf_loop False fmt ap) (\<lambda>out. Inr (c # out)))"
| "printf_loop True (c # fmt) ap =
     (if c = CHR ''d'' then (case ap of PWord w # ap' \<Rightarrow>
        bindE (printf_loop False fmt ap') (\<lambda>out. Inr (uprintint w 10 True @ out)) | _ \<Rightarrow> Inl Undef)
      else if c = CHR ''x'' \<or> c = CHR ''p'' then (case ap of PWord w # ap' \<Rightarrow>
        bindE (printf_loop False fmt ap') (\<lambda>out. Inr (uprintint w 16 False @ out)) | _ \<Rightarrow> Inl Undef)
      else if c = CHR ''s'' then (case ap of PStr s # ap' \<Rightarrow>
        bindE (printf_loop False fmt ap') (\<lambda>out. Inr ((case s of None \<Rightarrow> ''(null)'' | Some t \<Rightarrow> t) @ out))
        | _ \<Rightarrow> Inl Undef)
      else if c = CHR ''c'' then (case ap of PWord w # ap' \<Rightarrow>
        bindE (printf_loop False fmt ap') (\<lambda>out. Inr (char_of (unat w mod 256) # out)) | _ \<Rightarrow> Inl Undef)
      else if c = CHR ''%'' then bindE (printf_loop False fmt ap) (\<lambda>out. Inr (c # out))
      else bindE (printf_loop False fmt ap) (\<lambda>out. Inr (CHR ''%'' # c # out)))"

definition printf :: "string \<Rightarrow> parg list \<Rightarrow> string result" where
  "printf fmt ap = printf_loop False fmt ap"

text \<open>\<open>atoi\<close>: the value \<open>n\<close> is an int, so each step wraps.\<close>

fun atoi_loop :: "int \<Rightarrow> string \<Rightarrow> int" where
  "atoi_loop n [] = n"
| "atoi_loop n (c # s) =
     (if of_char (CHR ''0'') \<le> (of_char c :: int) \<and> of_char c \<le> (of_char (CHR ''9'') :: int)
      then atoi_loop (c_int (n * 10 + of_char c - of_char (CHR ''0''))) s else n)"

definition atoi :: "string \<Rightarrow> int" where
  "atoi s = atoi_loop 0 s"

section \<open>Digits\<close>

definition digit_val :: "string \<Rightarrow> char \<Rightarrow> nat" where
  "digit_val ds c = length (takeWhile (\<lambda>d. d \<noteq> c) ds)"

text \<open>The number that a digit string, most significant digit first, stands for.\<close>

definition num_of :: "string \<Rightarrow> nat \<Rightarrow> string \<Rightarrow> nat" where
  "num_of ds base s = foldl (\<lambda>n c. n * base + digit_val ds c) 0 s"

lemma digit_val_nth:
  assumes "distinct ds" "i < length ds"
  shows "digit_val ds (ds ! i) = i"
proof -
  have "takeWhile (\<lambda>d. d \<noteq> ds ! i) ds = take i ds"
    using assms by (intro takeWhile_eq_take_P_nth) (auto simp: nth_eq_iff_index_eq)
  then show ?thesis using assms by (simp add: digit_val_def)
qed

lemma num_of_digit_loop:
  assumes "distinct ds" "2 \<le> base" "base \<le> length ds"
  shows "num_of ds base (rev (digit_loop ds base x)) = x"
  using assms
proof (induction ds base x rule: digit_loop.induct)
  case (1 ds base x)
  have m: "digit_val ds (ds ! (x mod base)) = x mod base"
    using "1.prems" by (intro digit_val_nth) (auto intro: less_le_trans [OF mod_less_divisor])
  show ?case
  proof (cases "x div base = 0")
    case True
    then have "x mod base = x" using "1.prems" by (simp add: div_eq_0_iff)
    with True m "1.prems" show ?thesis
      by (simp add: digit_loop.simps [of ds base x] num_of_def)
  next
    case False
    with "1" have IH: "num_of ds base (rev (digit_loop ds base (x div base))) = x div base"
      by simp
    have "num_of ds base (rev (digit_loop ds base x)) =
        num_of ds base (rev (digit_loop ds base (x div base))) * base + x mod base"
      using False "1.prems" m by (simp add: digit_loop.simps [of ds base x] num_of_def)
    with IH show ?thesis by simp
  qed
qed

lemma digit_loop_length: "2 \<le> base \<Longrightarrow> x < base ^ n \<Longrightarrow> 0 < n \<Longrightarrow> length (digit_loop ds base x) \<le> n"
proof (induction n arbitrary: x)
  case (Suc n)
  show ?case
  proof (cases "x div base = 0")
    case True
    with Suc.prems show ?thesis by (simp add: digit_loop.simps [of ds base x])
  next
    case False
    then have n: "0 < n" using Suc.prems by (cases n) (auto simp: div_eq_0_iff)
    have "x div base < base ^ n"
      using Suc.prems by (simp add: less_mult_imp_div_less mult.commute)
    with n Suc show ?thesis by (simp add: digit_loop.simps [of ds base x])
  qed
qed simp

lemma digits_distinct: "distinct digits" "distinct udigits" "length digits = 16" "length udigits = 16"
  by (simp_all add: digits_def udigits_def)

lemma sint_range: "- (2 ^ 31) \<le> sint (w :: 32 word)" "sint w < 2 ^ 31"
  using sint_ge [of w] sint_lt [of w] by simp_all

text \<open>A word as the unsigned reading of the integer it stands for.\<close>

lemma uint_sint: "0 \<le> sint (w :: 32 word) \<Longrightarrow> uint w = sint w" "sint w < 0 \<Longrightarrow> uint (- w) = - sint w"
proof -
  have w: "w = word_of_int (sint w)" by simp
  have "uint w = sint w mod 2 ^ 32" by (subst w) (simp only: uint_word_of_int, simp)
  then show "0 \<le> sint w \<Longrightarrow> uint w = sint w" using sint_range(2) [of w] by simp
  have m: "- w = word_of_int (- sint w)" by (subst w) (simp only: wi_hom_neg)
  have "uint (- w) = (- sint w) mod 2 ^ 32" by (subst m) (simp only: uint_word_of_int, simp)
  then show "sint w < 0 \<Longrightarrow> uint (- w) = - sint w" using sint_range(1) [of w] by simp
qed

text \<open>
  C19. \<open>printint\<close> prints the number it is given: without a sign the output is the unsigned value in
  the base (10 or 16), with a sign it is the absolute value after a minus sign exactly when
  the number is negative; this includes the most negative number, whose negation wraps.
\<close>

theorem printint_value:
  assumes "base = 10 \<or> base = 16"
  shows "num_of digits base (printint w base False) = unat w
    \<and> (if sint w < 0 then \<exists>ds. printint w base True = CHR ''-'' # ds \<and> int (num_of digits base ds) = - sint w
       else int (num_of digits base (printint w base True)) = sint w)"
proof -
  have b: "2 \<le> base" "base \<le> length digits" using assms digits_distinct(3) by auto
  note N = num_of_digit_loop [OF digits_distinct(1) b]
  show ?thesis using N uint_sint [of w] by (auto simp: printint_def)
qed

theorem printint_value_witness:
  "num_of digits 10 (printint 305 10 False) = 305 \<and> num_of digits 16 (printint 0xbeef 16 False) = 0xbeef"
  using printint_value [of 10 305] printint_value [of 16 "0xbeef"] by simp

text \<open>
  The local buffer of \<open>printint\<close> (16 characters, in the kernel and in the user library) is large
  enough for every number in base 10 or 16, with or without a sign.
\<close>

theorem printint_fits:
  assumes "base = 10 \<or> base = 16"
  shows "length (printint w base sign) \<le> 16 \<and> length (uprintint w base sign) \<le> 16"
proof -
  have "unat x < base ^ 10" for x :: "32 word"
  proof -
    have "unat x < 2 ^ 32" using unsigned_less [where ?'a = nat, of x] by simp
    then show ?thesis using assms by auto
  qed
  then have l: "length (digit_loop ds base (unat x)) \<le> 10" for ds and x :: "32 word"
    using assms by (intro digit_loop_length) auto
  have "Suc (length (digit_loop ds base (unat x))) \<le> 16" for ds and x :: "32 word"
    using l [of ds x] by linarith
  then show ?thesis by (simp add: printint_def uprintint_def Let_def Suc_leD)
qed

theorem printint_fits_witness:
  "length (printint (- 2147483648) 10 True) \<le> 16 \<and> length (uprintint (- 2147483648) 10 True) \<le> 16"
  using printint_fits [of 10 "- 2147483648" True] by simp

section \<open>Reading numbers back\<close>

lemma digit_loop_set:
  assumes "2 \<le> base" "base \<le> length ds"
  shows "set (digit_loop ds base x) \<subseteq> set (take base ds)"
  using assms
proof (induction ds base x rule: digit_loop.induct)
  case (1 ds base x)
  have "ds ! (x mod base) \<in> set (take base ds)"
    using "1.prems" by (auto simp: in_set_conv_nth intro!: exI [of _ "x mod base"])
  then show ?case using "1" by (simp add: digit_loop.simps [of ds base x])
qed

definition dec_val :: "char \<Rightarrow> int" where
  "dec_val c = of_char c - of_char (CHR ''0'')"

lemma take_udigits: "set (take 10 udigits) = set ''0123456789''"
  by (simp add: udigits_def)

lemma dec_digit:
  assumes "c \<in> set ''0123456789''"
  shows "of_char (CHR ''0'') \<le> (of_char c :: int)" "of_char c \<le> (of_char (CHR ''9'') :: int)" "dec_val c = int (digit_val udigits c)"
    "0 \<le> dec_val c"
proof -
  have "list_all (\<lambda>c. of_char (CHR ''0'') \<le> (of_char c :: int) \<and> of_char c \<le> (of_char (CHR ''9'') :: int) \<and> dec_val c = int (digit_val udigits c)
      \<and> 0 \<le> dec_val c) ''0123456789''" by code_simp
  then show "of_char (CHR ''0'') \<le> (of_char c :: int)" "of_char c \<le> (of_char (CHR ''9'') :: int)" "dec_val c = int (digit_val udigits c)"
    "0 \<le> dec_val c" using assms unfolding list_all_iff by blast+
qed

lemma dec_fold_mono: "set s \<subseteq> set ''0123456789'' \<Longrightarrow> 0 \<le> n \<Longrightarrow> n \<le> foldl (\<lambda>n c. n * 10 + dec_val c) n s"
proof (induction s arbitrary: n)
  case (Cons c s)
  have "0 \<le> dec_val c" using Cons.prems by (intro dec_digit(4)) simp
  then have "n \<le> n * 10 + dec_val c" using Cons.prems by simp
  also have "\<dots> \<le> foldl (\<lambda>n c. n * 10 + dec_val c) (n * 10 + dec_val c) s" using Cons \<open>0 \<le> dec_val c\<close> by simp
  finally show ?case by simp
qed simp

lemma atoi_loop_fold:
  assumes "set s \<subseteq> set ''0123456789''" "0 \<le> n" "foldl (\<lambda>n c. n * 10 + dec_val c) n s < 2 ^ 31"
  shows "atoi_loop n s = foldl (\<lambda>n c. n * 10 + dec_val c) n s"
  using assms
proof (induction s arbitrary: n)
  case (Cons c s)
  have c: "c \<in> set ''0123456789''" using Cons.prems(1) by simp
  note D = dec_digit [OF c]
  have le: "n * 10 + dec_val c \<le> foldl (\<lambda>n c. n * 10 + dec_val c) (n * 10 + dec_val c) s"
    using Cons.prems D(4) by (intro dec_fold_mono) simp_all
  then have "c_int_range (n * 10 + dec_val c)" using Cons.prems D(4) by (simp add: c_int_range_def)
  then have "c_int (n * 10 + of_char c - of_char (CHR ''0'')) = n * 10 + dec_val c"
    using c_int_id [of "n * 10 + dec_val c"] by (simp add: dec_val_def algebra_simps)
  then have "atoi_loop n (c # s) = atoi_loop (n * 10 + dec_val c) s" using D(1,2) by simp
  also have "\<dots> = foldl (\<lambda>n c. n * 10 + dec_val c) (n * 10 + dec_val c) s" using Cons.prems D(4) by (intro Cons.IH) simp_all
  finally show ?case by simp
qed simp

lemma fold_num_of:
  assumes "set s \<subseteq> set ''0123456789''"
  shows "foldl (\<lambda>n c. n * 10 + dec_val c) (int m) s = int (foldl (\<lambda>n c. n * 10 + digit_val udigits c) m s)"
  using assms
proof (induction s arbitrary: m)
  case (Cons c s)
  have "c \<in> set ''0123456789''" using Cons.prems by simp
  then have "int m * 10 + dec_val c = int (m * 10 + digit_val udigits c)" using dec_digit(3) by simp
  then show ?case using Cons.IH [of "m * 10 + digit_val udigits c"] Cons.prems by simp
qed simp

text \<open>
  \<open>atoi\<close> reads back what \<open>printf("%d")\<close> writes, for every non-negative \<open>int\<close>.
\<close>

theorem atoi_printf:
  assumes "0 \<le> sint w"
  shows "\<exists>s. printf ''%d'' [PWord w] = Inr s \<and> atoi s = sint w"
proof -
  let ?s = "rev (digit_loop udigits 10 (unat w))"
  have "printf ''%d'' [PWord w] = Inr ?s" using assms by (simp add: printf_def uprintint_def)
  moreover have s: "set ?s \<subseteq> set ''0123456789''"
    using digit_loop_set [of 10 udigits "unat w"] digits_distinct(4) take_udigits by simp
  moreover have "int (num_of udigits 10 ?s) = sint w"
    using num_of_digit_loop [OF digits_distinct(2), of 10 "unat w"] digits_distinct(4) uint_sint(1) [OF assms] by simp
  then have "foldl (\<lambda>n c. n * 10 + dec_val c) 0 ?s = sint w" using fold_num_of [OF s, of 0] by (simp add: num_of_def)
  ultimately show ?thesis using atoi_loop_fold [OF s, of 0] sint_range(2) [of w] by (simp add: atoi_def)
qed

theorem atoi_printf_witness: "\<exists>s. printf ''%d'' [PWord 1234567] = Inr s \<and> atoi s = 1234567"
  using atoi_printf [of 1234567] by simp

end
