(* ===== verification/Sched.thy ===== *)
theory Sched
  imports LevelQueue Printf
begin

text \<open>
  The scheduler loop of \<^verbatim>\<open>proc.c\<close> and what it calls: \<open>schedlog\<close>,
  \<open>print_schedlog\<close>, \<open>switchuvm\<close> and \<open>switchkvm\<close> (\<^verbatim>\<open>vm.c\<close>).

  One turn of \<open>scheduler()\<close> is cut at its \<open>swtch\<close>. \<open>scheduler_pick\<close> is the part from
  \<open>sti()\<close> to the switch to the chosen process, or, when there is none, the exchange of
  the two sets and the end of the turn. \<open>scheduler_after\<close> is the part from the return
  of \<open>swtch\<close> to the end of the turn; it finds the local variables \<open>p\<close>, \<open>q\<close>, \<open>k\<close> of the
  turn in \<open>c_frame\<close>. Both run with \<open>ptable.lock\<close> held at the switch.

  The \<^verbatim>\<open>while\<close> loops over \<open>q->numproc\<close> carry fuel; \<open>NPROC\<close> is enough (a level has at
  most that many processes and every turn takes one out), and running out is
  \<open>NoReturn\<close>.
\<close>

section \<open>Scheduling log\<close>

definition schedlog :: "int \<Rightarrow> ('e, 'z) kstate_scheme \<Rightarrow> ('e, 'z) kstate_scheme" where
  "schedlog n S = S\<lparr>k_schedlog_active := True, k_schedlog_lasttick := sint (k_ticks S + word_of_int n)\<rparr>"

fun state_num :: "procstate \<Rightarrow> 32 word" where
  "state_num UNUSED = 0" | "state_num EMBRYO = 1" | "state_num SLEEPING = 2"
| "state_num RUNNABLE = 3" | "state_num RUNNING = 4" | "state_num ZOMBIE = 5"

definition kprintf :: "string \<Rightarrow> parg list \<Rightarrow> ('e, 'z) kstate_scheme \<Rightarrow> ('e, 'z) kstate_scheme result" where
  "kprintf fmt args S = bindE (cprintf fmt args) (\<lambda>out. Inr (S\<lparr>k_out := k_out S @ out\<rparr>))"

fun schedlog_procs :: "nat option list \<Rightarrow> ('e, 'z) kstate_scheme \<Rightarrow> ('e, 'z) kstate_scheme result" where
  "schedlog_procs [] S = Inr S"
| "schedlog_procs (None # ps) S = nullderef"
| "schedlog_procs (Some pp # ps) S =
     (if p_state (proc_at S pp) = UNUSED then schedlog_procs ps S
      else bindE (kprintf '',[%d]%s:%d(%d)'' [PWord (word_of_int (p_pid (proc_at S pp))),
          PStr (Some (p_name (proc_at S pp))), PWord (state_num (p_state (proc_at S pp))),
          PWord (word_of_int (p_ticks_left (proc_at S pp)))] S) (schedlog_procs ps))"

definition schedlog_level :: "nat \<Rightarrow> string \<Rightarrow> nat \<Rightarrow> nat \<Rightarrow> ('e, 'z) kstate_scheme \<Rightarrow> ('e, 'z) kstate_scheme result" where
  "schedlog_level c set_name q k S =
     bindE (acquire c (LevelLock q) S) (\<lambda>S1.
     bindE (kprintf ''%d|%s|%d(%d)'' [PWord (k_ticks S1), PStr (Some set_name), PWord (of_nat k),
       PWord (word_of_int (lq_ticks_left (level_at S1 q)))] S1) (\<lambda>S2.
     bindE (schedlog_procs (lq_list (level_at S2 q)) S2) (\<lambda>S3.
     bindE (release c (LevelLock q) S3) (kprintf [CHR 0x0A] []))))"

fun schedlog_set :: "nat \<Rightarrow> string \<Rightarrow> nat \<Rightarrow> nat list \<Rightarrow> ('e, 'z) kstate_scheme \<Rightarrow> ('e, 'z) kstate_scheme result" where
  "schedlog_set c set_name base [] S = Inr S"
| "schedlog_set c set_name base (k # ks) S =
     bindE (schedlog_level c set_name (base + k) k S) (schedlog_set c set_name base ks)"

definition print_schedlog :: "nat \<Rightarrow> ('e, 'z) kstate_scheme \<Rightarrow> ('e, 'z) kstate_scheme result" where
  "print_schedlog c S =
     (let set_name = (\<lambda>base. if is_active_set S base then ''active'' else ''expired'')
      in bindE (schedlog_set c (set_name (k_active S)) (k_active S) [0..<RSDL_LEVELS] S)
           (schedlog_set c (set_name (k_expired S)) (k_expired S) [0..<RSDL_LEVELS]))"

section \<open>Address spaces\<close>

definition switchkvm :: "nat \<Rightarrow> ('e, 'z) kstate_scheme \<Rightarrow> ('e, 'z) kstate_scheme result" where
  "switchkvm c S = bindE (V2P (k_kpgdir S)) (\<lambda>pa. Inr (upd_cpu c (\<lambda>x. x\<lparr>c_cr3 := pa\<rparr>) S))"

definition switchuvm :: "nat \<Rightarrow> nat option \<Rightarrow> ('e, 'z) kstate_scheme \<Rightarrow> ('e, 'z) kstate_scheme result" where
  "switchuvm c p S =
     (case p of None \<Rightarrow> panic ''switchuvm: no process''
      | Some i \<Rightarrow>
          if p_kstack (proc_at S i) = 0 then panic ''switchuvm: no kstack''
          else if p_pgdir (proc_at S i) = 0 then panic ''switchuvm: no pgdir''
          else let S1 = upd_cpu c (\<lambda>x. x\<lparr>c_esp0 := p_kstack (proc_at S i) + KSTACKSIZE\<rparr>) (pushcli c S)
            in bindE (V2P (p_pgdir (proc_at S i))) (\<lambda>pa. popcli c (upd_cpu c (\<lambda>x. x\<lparr>c_cr3 := pa\<rparr>) S1)))"

section \<open>Choosing a process\<close>

fun pick_in_level :: "('e, 'z) kstate_scheme \<Rightarrow> nat option list \<Rightarrow> nat option result" where
  "pick_in_level S [] = Inr None"
| "pick_in_level S (None # ps) = nullderef"
| "pick_in_level S (Some p # ps) =
     (if p_state (proc_at S p) = RUNNABLE \<and> p_ticks_left (proc_at S p) > 0 then Inr (Some p)
      else pick_in_level S ps)"

fun pick_levels :: "nat \<Rightarrow> nat \<Rightarrow> nat \<Rightarrow> ('e, 'z) kstate_scheme \<Rightarrow>
    ((nat \<times> nat \<times> nat) option \<times> ('e, 'z) kstate_scheme) result" where
  "pick_levels c k 0 S = Inr (None, S)"
| "pick_levels c k (Suc n) S =
     (let q = k_active S + k
      in if lq_ticks_left (level_at S q) \<le> 0 then pick_levels c (Suc k) n S
         else bindE (acquire c (LevelLock q) S) (\<lambda>S1.
              bindE (pick_in_level S1 (lq_list (level_at S1 q))) (\<lambda>r.
              bindE (release c (LevelLock q) S1) (\<lambda>S2.
              case r of Some p \<Rightarrow> Inr (Some (p, q, k), S2) | None \<Rightarrow> pick_levels c (Suc k) n S2))))"

section \<open>Exchanging the sets\<close>

fun requeue_all :: "nat \<Rightarrow> nat \<Rightarrow> nat \<Rightarrow> ('e, 'z) kstate_scheme \<Rightarrow> ('e, 'z) kstate_scheme result" where
  "requeue_all c q 0 S = (if lq_numproc (level_at S q) = 0 then Inr S else Inl NoReturn)"
| "requeue_all c q (Suc fuel) S =
     (if lq_numproc (level_at S q) = 0 then Inr S
      else case lq_proc (level_at S q) ! 0 of None \<Rightarrow> nullderef
      | Some p \<Rightarrow>
          bindE (unqueue_proc c (Some p) (Some q) (upd_proc p (\<lambda>x. x\<lparr>p_ticks_left := RSDL_PROC_QUANTUM\<rparr>) S)) (\<lambda>(i, S1).
          let nk = p_default_level (proc_at S1 p)
          in bindE (find_available_queue nk nk S1) (\<lambda>nq.
             bindE (enqueue_proc c (Some p) (Some nq) S1) (requeue_all c q fuel))))"

fun swap_levels :: "nat \<Rightarrow> nat \<Rightarrow> nat \<Rightarrow> ('e, 'z) kstate_scheme \<Rightarrow> ('e, 'z) kstate_scheme result" where
  "swap_levels c k 0 S = Inr S"
| "swap_levels c k (Suc n) S =
     (let q = k_expired S + k
      in bindE (requeue_all c q NPROC (upd_level q (\<lambda>x. x\<lparr>lq_ticks_left := RSDL_LEVEL_QUANTUM\<rparr>) S))
           (swap_levels c (Suc k) n))"

definition swap_sets :: "nat \<Rightarrow> ('e, 'z) kstate_scheme \<Rightarrow> ('e, 'z) kstate_scheme result" where
  "swap_sets c S = swap_levels c 0 RSDL_LEVELS (S\<lparr>k_active := k_expired S, k_expired := k_active S\<rparr>)"

section \<open>The turn up to the switch\<close>

text \<open>The result says whether the turn ends with a switch to a process.\<close>

definition scheduler_pick :: "nat \<Rightarrow> ('e, 'z) kstate_scheme \<Rightarrow> (bool \<times> ('e, 'z) kstate_scheme) result" where
  "scheduler_pick c S =
     bindE (acquire c PtableLock (upd_cpu c (\<lambda>x. x\<lparr>c_if := True\<rparr>) S)) (\<lambda>S1.
     bindE (pick_levels c 0 RSDL_LEVELS S1) (\<lambda>(found, S2).
     let S3 = (if k_schedlog_active S2 \<and> k_ticks S2 > word_of_int (k_schedlog_lasttick S2)
               then S2\<lparr>k_schedlog_active := False\<rparr> else S2)
     in case found of
       Some (p, q, k) \<Rightarrow>
         bindE (switchuvm c (Some p) (upd_cpu c (\<lambda>x. x\<lparr>c_proc := Some p, c_queue := Some q\<rparr>) S3)) (\<lambda>S4.
         let S5 = upd_proc p (\<lambda>x. x\<lparr>p_state := RUNNING\<rparr>) S4
         in bindE (if k_schedlog_active S5 \<and> k_ticks S5 \<le> word_of_int (k_schedlog_lasttick S5)
                   then print_schedlog c S5 else Inr S5) (\<lambda>S6.
            Inr (True, upd_cpu c (\<lambda>x. x\<lparr>c_frame := Some (p, q, k)\<rparr>) S6)))
     | None \<Rightarrow>
         bindE (swap_sets c S3) (\<lambda>S4. bindE (release c PtableLock S4) (\<lambda>S5. Inr (False, S5)))))"

section \<open>The turn after the switch\<close>

fun migrate :: "nat \<Rightarrow> nat \<Rightarrow> nat \<Rightarrow> nat \<Rightarrow> nat \<Rightarrow> ('e, 'z) kstate_scheme \<Rightarrow> ('e, 'z) kstate_scheme result" where
  "migrate c p q k 0 S = (if lq_numproc (level_at S q) = 0 then Inr S else Inl NoReturn)"
| "migrate c p q k (Suc fuel) S =
     (if lq_numproc (level_at S q) = 0 then Inr S
      else case lq_proc (level_at S q) ! 0 of None \<Rightarrow> nullderef
      | Some np \<Rightarrow>
          bindE (unqueue_proc c (Some np) (Some q) (upd_proc np (\<lambda>x. x\<lparr>p_ticks_left := RSDL_PROC_QUANTUM\<rparr>) S)) (\<lambda>(i, S1).
          if np = p then migrate c p q k fuel S1
          else bindE (find_available_queue (int k + 1) (p_default_level (proc_at S1 np)) S1) (\<lambda>nq.
               bindE (enqueue_proc c (Some np) (Some nq) S1) (migrate c p q k fuel))))"

text \<open>The branch for a level whose quantum is used up, and the branch for the others.\<close>

definition level_depleted :: "nat \<Rightarrow> nat \<Rightarrow> nat \<Rightarrow> nat \<Rightarrow> ('e, 'z) kstate_scheme \<Rightarrow> ('e, 'z) kstate_scheme result" where
  "level_depleted c p q k S =
     bindE (migrate c p q k NPROC S) (\<lambda>S1.
     if p_state (proc_at S1 p) \<noteq> ZOMBIE
     then bindE (find_available_queue (int k + 1) (p_default_level (proc_at S1 p)) S1) (\<lambda>nq.
          enqueue_proc c (Some p) (Some nq) S1)
     else Inr S1)"

definition level_alive :: "nat \<Rightarrow> nat \<Rightarrow> nat \<Rightarrow> nat \<Rightarrow> ('e, 'z) kstate_scheme \<Rightarrow> ('e, 'z) kstate_scheme result" where
  "level_alive c p q k S =
     (let (S1, nk) = (if p_ticks_left (proc_at S p) \<le> 0
                      then (upd_proc p (\<lambda>x. x\<lparr>p_ticks_left := RSDL_PROC_QUANTUM\<rparr>) S, int k + 1)
                      else (S, int k))
      in if lq_numproc (level_at S1 q) > 0 \<and> p_state (proc_at S1 p) \<noteq> ZOMBIE
         then bindE (unqueue_proc c (Some p) (Some q) S1) (\<lambda>(prev_idx, S2).
              if prev_idx = -1 then panic ''re-enqueue of proc failed''
              else bindE (find_available_queue nk (p_default_level (proc_at S2 p)) S2) (\<lambda>nq.
                let S3 = (if is_expired_set S2 nq
                          then upd_proc p (\<lambda>x. x\<lparr>p_ticks_left := RSDL_PROC_QUANTUM\<rparr>) S2 else S2)
                in enqueue_proc c (Some p) (Some nq) S3))
         else Inr S1)"

definition scheduler_after :: "nat \<Rightarrow> ('e, 'z) kstate_scheme \<Rightarrow> ('e, 'z) kstate_scheme result" where
  "scheduler_after c S =
     (case c_frame (cpus S ! c) of None \<Rightarrow> nullderef
      | Some (p, q, k) \<Rightarrow>
          bindE (switchkvm c S) (\<lambda>S1.
          bindE (if lq_ticks_left (level_at S1 q) \<le> 0 then level_depleted c p q k S1
                 else level_alive c p q k S1) (\<lambda>S2.
          release c PtableLock (upd_cpu c (\<lambda>x. x\<lparr>c_proc := None, c_queue := None, c_frame := None\<rparr>) S2))))"

end
