(* ===== verification/ProcOps.thy ===== *)
theory ProcOps
  imports Sched
begin

text \<open>
  Processes (\<^verbatim>\<open>proc.c\<close>): creation, exit, wait, sleep and wakeup, kill.

  A handler runs on CPU \<open>c\<close>. One that gives up the CPU (\<open>yield\<close>, \<open>sleep\<close>, \<open>exit\<close>,
  and \<open>wait\<close> when it has to sleep) is modelled up to the \<open>swtch\<close> in \<open>sched()\<close>,
  where it saves how it goes on in \<open>p_context\<close>; the CPU then continues with
  \<open>scheduler_after\<close>. What a process does when it is switched to is \<open>resume\<close>.
  The loops over \<open>ptable.proc[]\<close> are recursions over the indices of the table.
\<close>

definition myproc :: "nat \<Rightarrow> ('e, 'z) kstate_scheme \<Rightarrow> nat option" where
  "myproc c S = c_proc (cpus S ! c)"

definition set_env :: "'e \<Rightarrow> ('e, 'z) kstate_scheme \<Rightarrow> ('e, 'z) kstate_scheme" where
  "set_env e S = S\<lparr>k_env := e\<rparr>"

section \<open>Creating processes\<close>

definition find_unused :: "('e, 'z) kstate_scheme \<Rightarrow> nat option" where
  "find_unused S = List.find (\<lambda>i. p_state (proc_at S i) = UNUSED) [0..<NPROC]"

definition allocproc :: "'e kops \<Rightarrow> nat \<Rightarrow> ('e, 'z) kstate_scheme \<Rightarrow> (nat option \<times> ('e, 'z) kstate_scheme) result" where
  "allocproc ops c S =
     bindE (acquire c PtableLock S) (\<lambda>S1.
     case find_unused S1 of
       None \<Rightarrow> bindE (release c PtableLock S1) (\<lambda>S2. Inr (None, S2))
     | Some p \<Rightarrow>
         bindE (release c PtableLock ((upd_proc p (\<lambda>x. x\<lparr>p_state := EMBRYO, p_pid := k_nextpid S1,
             p_ticks_left := RSDL_PROC_QUANTUM, p_default_level := RSDL_STARTING_LEVEL\<rparr>) S1)
             \<lparr>k_nextpid := c_int (k_nextpid S1 + 1)\<rparr>)) (\<lambda>S2.
         let (page, e) = op_kalloc ops (k_env S2);
             S3 = upd_proc p (\<lambda>x. x\<lparr>p_kstack := page\<rparr>) (set_env e S2)
         in if page = 0 then Inr (None, upd_proc p (\<lambda>x. x\<lparr>p_state := UNUSED\<rparr>) S3)
            else Inr (Some p, upd_proc p (\<lambda>x. x\<lparr>p_context := Ctx_forkret\<rparr>) S3)))"

text \<open>The end of \<open>userinit\<close> and \<open>priofork\<close>: the new process becomes runnable in its level.\<close>

definition make_runnable :: "nat \<Rightarrow> nat \<Rightarrow> (proc \<Rightarrow> proc) \<Rightarrow> ('e, 'z) kstate_scheme \<Rightarrow> ('e, 'z) kstate_scheme result" where
  "make_runnable c p f S =
     bindE (acquire c PtableLock S) (\<lambda>S1.
     let S2 = upd_proc p (\<lambda>x. (f x)\<lparr>p_state := RUNNABLE\<rparr>) S1
     in bindE (find_available_queue (p_default_level (proc_at S2 p)) (p_default_level (proc_at S2 p)) S2) (\<lambda>q.
        bindE (enqueue_proc c (Some p) (Some q) S2) (release c PtableLock)))"

definition userinit :: "'e kops \<Rightarrow> nat \<Rightarrow> ('e, 'z) kstate_scheme \<Rightarrow> ('e, 'z) kstate_scheme result" where
  "userinit ops c S =
     bindE (allocproc ops c S) (\<lambda>(po, S1).
     let S2 = S1\<lparr>k_initproc := po\<rparr>
     in case po of None \<Rightarrow> nullderef
     | Some p \<Rightarrow>
        bindE (op_setupkvm ops (k_env S2)) (\<lambda>(pgdir, e1).
        if pgdir = 0 then panic ''userinit: out of memory?''
        else bindE (op_inituvm ops pgdir e1) (\<lambda>e2.
        bindE (op_namei ops ''/'' e2) (\<lambda>(root, e3).
        make_runnable c p (\<lambda>x. x) (upd_proc p (\<lambda>x. x\<lparr>p_pgdir := pgdir, p_sz := 4096,
          p_tf := tf_zero\<lparr>tf_cs := 0x1b, tf_ds := 0x23, tf_es := 0x23, tf_ss := 0x23,
            tf_eflags := 0x200, tf_esp := 4096, tf_eip := 0\<rparr>,
          p_name := ''initcode'', p_cwd := root\<rparr>) (set_env e3 S2))))))"

text \<open>\<open>growproc(n)\<close>: the size arithmetic is unsigned.\<close>

definition growproc :: "'e kops \<Rightarrow> nat \<Rightarrow> int \<Rightarrow> ('e, 'z) kstate_scheme \<Rightarrow> (int \<times> ('e, 'z) kstate_scheme) result" where
  "growproc ops c n S =
     (case myproc c S of None \<Rightarrow> nullderef
      | Some p \<Rightarrow>
         let sz = p_sz (proc_at S p);
             resized = (if n > 0 then op_allocuvm ops (p_pgdir (proc_at S p)) sz (sz + word_of_int n) (k_env S)
                        else if n < 0 then op_deallocuvm ops (p_pgdir (proc_at S p)) sz (sz + word_of_int n) (k_env S)
                        else Inr (sz, k_env S))
         in bindE resized (\<lambda>(sz', e).
            if n \<noteq> 0 \<and> sz' = 0 then Inr (-1, set_env e S)
            else bindE (switchuvm c (Some p) (upd_proc p (\<lambda>x. x\<lparr>p_sz := sz'\<rparr>) (set_env e S))) (\<lambda>S1.
              Inr (0, S1))))"

text \<open>The loop of \<open>priofork\<close> over \<open>ofile[]\<close>: a reference more for every open file.\<close>

fun dup_files :: "'e kops \<Rightarrow> nat option list \<Rightarrow> 'e \<Rightarrow> 'e result" where
  "dup_files ops [] e = Inr e"
| "dup_files ops (None # fs) e = dup_files ops fs e"
| "dup_files ops (Some f # fs) e = bindE (op_filedup ops f e) (dup_files ops fs)"

text \<open>What the child has of each \<open>ofile\<close> slot: the parent's file if it is open there.\<close>

fun inherit_files :: "nat option list \<Rightarrow> nat option list \<Rightarrow> nat option list" where
  "inherit_files (Some f # fs) (o' # os) = Some f # inherit_files fs os"
| "inherit_files (None # fs) (o' # os) = o' # inherit_files fs os"
| "inherit_files fs os = os"

text \<open>\<open>safestrcpy(np->name, curproc->name, 16)\<close> on the strings in the two arrays.\<close>

definition name_copy :: "string \<Rightarrow> string" where
  "name_copy s = take 15 s"

definition priofork :: "'e kops \<Rightarrow> nat \<Rightarrow> int \<Rightarrow> ('e, 'z) kstate_scheme \<Rightarrow> (int \<times> ('e, 'z) kstate_scheme) result" where
  "priofork ops c default_level S =
     (case myproc c S of None \<Rightarrow> nullderef
      | Some cur \<Rightarrow>
        if default_level \<ge> int RSDL_LEVELS then Inr (-1, S)
        else if default_level < 0 then Inr (-1, S)
        else bindE (allocproc ops c S) (\<lambda>(npo, S1).
        case npo of None \<Rightarrow> Inr (-1, S1)
        | Some np \<Rightarrow>
          bindE (op_copyuvm ops (p_pgdir (proc_at S1 cur)) (p_sz (proc_at S1 cur)) (k_env S1)) (\<lambda>(pgdir, e1).
          let S2 = upd_proc np (\<lambda>x. x\<lparr>p_pgdir := pgdir\<rparr>) (set_env e1 S1)
          in if pgdir = 0
             then bindE (op_kfree ops (p_kstack (proc_at S2 np)) e1) (\<lambda>e2.
                  Inr (-1, upd_proc np (\<lambda>x. x\<lparr>p_kstack := 0, p_state := UNUSED\<rparr>) (set_env e2 S2)))
             else bindE (dup_files ops (p_ofile (proc_at S2 cur)) e1) (\<lambda>e2.
               case p_cwd (proc_at S2 cur) of None \<Rightarrow> nullderef
               | Some cwd \<Rightarrow>
                  bindE (op_idup ops cwd e2) (\<lambda>e3.
                  let S3 = upd_proc np (\<lambda>x. x\<lparr>p_sz := p_sz (proc_at S2 cur), p_parent := Some cur,
                        p_tf := (p_tf (proc_at S2 cur))\<lparr>tf_eax := 0\<rparr>,
                        p_ofile := inherit_files (p_ofile (proc_at S2 cur)) (p_ofile x),
                        p_cwd := Some cwd, p_name := name_copy (p_name (proc_at S2 cur))\<rparr>) (set_env e3 S2);
                      pid = p_pid (proc_at S3 np)
                  in bindE (make_runnable c np (\<lambda>x. x\<lparr>p_default_level := default_level\<rparr>) S3) (\<lambda>S4.
                     Inr (pid, S4)))))))"

definition fork :: "'e kops \<Rightarrow> nat \<Rightarrow> ('e, 'z) kstate_scheme \<Rightarrow> (int \<times> ('e, 'z) kstate_scheme) result" where
  "fork ops c S = priofork ops c RSDL_STARTING_LEVEL S"

section \<open>Giving up the CPU\<close>

definition sched :: "nat \<Rightarrow> sched_caller \<Rightarrow> ('e, 'z) kstate_scheme \<Rightarrow> ('e, 'z) kstate_scheme result" where
  "sched c caller S =
     bindE (holding c PtableLock S) (\<lambda>(h, S1).
     if \<not> h then panic ''sched ptable.lock''
     else if c_ncli (cpus S1 ! c) \<noteq> 1 then panic ''sched locks''
     else case myproc c S1 of None \<Rightarrow> nullderef
     | Some p \<Rightarrow>
        if p_state (proc_at S1 p) = RUNNING then panic ''sched running''
        else if c_if (cpus S1 ! c) then panic ''sched interruptible''
        else Inr (upd_proc p (\<lambda>x. x\<lparr>p_context := Ctx_sched (c_intena (cpus S1 ! c)) caller\<rparr>) S1))"

definition yield :: "nat \<Rightarrow> ('e, 'z) kstate_scheme \<Rightarrow> ('e, 'z) kstate_scheme result" where
  "yield c S =
     bindE (acquire c PtableLock S) (\<lambda>S1.
     case myproc c S1 of None \<Rightarrow> nullderef
     | Some p \<Rightarrow> sched c From_yield (upd_proc p (\<lambda>x. x\<lparr>p_state := RUNNABLE\<rparr>) S1))"

definition sleep :: "nat \<Rightarrow> chan option \<Rightarrow> lockid option \<Rightarrow> ('e, 'z) kstate_scheme \<Rightarrow> ('e, 'z) kstate_scheme result" where
  "sleep c chan lk S =
     (case myproc c S of None \<Rightarrow> panic ''sleep''
      | Some p \<Rightarrow>
        (case lk of None \<Rightarrow> panic ''sleep without lk''
         | Some l \<Rightarrow>
            bindE (if l \<noteq> PtableLock then bindE (acquire c PtableLock S) (release c l) else Inr S) (\<lambda>S1.
            sched c (From_sleep l) (upd_proc p (\<lambda>x. x\<lparr>p_chan := chan, p_state := SLEEPING\<rparr>) S1))))"

section \<open>Waking up\<close>

definition wake_proc :: "chan option \<Rightarrow> proc \<Rightarrow> proc" where
  "wake_proc chan p = (if p_state p = SLEEPING \<and> p_chan p = chan then p\<lparr>p_state := RUNNABLE\<rparr> else p)"

definition wakeup1 :: "chan option \<Rightarrow> ('e, 'z) kstate_scheme \<Rightarrow> ('e, 'z) kstate_scheme" where
  "wakeup1 chan S = S\<lparr>k_procs := map (wake_proc chan) (k_procs S)\<rparr>"

definition wakeup :: "nat \<Rightarrow> chan option \<Rightarrow> ('e, 'z) kstate_scheme \<Rightarrow> ('e, 'z) kstate_scheme result" where
  "wakeup c chan S = bindE (acquire c PtableLock S) (\<lambda>S1. release c PtableLock (wakeup1 chan S1))"

definition kill :: "nat \<Rightarrow> int \<Rightarrow> ('e, 'z) kstate_scheme \<Rightarrow> (int \<times> ('e, 'z) kstate_scheme) result" where
  "kill c pid S =
     bindE (acquire c PtableLock S) (\<lambda>S1.
     case List.find (\<lambda>i. p_pid (proc_at S1 i) = pid) [0..<NPROC] of
       Some p \<Rightarrow> bindE (release c PtableLock (upd_proc p (\<lambda>x. x\<lparr>p_killed := True,
           p_state := (if p_state x = SLEEPING then RUNNABLE else p_state x)\<rparr>) S1)) (\<lambda>S2. Inr (0, S2))
     | None \<Rightarrow> bindE (release c PtableLock S1) (\<lambda>S2. Inr (-1, S2)))"

section \<open>Exit and wait\<close>

text \<open>The loop of \<open>exit\<close> that closes the open files.\<close>

fun close_files :: "'e kops \<Rightarrow> nat option list \<Rightarrow> 'e \<Rightarrow> 'e result" where
  "close_files ops [] e = Inr e"
| "close_files ops (None # fs) e = close_files ops fs e"
| "close_files ops (Some f # fs) e = bindE (op_fileclose ops f e) (close_files ops fs)"

text \<open>The loop that passes abandoned children to \<open>init\<close>.\<close>

fun reparent :: "nat \<Rightarrow> nat list \<Rightarrow> ('e, 'z) kstate_scheme \<Rightarrow> ('e, 'z) kstate_scheme" where
  "reparent cur [] S = S"
| "reparent cur (i # is) S =
     (if p_parent (proc_at S i) = Some cur
      then let S1 = upd_proc i (\<lambda>x. x\<lparr>p_parent := k_initproc S\<rparr>) S
        in reparent cur is (if p_state (proc_at S1 i) = ZOMBIE
             then wakeup1 (map_option Chan_proc (k_initproc S1)) S1 else S1)
      else reparent cur is S)"

definition exit :: "'e kops \<Rightarrow> nat \<Rightarrow> ('e, 'z) kstate_scheme \<Rightarrow> ('e, 'z) kstate_scheme result" where
  "exit ops c S =
     (if myproc c S = k_initproc S then panic ''init exiting''
      else case myproc c S of None \<Rightarrow> nullderef
      | Some cur \<Rightarrow>
         bindE (close_files ops (p_ofile (proc_at S cur)) (k_env S)) (\<lambda>e1.
         bindE (op_begin_op ops e1) (\<lambda>e2.
         case p_cwd (proc_at S cur) of None \<Rightarrow> nullderef
         | Some cwd \<Rightarrow>
            bindE (op_iput ops cwd e2) (\<lambda>e3.
            bindE (op_end_op ops e3) (\<lambda>e4.
            bindE (acquire c PtableLock (upd_proc cur (\<lambda>x. x\<lparr>p_ofile := map (\<lambda>_. None) (p_ofile x),
               p_cwd := None\<rparr>) (set_env e4 S))) (\<lambda>S1.
            let S2 = wakeup1 (map_option Chan_proc (p_parent (proc_at S1 cur))) S1;
                S3 = reparent cur [0..<NPROC] S2
            in bindE (remove_proc_from_levels c (Some cur) S3) (\<lambda>(r, S4).
               sched c From_exit (upd_proc cur (\<lambda>x. x\<lparr>p_state := ZOMBIE\<rparr>) S4))))))))"

text \<open>
  One pass of the loop of \<open>wait\<close> over the table: a zombie child is freed and its pid
  returned; otherwise the result says whether there are children.
\<close>

fun wait_scan :: "'e kops \<Rightarrow> nat \<Rightarrow> nat list \<Rightarrow> bool \<Rightarrow> ('e, 'z) kstate_scheme \<Rightarrow>
    ((int + bool) \<times> ('e, 'z) kstate_scheme) result" where
  "wait_scan ops cur [] havekids S = Inr (Inr havekids, S)"
| "wait_scan ops cur (i # is) havekids S =
     (if p_parent (proc_at S i) \<noteq> Some cur then wait_scan ops cur is havekids S
      else if p_state (proc_at S i) = ZOMBIE
      then bindE (op_kfree ops (p_kstack (proc_at S i)) (k_env S)) (\<lambda>e1.
           bindE (op_freevm ops (p_pgdir (proc_at S i)) e1) (\<lambda>e2.
           Inr (Inl (p_pid (proc_at S i)), upd_proc i (\<lambda>x. x\<lparr>p_kstack := 0, p_pid := 0, p_parent := None,
             p_name := [], p_killed := False, p_state := UNUSED\<rparr>) (set_env e2 S))))
      else wait_scan ops cur is True S)"

text \<open>
  The loop body with \<open>ptable.lock\<close> held: \<open>Some r\<close> when \<open>wait\<close> returns \<open>r\<close>,
  None when it sleeps (up to the switch).
\<close>

definition wait_body :: "'e kops \<Rightarrow> nat \<Rightarrow> ('e, 'z) kstate_scheme \<Rightarrow> (int option \<times> ('e, 'z) kstate_scheme) result" where
  "wait_body ops c S =
     (case myproc c S of None \<Rightarrow> nullderef
      | Some cur \<Rightarrow>
         bindE (wait_scan ops cur [0..<NPROC] False S) (\<lambda>(r, S1).
         case r of Inl pid \<Rightarrow> bindE (release c PtableLock S1) (\<lambda>S2. Inr (Some pid, S2))
         | Inr havekids \<Rightarrow>
            if \<not> havekids \<or> p_killed (proc_at S1 cur)
            then bindE (release c PtableLock S1) (\<lambda>S2. Inr (Some (-1), S2))
            else bindE (sleep c (Some (Chan_proc cur)) (Some PtableLock) S1) (\<lambda>S2. Inr (None, S2))))"

definition wait :: "'e kops \<Rightarrow> nat \<Rightarrow> ('e, 'z) kstate_scheme \<Rightarrow> (int option \<times> ('e, 'z) kstate_scheme) result" where
  "wait ops c S = bindE (acquire c PtableLock S) (wait_body ops c)"

section \<open>Being switched to\<close>

definition forkret :: "'e kops \<Rightarrow> nat \<Rightarrow> ('e, 'z) kstate_scheme \<Rightarrow> ('e, 'z) kstate_scheme result" where
  "forkret ops c S =
     bindE (release c PtableLock S) (\<lambda>S1.
     if k_first S1 then bindE (op_fsinit ops (k_env S1)) (\<lambda>e. Inr (set_env e (S1\<lparr>k_first := False\<rparr>)))
     else Inr S1)"

text \<open>
  Where the process is afterwards: back from its handler (\<open>Res_done\<close>), in \<open>sleep\<close>
  about to take its lock again (\<open>Res_acquire\<close>), or in the loop of \<open>wait\<close> with
  \<open>ptable.lock\<close> held (\<open>Res_wait\<close>).
\<close>

datatype resumed = Res_done | Res_acquire lockid | Res_wait

definition resume :: "'e kops \<Rightarrow> nat \<Rightarrow> ('e, 'z) kstate_scheme \<Rightarrow> (resumed \<times> ('e, 'z) kstate_scheme) result" where
  "resume ops c S =
     (case myproc c S of None \<Rightarrow> nullderef
      | Some p \<Rightarrow>
        (case p_context (proc_at S p) of
           Ctx_none \<Rightarrow> Inl Undef
         | Ctx_forkret \<Rightarrow> bindE (forkret ops c S) (\<lambda>S1. Inr (Res_done, S1))
         | Ctx_sched intena caller \<Rightarrow>
            let S1 = upd_cpu c (\<lambda>x. x\<lparr>c_intena := intena\<rparr>) S
            in (case caller of
                 From_yield \<Rightarrow> bindE (release c PtableLock S1) (\<lambda>S2. Inr (Res_done, S2))
               | From_sleep lk \<Rightarrow>
                  let S2 = upd_proc p (\<lambda>x. x\<lparr>p_chan := None\<rparr>) S1
                  in if lk \<noteq> PtableLock then bindE (release c PtableLock S2) (\<lambda>S3. Inr (Res_acquire lk, S3))
                     else Inr (Res_wait, S2)
               | From_exit \<Rightarrow> panic ''zombie exit'')))"

section \<open>Process listing\<close>

fun state_name :: "procstate \<Rightarrow> string" where
  "state_name UNUSED = ''unused''" | "state_name EMBRYO = ''embryo''" | "state_name SLEEPING = ''sleep ''"
| "state_name RUNNABLE = ''runble''" | "state_name RUNNING = ''run   ''" | "state_name ZOMBIE = ''zombie''"

fun print_pcs :: "32 word list \<Rightarrow> ('e, 'z) kstate_scheme \<Rightarrow> ('e, 'z) kstate_scheme result" where
  "print_pcs [] S = Inr S"
| "print_pcs (pc # pcs) S = (if pc = 0 then Inr S else bindE (kprintf '' %p'' [PWord pc] S) (print_pcs pcs))"

text \<open>\<open>mem\<close> is the memory and \<open>ebp i\<close> the saved frame pointer \<open>context->ebp\<close> of slot \<open>i\<close>.\<close>

fun procdump_loop :: "(32 word \<Rightarrow> 32 word) \<Rightarrow> (nat \<Rightarrow> 32 word) \<Rightarrow> nat list \<Rightarrow> ('e, 'z) kstate_scheme \<Rightarrow>
    ('e, 'z) kstate_scheme result" where
  "procdump_loop mem ebp [] S = Inr S"
| "procdump_loop mem ebp (i # is) S =
     (if p_state (proc_at S i) = UNUSED then procdump_loop mem ebp is S
      else bindE (kprintf ''%d %s %s'' [PWord (word_of_int (p_pid (proc_at S i))),
             PStr (Some (state_name (p_state (proc_at S i)))), PStr (Some (p_name (proc_at S i)))] S) (\<lambda>S1.
           bindE (if p_state (proc_at S1 i) = SLEEPING then print_pcs (getcallerpcs mem (ebp i + 8)) S1 else Inr S1) (\<lambda>S2.
           bindE (kprintf [CHR 0x0A] [] S2) (procdump_loop mem ebp is))))"

definition procdump :: "(32 word \<Rightarrow> 32 word) \<Rightarrow> (nat \<Rightarrow> 32 word) \<Rightarrow> ('e, 'z) kstate_scheme \<Rightarrow>
    ('e, 'z) kstate_scheme result" where
  "procdump mem ebp S = procdump_loop mem ebp [0..<NPROC] S"

end
