(* ===== verification/SchedFacts.thy ===== *)
theory SchedFacts
  imports ProcOps
begin

text \<open>
  What the loops of the scheduler do to the level queues, under the well-formedness of
  the process table: the queues as lists of processes, the queue that
  \<open>find_available_queue\<close> chooses, and the effect of draining a level.
\<close>

section \<open>Well-formed tables\<close>

definition table_wf :: "('e, 'z) kstate_scheme \<Rightarrow> bool" where
  "table_wf S \<longleftrightarrow> length (k_procs S) = NPROC \<and> length (k_levels S) = 2 * RSDL_LEVELS
     \<and> (k_active S = 0 \<and> k_expired S = RSDL_LEVELS \<or> k_active S = RSDL_LEVELS \<and> k_expired S = 0)
     \<and> (\<forall>q < 2 * RSDL_LEVELS. lq_wf (level_at S q))"

text \<open>All entries of all levels, in the order of the array.\<close>

definition queued :: "('e, 'z) kstate_scheme \<Rightarrow> nat option list" where
  "queued S = concat (map lq_list (k_levels S))"

definition lv_inv :: "('e, 'z) kstate_scheme \<Rightarrow> bool" where
  "lv_inv S \<longleftrightarrow> table_wf S \<and> distinct (queued S) \<and> set (queued S) \<subseteq> Some ` {..<NPROC}"

lemma lv_invD:
  assumes "lv_inv S"
  shows "length (k_procs S) = NPROC" "length (k_levels S) = 2 * RSDL_LEVELS"
    "q < 2 * RSDL_LEVELS \<Longrightarrow> lq_wf (level_at S q)" "distinct (queued S)"
    "set (queued S) \<subseteq> Some ` {..<NPROC}"
    "k < RSDL_LEVELS \<Longrightarrow> k_active S + k < 2 * RSDL_LEVELS"
    "k < RSDL_LEVELS \<Longrightarrow> k_expired S + k < 2 * RSDL_LEVELS"
  using assms by (auto simp: lv_inv_def table_wf_def)

lemma table_wf_upd_level:
  assumes "table_wf S" "lq_wf (f (level_at S q))"
  shows "table_wf (upd_level q f S)"
proof -
  have "lq_wf (level_at (upd_level q f S) r)" if "r < 2 * RSDL_LEVELS" for r
    using assms that by (cases "r = q") (simp_all add: table_wf_def)
  with assms show ?thesis by (simp add: table_wf_def)
qed

lemma queued_upd_proc [simp]: "queued (upd_proc p f S) = queued S"
  by (simp add: queued_def)

lemma lv_inv_upd_proc [simp]: "lv_inv (upd_proc p f S) = lv_inv S"
  by (simp add: lv_inv_def table_wf_def)

lemma in_queued: "x \<in> set (queued S) \<longleftrightarrow> (\<exists>q < length (k_levels S). x \<in> set (lq_list (level_at S q)))"
  by (simp add: queued_def Bex_def in_set_conv_nth [of _ "k_levels S"]) blast

text \<open>A process is in one level only.\<close>

lemma queued_unique:
  assumes "distinct (queued S)" "q < length (k_levels S)" "r < length (k_levels S)"
    "x \<in> set (lq_list (level_at S q))" "x \<in> set (lq_list (level_at S r))"
  shows "q = r"
proof (rule ccontr)
  assume ne: "q \<noteq> r"
  have *: False if "i < j" "j < length (k_levels S)" "x \<in> set (lq_list (level_at S i))"
      "x \<in> set (lq_list (level_at S j))" for i j
  proof -
    have "level_at S j \<in> set (drop (Suc i) (k_levels S))"
      using that(1,2) by (auto simp: in_set_conv_nth intro!: exI [of _ "j - Suc i"])
    then have "x \<in> set (concat (map lq_list (drop (Suc i) (k_levels S))))" using that by auto
    moreover have "distinct (concat (map lq_list (take i (k_levels S))) @ lq_list (level_at S i)
        @ concat (map lq_list (drop (Suc i) (k_levels S))))"
      using assms(1) that by (simp add: queued_def concat_map_split [of i])
    ultimately show False using that(3) by auto
  qed
  from ne assms show False by (cases "q < r") (auto dest: * simp: linorder_neq_iff)
qed

lemma lq_list_distinct:
  assumes "distinct (queued S)" "q < length (k_levels S)"
  shows "distinct (lq_list (level_at S q))"
  using assms by (simp add: queued_def concat_map_split [of q])

lemma mset_queued_update:
  assumes "q < length (k_levels S)"
  shows "mset (queued (upd_level q f S)) + mset (lq_list (level_at S q))
    = mset (queued S) + mset (lq_list (f (level_at S q)))"
  using mset_concat_update [OF assms, of lq_list "f (level_at S q)"] by (simp add: queued_def upd_level_def)

text \<open>Taking a process out of a level.\<close>

lemma lv_inv_remove:
  assumes inv: "lv_inv S" and q: "q < 2 * RSDL_LEVELS" and x: "x \<in> set (lq_list (level_at S q))"
  shows "lv_inv (upd_level q (lq_remove x) S)"
    and "set (queued (upd_level q (lq_remove x) S)) = set (queued S) - {x}"
proof -
  let ?S = "upd_level q (lq_remove x) S"
  note D = lv_invD [OF inv]
  have wf: "lq_wf (level_at S q)" using D(3) q by simp
  let ?R = "mset (remove1 x (lq_list (level_at S q)))"
  have "mset (queued ?S) + mset (lq_list (level_at S q)) = mset (queued S) + ?R"
    using mset_queued_update [of q S "lq_remove x"] D(2) q wf by simp
  moreover have "mset (lq_list (level_at S q)) = add_mset x ?R"
    using x by simp
  ultimately have "mset (queued ?S) + add_mset x ?R = mset (queued S) + ?R"
    by (simp only:)
  then have "add_mset x (mset (queued ?S)) + ?R = mset (queued S) + ?R"
    by (simp only: union_mset_add_mset_left union_mset_add_mset_right)
  then have ms: "add_mset x (mset (queued ?S)) = mset (queued S)"
    by (simp only: add_right_cancel)
  have "distinct (x # queued ?S)"
    using D(4) mset_eq_imp_distinct_iff [of "x # queued ?S" "queued S"] ms by simp
  moreover have "set (x # queued ?S) = set (queued S)"
    using mset_eq_setD [of "x # queued ?S" "queued S"] ms by simp
  ultimately have d: "distinct (queued ?S)" and st: "set (queued ?S) = set (queued S) - {x}"
    by auto
  show "set (queued ?S) = set (queued S) - {x}" by (rule st)
  have "table_wf ?S"
    using inv wf by (intro table_wf_upd_level) (simp_all add: lv_inv_def)
  with d st D(5) show "lv_inv ?S" by (auto simp: lv_inv_def)
qed

text \<open>Putting a process that is in no level at the end of one: there is always room.\<close>

lemma lv_room:
  assumes inv: "lv_inv S" and q: "q < 2 * RSDL_LEVELS" and p: "p < NPROC" "Some p \<notin> set (queued S)"
  shows "lq_numproc (level_at S q) < NPROC"
proof -
  note D = lv_invD [OF inv]
  have sub: "set (lq_list (level_at S q)) \<subseteq> set (queued S)"
    using D(2) q by (auto simp: in_queued)
  have "set (lq_list (level_at S q)) \<subseteq> Some ` ({..<NPROC} - {p})"
  proof
    fix x assume "x \<in> set (lq_list (level_at S q))"
    with sub have x: "x \<in> set (queued S)" by blast
    with D(5) obtain i where "x = Some i" "i < NPROC" by blast
    with x p(2) show "x \<in> Some ` ({..<NPROC} - {p})" by auto
  qed
  then have "card (set (lq_list (level_at S q))) \<le> card (Some ` ({..<NPROC} - {p}))"
    by (intro card_mono) auto
  also have "\<dots> = card ({..<NPROC} - {p})" by (rule card_image) simp
  finally have "card (set (lq_list (level_at S q))) \<le> card ({..<NPROC} - {p})" .
  moreover have "card (set (lq_list (level_at S q))) = lq_numproc (level_at S q)"
    using D q lq_list_distinct [of S q] by (simp add: distinct_card)
  ultimately show ?thesis using p(1) by (simp add: card_Diff_singleton)
qed

lemma lv_inv_push:
  assumes inv: "lv_inv S" and q: "q < 2 * RSDL_LEVELS" and p: "p < NPROC" "Some p \<notin> set (queued S)"
  shows "lv_inv (upd_level q (lq_push (Some p)) S)"
    and "set (queued (upd_level q (lq_push (Some p)) S)) = insert (Some p) (set (queued S))"
proof -
  let ?S = "upd_level q (lq_push (Some p)) S"
  note D = lv_invD [OF inv]
  have wf: "lq_wf (level_at S q)" and room: "lq_numproc (level_at S q) < NPROC"
    using D(3) q lv_room [OF assms] by simp_all
  have "mset (queued ?S) + mset (lq_list (level_at S q)) = mset (queued S) + mset (lq_list (level_at S q) @ [Some p])"
    using mset_queued_update [of q S "lq_push (Some p)"] D(2) q lq_push_list [OF wf room] by simp
  then have ms: "mset (queued ?S) = mset (Some p # queued S)" by simp
  then have d: "distinct (queued ?S)" and st: "set (queued ?S) = insert (Some p) (set (queued S))"
    using D(4) p(2) mset_eq_imp_distinct_iff [OF ms] mset_eq_setD [OF ms] by simp_all
  show "set (queued ?S) = insert (Some p) (set (queued S))" by (rule st)
  have "table_wf ?S"
    using inv lq_push_wf [OF wf room] by (intro table_wf_upd_level) (simp_all add: lv_inv_def)
  with d st D(5) p(1) show "lv_inv ?S" by (auto simp: lv_inv_def)
qed

lemma enqueue_placed:
  assumes "lv_inv S" "level_ctx c S" "q < 2 * RSDL_LEVELS" "p < NPROC" "Some p \<notin> set (queued S)"
  shows "enqueue_proc c (Some p) (Some q) S = Inr (upd_level q (lq_push (Some p)) S)"
  using enqueue_ok [OF assms(2) lv_room [OF assms(1,3,4,5)]] .

section \<open>The level that is chosen\<close>

text \<open>
  With room everywhere, \<open>find_available_queue\<close> takes the first active level from \<open>a\<close> on
  that has quantum left, else the expired level \<open>d\<close>.
\<close>

definition tgt :: "('e, 'z) kstate_scheme \<Rightarrow> nat \<Rightarrow> nat \<Rightarrow> nat" where
  "tgt S a d = (case List.find (\<lambda>k. 0 < lq_ticks_left (level_at S (k_active S + k))) [a..<RSDL_LEVELS] of
     Some k \<Rightarrow> k_active S + k | None \<Rightarrow> k_expired S + d)"

lemma next_level_loop_find:
  "next_level_loop S s k n = (case List.find (\<lambda>k. 0 < lq_ticks_left (level_at S (s + k))
      \<and> lq_numproc (level_at S (s + k)) < NPROC) [k..<k + n] of Some j \<Rightarrow> int j | None \<Rightarrow> -1)"
proof (induction n arbitrary: k)
  case (Suc n)
  have "[k..<k + Suc n] = k # [Suc k..<Suc k + n]" by (simp add: upt_conv_Cons)
  with Suc show ?case by simp
qed simp

lemma next_level_find:
  assumes "\<And>k. k < RSDL_LEVELS \<Longrightarrow> lq_numproc (level_at S ((if ue then k_expired S else k_active S) + k)) < NPROC"
  shows "next_level (int a) ue S = (case List.find (\<lambda>k. 0 < lq_ticks_left (level_at S
      ((if ue then k_expired S else k_active S) + k))) [a..<RSDL_LEVELS] of Some j \<Rightarrow> int j | None \<Rightarrow> -1)"
proof -
  have "[a..<a + (RSDL_LEVELS - a)] = [a..<RSDL_LEVELS]" by (cases "a \<le> RSDL_LEVELS") auto
  moreover have "List.find (\<lambda>k. 0 < lq_ticks_left (level_at S (s + k)) \<and> lq_numproc (level_at S (s + k)) < NPROC) [a..<RSDL_LEVELS]
      = List.find (\<lambda>k. 0 < lq_ticks_left (level_at S (s + k))) [a..<RSDL_LEVELS]"
    if "\<And>k. k < RSDL_LEVELS \<Longrightarrow> lq_numproc (level_at S (s + k)) < NPROC" for s
    using that by (intro find_cong) auto
  ultimately show ?thesis
    using assms by (simp add: next_level_def next_level_loop_find Let_def)
qed

definition expired_fresh :: "('e, 'z) kstate_scheme \<Rightarrow> bool" where
  "expired_fresh S \<longleftrightarrow> (\<forall>k < RSDL_LEVELS. lq_ticks_left (level_at S (k_expired S + k)) = RSDL_LEVEL_QUANTUM)"

lemma find_available_tgt:
  assumes inv: "lv_inv S" and p: "p < NPROC" "Some p \<notin> set (queued S)"
    and d: "0 \<le> d" "d < int RSDL_LEVELS" and ex: "0 < lq_ticks_left (level_at S (tgt S a (nat d)))"
  shows "find_available_queue (int a) d S = Inr (tgt S a (nat d))" "tgt S a (nat d) < 2 * RSDL_LEVELS"
proof -
  note D = lv_invD [OF inv]
  let ?F = "List.find (\<lambda>k. 0 < lq_ticks_left (level_at S (k_active S + k))) [a..<RSDL_LEVELS]"
  have room: "lq_numproc (level_at S q) < NPROC" if "q < 2 * RSDL_LEVELS" for q
    by (rule lv_room [OF inv that p])
  have na: "next_active_level (int a) S = (case ?F of Some j \<Rightarrow> int j | None \<Rightarrow> -1)"
    using next_level_find [of S False a] room D(6) by (simp add: next_active_level_def)
  have ne: "next_expired_level d S = d" if "?F = None"
  proof -
    have "[nat d..<RSDL_LEVELS] = nat d # [Suc (nat d)..<RSDL_LEVELS]"
      using d by (simp add: upt_conv_Cons)
    moreover have "0 < lq_ticks_left (level_at S (k_expired S + nat d))"
      using ex that by (simp add: tgt_def)
    ultimately show ?thesis
      using next_level_find [of S True "nat d"] room D(7) d by (simp add: next_expired_level_def)
  qed
  show "find_available_queue (int a) d S = Inr (tgt S a (nat d))"
    using na ne d by (cases ?F) (auto simp: find_available_queue_def tgt_def Let_def)
  show "tgt S a (nat d) < 2 * RSDL_LEVELS"
    using d D(6,7) by (auto simp: tgt_def find_Some_iff split: option.split)
qed

lemma tgt_cong:
  assumes "k_active S = k_active T" "k_expired S = k_expired T"
    "\<And>k. k < RSDL_LEVELS \<Longrightarrow> lq_ticks_left (level_at S (k_active S + k)) = lq_ticks_left (level_at T (k_active S + k))"
  shows "tgt S a d = tgt T a d"
proof -
  have "List.find (\<lambda>k. 0 < lq_ticks_left (level_at S (k_active S + k))) [a..<RSDL_LEVELS]
      = List.find (\<lambda>k. 0 < lq_ticks_left (level_at T (k_active T + k))) [a..<RSDL_LEVELS]"
    using assms by (intro find_cong) auto
  then show ?thesis using assms(1,2) by (simp add: tgt_def split: option.split)
qed

section \<open>Draining a level\<close>

definition refill :: "nat \<Rightarrow> ('e, 'z) kstate_scheme \<Rightarrow> ('e, 'z) kstate_scheme" where
  "refill p S = upd_proc p (\<lambda>x. x\<lparr>p_ticks_left := RSDL_PROC_QUANTUM\<rparr>) S"

lemma lv_inv_refill [simp]: "lv_inv (refill p S) = lv_inv S" "queued (refill p S) = queued S"
  "k_levels (refill p S) = k_levels S" "k_active (refill p S) = k_active S"
  "k_expired (refill p S) = k_expired S" "level_ctx c (refill p S) = level_ctx c S"
  by (simp_all add: refill_def)

text \<open>
  The state \<open>S'\<close> is \<open>S\<close> after the processes \<open>xs\<close> of level \<open>q\<close> got a new quantum and
  left it, those in \<open>P\<close> to the ends of the levels \<open>T\<close> says, in their order.
\<close>

definition moved :: "('e, 'z) kstate_scheme \<Rightarrow> ('e, 'z) kstate_scheme \<Rightarrow> nat \<Rightarrow> nat list \<Rightarrow>
    (nat \<Rightarrow> bool) \<Rightarrow> (nat \<Rightarrow> nat) \<Rightarrow> bool" where
  "moved S S' q xs P T \<longleftrightarrow> lv_inv S'
     \<and> S' = S\<lparr>k_procs := k_procs S', k_levels := k_levels S'\<rparr>
     \<and> set (queued S') = set (queued S) - Some ` {x \<in> set xs. \<not> P x}
     \<and> (\<forall>i < NPROC. proc_at S' i = (if i \<in> set xs then (proc_at S i)\<lparr>p_ticks_left := RSDL_PROC_QUANTUM\<rparr> else proc_at S i))
     \<and> (\<forall>r < 2 * RSDL_LEVELS. lq_ticks_left (level_at S' r) = lq_ticks_left (level_at S r)
         \<and> lq_list (level_at S' r) = (if r = q then [] else lq_list (level_at S r) @ map Some (filter (\<lambda>x. P x \<and> T x = r) xs)))"

lemma movedD:
  assumes "moved S S' q xs P T"
  shows "lv_inv S'" "S' = S\<lparr>k_procs := k_procs S', k_levels := k_levels S'\<rparr>"
    "set (queued S') = set (queued S) - Some ` {x \<in> set xs. \<not> P x}"
    "i < NPROC \<Longrightarrow> proc_at S' i = (if i \<in> set xs then (proc_at S i)\<lparr>p_ticks_left := RSDL_PROC_QUANTUM\<rparr> else proc_at S i)"
    "r < 2 * RSDL_LEVELS \<Longrightarrow> lq_ticks_left (level_at S' r) = lq_ticks_left (level_at S r)"
    "r < 2 * RSDL_LEVELS \<Longrightarrow> r \<noteq> q \<Longrightarrow>
       lq_list (level_at S' r) = lq_list (level_at S r) @ map Some (filter (\<lambda>x. P x \<and> T x = r) xs)"
    "q < 2 * RSDL_LEVELS \<Longrightarrow> lq_list (level_at S' q) = []"
  using assms by (simp_all add: moved_def)

lemma moved_frame:
  assumes "moved S S' q xs P T"
  shows "k_active S' = k_active S" "k_expired S' = k_expired S" "cpus S' = cpus S" "locks S' = locks S"
    "k_initproc S' = k_initproc S" "k_nextpid S' = k_nextpid S" "k_ticks S' = k_ticks S"
    "k_kpgdir S' = k_kpgdir S" "k_env S' = k_env S" "level_ctx c S' = level_ctx c S"
proof -
  note eq = movedD(2) [OF assms]
  show "k_active S' = k_active S" "k_expired S' = k_expired S" "cpus S' = cpus S" "locks S' = locks S"
    "k_initproc S' = k_initproc S" "k_nextpid S' = k_nextpid S" "k_ticks S' = k_ticks S"
    "k_kpgdir S' = k_kpgdir S" "k_env S' = k_env S"
    by (subst eq, simp)+
  then show "level_ctx c S' = level_ctx c S"
    by (simp add: level_ctx_def cpu_ok_def lock_free_def)
qed

lemma moved_Nil:
  assumes "lv_inv S" "q < 2 * RSDL_LEVELS" "lq_list (level_at S q) = []"
  shows "moved S S q [] P T"
  using assms by (simp add: moved_def)

text \<open>One process more at the front.\<close>

definition head_out :: "nat \<Rightarrow> nat \<Rightarrow> ('e, 'z) kstate_scheme \<Rightarrow> ('e, 'z) kstate_scheme" where
  "head_out q x S = upd_level q (lq_remove (Some x)) (refill x S)"

lemma head_out_facts:
  assumes inv: "lv_inv S" and q: "q < 2 * RSDL_LEVELS" and l: "lq_list (level_at S q) = Some x # map Some xs"
  shows "lv_inv (head_out q x S)" "set (queued (head_out q x S)) = set (queued S) - {Some x}"
    "x < NPROC" "lq_list (level_at (head_out q x S) q) = map Some xs"
    "lq_proc (level_at S q) ! 0 = Some x" "0 < lq_numproc (level_at S q)" "x \<notin> set xs"
    "level_ctx c (head_out q x S) = level_ctx c S"
proof -
  note D = lv_invD [OF inv]
  have wf: "lq_wf (level_at S q)" using D(3) q by simp
  have x: "Some x \<in> set (lq_list (level_at (refill x S) q))" using l by simp
  show "lv_inv (head_out q x S)" "set (queued (head_out q x S)) = set (queued S) - {Some x}"
    using lv_inv_remove [of "refill x S" q "Some x"] inv q x by (simp_all add: head_out_def)
  have "Some x \<in> set (queued S)" using x q D(2) by (auto simp: in_queued)
  with D(5) show "x < NPROC" by auto
  show "lq_list (level_at (head_out q x S) q) = map Some xs"
    using D(2) q wf l by (simp add: head_out_def)
  have "lq_numproc (level_at S q) = Suc (length xs)" using l wf lq_list_length [OF wf] by simp
  then show "lq_proc (level_at S q) ! 0 = Some x" "0 < lq_numproc (level_at S q)"
    using arg_cong [OF l, of "\<lambda>ys. ys ! 0"] by (simp_all add: lq_list_def)
  show "x \<notin> set xs" using lq_list_distinct [OF D(4), of q] D(2) q l by auto
  show "level_ctx c (head_out q x S) = level_ctx c S" by (simp add: head_out_def)
qed

lemma head_out_unqueue:
  assumes inv: "lv_inv S" and q: "q < 2 * RSDL_LEVELS" and l: "lq_list (level_at S q) = Some x # map Some xs"
    and ctx: "level_ctx c S"
  obtains i where "unqueue_proc c (Some x) (Some q) (refill x S) = Inr (int i, head_out q x S)"
proof -
  have "level_ctx c (refill x S)" "lq_wf (level_at (refill x S) q)" "Some x \<in> set (lq_list (level_at (refill x S) q))"
    using lv_invD(3) [OF inv q] l ctx by simp_all
  from unqueue_ok [OF this] that show thesis by (metis head_out_def unqueue_proc_def)
qed

lemma head_out_proc:
  assumes "lv_inv S" "i < NPROC"
  shows "proc_at (head_out q x S) i = (if i = x then (proc_at S i)\<lparr>p_ticks_left := RSDL_PROC_QUANTUM\<rparr> else proc_at S i)"
  using lv_invD(1) [OF assms(1)] assms(2) by (simp add: head_out_def refill_def)

lemma head_out_level:
  assumes "lv_inv S" "r < 2 * RSDL_LEVELS"
  shows "lq_ticks_left (level_at (head_out q x S) r) = lq_ticks_left (level_at S r)"
    "r \<noteq> q \<Longrightarrow> level_at (head_out q x S) r = level_at S r"
  using lv_invD(2) [OF assms(1)] assms(2) by (cases "r = q"; simp add: head_out_def)+

lemma head_out_eq: "head_out q x S = S\<lparr>k_procs := k_procs (head_out q x S), k_levels := k_levels (head_out q x S)\<rparr>"
  by (simp add: head_out_def refill_def upd_level_def upd_proc_def)

lemma head_out_sel [simp]: "k_active (head_out q x S) = k_active S" "k_expired (head_out q x S) = k_expired S"
  by (simp_all add: head_out_def)

lemma moved_skip:
  assumes inv: "lv_inv S" and q: "q < 2 * RSDL_LEVELS" and l: "lq_list (level_at S q) = Some x # map Some xs"
    and P: "\<not> P x" and m: "moved (head_out q x S) S' q xs P T"
  shows "moved S S' q (x # xs) P T"
proof -
  note F = head_out_facts [OF inv q l] and M = movedD [OF m]
  have "S' = S\<lparr>k_procs := k_procs S', k_levels := k_levels S'\<rparr>"
    by (subst M(2), subst head_out_eq) simp
  moreover have "set (queued S') = set (queued S) - Some ` {y \<in> set (x # xs). \<not> P y}"
    using M(3) F(2) P by auto
  moreover have "\<forall>i<NPROC. proc_at S' i = (if i \<in> set (x # xs) then (proc_at S i)\<lparr>p_ticks_left := RSDL_PROC_QUANTUM\<rparr> else proc_at S i)"
    using M(4) head_out_proc [OF inv] F(7) by auto
  moreover have "\<forall>r<2 * RSDL_LEVELS. lq_ticks_left (level_at S' r) = lq_ticks_left (level_at S r)
         \<and> lq_list (level_at S' r) = (if r = q then [] else lq_list (level_at S r) @ map Some (filter (\<lambda>y. P y \<and> T y = r) (x # xs)))"
    using M(5,6,7) head_out_level [OF inv] P by simp
  ultimately show ?thesis using M(1) unfolding moved_def by blast
qed

lemma moved_place:
  assumes inv: "lv_inv S" and q: "q < 2 * RSDL_LEVELS" and l: "lq_list (level_at S q) = Some x # map Some xs"
    and P: "P x" and t: "T x < 2 * RSDL_LEVELS" "T x \<noteq> q"
    and m: "moved (upd_level (T x) (lq_push (Some x)) (head_out q x S)) S' q xs P T"
  shows "moved S S' q (x # xs) P T"
proof -
  let ?H = "head_out q x S" and ?U = "upd_level (T x) (lq_push (Some x)) (head_out q x S)"
  note F = head_out_facts [OF inv q l] and M = movedD [OF m]
  have x: "Some x \<notin> set (queued ?H)" using F(2) by simp
  note HD = lv_invD [OF F(1)]
  have mem: "Some x \<in> set (queued S)" using lv_invD(2) [OF inv] q l by (auto simp: in_queued)
  have "S' = S\<lparr>k_procs := k_procs S', k_levels := k_levels S'\<rparr>"
    by (subst M(2), simp add: upd_level_def, subst head_out_eq) simp
  moreover have "set (queued S') = set (queued S) - Some ` {y \<in> set (x # xs). \<not> P y}"
    using M(3) lv_inv_push(2) [OF F(1) t(1) F(3) x] F(2) P F(7) mem by auto
  moreover have "\<forall>i<NPROC. proc_at S' i = (if i \<in> set (x # xs) then (proc_at S i)\<lparr>p_ticks_left := RSDL_PROC_QUANTUM\<rparr> else proc_at S i)"
    using M(4) head_out_proc [OF inv] F(7) by auto
  moreover have "lq_ticks_left (level_at S' r) = lq_ticks_left (level_at S r)
         \<and> lq_list (level_at S' r) = (if r = q then [] else lq_list (level_at S r) @ map Some (filter (\<lambda>y. P y \<and> T y = r) (x # xs)))"
    if r: "r < 2 * RSDL_LEVELS" for r
  proof (cases "r = T x")
    case True
    have "lq_list (level_at ?U r) = lq_list (level_at S r) @ [Some x]"
      using True HD(2) HD(3) [OF r] r t lv_room [OF F(1) r F(3) x] head_out_level(2) [OF inv r, of q x] by (simp add: lq_push_list)
    with True show ?thesis
      using M(5,6) [OF r] head_out_level [OF inv r] HD(2) P t r by simp
  next
    case False
    then show ?thesis
      using M(5,6) [OF r] M(7) head_out_level [OF inv r] HD(2) r by simp
  qed
  ultimately show ?thesis using M(1) unfolding moved_def by blast
qed

lemma moved_cong:
  assumes "\<And>x. x \<in> set xs \<Longrightarrow> T x = T' x"
  shows "moved S S' q xs P T = moved S S' q xs P T'"
proof -
  have "filter (\<lambda>x. P x \<and> T x = r) xs = filter (\<lambda>x. P x \<and> T' x = r) xs" for r
    using assms by (intro filter_cong) auto
  then show ?thesis unfolding moved_def by simp
qed

text \<open>
  The two draining loops are one: they differ in the processes they skip and in the level
  where the search for room starts.
\<close>

fun drain :: "(nat \<Rightarrow> bool) \<Rightarrow> (proc \<Rightarrow> int) \<Rightarrow> nat \<Rightarrow> nat \<Rightarrow> nat \<Rightarrow> ('e, 'z) kstate_scheme \<Rightarrow> ('e, 'z) kstate_scheme result" where
  "drain P A c q 0 S = (if lq_numproc (level_at S q) = 0 then Inr S else Inl NoReturn)"
| "drain P A c q (Suc fuel) S =
     (if lq_numproc (level_at S q) = 0 then Inr S
      else case lq_proc (level_at S q) ! 0 of None \<Rightarrow> nullderef
      | Some x \<Rightarrow>
          bindE (unqueue_proc c (Some x) (Some q) (refill x S)) (\<lambda>(i, S1).
          if \<not> P x then drain P A c q fuel S1
          else bindE (find_available_queue (A (proc_at S1 x)) (p_default_level (proc_at S1 x)) S1) (\<lambda>nq.
               bindE (enqueue_proc c (Some x) (Some nq) S1) (drain P A c q fuel))))"

lemma migrate_drain: "migrate c p q k n S = drain (\<lambda>x. x \<noteq> p) (\<lambda>_. int k + 1) c q n S"
  for S :: "('e, 'z) kstate_scheme"
proof (induction n arbitrary: S)
  case (Suc n)
  then have "migrate c p q k n = (drain (\<lambda>x. x \<noteq> p) (\<lambda>_. int k + 1) c q n :: ('e, 'z) kstate_scheme \<Rightarrow> _)" by auto
  then show ?case by (simp add: refill_def split: option.split cong del: if_weak_cong)
qed simp

lemma requeue_all_drain: "requeue_all c q n S = drain (\<lambda>_. True) p_default_level c q n S"
  for S :: "('e, 'z) kstate_scheme"
proof (induction n arbitrary: S)
  case (Suc n)
  then have "requeue_all c q n = (drain (\<lambda>_. True) p_default_level c q n :: ('e, 'z) kstate_scheme \<Rightarrow> _)" by auto
  then show ?case by (simp add: refill_def Let_def split: option.split)
qed simp

definition drain_tgt :: "(proc \<Rightarrow> int) \<Rightarrow> ('e, 'z) kstate_scheme \<Rightarrow> nat \<Rightarrow> nat" where
  "drain_tgt A S x = tgt S (nat (A (proc_at S x))) (nat (p_default_level (proc_at S x)))"

definition drain_ok :: "(nat \<Rightarrow> bool) \<Rightarrow> (proc \<Rightarrow> int) \<Rightarrow> ('e, 'z) kstate_scheme \<Rightarrow> nat \<Rightarrow> nat list \<Rightarrow> bool" where
  "drain_ok P A S q xs \<longleftrightarrow> lv_inv S \<and> q < 2 * RSDL_LEVELS \<and> lq_list (level_at S q) = map Some xs
     \<and> (\<forall>x \<in> set xs. P x \<longrightarrow> 0 \<le> A (proc_at S x) \<and> 0 \<le> p_default_level (proc_at S x)
          \<and> p_default_level (proc_at S x) < int RSDL_LEVELS
          \<and> drain_tgt A S x \<noteq> q \<and> 0 < lq_ticks_left (level_at S (drain_tgt A S x)))"

lemma drain_frame:
  assumes "lv_inv S" "x < NPROC" "k_active S' = k_active S" "k_expired S' = k_expired S"
    "\<And>r. r < 2 * RSDL_LEVELS \<Longrightarrow> lq_ticks_left (level_at S' r) = lq_ticks_left (level_at S r)"
    "\<And>p t. A (p\<lparr>p_ticks_left := t\<rparr>) = A p"
    "proc_at S' x = proc_at S x \<or> proc_at S' x = (proc_at S x)\<lparr>p_ticks_left := t\<rparr>"
  shows "drain_tgt A S' x = drain_tgt A S x"
    "A (proc_at S' x) = A (proc_at S x)" "p_default_level (proc_at S' x) = p_default_level (proc_at S x)"
proof -
  note D = lv_invD [OF assms(1)]
  show A: "A (proc_at S' x) = A (proc_at S x)" "p_default_level (proc_at S' x) = p_default_level (proc_at S x)"
    using assms(6,7) by auto
  show "drain_tgt A S' x = drain_tgt A S x"
    unfolding drain_tgt_def A using assms(3-5) D(6) by (intro tgt_cong) auto
qed

lemma tgt_less:
  assumes "lv_inv S" "d < RSDL_LEVELS"
  shows "tgt S a d < 2 * RSDL_LEVELS"
  using assms(2) lv_invD(6,7) [OF assms(1)] by (auto simp: tgt_def find_Some_iff split: option.split)

lemma drain_tgt_less:
  assumes "lv_inv S" "0 \<le> p_default_level (proc_at S x)" "p_default_level (proc_at S x) < int RSDL_LEVELS"
  shows "drain_tgt A S x < 2 * RSDL_LEVELS"
  using assms by (simp add: drain_tgt_def tgt_less nat_less_iff)

lemma drain_ok_step:
  assumes ok: "drain_ok P A S q (x # xs)" and A: "\<And>p t. A (p\<lparr>p_ticks_left := t\<rparr>) = A p"
    and inv': "lv_inv S'" and sets: "k_active S' = k_active S" "k_expired S' = k_expired S"
    and procs: "\<And>i. i < NPROC \<Longrightarrow> proc_at S' i = proc_at (head_out q x S) i"
    and lv: "\<And>r. r < 2 * RSDL_LEVELS \<Longrightarrow> lq_ticks_left (level_at S' r) = lq_ticks_left (level_at S r)"
      "level_at S' q = level_at (head_out q x S) q"
  shows "drain_ok P A S' q xs" "\<And>y. y \<in> set (x # xs) \<Longrightarrow> drain_tgt A S' y = drain_tgt A S y"
proof -
  have inv: "lv_inv S" and q: "q < 2 * RSDL_LEVELS" and l: "lq_list (level_at S q) = Some x # map Some xs"
    using ok by (simp_all add: drain_ok_def)
  note F = head_out_facts [OF inv q l]
  have lt: "y < NPROC" if "y \<in> set (x # xs)" for y
  proof -
    have "Some y \<in> set (queued S)" using that l q lv_invD(2) [OF inv] by (auto simp: in_queued)
    then show ?thesis using lv_invD(5) [OF inv] by auto
  qed
  have fr: "drain_tgt A S' y = drain_tgt A S y"
    "A (proc_at S' y) = A (proc_at S y)" "p_default_level (proc_at S' y) = p_default_level (proc_at S y)"
    if "y \<in> set (x # xs)" for y
  proof -
    have "proc_at S' y = proc_at S y \<or> proc_at S' y = (proc_at S y)\<lparr>p_ticks_left := RSDL_PROC_QUANTUM\<rparr>"
      using procs [OF lt [OF that]] head_out_proc [OF inv lt [OF that], of q x] by simp
    note * = drain_frame [of S y S', OF inv lt [OF that] sets lv(1) A this]
    show "drain_tgt A S' y = drain_tgt A S y"
      "A (proc_at S' y) = A (proc_at S y)" "p_default_level (proc_at S' y) = p_default_level (proc_at S y)"
      by (rule *; assumption?)+
  qed
  then show "\<And>y. y \<in> set (x # xs) \<Longrightarrow> drain_tgt A S' y = drain_tgt A S y" by blast
  have "0 < lq_ticks_left (level_at S' (drain_tgt A S y))" if "y \<in> set xs" "P y" for y
    using ok that lv(1) [OF drain_tgt_less [OF inv]] by (simp add: drain_ok_def)
  then show "drain_ok P A S' q xs"
    using ok inv' q F(4) fr lv(2) by (simp add: drain_ok_def)
qed

lemma drain_spec:
  assumes A: "\<And>p t. A (p\<lparr>p_ticks_left := t\<rparr>) = A p"
    and ok: "drain_ok P A S q xs" and ctx: "level_ctx c S" and n: "length xs \<le> n"
  shows "\<exists>S'. drain P A c q n S = Inr S' \<and> moved S S' q xs P (drain_tgt A S)"
  using ok ctx n
proof (induction xs arbitrary: S n)
  case Nil
  then have "lv_inv S" "q < 2 * RSDL_LEVELS" "lq_list (level_at S q) = []" by (simp_all add: drain_ok_def)
  moreover from this have "lq_numproc (level_at S q) = 0" using lq_list_length lv_invD(3) by fastforce
  ultimately show ?case using moved_Nil by (cases n) auto
next
  case (Cons x xs)
  obtain m where n: "n = Suc m" "length xs \<le> m" using Cons.prems(3) by (cases n) auto
  have inv: "lv_inv S" and q: "q < 2 * RSDL_LEVELS" and l: "lq_list (level_at S q) = Some x # map Some xs"
    using Cons.prems(1) by (simp_all add: drain_ok_def)
  let ?H = "head_out q x S" and ?t = "drain_tgt A S x"
  note F = head_out_facts [OF inv q l] and okstep = drain_ok_step [OF Cons.prems(1) A]
  obtain i where un: "unqueue_proc c (Some x) (Some q) (refill x S) = Inr (int i, ?H)"
    by (rule head_out_unqueue [OF inv q l Cons.prems(2)])
  note H = okstep [OF F(1) head_out_sel refl head_out_level(1) [OF inv] refl]
  show ?case
  proof (cases "P x")
    case False
    obtain S' where S': "drain P A c q m ?H = Inr S'" "moved ?H S' q xs P (drain_tgt A ?H)"
      using Cons.IH [OF H(1) _ n(2)] F(8) [of c] Cons.prems(2) by auto
    then have "moved ?H S' q xs P (drain_tgt A S)" 
      by (subst moved_cong [of xs _ "drain_tgt A ?H"]) (simp_all add: H(2))
    from moved_skip [OF inv q l False this] S'(1) un F(5,6) False show ?thesis by (simp add: n)
  next
    case True
    have x: "Some x \<notin> set (queued ?H)" using F(2) by simp
    have pr: "0 \<le> A (proc_at ?H x)" "0 \<le> p_default_level (proc_at ?H x)" "p_default_level (proc_at ?H x) < int RSDL_LEVELS"
      "?t \<noteq> q" "0 < lq_ticks_left (level_at S ?t)" using Cons.prems(1) True A head_out_proc [OF inv F(3), of q x] by (simp_all add: drain_ok_def)
    have "?t < 2 * RSDL_LEVELS"
      using drain_tgt_less [OF inv, of x A] Cons.prems(1) True by (simp add: drain_ok_def)
    then have "0 < lq_ticks_left (level_at ?H (drain_tgt A ?H x))"
      using H(2) [of x] pr(5) head_out_level(1) [OF inv] by simp
    then have "find_available_queue (A (proc_at ?H x)) (p_default_level (proc_at ?H x)) ?H = Inr (drain_tgt A ?H x)"
        "drain_tgt A ?H x < 2 * RSDL_LEVELS"
      using find_available_tgt [OF F(1) F(3) x pr(2,3), of "nat (A (proc_at ?H x))"] pr(1) by (simp_all add: drain_tgt_def)
    with H(2) [of x]
    have fa: "find_available_queue (A (proc_at ?H x)) (p_default_level (proc_at ?H x)) ?H = Inr ?t" "?t < 2 * RSDL_LEVELS"
      by simp_all
    let ?U = "upd_level ?t (lq_push (Some x)) ?H"
    have en: "enqueue_proc c (Some x) (Some ?t) ?H = Inr ?U"
      using enqueue_placed [OF F(1) _ fa(2) F(3) x] F(8) Cons.prems(2) by blast
    have ut: "lq_ticks_left (level_at ?U r) = lq_ticks_left (level_at S r)" if "r < 2 * RSDL_LEVELS" for r
      using that head_out_level(1) [OF inv that, of q x] lv_invD(2) [OF F(1)] by (cases "r = ?t") simp_all
    note U = okstep [of ?U, OF lv_inv_push(1) [OF F(1) fa(2) F(3) x] _ _ _ ut]
    have Uok: "drain_ok P A ?U q xs" "\<And>y. y \<in> set (x # xs) \<Longrightarrow> drain_tgt A ?U y = drain_tgt A S y"
      using U pr(4) by simp_all
    obtain S' where S': "drain P A c q m ?U = Inr S'" "moved ?U S' q xs P (drain_tgt A ?U)"
      using Cons.IH [OF Uok(1) _ n(2)] F(8) [of c] Cons.prems(2) by auto
    then have "moved ?U S' q xs P (drain_tgt A S)" 
      by (subst moved_cong [of xs _ "drain_tgt A ?U"]) (simp_all add: Uok(2))
    from moved_place [OF inv q l True fa(2) pr(4) this] S'(1) un fa(1) en F(5,6) True show ?thesis by (simp add: n)
  qed
qed

end
