(* ===== verification/Staircase.thy ===== *)
theory Staircase
  imports SchedFacts
begin

text \<open>
  The branches of \<open>scheduler\<close> as operations on lists of processes: where the
  processes of a depleted level go, where the process that ran goes while its level has
  quantum left, which process is chosen, and what the exchange of the two sets leaves.
\<close>

section \<open>The target level\<close>

lemma tgt_open:
  assumes "expired_fresh S" "d < RSDL_LEVELS"
  shows "0 < lq_ticks_left (level_at S (tgt S a d))"
  using assms by (auto simp: tgt_def find_Some_iff expired_fresh_def split: option.split)

lemma tgt_below:
  assumes "lv_inv S" "k < RSDL_LEVELS" "d < RSDL_LEVELS"
  shows "tgt S (Suc k) d \<noteq> k_active S + k"
proof -
  have "k_active S = 0 \<and> k_expired S = RSDL_LEVELS \<or> k_active S = RSDL_LEVELS \<and> k_expired S = 0"
    using assms(1) by (simp add: lv_inv_def table_wf_def)
  with assms(2,3) show ?thesis by (auto simp: tgt_def find_Some_iff split: option.split)
qed

lemma tgt_here:
  assumes "a < RSDL_LEVELS" "0 < lq_ticks_left (level_at S (k_active S + a))"
  shows "tgt S a d = k_active S + a"
  using assms by (simp add: tgt_def upt_conv_Cons)

lemma tgt_expired_iff:
  assumes "lv_inv S" "d < RSDL_LEVELS"
  shows "is_expired_set S (tgt S a d) \<longleftrightarrow> (\<forall>k \<in> {a..<RSDL_LEVELS}. lq_ticks_left (level_at S (k_active S + k)) \<le> 0)"
proof -
  have sets: "k_active S = 0 \<and> k_expired S = RSDL_LEVELS \<or> k_active S = RSDL_LEVELS \<and> k_expired S = 0"
    using assms(1) by (simp add: lv_inv_def table_wf_def)
  show ?thesis
  proof (cases "List.find (\<lambda>k. 0 < lq_ticks_left (level_at S (k_active S + k))) [a..<RSDL_LEVELS]")
    case None
    then have "tgt S a d = k_expired S + d" by (simp add: tgt_def)
    moreover have "\<forall>k \<in> {a..<RSDL_LEVELS}. lq_ticks_left (level_at S (k_active S + k)) \<le> 0"
      using None by (auto simp: find_None_iff not_less)
    ultimately show ?thesis using sets assms(2) by (auto simp: is_expired_set_def is_active_set_def)
  next
    case (Some k)
    then have "k < RSDL_LEVELS" "a \<le> k" "0 < lq_ticks_left (level_at S (k_active S + k))"
      by (auto simp: find_Some_iff)
    moreover have "tgt S a d = k_active S + k" using Some by (simp add: tgt_def)
    ultimately show ?thesis using sets by (auto simp: is_expired_set_def is_active_set_def not_le intro!: bexI [of _ k])
  qed
qed

section \<open>A level whose quantum is used up\<close>

lemma moved_append:
  assumes inv: "lv_inv S" and m: "moved S S1 q xs (\<lambda>x. x \<noteq> p) T" and p: "p \<in> set xs" "distinct xs" "Some p \<in> set (queued S)"
    and t: "T p < 2 * RSDL_LEVELS" "T p \<noteq> q" and q: "q < 2 * RSDL_LEVELS"
  shows "moved S (upd_level (T p) (lq_push (Some p)) S1) q (remove1 p xs @ [p]) (\<lambda>_. True) T"
proof -
  note M = movedD [OF m] and D1 = lv_invD [OF movedD(1) [OF m]]
  let ?S2 = "upd_level (T p) (lq_push (Some p)) S1"
  have pn: "p < NPROC" using p(3) lv_invD(5) [OF inv] by auto
  have out: "Some p \<notin> set (queued S1)" using M(3) p(1) by auto
  have rem: "remove1 p xs = filter (\<lambda>x. x \<noteq> p) xs"
    using p(2) by (simp add: distinct_remove1_removeAll removeAll_filter_not_eq eq_commute)
  have st: "set (remove1 p xs @ [p]) = set xs" using p(1) rem by auto
  have "?S2 = S\<lparr>k_procs := k_procs ?S2, k_levels := k_levels ?S2\<rparr>"
    by (simp add: upd_level_def, subst M(2)) simp
  moreover have "set (queued ?S2) = set (queued S) - Some ` {y \<in> set (remove1 p xs @ [p]). \<not> True}"
    using M(3) lv_inv_push(2) [OF M(1) t(1) pn out] p(3) by auto
  moreover have "\<forall>i<NPROC. proc_at ?S2 i = (if i \<in> set (remove1 p xs @ [p]) then (proc_at S i)\<lparr>p_ticks_left := RSDL_PROC_QUANTUM\<rparr> else proc_at S i)"
    using M(4) unfolding st by simp
  moreover have "lq_ticks_left (level_at ?S2 r) = lq_ticks_left (level_at S r)
         \<and> lq_list (level_at ?S2 r) = (if r = q then [] else lq_list (level_at S r) @ map Some (filter (\<lambda>y. True \<and> T y = r) (remove1 p xs @ [p])))"
    if r: "r < 2 * RSDL_LEVELS" for r
  proof (cases "r = T p")
    case True
    have "lq_list (level_at ?S2 r) = lq_list (level_at S1 r) @ [Some p]"
      using True D1(2) D1(3) [OF r] r lv_room [OF M(1) r pn out] by (simp add: lq_push_list)
    with True show ?thesis using M(5,6) [OF r] t r D1(2) rem by (simp add: conj_commute)
  next
    case False
    then show ?thesis using M(5,6) [OF r] M(7) [OF q] r D1(2) rem by (simp add: conj_commute)
  qed
  ultimately show ?thesis using lv_inv_push(1) [OF M(1) t(1) pn out] unfolding moved_def by blast
qed

text \<open>The levels below \<open>k\<close> that the processes of level \<open>k\<close> fall to.\<close>

definition step_down :: "nat \<Rightarrow> ('e, 'z) kstate_scheme \<Rightarrow> nat \<Rightarrow> nat" where
  "step_down k S x = tgt S (Suc k) (nat (p_default_level (proc_at S x)))"

lemma drain_tgt_below [simp]: "drain_tgt (\<lambda>_. int k + 1) S = step_down k S"
  by (rule ext) (simp add: drain_tgt_def step_down_def nat_add_distrib)

definition default_ok :: "('e, 'z) kstate_scheme \<Rightarrow> nat \<Rightarrow> bool" where
  "default_ok S x \<longleftrightarrow> 0 \<le> p_default_level (proc_at S x) \<and> p_default_level (proc_at S x) < int RSDL_LEVELS"

lemma step_down_facts:
  assumes "lv_inv S" "expired_fresh S" "k < RSDL_LEVELS" "default_ok S x"
  shows "step_down k S x < 2 * RSDL_LEVELS" "step_down k S x \<noteq> k_active S + k"
    "0 < lq_ticks_left (level_at S (step_down k S x))"
  using assms by (simp_all add: step_down_def default_ok_def tgt_less tgt_below tgt_open nat_less_iff)

lemma migrate_spec:
  assumes inv: "lv_inv S" "expired_fresh S" and k: "k < RSDL_LEVELS" and ctx: "level_ctx c S"
    and l: "lq_list (level_at S (k_active S + k)) = map Some xs" and d: "\<forall>x \<in> set xs. default_ok S x"
  shows "\<exists>S'. migrate c p (k_active S + k) k NPROC S = Inr S'
    \<and> moved S S' (k_active S + k) xs (\<lambda>x. x \<noteq> p) (step_down k S)"
proof -
  have q: "k_active S + k < 2 * RSDL_LEVELS" by (rule lv_invD(6) [OF inv(1) k])
  have "drain_ok (\<lambda>x. x \<noteq> p) (\<lambda>_. int k + 1) S (k_active S + k) xs"
    using inv(1) q l d step_down_facts [OF inv k] by (simp add: drain_ok_def default_ok_def)
  moreover have "length xs \<le> NPROC"
    using arg_cong [OF l, of length] lv_invD(3) [OF inv(1) q] by (simp add: lq_wf_def)
  ultimately show ?thesis
    using drain_spec [of "\<lambda>_. int k + 1" "\<lambda>x. x \<noteq> p" S "k_active S + k" xs c NPROC] ctx by (simp add: migrate_drain)
qed

lemma level_depleted_spec:
  assumes inv: "lv_inv S" "expired_fresh S" and k: "k < RSDL_LEVELS" and ctx: "level_ctx c S"
    and l: "lq_list (level_at S (k_active S + k)) = map Some xs" and d: "\<forall>x \<in> set xs. default_ok S x"
    and p: "p_state (proc_at S p) \<noteq> ZOMBIE" "p \<in> set xs"
  shows "\<exists>S'. level_depleted c p (k_active S + k) k S = Inr S'
    \<and> moved S S' (k_active S + k) (remove1 p xs @ [p]) (\<lambda>_. True) (step_down k S)"
proof -
  have q: "k_active S + k < 2 * RSDL_LEVELS" by (rule lv_invD(6) [OF inv(1) k])
  have mem: "Some p \<in> set (queued S)" using l p(2) q lv_invD(2) [OF inv(1)] by (auto simp: in_queued)
  then have pn: "p < NPROC" using lv_invD(5) [OF inv(1)] by auto
  have dist: "distinct xs"
    using lq_list_distinct [OF lv_invD(4) [OF inv(1)]] q lv_invD(2) [OF inv(1)] l by (metis distinct_map)
  have dp: "default_ok S p" using d p(2) by blast
  note t = step_down_facts [OF inv k dp]
  obtain S1 where S1: "migrate c p (k_active S + k) k NPROC S = Inr S1"
    "moved S S1 (k_active S + k) xs (\<lambda>x. x \<noteq> p) (step_down k S)"
    using migrate_spec [OF inv k ctx l d] by blast
  note M = movedD [OF S1(2)] and Fr = moved_frame [OF S1(2)]
  have pe: "p_state (proc_at S1 p) = p_state (proc_at S p)" "p_default_level (proc_at S1 p) = p_default_level (proc_at S p)"
    using M(4) [OF pn] by simp_all
  have out: "Some p \<notin> set (queued S1)" using M(3) p(2) by auto
  have te: "step_down k S1 p = step_down k S p"
    unfolding step_down_def pe using Fr M(5) lv_invD(6) [OF inv(1)] by (intro tgt_cong) simp_all
  have "0 < lq_ticks_left (level_at S1 (step_down k S1 p))" using te t M(5) [OF t(1)] by simp
  then have "find_available_queue (int (Suc k)) (p_default_level (proc_at S1 p)) S1 = Inr (step_down k S p)"
    using find_available_tgt(1) [OF M(1) pn out, of "p_default_level (proc_at S1 p)" "Suc k"] dp pe te
    by (simp add: default_ok_def step_down_def)
  moreover have "enqueue_proc c (Some p) (Some (step_down k S p)) S1 = Inr (upd_level (step_down k S p) (lq_push (Some p)) S1)"
    using enqueue_placed [OF M(1) _ t(1) pn out] ctx Fr by simp
  ultimately have "level_depleted c p (k_active S + k) k S = Inr (upd_level (step_down k S p) (lq_push (Some p)) S1)"
    using S1(1) p(1) pe by (simp add: level_depleted_def add.commute)
  with moved_append [OF inv(1) S1(2) p(2) dist mem t(1,2) q] show ?thesis by blast
qed

lemma level_depleted_zombie:
  assumes inv: "lv_inv S" "expired_fresh S" and k: "k < RSDL_LEVELS" and ctx: "level_ctx c S"
    and l: "lq_list (level_at S (k_active S + k)) = map Some xs" and d: "\<forall>x \<in> set xs. default_ok S x"
    and p: "p_state (proc_at S p) = ZOMBIE" "p \<notin> set xs" "p < NPROC"
  shows "\<exists>S'. level_depleted c p (k_active S + k) k S = Inr S'
    \<and> moved S S' (k_active S + k) xs (\<lambda>_. True) (step_down k S)"
proof -
  obtain S1 where S1: "migrate c p (k_active S + k) k NPROC S = Inr S1"
    "moved S S1 (k_active S + k) xs (\<lambda>x. x \<noteq> p) (step_down k S)"
    using migrate_spec [OF inv k ctx l d] by blast
  have "p_state (proc_at S1 p) = ZOMBIE" using movedD(4) [OF S1(2) p(3)] p(1) by simp
  moreover have "moved S S1 (k_active S + k) xs (\<lambda>_. True) (step_down k S)"
  proof -
    have "filter (\<lambda>x. x \<noteq> p \<and> step_down k S x = r) xs = filter (\<lambda>x. True \<and> step_down k S x = r) xs" for r
      using p(2) by (intro filter_cong) auto
    moreover have "{x \<in> set xs. \<not> x \<noteq> p} = {x \<in> set xs. \<not> True}" using p(2) by auto
    ultimately have "moved S S1 (k_active S + k) xs (\<lambda>x. x \<noteq> p) (step_down k S)
        = moved S S1 (k_active S + k) xs (\<lambda>_. True) (step_down k S)" unfolding moved_def by (simp only:)
    then show ?thesis using S1(2) by simp
  qed
  ultimately show ?thesis using S1(1) by (simp add: level_depleted_def)
qed

section \<open>A level that has quantum left\<close>

text \<open>Where the process that ran goes, and what it has left of its quantum.\<close>

definition alive_tgt :: "nat \<Rightarrow> ('e, 'z) kstate_scheme \<Rightarrow> nat \<Rightarrow> nat" where
  "alive_tgt k S p = (if p_ticks_left (proc_at S p) \<le> 0 then step_down k S p else k_active S + k)"

definition alive_refill :: "('e, 'z) kstate_scheme \<Rightarrow> nat \<Rightarrow> ('e, 'z) kstate_scheme" where
  "alive_refill S p = (if p_ticks_left (proc_at S p) \<le> 0 then refill p S else S)"

lemma alive_refill_sel [simp]: "k_levels (alive_refill S p) = k_levels S" "k_active (alive_refill S p) = k_active S"
  "k_expired (alive_refill S p) = k_expired S" "lv_inv (alive_refill S p) = lv_inv S"
  "queued (alive_refill S p) = queued S" "level_ctx c (alive_refill S p) = level_ctx c S"
  by (simp_all add: alive_refill_def)

lemma refill_id:
  assumes "p < length (k_procs S)" "p_ticks_left (proc_at S p) = RSDL_PROC_QUANTUM"
  shows "refill p S = S"
proof -
  have "(proc_at S p)\<lparr>p_ticks_left := RSDL_PROC_QUANTUM\<rparr> = proc_at S p"
    unfolding assms(2) [symmetric] by simp
  then show ?thesis by (simp add: refill_def upd_proc_def)
qed

lemma level_alive_spec:
  assumes inv: "lv_inv S" "expired_fresh S" and k: "k < RSDL_LEVELS" and ctx: "level_ctx c S"
    and ticks: "0 < lq_ticks_left (level_at S (k_active S + k))"
    and mem: "Some p \<in> set (lq_list (level_at S (k_active S + k)))" and st: "p_state (proc_at S p) \<noteq> ZOMBIE"
    and d: "default_ok S p"
  shows "level_alive c p (k_active S + k) k S = Inr (upd_level (alive_tgt k S p) (lq_push (Some p))
           (upd_level (k_active S + k) (lq_remove (Some p)) (alive_refill S p)))"
proof -
  let ?q = "k_active S + k" and ?R = "alive_refill S p"
  let ?H = "upd_level ?q (lq_remove (Some p)) ?R"
  let ?nk = "if p_ticks_left (proc_at S p) \<le> 0 then Suc k else k"
  have q: "?q < 2 * RSDL_LEVELS" by (rule lv_invD(6) [OF inv(1) k])
  have inq: "Some p \<in> set (queued S)" using mem q lv_invD(2) [OF inv(1)] by (auto simp: in_queued)
  then have pn: "p < NPROC" using lv_invD(5) [OF inv(1)] by auto
  have H: "lv_inv ?H" "Some p \<notin> set (queued ?H)"
    using lv_inv_remove [of ?R ?q "Some p"] inv(1) q mem by simp_all
  have wf: "lq_wf (level_at S ?q)" and num: "0 < lq_numproc (level_at S ?q)"
    using length_pos_if_in_set [OF mem] lv_invD(3) [OF inv(1) q] by simp_all
  obtain i where un: "unqueue_proc c (Some p) (Some ?q) ?R = Inr (int i, ?H)"
    using unqueue_ok [of c ?R ?q "Some p" False] ctx wf mem by (auto simp: unqueue_proc_def)
  have pe: "p_default_level (proc_at ?H p) = p_default_level (proc_at S p)"
    "p_state (proc_at ?R p) = p_state (proc_at S p)"
    using pn lv_invD(1) [OF inv(1)] by (simp_all add: alive_refill_def refill_def)
  have lt: "lq_ticks_left (level_at ?H r) = lq_ticks_left (level_at S r)" if "r < 2 * RSDL_LEVELS" for r
    using that lv_invD(2) [OF inv(1)] by (cases "r = ?q") simp_all
  have te: "tgt ?H ?nk (nat (p_default_level (proc_at S p))) = alive_tgt k S p"
  proof -
    have "tgt ?H ?nk (nat (p_default_level (proc_at S p))) = tgt S ?nk (nat (p_default_level (proc_at S p)))"
      using lt lv_invD(6) [OF inv(1)] by (intro tgt_cong) simp_all
    then show ?thesis using tgt_here [OF k ticks] by (simp add: alive_tgt_def step_down_def)
  qed
  have t: "alive_tgt k S p < 2 * RSDL_LEVELS" "0 < lq_ticks_left (level_at S (alive_tgt k S p))"
    using step_down_facts [OF inv k d] q ticks by (simp_all add: alive_tgt_def)
  have fa: "find_available_queue (int ?nk) (p_default_level (proc_at ?H p)) ?H = Inr (alive_tgt k S p)"
    using find_available_tgt(1) [OF H(1) pn H(2), of "p_default_level (proc_at S p)" ?nk] d te t lt
    by (simp only: pe default_ok_def)
  have re: "refill p ?H = ?H" if "is_expired_set ?H (alive_tgt k S p)"
  proof -
    have "p_ticks_left (proc_at S p) \<le> 0"
      using that k by (simp add: alive_tgt_def is_expired_set_def is_active_set_def split: if_splits)
    then show ?thesis
      using pn lv_invD(1) [OF inv(1)] by (intro refill_id) (simp_all add: alive_refill_def refill_def)
  qed
  have en: "enqueue_proc c (Some p) (Some (alive_tgt k S p)) ?H = Inr (upd_level (alive_tgt k S p) (lq_push (Some p)) ?H)"
    using enqueue_placed [OF H(1) _ t(1) pn H(2)] ctx by simp
  have "level_alive c p ?q k S = (if lq_numproc (level_at ?R ?q) > 0 \<and> p_state (proc_at ?R p) \<noteq> ZOMBIE
         then bindE (unqueue_proc c (Some p) (Some ?q) ?R) (\<lambda>(prev_idx, S2).
              if prev_idx = -1 then panic ''re-enqueue of proc failed''
              else bindE (find_available_queue (int ?nk) (p_default_level (proc_at S2 p)) S2) (\<lambda>nq.
                enqueue_proc c (Some p) (Some nq) (if is_expired_set S2 nq then refill p S2 else S2)))
         else Inr ?R)"
    by (simp add: level_alive_def alive_refill_def refill_def Let_def add.commute cong del: if_weak_cong)
  then show ?thesis using un fa en re st pe num by simp
qed

section \<open>The choice of the next process\<close>

definition procs_of :: "('e, 'z) kstate_scheme \<Rightarrow> nat \<Rightarrow> nat list" where
  "procs_of S q = map the (lq_list (level_at S q))"

lemma procs_of_list:
  assumes "lv_inv S" "q < 2 * RSDL_LEVELS"
  shows "lq_list (level_at S q) = map Some (procs_of S q)"
proof -
  have "Some (the x) = x" if "x \<in> set (lq_list (level_at S q))" for x
  proof -
    have "x \<in> set (queued S)" using that assms(2) lv_invD(2) [OF assms(1)] by (auto simp: in_queued)
    then show ?thesis using lv_invD(5) [OF assms(1)] by auto
  qed
  then show ?thesis by (simp add: procs_of_def map_idI)
qed

lemma procs_of_map: "lq_list (level_at S q) = map Some xs \<Longrightarrow> procs_of S q = xs"
  by (simp add: procs_of_def comp_def)

lemma in_queued_procs:
  assumes "lv_inv S"
  shows "Some p \<in> set (queued S) \<longleftrightarrow> (\<exists>q < 2 * RSDL_LEVELS. p \<in> set (procs_of S q))"
  using lv_invD(2) [OF assms] procs_of_list [OF assms] by (auto simp: in_queued)

definition pickable :: "('e, 'z) kstate_scheme \<Rightarrow> nat \<Rightarrow> bool" where
  "pickable S p \<longleftrightarrow> p_state (proc_at S p) = RUNNABLE \<and> 0 < p_ticks_left (proc_at S p)"

text \<open>The order in which the scheduler looks at the processes, each with its level.\<close>

definition candidates :: "nat \<Rightarrow> ('e, 'z) kstate_scheme \<Rightarrow> (nat \<times> nat) list" where
  "candidates k S = concat (map (\<lambda>j. if 0 < lq_ticks_left (level_at S (k_active S + j))
     then map (\<lambda>p. (p, j)) (procs_of S (k_active S + j)) else []) [k..<RSDL_LEVELS])"

definition choice :: "nat \<Rightarrow> ('e, 'z) kstate_scheme \<Rightarrow> (nat \<times> nat \<times> nat) option" where
  "choice k S = map_option (\<lambda>(p, j). (p, k_active S + j, j)) (List.find (\<lambda>(p, j). pickable S p) (candidates k S))"

lemma find_append: "List.find P (xs @ ys) = (case List.find P xs of None \<Rightarrow> List.find P ys | Some x \<Rightarrow> Some x)"
  by (induction xs) simp_all

lemma find_map_pair: "List.find (\<lambda>(p, j). P p) (map (\<lambda>p. (p, k)) xs) = map_option (\<lambda>p. (p, k)) (List.find P xs)"
  by (induction xs) simp_all

lemma pick_in_level_find: "pick_in_level S (map Some xs) = Inr (List.find (pickable S) xs)"
  by (induction xs) (simp_all add: pickable_def)

lemma pickable_cong: "k_procs S = k_procs T \<Longrightarrow> pickable S = pickable T"
  by (simp add: pickable_def fun_eq_iff)

lemma pick_level:
  assumes ctx: "level_ctx c S" and inv: "lv_inv S" and k: "k < RSDL_LEVELS" and t: "0 < lq_ticks_left (level_at S (k_active S + k))"
  shows "pick_levels c k (Suc n) S = (case List.find (pickable S) (procs_of S (k_active S + k)) of
      Some p \<Rightarrow> Inr (Some (p, k_active S + k, k), S) | None \<Rightarrow> pick_levels c (Suc k) n S)"
proof -
  let ?q = "k_active S + k"
  obtain S1 where S1: "acquire c (LevelLock ?q) S = Inr S1" "k_levels S1 = k_levels S" "release c (LevelLock ?q) S1 = Inr S"
      "k_procs S1 = k_procs S" by (rule locked_section [OF ctx, of ?q 0])
  have "pick_in_level S1 (lq_list (level_at S1 ?q)) = Inr (List.find (pickable S) (procs_of S ?q))"
    using procs_of_list [OF inv lv_invD(6) [OF inv k]] S1(2) pickable_cong [OF S1(4)] by (simp add: pick_in_level_find)
  then show ?thesis using S1 t by (simp add: Let_def split: option.split)
qed

lemma pick_levels_choice:
  assumes "level_ctx c S" "lv_inv S" "k + n = RSDL_LEVELS"
  shows "pick_levels c k n S = Inr (choice k S, S)"
  using assms(3)
proof (induction n arbitrary: k)
  case 0
  then show ?case by (simp add: choice_def candidates_def)
next
  case (Suc n)
  have k: "k < RSDL_LEVELS" and up: "[k..<RSDL_LEVELS] = k # [Suc k..<RSDL_LEVELS]"
    using Suc.prems by (simp_all add: upt_conv_Cons)
  have IH: "pick_levels c (Suc k) n S = Inr (choice (Suc k) S, S)" using Suc by simp
  have cand: "candidates k S = (if 0 < lq_ticks_left (level_at S (k_active S + k))
     then map (\<lambda>p. (p, k)) (procs_of S (k_active S + k)) else []) @ candidates (Suc k) S"
    by (simp add: candidates_def up)
  show ?case
  proof (cases "0 < lq_ticks_left (level_at S (k_active S + k))")
    case True
    with pick_level [OF assms(1,2) k True, of n] IH show ?thesis
      by (auto simp: choice_def cand find_append find_map_pair simp del: pick_levels.simps split: option.split)
  next
    case False
    then show ?thesis using IH by (simp add: choice_def cand)
  qed
qed

section \<open>The exchange of the sets\<close>

text \<open>
  \<open>S'\<close> is \<open>S\<close> after the levels \<open>k \<dots> k + n - 1\<close> of the expired set were emptied into the
  active one, each process to the end of its own level, and got their quantum back.
\<close>

definition rotated :: "('e, 'z) kstate_scheme \<Rightarrow> ('e, 'z) kstate_scheme \<Rightarrow> nat \<Rightarrow> nat \<Rightarrow> bool" where
  "rotated S S' k n \<longleftrightarrow> (let A = k_active S; E = k_expired S; ys = concat (map (\<lambda>j. procs_of S (E + j)) [k..<k + n])
     in lv_inv S' \<and> S' = S\<lparr>k_procs := k_procs S', k_levels := k_levels S'\<rparr> \<and> set (queued S') = set (queued S)
     \<and> (\<forall>i < NPROC. proc_at S' i = (if i \<in> set ys then (proc_at S i)\<lparr>p_ticks_left := RSDL_PROC_QUANTUM\<rparr> else proc_at S i))
     \<and> (\<forall>j < RSDL_LEVELS. lq_ticks_left (level_at S' (A + j)) = lq_ticks_left (level_at S (A + j))
          \<and> procs_of S' (A + j) = procs_of S (A + j) @ filter (\<lambda>x. p_default_level (proc_at S x) = int j) ys
          \<and> (if k \<le> j \<and> j < k + n
             then lq_ticks_left (level_at S' (E + j)) = RSDL_LEVEL_QUANTUM \<and> procs_of S' (E + j) = []
             else lq_ticks_left (level_at S' (E + j)) = lq_ticks_left (level_at S (E + j))
                \<and> procs_of S' (E + j) = procs_of S (E + j))))"

definition swap_ok :: "('e, 'z) kstate_scheme \<Rightarrow> bool" where
  "swap_ok S \<longleftrightarrow> lv_inv S \<and> (\<forall>j < RSDL_LEVELS. 0 < lq_ticks_left (level_at S (k_active S + j)))
     \<and> (\<forall>x. Some x \<in> set (queued S) \<longrightarrow> default_ok S x)"

definition set_quantum :: "nat \<Rightarrow> ('e, 'z) kstate_scheme \<Rightarrow> ('e, 'z) kstate_scheme" where
  "set_quantum q S = upd_level q (\<lambda>x. x\<lparr>lq_ticks_left := RSDL_LEVEL_QUANTUM\<rparr>) S"

lemma set_quantum_facts:
  assumes "lv_inv S" "q < 2 * RSDL_LEVELS"
  shows "lv_inv (set_quantum q S)" "queued (set_quantum q S) = queued S"
    "procs_of (set_quantum q S) r = procs_of S r"
    "lq_ticks_left (level_at (set_quantum q S) r) = (if r = q then RSDL_LEVEL_QUANTUM else lq_ticks_left (level_at S r))"
    "k_procs (set_quantum q S) = k_procs S" "k_active (set_quantum q S) = k_active S"
    "k_expired (set_quantum q S) = k_expired S" "level_ctx c (set_quantum q S) = level_ctx c S"
proof -
  have len: "length (k_levels S) = 2 * RSDL_LEVELS" by (rule lv_invD(2) [OF assms(1)])
  have eq: "lq_list (level_at (set_quantum q S) r) = lq_list (level_at S r)" for r
    using len assms(2) by (cases "r = q") (simp_all add: set_quantum_def lq_list_def)
  show qd: "queued (set_quantum q S) = queued S"
    using eq len by (simp add: queued_def set_quantum_def) (rule arg_cong [of _ _ concat], rule nth_equalityI, simp_all)
  have "lq_wf ((level_at S q)\<lparr>lq_ticks_left := RSDL_LEVEL_QUANTUM\<rparr>)"
    using lv_invD(3) [OF assms] by (simp add: lq_wf_def)
  then have "table_wf (set_quantum q S)"
    using assms(1) unfolding set_quantum_def by (intro table_wf_upd_level) (simp_all add: lv_inv_def)
  with assms(1) qd show "lv_inv (set_quantum q S)" by (simp add: lv_inv_def)
  show "procs_of (set_quantum q S) r = procs_of S r" using eq by (simp add: procs_of_def)
  show "lq_ticks_left (level_at (set_quantum q S) r) = (if r = q then RSDL_LEVEL_QUANTUM else lq_ticks_left (level_at S r))"
    using len assms(2) by (cases "r = q") (simp_all add: set_quantum_def)
qed (simp_all add: set_quantum_def)

lemma sets_apart:
  assumes "lv_inv S" "i < RSDL_LEVELS" "j < RSDL_LEVELS"
  shows "k_active S + i \<noteq> k_expired S + j"
  using assms by (auto simp: lv_inv_def table_wf_def)

text \<open>One level of the expired set.\<close>

lemma requeue_all_spec:
  assumes ok: "swap_ok S" and ctx: "level_ctx c S" and k: "k < RSDL_LEVELS"
  shows "\<exists>S'. requeue_all c (k_expired S + k) NPROC (set_quantum (k_expired S + k) S) = Inr S' \<and> rotated S S' k 1"
proof -
  let ?q = "k_expired S + k" and ?A = "k_active S"
  let ?S1 = "set_quantum ?q S" and ?xs = "procs_of S ?q"
  have inv: "lv_inv S" and open': "\<And>j. j < RSDL_LEVELS \<Longrightarrow> 0 < lq_ticks_left (level_at S (?A + j))"
    using ok by (simp_all add: swap_ok_def)
  have q: "?q < 2 * RSDL_LEVELS" by (rule lv_invD(7) [OF inv k])
  note F = set_quantum_facts [OF inv q]
  have l: "lq_list (level_at ?S1 ?q) = map Some ?xs" using procs_of_list [OF F(1) q] F(3) by simp
  have def: "default_ok S x" if "x \<in> set ?xs" for x
    using ok that in_queued_procs [OF inv] q by (auto simp: swap_ok_def)
  have ao: "0 < lq_ticks_left (level_at ?S1 (?A + j))" if "j < RSDL_LEVELS" for j
    using F(4) [of "?A + j"] open' [OF that] sets_apart [OF inv that k] by simp
  have t: "drain_tgt p_default_level ?S1 x = ?A + nat (p_default_level (proc_at S x))" if "x \<in> set ?xs" for x
  proof -
    have "nat (p_default_level (proc_at S x)) < RSDL_LEVELS" using def [OF that] by (auto simp: default_ok_def)
    then show ?thesis using ao F(5,6) by (simp add: drain_tgt_def tgt_here)
  qed
  have dok: "drain_ok (\<lambda>_. True) p_default_level ?S1 ?q ?xs"
    using F(1,5,6) q l t def ao sets_apart [OF inv _ k] by (simp add: drain_ok_def default_ok_def nat_less_iff)
  have "length ?xs \<le> NPROC" using lv_invD(3) [OF inv q] by (simp add: procs_of_def lq_wf_def)
  then obtain S' where S': "requeue_all c ?q NPROC ?S1 = Inr S'"
      "moved ?S1 S' ?q ?xs (\<lambda>_. True) (drain_tgt p_default_level ?S1)"
    using drain_spec [OF _ dok, of c NPROC] ctx F(8) by (auto simp: requeue_all_drain)
  note M = movedD [OF S'(2)]
  have pr: "procs_of S' r = procs_of S r @ filter (\<lambda>x. drain_tgt p_default_level ?S1 x = r) ?xs"
    if "r < 2 * RSDL_LEVELS" "r \<noteq> ?q" for r
    using M(6) [OF that] F(3) [of r] by (simp add: procs_of_def comp_def)
  have fA: "filter (\<lambda>x. drain_tgt p_default_level ?S1 x = ?A + j) ?xs = filter (\<lambda>x. p_default_level (proc_at S x) = int j) ?xs"
    if "j < RSDL_LEVELS" for j
    using t def by (intro filter_cong) (auto simp: default_ok_def)
  have fE: "filter (\<lambda>x. drain_tgt p_default_level ?S1 x = k_expired S + j) ?xs = []" if "j < RSDL_LEVELS" for j
    using t def sets_apart [OF inv _ that] by (auto simp: filter_empty_conv default_ok_def nat_less_iff)
  have "S' = S\<lparr>k_procs := k_procs S', k_levels := k_levels S'\<rparr>"
    by (subst M(2)) (simp add: set_quantum_def upd_level_def)
  moreover have "set (queued S') = set (queued S)" using M(3) F(2) by simp
  moreover have "lq_ticks_left (level_at S' (?A + j)) = lq_ticks_left (level_at S (?A + j))
      \<and> procs_of S' (?A + j) = procs_of S (?A + j) @ filter (\<lambda>x. p_default_level (proc_at S x) = int j) ?xs" if "j < RSDL_LEVELS" for j
    using that M(5) [of "?A + j"] pr [of "?A + j"] F(4) [of "?A + j"] sets_apart [OF inv that k] lv_invD(6) [OF inv] fA by simp
  moreover have "lq_ticks_left (level_at S' (k_expired S + j)) = lq_ticks_left (level_at S (k_expired S + j))
      \<and> procs_of S' (k_expired S + j) = procs_of S (k_expired S + j)" if "j < RSDL_LEVELS" "j \<noteq> k" for j
    using that M(5) [of "k_expired S + j"] pr [of "k_expired S + j"] F(4) [of "k_expired S + j"] lv_invD(7) [OF inv] fE by simp
  moreover have "lq_ticks_left (level_at S' ?q) = RSDL_LEVEL_QUANTUM \<and> procs_of S' ?q = []"
    using M(5,7) q F(4) by (simp add: procs_of_def)
  ultimately have "rotated S S' k 1" using M(1,4) F(5) k by (auto simp: rotated_def Let_def le_less_Suc_eq)
  with S'(1) show ?thesis by blast
qed

lemma rotatedD:
  assumes "rotated S S' k n"
  shows "lv_inv S'" "S' = S\<lparr>k_procs := k_procs S', k_levels := k_levels S'\<rparr>" "set (queued S') = set (queued S)"
    "i < NPROC \<Longrightarrow> proc_at S' i = (if i \<in> set (concat (map (\<lambda>j. procs_of S (k_expired S + j)) [k..<k + n]))
       then (proc_at S i)\<lparr>p_ticks_left := RSDL_PROC_QUANTUM\<rparr> else proc_at S i)"
    "j < RSDL_LEVELS \<Longrightarrow> lq_ticks_left (level_at S' (k_active S + j)) = lq_ticks_left (level_at S (k_active S + j))"
    "j < RSDL_LEVELS \<Longrightarrow> procs_of S' (k_active S + j) = procs_of S (k_active S + j)
       @ filter (\<lambda>x. p_default_level (proc_at S x) = int j) (concat (map (\<lambda>j. procs_of S (k_expired S + j)) [k..<k + n]))"
    "j < RSDL_LEVELS \<Longrightarrow> lq_ticks_left (level_at S' (k_expired S + j)) = (if k \<le> j \<and> j < k + n then RSDL_LEVEL_QUANTUM
       else lq_ticks_left (level_at S (k_expired S + j)))"
    "j < RSDL_LEVELS \<Longrightarrow> procs_of S' (k_expired S + j) = (if k \<le> j \<and> j < k + n then [] else procs_of S (k_expired S + j))"
  using assms by (simp_all add: rotated_def Let_def)

lemma rotated_frame:
  assumes "rotated S S' k n"
  shows "k_active S' = k_active S" "k_expired S' = k_expired S" "cpus S' = cpus S" "locks S' = locks S"
    "k_initproc S' = k_initproc S" "k_nextpid S' = k_nextpid S" "k_ticks S' = k_ticks S"
    "k_kpgdir S' = k_kpgdir S" "k_env S' = k_env S" "level_ctx c S' = level_ctx c S"
proof -
  note eq = rotatedD(2) [OF assms]
  show "k_active S' = k_active S" "k_expired S' = k_expired S" "cpus S' = cpus S" "locks S' = locks S"
    "k_initproc S' = k_initproc S" "k_nextpid S' = k_nextpid S" "k_ticks S' = k_ticks S"
    "k_kpgdir S' = k_kpgdir S" "k_env S' = k_env S"
    by (subst eq, simp)+
  then show "level_ctx c S' = level_ctx c S"
    by (simp add: level_ctx_def cpu_ok_def lock_free_def)
qed

lemma rotated_default:
  assumes "rotated S S' k n" "i < NPROC"
  shows "p_default_level (proc_at S' i) = p_default_level (proc_at S i)"
  using rotatedD(4) [OF assms] by simp

lemma swap_ok_rotated:
  assumes ok: "swap_ok S" and r: "rotated S S' k n"
  shows "swap_ok S'"
proof -
  have inv: "lv_inv S" using ok by (simp add: swap_ok_def)
  have "default_ok S' x" if "Some x \<in> set (queued S')" for x
  proof -
    have x: "Some x \<in> set (queued S)" using that rotatedD(3) [OF r] by simp
    then have "x < NPROC" using lv_invD(5) [OF inv] by auto
    with x ok show ?thesis using rotated_default [OF r] by (simp add: default_ok_def swap_ok_def)
  qed
  then show ?thesis using ok rotatedD(1,5) [OF r] rotated_frame(1) [OF r] by (simp add: swap_ok_def)
qed

lemma rotated_trans:
  assumes ok: "swap_ok S" and a: "rotated S S1 k 1" and b: "rotated S1 S' (Suc k) n" and k: "k + Suc n \<le> RSDL_LEVELS"
  shows "rotated S S' k (Suc n)"
proof -
  let ?E = "k_expired S" and ?A = "k_active S"
  let ?ys = "\<lambda>S k n. concat (map (\<lambda>j. procs_of S (?E + j)) [k..<k + n])"
  note A = rotatedD [OF a] and B = rotatedD [OF b] and FA = rotated_frame [OF a]
  have inv: "lv_inv S" using ok by (simp add: swap_ok_def)
  have "map (\<lambda>j. procs_of S1 (?E + j)) [Suc k..<Suc k + n] = map (\<lambda>j. procs_of S (?E + j)) [Suc k..<Suc k + n]"
    using A(8) k by (intro map_cong) auto
  then have tl: "?ys S1 (Suc k) n = ?ys S (Suc k) n" by (rule arg_cong)
  have hd: "?ys S k (Suc n) = procs_of S (?E + k) @ ?ys S (Suc k) n" "?ys S k 1 = procs_of S (?E + k)"
    by (simp_all add: upt_conv_Cons del: upt_Suc)
  have lt: "x < NPROC" if mem: "x \<in> set (?ys S (Suc k) n)" for x
  proof -
    obtain j where "j \<in> set [Suc k..<Suc k + n]" "x \<in> set (procs_of S (?E + j))" using mem unfolding set_concat set_map by blast
    moreover from this(1) k have "j < RSDL_LEVELS" by (simp del: upt_Suc)
    ultimately have "Some x \<in> set (queued S)" using in_queued_procs [OF inv] lv_invD(7) [OF inv] by blast
    then show ?thesis using lv_invD(5) [OF inv] by auto
  qed
  have fl: "filter (\<lambda>x. p_default_level (proc_at S1 x) = int j) (?ys S (Suc k) n)
      = filter (\<lambda>x. p_default_level (proc_at S x) = int j) (?ys S (Suc k) n)" for j
    using rotated_default [OF a] lt by (intro filter_cong) auto
  have eq: "S' = S\<lparr>k_procs := k_procs S', k_levels := k_levels S'\<rparr>"
    by (subst B(2), subst A(2)) simp
  have pr: "proc_at S' i = (if i \<in> set (?ys S k (Suc n)) then (proc_at S i)\<lparr>p_ticks_left := RSDL_PROC_QUANTUM\<rparr> else proc_at S i)"
    if "i < NPROC" for i
    using A(4) [OF that] B(4) [OF that] unfolding FA tl hd by (simp del: upt_Suc set_concat)
  have ac: "lq_ticks_left (level_at S' (?A + j)) = lq_ticks_left (level_at S (?A + j))"
    "procs_of S' (?A + j) = procs_of S (?A + j) @ filter (\<lambda>x. p_default_level (proc_at S x) = int j) (?ys S k (Suc n))"
    if "j < RSDL_LEVELS" for j
    using A(5,6) [OF that] B(5,6) [OF that] unfolding FA tl hd fl by simp_all
  have ex: "if k \<le> j \<and> j < k + Suc n
     then lq_ticks_left (level_at S' (?E + j)) = RSDL_LEVEL_QUANTUM \<and> procs_of S' (?E + j) = []
     else lq_ticks_left (level_at S' (?E + j)) = lq_ticks_left (level_at S (?E + j)) \<and> procs_of S' (?E + j) = procs_of S (?E + j)"
    if "j < RSDL_LEVELS" for j
    using A(7,8) [OF that] B(7,8) [OF that] unfolding FA by (cases "j = k") auto
  show ?thesis unfolding rotated_def Let_def using B(1,3) A(3) eq pr ac ex by blast
qed

lemma swap_levels_spec:
  assumes "swap_ok S" "level_ctx c S" "k + n = RSDL_LEVELS"
  shows "\<exists>S'. swap_levels c k n S = Inr S' \<and> rotated S S' k n"
  using assms
proof (induction n arbitrary: k S)
  case 0
  then show ?case by (simp add: rotated_def Let_def swap_ok_def)
next
  case (Suc n)
  obtain S1 where S1: "requeue_all c (k_expired S + k) NPROC (set_quantum (k_expired S + k) S) = Inr S1" "rotated S S1 k 1"
    using requeue_all_spec [OF Suc.prems(1,2), of k] Suc.prems(3) by auto
  obtain S2 where "swap_levels c (Suc k) n S1 = Inr S2" "rotated S1 S2 (Suc k) n"
    using Suc.IH [OF swap_ok_rotated [OF Suc.prems(1) S1(2)], of "Suc k"] rotated_frame [OF S1(2)] Suc.prems by auto
  with S1 rotated_trans [OF Suc.prems(1) S1(2)] Suc.prems(3) show ?case
    by (auto simp: set_quantum_def Let_def)
qed

text \<open>
  The whole exchange: the new active set is the old expired one with the processes of the
  old active levels behind, highest level first, each at its own level.
\<close>

lemma swap_sets_spec:
  assumes inv: "lv_inv S" "expired_fresh S" and d: "\<forall>x. Some x \<in> set (queued S) \<longrightarrow> default_ok S x"
    and ctx: "level_ctx c S"
  shows "\<exists>S'. swap_sets c S = Inr S' \<and> rotated (S\<lparr>k_active := k_expired S, k_expired := k_active S\<rparr>) S' 0 RSDL_LEVELS"
proof -
  let ?S = "S\<lparr>k_active := k_expired S, k_expired := k_active S\<rparr>"
  have "swap_ok ?S"
    using inv d by (auto simp: swap_ok_def lv_inv_def table_wf_def queued_def expired_fresh_def default_ok_def)
  moreover have "level_ctx c ?S" using ctx by (simp add: level_ctx_def cpu_ok_def lock_free_def)
  ultimately show ?thesis using swap_levels_spec [of ?S c 0 RSDL_LEVELS] by (simp add: swap_sets_def)
qed

end
