(* ===== verification/Trap.thy ===== *)
theory Trap
  imports ProcOps
begin

text \<open>
  The trap handler (\<^verbatim>\<open>trap.c\<close>): timer ticks with the accounting of the process and
  level quanta, device interrupts, faults, and the system call entry.

  The system call table and the three device handlers are arguments. A handler either
  comes back or leaves the CPU at the \<open>swtch\<close> of \<open>sched()\<close>; the result says which.
  \<open>lapiceoi()\<close> only acknowledges the interrupt at the local APIC, which has no state here.
\<close>

datatype flow = Flow_ret | Flow_switch

type_synonym ('e, 'z) handler = "('e, 'z) kstate_scheme \<Rightarrow> (flow \<times> ('e, 'z) kstate_scheme) result"

definition T_SYSCALL :: "32 word" where "T_SYSCALL = 64"
definition T_IRQ0 :: "32 word" where "T_IRQ0 = 32"
definition IRQ_TIMER :: "32 word" where "IRQ_TIMER = 0"
definition IRQ_KBD :: "32 word" where "IRQ_KBD = 1"
definition IRQ_COM1 :: "32 word" where "IRQ_COM1 = 4"
definition IRQ_IDE :: "32 word" where "IRQ_IDE = 14"
definition IRQ_SPURIOUS :: "32 word" where "IRQ_SPURIOUS = 31"
definition DPL_USER :: "16 word" where "DPL_USER = 3"

lemmas trap_defs = T_SYSCALL_def T_IRQ0_def IRQ_TIMER_def IRQ_KBD_def IRQ_COM1_def IRQ_IDE_def IRQ_SPURIOUS_def DPL_USER_def

unbundle bit_operations_syntax

definition from_user :: "trapframe \<Rightarrow> bool" where
  "from_user tf \<longleftrightarrow> tf_cs tf AND 3 = DPL_USER"

section \<open>The interrupt itself\<close>

definition trap_tick :: "nat \<Rightarrow> ('e, 'z) kstate_scheme \<Rightarrow> ('e, 'z) kstate_scheme result" where
  "trap_tick c S =
     (if c = 0
      then bindE (acquire c TicksLock S) (\<lambda>S1.
           bindE (wakeup c (Some Chan_ticks) (S1\<lparr>k_ticks := k_ticks S1 + 1\<rparr>)) (release c TicksLock))
      else Inr S)"

definition trap_fault :: "nat \<Rightarrow> trapframe \<Rightarrow> 32 word \<Rightarrow> ('e, 'z) kstate_scheme \<Rightarrow> ('e, 'z) kstate_scheme result" where
  "trap_fault c tf cr2 S =
     (case myproc c S of
        None \<Rightarrow> panic ''trap''
      | Some p \<Rightarrow>
         if tf_cs tf AND 3 = 0 then panic ''trap''
         else bindE (kprintf ''pid %d %s: trap %d err %d on cpu %d eip 0x%x addr 0x%x--kill proc\<newline>''
                [PWord (word_of_int (p_pid (proc_at S p))), PStr (Some (p_name (proc_at S p))), PWord (tf_trapno tf),
                 PWord (tf_err tf), PWord (of_nat c), PWord (tf_eip tf), PWord cr2] S) (\<lambda>S1.
              Inr (upd_proc p (\<lambda>x. x\<lparr>p_killed := True\<rparr>) S1)))"

record ('e, 'z) devs =
  dev_ideintr :: "('e, 'z) kstate_scheme \<Rightarrow> ('e, 'z) kstate_scheme result"
  dev_kbdintr :: "('e, 'z) kstate_scheme \<Rightarrow> ('e, 'z) kstate_scheme result"
  dev_uartintr :: "('e, 'z) kstate_scheme \<Rightarrow> ('e, 'z) kstate_scheme result"

definition trap_irq :: "('e, 'z) devs \<Rightarrow> nat \<Rightarrow> trapframe \<Rightarrow> 32 word \<Rightarrow> ('e, 'z) kstate_scheme \<Rightarrow> ('e, 'z) kstate_scheme result" where
  "trap_irq devs c tf cr2 S =
     (if tf_trapno tf = T_IRQ0 + IRQ_TIMER then trap_tick c S
      else if tf_trapno tf = T_IRQ0 + IRQ_IDE then dev_ideintr devs S
      else if tf_trapno tf = T_IRQ0 + IRQ_IDE + 1 then Inr S
      else if tf_trapno tf = T_IRQ0 + IRQ_KBD then dev_kbdintr devs S
      else if tf_trapno tf = T_IRQ0 + IRQ_COM1 then dev_uartintr devs S
      else if tf_trapno tf = T_IRQ0 + 7 \<or> tf_trapno tf = T_IRQ0 + IRQ_SPURIOUS
      then kprintf ''cpu%d: spurious interrupt at %x:%x\<newline>'' [PWord (of_nat c), PWord (ucast (tf_cs tf)), PWord (tf_eip tf)] S
      else trap_fault c tf cr2 S)"

section \<open>After the interrupt\<close>

definition killed_user :: "nat \<Rightarrow> trapframe \<Rightarrow> ('e, 'z) kstate_scheme \<Rightarrow> bool" where
  "killed_user c tf S = (case myproc c S of None \<Rightarrow> False | Some p \<Rightarrow> p_killed (proc_at S p) \<and> from_user tf)"

definition leave :: "('e, 'z) kstate_scheme result \<Rightarrow> (flow \<times> ('e, 'z) kstate_scheme) result" where
  "leave r = bindE r (\<lambda>S. Inr (Flow_switch, S))"

text \<open>The last check, also where a process goes on whose \<open>yield()\<close> has returned.\<close>

definition trap_end :: "'e kops \<Rightarrow> nat \<Rightarrow> trapframe \<Rightarrow> ('e, 'z) handler" where
  "trap_end ops c tf S = (if killed_user c tf S then leave (exit ops c S) else Inr (Flow_ret, S))"

text \<open>The decrements of the two quanta at a tick, and whether the CPU is to be given up.\<close>

definition charge :: "nat \<Rightarrow> nat \<Rightarrow> ('e, 'z) kstate_scheme \<Rightarrow> bool \<times> ('e, 'z) kstate_scheme" where
  "charge p q S =
     (let S1 = upd_level q (\<lambda>x. x\<lparr>lq_ticks_left := lq_ticks_left x - 1\<rparr>)
                 (upd_proc p (\<lambda>x. x\<lparr>p_ticks_left := p_ticks_left x - 1\<rparr>) S)
      in (p_ticks_left (proc_at S1 p) \<le> 0 \<or> lq_ticks_left (level_at S1 q) \<le> 0, S1))"

definition trap_quantum :: "'e kops \<Rightarrow> nat \<Rightarrow> trapframe \<Rightarrow> ('e, 'z) handler" where
  "trap_quantum ops c tf S =
     (case myproc c S of
        None \<Rightarrow> trap_end ops c tf S
      | Some p \<Rightarrow>
         if p_state (proc_at S p) = RUNNING \<and> tf_trapno tf = T_IRQ0 + IRQ_TIMER
         then (case c_queue (cpus S ! c) of
                 None \<Rightarrow> panic ''Running process located outside active/expired set.''
               | Some q \<Rightarrow> (case charge p q S of (give_up, S1) \<Rightarrow>
                   if give_up then leave (yield c S1) else trap_end ops c tf S1))
         else trap_end ops c tf S)"

definition trap_rest :: "'e kops \<Rightarrow> nat \<Rightarrow> trapframe \<Rightarrow> ('e, 'z) handler" where
  "trap_rest ops c tf S = (if killed_user c tf S then leave (exit ops c S) else trap_quantum ops c tf S)"

section \<open>The handler\<close>

text \<open>What follows \<open>syscall()\<close> in \<open>trap\<close>, for a system call that comes back.\<close>

definition trap_sysret :: "'e kops \<Rightarrow> nat \<Rightarrow> ('e, 'z) handler" where
  "trap_sysret ops c S =
     (case myproc c S of None \<Rightarrow> nullderef
      | Some p \<Rightarrow> if p_killed (proc_at S p) then leave (exit ops c S) else Inr (Flow_ret, S))"

definition trap :: "'e kops \<Rightarrow> ('e, 'z) devs \<Rightarrow> ('e, 'z) handler \<Rightarrow> nat \<Rightarrow> trapframe \<Rightarrow> 32 word \<Rightarrow> ('e, 'z) handler" where
  "trap ops devs syscall c tf cr2 S =
     (if tf_trapno tf = T_SYSCALL
      then (case myproc c S of None \<Rightarrow> nullderef
            | Some p \<Rightarrow>
               if p_killed (proc_at S p) then leave (exit ops c S)
               else bindE (syscall (upd_proc p (\<lambda>x. x\<lparr>p_tf := tf\<rparr>) S)) (\<lambda>(fl, S1).
                    case fl of Flow_switch \<Rightarrow> Inr (Flow_switch, S1) | Flow_ret \<Rightarrow> trap_sysret ops c S1))
      else bindE (trap_irq devs c tf cr2 S) (trap_rest ops c tf))"

end
