(* ===== verification/KOps.thy ===== *)
theory KOps
  imports Trap
begin

text \<open>
  What the process code relies on of the parts below it, and where an error of a process
  operation can come from.

  The lower parts (page allocation, page tables, files, the log) may panic. To keep their
  panics apart from those of the process code, \<open>skip_errors\<close> is an instance of the same
  operations that never fails: where the given one fails, it does nothing. Every process
  operation run over the given parts either does what it does over that instance, or
  stops with an error that one of the parts raised (\<open>fails\<close>).
\<close>

section \<open>Errors that come from below\<close>

inductive op_error :: "'e kops \<Rightarrow> error \<Rightarrow> bool" for ops where
  err_kfree: "op_kfree ops a e = Inl err \<Longrightarrow> op_error ops err"
| err_freevm: "op_freevm ops d e = Inl err \<Longrightarrow> op_error ops err"
| err_filedup: "op_filedup ops f e = Inl err \<Longrightarrow> op_error ops err"
| err_fileclose: "op_fileclose ops f e = Inl err \<Longrightarrow> op_error ops err"
| err_idup: "op_idup ops i e = Inl err \<Longrightarrow> op_error ops err"
| err_iput: "op_iput ops i e = Inl err \<Longrightarrow> op_error ops err"
| err_begin_op: "op_begin_op ops e = Inl err \<Longrightarrow> op_error ops err"
| err_end_op: "op_end_op ops e = Inl err \<Longrightarrow> op_error ops err"
| err_fsinit: "op_fsinit ops e = Inl err \<Longrightarrow> op_error ops err"
| err_copyuvm: "op_copyuvm ops d sz e = Inl err \<Longrightarrow> op_error ops err"
| err_allocuvm: "op_allocuvm ops d sz sz' e = Inl err \<Longrightarrow> op_error ops err"
| err_deallocuvm: "op_deallocuvm ops d sz sz' e = Inl err \<Longrightarrow> op_error ops err"

definition or_else :: "'a \<Rightarrow> 'a result \<Rightarrow> 'a result" where
  "or_else x r = (case r of Inl _ \<Rightarrow> Inr x | Inr y \<Rightarrow> Inr y)"

definition skip_errors :: "'e kops \<Rightarrow> 'e kops" where
  "skip_errors ops = ops\<lparr>op_kfree := (\<lambda>a e. or_else e (op_kfree ops a e)), op_freevm := (\<lambda>d e. or_else e (op_freevm ops d e)),
     op_filedup := (\<lambda>f e. or_else e (op_filedup ops f e)), op_fileclose := (\<lambda>f e. or_else e (op_fileclose ops f e)),
     op_idup := (\<lambda>i e. or_else e (op_idup ops i e)), op_iput := (\<lambda>i e. or_else e (op_iput ops i e)),
     op_begin_op := (\<lambda>e. or_else e (op_begin_op ops e)), op_end_op := (\<lambda>e. or_else e (op_end_op ops e)),
     op_fsinit := (\<lambda>e. or_else e (op_fsinit ops e)), op_copyuvm := (\<lambda>d sz e. or_else (0, e) (op_copyuvm ops d sz e)),
     op_allocuvm := (\<lambda>d a b e. or_else (0, e) (op_allocuvm ops d a b e)),
     op_deallocuvm := (\<lambda>d a b e. or_else (0, e) (op_deallocuvm ops d a b e))\<rparr>"

definition fails :: "(error \<Rightarrow> bool) \<Rightarrow> 'a result \<Rightarrow> 'a result \<Rightarrow> bool" where
  "fails E r r' \<longleftrightarrow> r = r' \<or> (\<exists>err. E err \<and> r = Inl err)"

lemma fails_refl [simp]: "fails E r r"
  by (simp add: fails_def)

lemma fails_bind:
  assumes "fails E r r'" and fg: "\<And>x. fails E (f x) (g x)"
  shows "fails E (bindE r f) (bindE r' g)"
proof (cases "r = r'")
  case True
  then show ?thesis using fg by (cases r') simp_all
qed (use assms(1) in \<open>auto simp: fails_def\<close>)

lemma fails_bind_same: "(\<And>x. fails E (f x) (g x)) \<Longrightarrow> fails E (bindE r f) (bindE r g)"
  by (rule fails_bind) simp

lemma fails_if: "fails E x x' \<Longrightarrow> fails E y y' \<Longrightarrow> fails E (if b then x else y) (if b then x' else y')"
  by simp

lemma fails_case_option: "fails E x x' \<Longrightarrow> (\<And>a. fails E (f a) (f' a)) \<Longrightarrow> fails E (case_option x f m) (case_option x' f' m)"
  by (cases m) simp_all

lemma fails_case_prod: "(\<And>a b. fails E (f a b) (f' a b)) \<Longrightarrow> fails E (case_prod f m) (case_prod f' m)"
  by (cases m) simp

lemma fails_case_sum: "(\<And>a. fails E (f a) (f' a)) \<Longrightarrow> (\<And>b. fails E (g b) (g' b)) \<Longrightarrow> fails E (case_sum f g m) (case_sum f' g' m)"
  by (cases m) simp_all

lemmas fails_struct = fails_refl fails_if fails_case_option fails_case_prod fails_case_sum fails_bind_same

lemma fails_or_else: "(\<And>err. r = Inl err \<Longrightarrow> E err) \<Longrightarrow> fails E r (or_else x r)"
  by (cases r) (auto simp: fails_def or_else_def)

lemma ops_fail:
  "fails (op_error ops) (op_kfree ops a e) (op_kfree (skip_errors ops) a e)"
  "fails (op_error ops) (op_freevm ops d e) (op_freevm (skip_errors ops) d e)"
  "fails (op_error ops) (op_filedup ops f e) (op_filedup (skip_errors ops) f e)"
  "fails (op_error ops) (op_fileclose ops f e) (op_fileclose (skip_errors ops) f e)"
  "fails (op_error ops) (op_idup ops i e) (op_idup (skip_errors ops) i e)"
  "fails (op_error ops) (op_iput ops i e) (op_iput (skip_errors ops) i e)"
  "fails (op_error ops) (op_begin_op ops e) (op_begin_op (skip_errors ops) e)"
  "fails (op_error ops) (op_end_op ops e) (op_end_op (skip_errors ops) e)"
  "fails (op_error ops) (op_fsinit ops e) (op_fsinit (skip_errors ops) e)"
  "fails (op_error ops) (op_copyuvm ops d sz e) (op_copyuvm (skip_errors ops) d sz e)"
  "fails (op_error ops) (op_allocuvm ops d sz sz' e) (op_allocuvm (skip_errors ops) d sz sz' e)"
  "fails (op_error ops) (op_deallocuvm ops d sz sz' e) (op_deallocuvm (skip_errors ops) d sz sz' e)"
  by (simp_all add: skip_errors_def fails_or_else op_error.intros)

lemma skip_errors_sel [simp]:
  "op_kalloc (skip_errors ops) = op_kalloc ops" "op_setupkvm (skip_errors ops) = op_setupkvm ops"
  "op_inituvm (skip_errors ops) = op_inituvm ops" "op_namei (skip_errors ops) = op_namei ops"
  by (simp_all add: skip_errors_def)

lemmas fails_ops = ops_fail [THEN fails_bind]

section \<open>The process operations\<close>

lemma close_files_fail: "fails (op_error ops) (close_files ops fs e) (close_files (skip_errors ops) fs e)"
proof (induction fs arbitrary: e)
  case (Cons f fs)
  then show ?case by (cases f) (simp_all add: fails_bind ops_fail)
qed simp

lemma dup_files_fail: "fails (op_error ops) (dup_files ops fs e) (dup_files (skip_errors ops) fs e)"
proof (induction fs arbitrary: e)
  case (Cons f fs)
  then show ?case by (cases f) (simp_all add: fails_bind ops_fail)
qed simp

lemma exit_fail: "fails (op_error ops) (exit ops c S) (exit (skip_errors ops) c S)"
  unfolding exit_def Let_def by (intro fails_struct fails_ops fails_bind [OF close_files_fail])

lemma wait_scan_fail: "fails (op_error ops) (wait_scan ops cur is h S) (wait_scan (skip_errors ops) cur is h S)"
  by (induction "is" arbitrary: h) (simp_all add: fails_bind ops_fail)

lemma wait_body_fail: "fails (op_error ops) (wait_body ops c S) (wait_body (skip_errors ops) c S)"
  unfolding wait_body_def by (intro fails_struct fails_bind [OF wait_scan_fail])

lemma wait_fail: "fails (op_error ops) (wait ops c S) (wait (skip_errors ops) c S)"
  unfolding wait_def by (intro fails_bind_same wait_body_fail)

lemma forkret_fail: "fails (op_error ops) (forkret ops c S) (forkret (skip_errors ops) c S)"
  unfolding forkret_def by (intro fails_struct fails_ops)

lemma resume_fail: "fails (op_error ops) (resume ops c S) (resume (skip_errors ops) c S)"
  unfolding resume_def Let_def
  by (intro fails_struct) (simp split: kctx.split add: fails_bind forkret_fail)

lemma allocproc_skip [simp]: "allocproc (skip_errors ops) c S = allocproc ops c S"
  by (simp only: allocproc_def skip_errors_sel)

lemma priofork_fail: "fails (op_error ops) (priofork ops c d S) (priofork (skip_errors ops) c d S)"
  unfolding priofork_def Let_def allocproc_skip
  by (intro fails_struct fails_ops fails_bind [OF dup_files_fail])

lemma growproc_fail: "fails (op_error ops) (growproc ops c n S) (growproc (skip_errors ops) c n S)"
  unfolding growproc_def Let_def by (intro fails_struct fails_bind ops_fail)

section \<open>Traps\<close>

lemma leave_fail: "fails E r r' \<Longrightarrow> fails E (leave r) (leave r')"
  unfolding leave_def by (rule fails_bind) simp_all

lemma trap_end_fail: "fails (op_error ops) (trap_end ops c tf S) (trap_end (skip_errors ops) c tf S)"
  unfolding trap_end_def by (intro fails_struct leave_fail exit_fail)

lemma trap_rest_fail: "fails (op_error ops) (trap_rest ops c tf S) (trap_rest (skip_errors ops) c tf S)"
  unfolding trap_rest_def trap_quantum_def
  by (intro fails_struct leave_fail exit_fail trap_end_fail)

lemma trap_fail:
  assumes "tf_trapno tf \<noteq> T_SYSCALL"
  shows "fails (op_error ops) (trap ops devs sys c tf cr2 S) (trap (skip_errors ops) devs sys c tf cr2 S)"
  using assms unfolding trap_def by (simp add: fails_bind_same trap_rest_fail)

section \<open>The contract of the parts below\<close>

text \<open>
  The documented results the process code depends on: a page directory is a kernel address
  (or 0 when there is no memory), and the root directory exists.
\<close>

definition ops_sane :: "'e kops \<Rightarrow> bool" where
  "ops_sane ops \<longleftrightarrow> (\<forall>e pg e'. op_setupkvm ops e = Inr (pg, e') \<longrightarrow> pg = 0 \<or> KERNBASE \<le> pg)
     \<and> (\<forall>d sz e pg e'. op_copyuvm ops d sz e = Inr (pg, e') \<longrightarrow> pg = 0 \<or> KERNBASE \<le> pg)
     \<and> (\<forall>e r e'. op_namei ops ''/'' e = Inr (r, e') \<longrightarrow> r \<noteq> None)"

lemma ops_saneD:
  assumes "ops_sane ops"
  shows "op_setupkvm ops e = Inr (pg, e') \<Longrightarrow> pg = 0 \<or> KERNBASE \<le> pg"
    "op_copyuvm ops d sz e = Inr (pg, e') \<Longrightarrow> pg = 0 \<or> KERNBASE \<le> pg"
    "op_namei ops ''/'' e = Inr (r, e') \<Longrightarrow> r \<noteq> None"
  using assms by (auto simp only: ops_sane_def)

definition total :: "'a result \<Rightarrow> bool" where
  "total r \<longleftrightarrow> (\<exists>x. r = Inr x)"

text \<open>No operation of the parts below fails.\<close>

definition ops_return :: "'e kops \<Rightarrow> bool" where
  "ops_return ops \<longleftrightarrow> (\<forall>a e. total (op_kfree ops a e)) \<and> (\<forall>d e. total (op_freevm ops d e))
     \<and> (\<forall>f e. total (op_filedup ops f e)) \<and> (\<forall>f e. total (op_fileclose ops f e)) \<and> (\<forall>i e. total (op_idup ops i e))
     \<and> (\<forall>i e. total (op_iput ops i e)) \<and> (\<forall>e. total (op_begin_op ops e)) \<and> (\<forall>e. total (op_end_op ops e)) \<and> (\<forall>e. total (op_fsinit ops e))
     \<and> (\<forall>d a b e. total (op_allocuvm ops d a b e)) \<and> (\<forall>d a b e. total (op_deallocuvm ops d a b e))
     \<and> (\<forall>d sz e. \<exists>pg e'. op_copyuvm ops d sz e = Inr (pg, e') \<and> (pg = 0 \<or> KERNBASE \<le> pg))"

lemma ops_returnD:
  assumes "ops_return ops"
  shows "\<exists>e'. op_kfree ops a e = Inr e'" "\<exists>e'. op_freevm ops d e = Inr e'" "\<exists>e'. op_filedup ops f e = Inr e'"
    "\<exists>e'. op_fileclose ops f e = Inr e'" "\<exists>e'. op_idup ops i e = Inr e'" "\<exists>e'. op_iput ops i e = Inr e'"
    "\<exists>e'. op_begin_op ops e = Inr e'" "\<exists>e'. op_end_op ops e = Inr e'" "\<exists>e'. op_fsinit ops e = Inr e'"
    "\<exists>pg e'. op_copyuvm ops d sz e = Inr (pg, e') \<and> (pg = 0 \<or> KERNBASE \<le> pg)"
    "\<exists>n e'. op_allocuvm ops d sz sz' e = Inr (n, e')" "\<exists>n e'. op_deallocuvm ops d sz sz' e = Inr (n, e')"
  using assms unfolding ops_return_def total_def by simp_all

lemma or_else_total: "\<exists>y. or_else x r = Inr y"
  by (cases r) (simp_all add: or_else_def)

lemma skip_errors_return:
  assumes "ops_sane ops"
  shows "ops_return (skip_errors ops)"
proof -
  have "\<exists>pg e'. or_else (0, e) (op_copyuvm ops d sz e) = Inr (pg, e') \<and> (pg = 0 \<or> KERNBASE \<le> pg)" for d sz e
  proof (cases "op_copyuvm ops d sz e")
    case (Inr x)
    then have "op_copyuvm ops d sz e = Inr (fst x, snd x)" by simp
    then have "fst x = 0 \<or> KERNBASE \<le> fst x" by (rule ops_saneD(2) [OF assms])
    then show ?thesis using Inr by (cases x) (simp add: or_else_def)
  qed (simp add: or_else_def)
  then show ?thesis by (simp add: ops_return_def skip_errors_def total_def or_else_total del: split_paired_Ex)
qed

lemma skip_errors_sane:
  assumes "ops_sane ops"
  shows "ops_sane (skip_errors ops)"
  unfolding ops_sane_def skip_errors_sel
proof (intro conjI allI impI)
  show "pg = 0 \<or> KERNBASE \<le> pg" if "op_copyuvm (skip_errors ops) d sz e = Inr (pg, e')" for d sz e pg e'
    using ops_returnD(10) [OF skip_errors_return [OF assms], of d sz e] that by auto
qed (erule ops_saneD [OF assms])+

end
