(* ===== verification/KInv.thy ===== *)
theory KInv
  imports Staircase KOps
begin

text \<open>
  The invariant of the process table on one CPU. At the points where no lock is held, the
  levels hold exactly the processes that are asleep, ready or running, each once; every
  one of them can be switched to; and the running one is the one the scheduler's frame
  names. Each operation of \<^verbatim>\<open>proc.c\<close> is shown to keep it and not to panic.
\<close>

section \<open>Holding no lock, and holding the table lock\<close>

definition quiet :: "nat \<Rightarrow> 'z mach_scheme \<Rightarrow> bool" where
  "quiet c S \<longleftrightarrow> cpu_ok c S \<and> c_ncli (cpus S ! c) = 0 \<and> (\<forall>l. lock_free l S)"

definition crit :: "nat \<Rightarrow> 'z mach_scheme \<Rightarrow> bool" where
  "crit c S \<longleftrightarrow> cpu_ok c S \<and> c_ncli (cpus S ! c) = 1 \<and> lock_held c PtableLock S \<and> (\<forall>l. l \<noteq> PtableLock \<longrightarrow> lock_free l S)"

definition enter :: "nat \<Rightarrow> lockid \<Rightarrow> 'z mach_scheme \<Rightarrow> 'z mach_scheme" where
  "enter c l S = upd_lock l (\<lambda>k. k\<lparr>lk_locked := True, lk_cpu := Some c\<rparr>) (pushcli c S)"

definition depart :: "nat \<Rightarrow> lockid \<Rightarrow> 'z mach_scheme \<Rightarrow> 'z mach_scheme" where
  "depart c l S = upd_cpu c (\<lambda>x. x\<lparr>c_ncli := c_ncli x - 1, c_if := (c_ncli x = 1 \<and> c_intena x)\<rparr>)
     (upd_lock l (\<lambda>k. k\<lparr>lk_cpu := None, lk_locked := False\<rparr>) S)"

lemma pushcli_frame [simp]:
  "k_procs (pushcli c S) = k_procs S" "k_levels (pushcli c S) = k_levels S" "k_active (pushcli c S) = k_active S"
  "k_expired (pushcli c S) = k_expired S" "k_initproc (pushcli c S) = k_initproc S" "k_nextpid (pushcli c S) = k_nextpid S"
  "k_ticks (pushcli c S) = k_ticks S" "k_kpgdir (pushcli c S) = k_kpgdir S" "k_env (pushcli c S) = k_env S"
  "k_schedlog_active (pushcli c S) = k_schedlog_active S" "k_schedlog_lasttick (pushcli c S) = k_schedlog_lasttick S"
  "k_first (pushcli c S) = k_first S" "k_out (pushcli c S) = k_out S"
  by (simp_all add: pushcli_def Let_def)

lemma enter_frame [simp]:
  "k_procs (enter c l S) = k_procs S" "k_levels (enter c l S) = k_levels S" "k_active (enter c l S) = k_active S"
  "k_expired (enter c l S) = k_expired S" "k_initproc (enter c l S) = k_initproc S" "k_nextpid (enter c l S) = k_nextpid S"
  "k_ticks (enter c l S) = k_ticks S" "k_kpgdir (enter c l S) = k_kpgdir S" "k_env (enter c l S) = k_env S"
  "k_schedlog_active (enter c l S) = k_schedlog_active S" "k_schedlog_lasttick (enter c l S) = k_schedlog_lasttick S"
  "k_first (enter c l S) = k_first S" "k_out (enter c l S) = k_out S"
  by (simp_all add: enter_def)

lemma depart_frame [simp]:
  "k_procs (depart c l S) = k_procs S" "k_levels (depart c l S) = k_levels S" "k_active (depart c l S) = k_active S"
  "k_expired (depart c l S) = k_expired S" "k_initproc (depart c l S) = k_initproc S" "k_nextpid (depart c l S) = k_nextpid S"
  "k_ticks (depart c l S) = k_ticks S" "k_kpgdir (depart c l S) = k_kpgdir S" "k_env (depart c l S) = k_env S"
  "k_schedlog_active (depart c l S) = k_schedlog_active S" "k_schedlog_lasttick (depart c l S) = k_schedlog_lasttick S"
  "k_first (depart c l S) = k_first S" "k_out (depart c l S) = k_out S"
  by (simp_all add: depart_def)

text \<open>The fields of the CPU that tell which process runs.\<close>

definition cur :: "nat \<Rightarrow> 'z mach_scheme \<Rightarrow> nat option \<times> nat option \<times> (nat \<times> nat \<times> nat) option" where
  "cur c S = (c_proc (cpus S ! c), c_queue (cpus S ! c), c_frame (cpus S ! c))"

lemma acquire_quiet:
  assumes "quiet c S"
  shows "acquire c l S = Inr (enter c l S)" "l = PtableLock \<Longrightarrow> crit c (enter c l S)" "cur c (enter c l S) = cur c S"
proof -
  have ok: "cpu_ok c S" and fr: "\<And>l. lock_free l S" and n: "c_ncli (cpus S ! c) = 0"
    using assms by (auto simp: quiet_def)
  have c: "c < length (cpus S)" using ok by (simp add: cpu_ok_def)
  show "acquire c l S = Inr (enter c l S)" using fr [of l] by (simp add: acquire_eq [OF ok] lock_free_def enter_def)
  show "l = PtableLock \<Longrightarrow> crit c (enter c l S)" "cur c (enter c l S) = cur c S"
    using c n fr by (simp_all add: crit_def enter_def pushcli_eq cpu_ok_def lock_held_def lock_free_def cur_def)
qed

lemma release_crit:
  assumes "crit c S"
  shows "release c PtableLock S = Inr (depart c PtableLock S)" "quiet c (depart c PtableLock S)"
    "cur c (depart c PtableLock S) = cur c S"
proof -
  have ok: "cpu_ok c S" and n: "c_ncli (cpus S ! c) = 1" and h: "lock_held c PtableLock S"
    and fr: "\<And>l. l \<noteq> PtableLock \<Longrightarrow> lock_free l S" using assms by (auto simp: crit_def)
  have c: "c < length (cpus S)" using ok by (simp add: cpu_ok_def)
  show "release c PtableLock S = Inr (depart c PtableLock S)"
    using n h by (simp add: release_eq [OF ok] depart_def lock_held_def)
  show "quiet c (depart c PtableLock S)" "cur c (depart c PtableLock S) = cur c S"
    using c n fr by (simp_all add: quiet_def depart_def cpu_ok_def lock_free_def cur_def)
qed

lemma crit_level_ctx: "crit c S \<Longrightarrow> level_ctx c S"
  by (simp add: crit_def level_ctx_def)

text \<open>Updates of the tables keep both, and so do updates of the fields that \<open>cur\<close> collects.\<close>

lemma crit_cong: "cpus S = cpus T \<Longrightarrow> locks S = locks T \<Longrightarrow> crit c S = crit c T"
  by (simp add: crit_def cpu_ok_def lock_held_def lock_free_def)

lemma quiet_cong: "cpus S = cpus T \<Longrightarrow> locks S = locks T \<Longrightarrow> quiet c S = quiet c T"
  by (simp add: quiet_def cpu_ok_def lock_free_def)

lemma cur_cong: "cpus S = cpus T \<Longrightarrow> cur c S = cur c T"
  by (simp add: cur_def)

lemma crit_upd [simp]:
  "crit c (upd_proc p f S) = crit c S" "crit c (upd_level q g S) = crit c S" "crit c (S\<lparr>k_procs := ps\<rparr>) = crit c S"
  "crit c (S\<lparr>k_nextpid := n\<rparr>) = crit c S" "crit c (set_env e S) = crit c S" "crit c (S\<lparr>k_ticks := t\<rparr>) = crit c S"
  "quiet c (upd_proc p f S) = quiet c S" "quiet c (S\<lparr>k_initproc := i\<rparr>) = quiet c S" "quiet c (set_env e S) = quiet c S"
  by (rule crit_cong quiet_cong; simp add: set_env_def)+

lemma cur_upd [simp]:
  "cur c (upd_proc p f S) = cur c S" "cur c (upd_level q g S) = cur c S" "cur c (S\<lparr>k_procs := ps\<rparr>) = cur c S"
  "cur c (S\<lparr>k_nextpid := n\<rparr>) = cur c S" "cur c (set_env e S) = cur c S" "cur c (S\<lparr>k_initproc := i\<rparr>) = cur c S"
  "cur c (S\<lparr>k_ticks := t\<rparr>) = cur c S"
  by (simp_all add: cur_def set_env_def)

lemma crit_upd_cpu:
  assumes "crit c S" "\<And>x. c_ncli (f x) = c_ncli x" "\<And>x. c_if (f x) = c_if x"
  shows "crit c (upd_cpu c f S)"
  using assms by (auto simp: crit_def cpu_ok_def lock_held_def lock_free_def)

section \<open>The table\<close>

fun ctx_ok :: "kctx \<Rightarrow> bool" where
  "ctx_ok Ctx_none = False"
| "ctx_ok Ctx_forkret = True"
| "ctx_ok (Ctx_sched b caller) = (caller \<noteq> From_exit)"

definition live :: "proc \<Rightarrow> bool" where
  "live x \<longleftrightarrow> p_state x \<in> {SLEEPING, RUNNABLE, RUNNING}"

text \<open>
  What a live process has: a level of its own, a kernel stack, a page directory in kernel
  memory, and, when it does not run, quantum and a saved context.
\<close>

definition fit :: "proc \<Rightarrow> bool" where
  "fit x \<longleftrightarrow> 0 \<le> p_default_level x \<and> p_default_level x < int RSDL_LEVELS \<and> p_kstack x \<noteq> 0 \<and> KERNBASE \<le> p_pgdir x"

definition proc_ok :: "bool \<Rightarrow> proc \<Rightarrow> bool" where
  "proc_ok spent x \<longleftrightarrow> (live x \<longrightarrow> fit x \<and> (spent \<or> 0 < p_ticks_left x) \<and> (p_state x \<noteq> RUNNING \<longrightarrow> ctx_ok (p_context x)))"

text \<open>\<open>rp\<close> is the running process, \<open>ex\<close> a process whose quantum may be used up.\<close>

definition tinv :: "nat option \<Rightarrow> nat option \<Rightarrow> ('e, 'z) kstate_scheme \<Rightarrow> bool" where
  "tinv rp ex S \<longleftrightarrow> lv_inv S \<and> expired_fresh S \<and> KERNBASE \<le> k_kpgdir S
     \<and> (\<forall>i < NPROC. proc_ok (ex = Some i) (proc_at S i) \<and> (Some i \<in> set (queued S) \<longleftrightarrow> live (proc_at S i))
          \<and> (p_state (proc_at S i) = RUNNING \<longleftrightarrow> rp = Some i))"

lemma tinvD:
  assumes "tinv rp ex S"
  shows "lv_inv S" "expired_fresh S" "KERNBASE \<le> k_kpgdir S"
    "i < NPROC \<Longrightarrow> proc_ok (ex = Some i) (proc_at S i)" "i < NPROC \<Longrightarrow> Some i \<in> set (queued S) \<longleftrightarrow> live (proc_at S i)"
    "i < NPROC \<Longrightarrow> p_state (proc_at S i) = RUNNING \<longleftrightarrow> rp = Some i"
  using assms by (simp_all add: tinv_def)

lemma tinv_cong:
  assumes "k_procs S = k_procs T" "k_levels S = k_levels T" "k_active S = k_active T" "k_expired S = k_expired T"
    "k_kpgdir S = k_kpgdir T"
  shows "tinv rp ex S = tinv rp ex T"
  using assms by (simp add: tinv_def lv_inv_def table_wf_def queued_def expired_fresh_def)

lemma tinv_frame [simp]:
  "tinv rp ex (enter c l S) = tinv rp ex S" "tinv rp ex (depart c l S) = tinv rp ex S"
  "tinv rp ex (upd_cpu c f S) = tinv rp ex S" "tinv rp ex (S\<lparr>k_nextpid := n\<rparr>) = tinv rp ex S"
  "tinv rp ex (set_env e S) = tinv rp ex S" "tinv rp ex (S\<lparr>k_initproc := j\<rparr>) = tinv rp ex S"
  "tinv rp ex (S\<lparr>k_ticks := t\<rparr>) = tinv rp ex S" "tinv rp ex (S\<lparr>k_schedlog_active := b\<rparr>) = tinv rp ex S"
  "tinv rp ex (S\<lparr>k_out := out\<rparr>) = tinv rp ex S" "tinv rp ex (S\<lparr>k_first := ff\<rparr>) = tinv rp ex S"
  by (rule tinv_cong; simp add: set_env_def)+

lemma tinv_queued_fit:
  assumes "tinv rp ex S" "Some x \<in> set (queued S)"
  shows "x < NPROC" "live (proc_at S x)" "fit (proc_at S x)" "default_ok S x"
proof -
  show x: "x < NPROC" using assms(2) lv_invD(5) [OF tinvD(1) [OF assms(1)]] by auto
  show l: "live (proc_at S x)" using tinvD(5) [OF assms(1) x] assms(2) by simp
  show f: "fit (proc_at S x)" using tinvD(4) [OF assms(1) x] l by (simp add: proc_ok_def)
  then show "default_ok S x" by (simp add: fit_def default_ok_def)
qed

text \<open>Changing one process without changing whether it is live or queued.\<close>

lemma lv_inv_len: "lv_inv S \<Longrightarrow> length (k_procs S) = NPROC"
  by (rule lv_invD(1))

lemma tinv_upd_proc:
  assumes inv: "tinv rp ex S" and p: "p < NPROC" and l: "live (f (proc_at S p)) = live (proc_at S p)"
    and ok: "proc_ok (ex' = Some p) (f (proc_at S p))" and ex: "\<And>i. i \<noteq> p \<Longrightarrow> ex = Some i \<Longrightarrow> ex' = Some i"
    and run: "p_state (f (proc_at S p)) = RUNNING \<longleftrightarrow> rp' = Some p" "\<And>i. i \<noteq> p \<Longrightarrow> rp' = Some i \<longleftrightarrow> rp = Some i"
  shows "tinv rp' ex' (upd_proc p f S)"
proof -
  note T = tinvD [OF inv]
  have len: "p < length (k_procs S)" using lv_inv_len [OF T(1)] p by simp
  have "proc_ok (ex' = Some i) (proc_at (upd_proc p f S) i)
      \<and> (Some i \<in> set (queued (upd_proc p f S)) \<longleftrightarrow> live (proc_at (upd_proc p f S) i))
      \<and> (p_state (proc_at (upd_proc p f S) i) = RUNNING \<longleftrightarrow> rp' = Some i)" if i: "i < NPROC" for i
  proof (cases "i = p")
    case True
    then show ?thesis using len l ok run T(5) [OF i] by simp
  next
    case False
    have "proc_ok (ex' = Some i) (proc_at S i)" using T(4) [OF i] ex [OF False] by (auto simp: proc_ok_def)
    with False show ?thesis using T(5,6) [OF i] run(2) [OF False] by simp
  qed
  then show ?thesis using T(1-3) by (simp add: tinv_def expired_fresh_def)
qed

text \<open>Moving processes between levels with new quanta.\<close>

lemma proc_ok_refill:
  assumes "proc_ok sp x"
  shows "proc_ok sp' (x\<lparr>p_ticks_left := RSDL_PROC_QUANTUM\<rparr>)"
  using assms by (simp add: proc_ok_def live_def fit_def rsdl_defs)

lemma live_refill [simp]: "live (x\<lparr>p_ticks_left := t\<rparr>) = live x"
  by (simp add: live_def)

lemma tinv_requeued:
  assumes inv: "tinv rp ex S" and lv: "lv_inv S'" "expired_fresh S'" "k_kpgdir S' = k_kpgdir S" "set (queued S') = set (queued S)"
    and pr: "\<And>i. i < NPROC \<Longrightarrow> proc_at S' i = (if i \<in> X then (proc_at S i)\<lparr>p_ticks_left := RSDL_PROC_QUANTUM\<rparr> else proc_at S i)"
    and ex: "\<And>i. ex = Some i \<Longrightarrow> i \<in> X \<or> \<not> live (proc_at S i)"
  shows "tinv rp None S'"
proof -
  note T = tinvD [OF inv]
  have "proc_ok False (proc_at S' i)" if i: "i < NPROC" for i
  proof (cases "i \<in> X")
    case True
    then show ?thesis using pr [OF i] proc_ok_refill [OF T(4) [OF i]] by simp
  next
    case False
    then show ?thesis using pr [OF i] T(4) [OF i] ex by (auto simp: proc_ok_def)
  qed
  then show ?thesis using T(3,5,6) lv pr by (simp add: tinv_def)
qed

lemma tinv_moved:
  assumes inv: "tinv rp ex S" and m: "moved S S' q xs (\<lambda>_. True) T" and ex: "\<And>i. ex = Some i \<Longrightarrow> i \<in> set xs \<or> \<not> live (proc_at S i)"
  shows "tinv rp None S'"
proof (rule tinv_requeued [OF inv movedD(1) [OF m] _ _ _ movedD(4) [OF m] ex])
  show "expired_fresh S'"
    using tinvD(2) [OF inv] movedD(5) [OF m] moved_frame(2) [OF m] lv_invD(7) [OF tinvD(1) [OF inv]]
    by (simp add: expired_fresh_def)
  show "k_kpgdir S' = k_kpgdir S" using moved_frame [OF m] by simp
  show "set (queued S') = set (queued S)" using movedD(3) [OF m] by simp
qed

lemma tinv_unspent:
  assumes "tinv rp (Some p) S" "p < NPROC \<Longrightarrow> 0 < p_ticks_left (proc_at S p) \<or> \<not> live (proc_at S p)"
  shows "tinv rp None S"
proof -
  have "proc_ok False (proc_at S i)" if "i < NPROC" for i
    using tinvD(4) [OF assms(1) that] assms(2) that by (cases "i = p") (auto simp: proc_ok_def)
  then show ?thesis using assms(1) by (simp add: tinv_def)
qed

text \<open>Nothing but quanta changes in the process table.\<close>

definition same_procs :: "('e, 'z) kstate_scheme \<Rightarrow> ('e, 'z) kstate_scheme \<Rightarrow> bool" where
  "same_procs S S' \<longleftrightarrow> k_initproc S' = k_initproc S \<and> (\<forall>i < NPROC. \<exists>t. proc_at S' i = (proc_at S i)\<lparr>p_ticks_left := t\<rparr>)"

lemma same_procsI:
  assumes "k_initproc S' = k_initproc S"
    "\<And>i. i < NPROC \<Longrightarrow> proc_at S' i = proc_at S i \<or> proc_at S' i = (proc_at S i)\<lparr>p_ticks_left := t\<rparr>"
  shows "same_procs S S'"
proof -
  have "\<exists>t'. proc_at S' i = (proc_at S i)\<lparr>p_ticks_left := t'\<rparr>" if "i < NPROC" for i
    using assms(2) [OF that] by (metis (no_types, lifting) proc.surjective proc.update_convs(14))
  then show ?thesis using assms(1) by (simp add: same_procs_def)
qed

lemma same_procs_moved: "moved S S' q xs P T \<Longrightarrow> same_procs S S'"
  by (rule same_procsI [where t = RSDL_PROC_QUANTUM]) (auto simp: moved_frame movedD(4))

lemma same_procs_rotated: "rotated S S' k n \<Longrightarrow> same_procs S S'"
  by (rule same_procsI [where t = RSDL_PROC_QUANTUM]) (auto simp: rotated_frame rotatedD(4))

lemma same_procs_cong:
  assumes "same_procs S S'" "k_procs T = k_procs S" "k_initproc T = k_initproc S" "k_procs T' = k_procs S'" "k_initproc T' = k_initproc S'"
  shows "same_procs T T'"
  using assms by (simp add: same_procs_def)

section \<open>The end of a turn\<close>

definition back_ok :: "nat \<Rightarrow> nat \<Rightarrow> ('e, 'z) kstate_scheme \<Rightarrow> bool" where
  "back_ok p k S \<longleftrightarrow> k < RSDL_LEVELS \<and> p < NPROC
     \<and> (p \<in> set (procs_of S (k_active S + k)) \<or> p_state (proc_at S p) = ZOMBIE)"

lemma back_ok_cases:
  assumes "tinv None (Some p) S" "back_ok p k S"
  obtains "p \<in> set (procs_of S (k_active S + k))" "p_state (proc_at S p) \<noteq> ZOMBIE"
  | "p \<notin> set (procs_of S (k_active S + k))" "p_state (proc_at S p) = ZOMBIE"
proof (cases "p_state (proc_at S p) = ZOMBIE")
  case True
  have k: "k_active S + k < 2 * RSDL_LEVELS" using assms(2) lv_invD(6) [OF tinvD(1) [OF assms(1)]] by (simp add: back_ok_def)
  have "Some p \<notin> set (queued S)"
    using True tinvD(5) [OF assms(1), of p] assms(2) by (simp add: back_ok_def live_def)
  then show thesis using that(2) True k in_queued_procs [OF tinvD(1) [OF assms(1)]] by blast
next
  case False
  then show thesis using that(1) assms(2) by (simp add: back_ok_def)
qed

lemma depleted_tinv:
  assumes inv: "tinv None (Some p) S" and ctx: "level_ctx c S" and b: "back_ok p k S"
  shows "\<exists>S'. level_depleted c p (k_active S + k) k S = Inr S' \<and> tinv None None S' \<and> same_procs S S'
    \<and> cpus S' = cpus S \<and> locks S' = locks S"
proof -
  let ?q = "k_active S + k"
  have k: "k < RSDL_LEVELS" and pn: "p < NPROC" using b by (simp_all add: back_ok_def)
  note T = tinvD [OF inv]
  have q: "?q < 2 * RSDL_LEVELS" by (rule lv_invD(6) [OF T(1) k])
  have l: "lq_list (level_at S ?q) = map Some (procs_of S ?q)" by (rule procs_of_list [OF T(1) q])
  have d: "\<forall>x \<in> set (procs_of S ?q). default_ok S x"
    using tinv_queued_fit(4) [OF inv] in_queued_procs [OF T(1)] q by blast
  show ?thesis
  proof (rule back_ok_cases [OF inv b])
    assume p: "p \<in> set (procs_of S ?q)" "p_state (proc_at S p) \<noteq> ZOMBIE"
    then obtain S' where S': "level_depleted c p ?q k S = Inr S'"
        "moved S S' ?q (remove1 p (procs_of S ?q) @ [p]) (\<lambda>_. True) (step_down k S)"
      using level_depleted_spec [OF T(1,2) k ctx l d] by blast
    show ?thesis using S'(1) tinv_moved [OF inv S'(2)] same_procs_moved [OF S'(2)] moved_frame [OF S'(2)] by simp
  next
    assume p: "p \<notin> set (procs_of S ?q)" "p_state (proc_at S p) = ZOMBIE"
    then obtain S' where S': "level_depleted c p ?q k S = Inr S'" "moved S S' ?q (procs_of S ?q) (\<lambda>_. True) (step_down k S)"
      using level_depleted_zombie [OF T(1,2) k ctx l d] pn by blast
    have "\<not> live (proc_at S p)" using p(2) by (simp add: live_def)
    then show ?thesis using S'(1) tinv_moved [OF inv S'(2)] same_procs_moved [OF S'(2)] moved_frame [OF S'(2)] by simp
  qed
qed

lemma refill_proc:
  assumes "length (k_procs S) = NPROC" "i < NPROC"
  shows "proc_at (refill p S) i = (if i \<in> {p} then (proc_at S i)\<lparr>p_ticks_left := RSDL_PROC_QUANTUM\<rparr> else proc_at S i)"
  using assms by (simp add: refill_def)

lemma alive_refill_tinv:
  assumes inv: "tinv None (Some p) S" and p: "p < NPROC"
  shows "tinv None None (alive_refill S p)" "same_procs S (alive_refill S p)"
proof -
  note T = tinvD [OF inv] and R = refill_proc [OF lv_inv_len [OF tinvD(1) [OF inv]]]
  show "tinv None None (alive_refill S p)"
  proof (cases "p_ticks_left (proc_at S p) \<le> 0")
    case True
    have "tinv None None (refill p S)"
      by (rule tinv_requeued [OF inv _ _ _ _ R]) (use T(1,2) in \<open>auto simp: expired_fresh_def refill_def\<close>)
    with True show ?thesis by (simp add: alive_refill_def)
  next
    case False
    with tinv_unspent [OF inv] show ?thesis by (simp add: alive_refill_def)
  qed
  show "same_procs S (alive_refill S p)"
  proof (rule same_procsI [where t = RSDL_PROC_QUANTUM])
    show "k_initproc (alive_refill S p) = k_initproc S" by (simp add: alive_refill_def refill_def)
  qed (auto simp: alive_refill_def R)
qed

lemma tinv_relevel:
  assumes inv: "tinv rp None S" and q: "q < 2 * RSDL_LEVELS" "t < 2 * RSDL_LEVELS"
    and mem: "Some p \<in> set (lq_list (level_at S q))"
  shows "tinv rp None (upd_level t (lq_push (Some p)) (upd_level q (lq_remove (Some p)) S))"
proof -
  note T = tinvD [OF inv] and D = lv_invD [OF tinvD(1) [OF inv]]
  let ?H = "upd_level q (lq_remove (Some p)) S" and ?S = "upd_level t (lq_push (Some p)) (upd_level q (lq_remove (Some p)) S)"
  have pq: "Some p \<in> set (queued S)" using mem q D(2) by (auto simp: in_queued)
  then have pn: "p < NPROC" using D(5) by auto
  note H = lv_inv_remove [OF T(1) q(1) mem]
  have out: "Some p \<notin> set (queued ?H)" using H(2) by simp
  note P = lv_inv_push [OF H(1) q(2) pn out]
  have lt: "lq_ticks_left (level_at ?S r) = lq_ticks_left (level_at S r)" if "r < 2 * RSDL_LEVELS" for r
    using that D(2) by (cases "r = t"; cases "r = q") simp_all
  show ?thesis
  proof (rule tinv_requeued [OF inv P(1), of "{}"])
    show "expired_fresh ?S" using T(2) lt D(7) by (simp add: expired_fresh_def)
    show "set (queued ?S) = set (queued S)" using P(2) H(2) pq by auto
  qed simp_all
qed

lemma alive_tinv:
  assumes inv: "tinv None (Some p) S" and ctx: "level_ctx c S" and b: "back_ok p k S"
    and ticks: "0 < lq_ticks_left (level_at S (k_active S + k))"
  shows "\<exists>S'. level_alive c p (k_active S + k) k S = Inr S' \<and> tinv None None S' \<and> same_procs S S'
    \<and> cpus S' = cpus S \<and> locks S' = locks S"
proof -
  let ?q = "k_active S + k"
  have k: "k < RSDL_LEVELS" and pn: "p < NPROC" using b by (simp_all add: back_ok_def)
  note T = tinvD [OF inv] and R = alive_refill_tinv [OF inv pn]
  have q: "?q < 2 * RSDL_LEVELS" by (rule lv_invD(6) [OF T(1) k])
  have fr: "cpus (alive_refill S p) = cpus S" "locks (alive_refill S p) = locks S"
    by (simp_all add: alive_refill_def refill_def)
  show ?thesis
  proof (rule back_ok_cases [OF inv b])
    assume p: "p \<in> set (procs_of S ?q)" "p_state (proc_at S p) \<noteq> ZOMBIE"
    then have mem: "Some p \<in> set (lq_list (level_at S ?q))" using procs_of_list [OF T(1) q] by simp
    have d: "default_ok S p" using tinv_queued_fit(4) [OF inv, of p] mem q lv_invD(2) [OF T(1)] by (auto simp: in_queued)
    let ?S = "upd_level (alive_tgt k S p) (lq_push (Some p)) (upd_level ?q (lq_remove (Some p)) (alive_refill S p))"
    have "alive_tgt k S p < 2 * RSDL_LEVELS"
      using step_down_facts(1) [OF T(1,2) k d] q by (simp add: alive_tgt_def)
    then have "tinv None None ?S" using tinv_relevel [OF R(1) q] mem by simp
    moreover have "same_procs S ?S" using R(2) by (rule same_procs_cong) simp_all
    ultimately show ?thesis
      using level_alive_spec [OF T(1,2) k ctx ticks mem p(2) d] fr by simp
  next
    assume p: "p \<notin> set (procs_of S ?q)" "p_state (proc_at S p) = ZOMBIE"
    have "p_state (proc_at (alive_refill S p) p) = ZOMBIE"
      using p(2) pn lv_inv_len [OF T(1)] by (simp add: alive_refill_def refill_def)
    then have "level_alive c p ?q k S = Inr (alive_refill S p)"
      using p(2) by (auto simp: level_alive_def alive_refill_def refill_def Let_def)
    then show ?thesis using R fr by simp
  qed
qed

lemma V2P_ok: "KERNBASE \<le> a \<Longrightarrow> V2P a = Inr (a - KERNBASE)"
  by (simp add: V2P_def not_less [symmetric])

lemma scheduler_after_ok:
  assumes cr: "crit c S" and inv: "tinv None (Some p) S" and b: "back_ok p k S"
    and f: "c_frame (cpus S ! c) = Some (p, k_active S + k, k)"
  shows "\<exists>S'. scheduler_after c S = Inr S' \<and> quiet c S' \<and> tinv None None S' \<and> same_procs S S' \<and> cur c S' = (None, None, None)"
proof -
  note T = tinvD [OF inv]
  have c: "c < length (cpus S)" using cr by (simp add: crit_def cpu_ok_def)
  obtain pa where pa: "V2P (k_kpgdir S) = Inr pa" using V2P_ok [OF T(3)] by blast
  let ?S1 = "upd_cpu c (\<lambda>x. x\<lparr>c_cr3 := pa\<rparr>) S"
  have cr1: "crit c ?S1" using cr by (rule crit_upd_cpu) simp_all
  have i1: "tinv None (Some p) ?S1" "back_ok p k ?S1" using inv b by (simp_all add: back_ok_def procs_of_def)
  have "\<exists>S2. (if lq_ticks_left (level_at ?S1 (k_active S + k)) \<le> 0 then level_depleted c p (k_active S + k) k ?S1
             else level_alive c p (k_active S + k) k ?S1) = Inr S2
      \<and> tinv None None S2 \<and> same_procs ?S1 S2 \<and> cpus S2 = cpus ?S1 \<and> locks S2 = locks ?S1"
    using depleted_tinv [OF i1(1) crit_level_ctx [OF cr1] i1(2)] alive_tinv [OF i1(1) crit_level_ctx [OF cr1] i1(2)] by simp
  then obtain S2 where S2: "(if lq_ticks_left (level_at ?S1 (k_active S + k)) \<le> 0 then level_depleted c p (k_active S + k) k ?S1
             else level_alive c p (k_active S + k) k ?S1) = Inr S2"
      "tinv None None S2" "same_procs ?S1 S2" "cpus S2 = cpus ?S1" "locks S2 = locks ?S1" by blast
  let ?S3 = "upd_cpu c (\<lambda>x. x\<lparr>c_proc := None, c_queue := None, c_frame := None\<rparr>) S2"
  have "crit c S2" using crit_cong [OF S2(4,5)] cr1 by simp
  then have cr3: "crit c ?S3" by (rule crit_upd_cpu) simp_all
  have "scheduler_after c S = Inr (depart c PtableLock ?S3)"
    using f pa S2(1) release_crit(1) [OF cr3] by (simp add: scheduler_after_def switchkvm_def)
  moreover have "same_procs S (depart c PtableLock ?S3)" using S2(3) by (rule same_procs_cong) simp_all
  moreover have "cur c ?S3 = (None, None, None)" using c S2(4) by (simp add: cur_def)
  ultimately show ?thesis using release_crit(2,3) [OF cr3] S2(2) by simp
qed

section \<open>The log of the scheduler\<close>

lemma kprintf_level: "\<exists>out. kprintf ''%d|%s|%d(%d)'' [PWord a, PStr s, PWord b, PWord d] S = Inr (S\<lparr>k_out := out\<rparr>)"
  and kprintf_proc: "\<exists>out. kprintf '',[%d]%s:%d(%d)'' [PWord a, PStr s, PWord b, PWord d] S = Inr (S\<lparr>k_out := out\<rparr>)"
  and kprintf_nl: "\<exists>out. kprintf [CHR 0x0A] [] S = Inr (S\<lparr>k_out := out\<rparr>)"
  by (simp_all add: kprintf_def) blast+

lemma schedlog_procs_out: "\<exists>out. schedlog_procs (map Some xs) S = Inr (S\<lparr>k_out := out\<rparr>)"
proof (induction xs arbitrary: S)
  case Nil
  have "S = S\<lparr>k_out := k_out S\<rparr>" by simp
  then show ?case by (metis list.simps(8) schedlog_procs.simps(1))
next
  case (Cons x xs)
  obtain out where o1: "kprintf '',[%d]%s:%d(%d)'' [PWord (word_of_int (p_pid (proc_at S x))),
          PStr (Some (p_name (proc_at S x))), PWord (state_num (p_state (proc_at S x))),
          PWord (word_of_int (p_ticks_left (proc_at S x)))] S = Inr (S\<lparr>k_out := out\<rparr>)"
    using kprintf_proc by blast
  show ?case using Cons.IH [of S] Cons.IH [of "S\<lparr>k_out := out\<rparr>"] o1 by auto
qed

lemma nested_section:
  assumes ok: "cpu_ok c S" and pos: "0 < c_ncli (cpus S ! c)" and fr: "lock_free l S"
  shows "acquire c l S = Inr (enter c l S)"
    "cpus X = cpus (enter c l S) \<Longrightarrow> locks X = locks (enter c l S) \<Longrightarrow>
      release c l X = Inr (X\<lparr>cpus := cpus S, locks := locks S\<rparr>)"
proof -
  have c: "c < length (cpus S)" and off: "\<not> c_if (cpus S ! c)" using ok pos by (auto simp: cpu_ok_def)
  show "acquire c l S = Inr (enter c l S)"
    using fr by (simp add: acquire_eq [OF ok] lock_free_def enter_def)
  assume X: "cpus X = cpus (enter c l S)" "locks X = locks (enter c l S)"
  have Xc: "cpus X = (cpus S)[c := (cpus S ! c)\<lparr>c_ncli := c_ncli (cpus S ! c) + 1\<rparr>]"
    using X(1) c off pos by (cases "cpus S ! c") (simp add: enter_def pushcli_eq upd_cpu_def)
  have Xl: "locks X = (locks S)(l := (locks S l)\<lparr>lk_locked := True, lk_cpu := Some c\<rparr>)"
    using X(2) c by (simp add: enter_def pushcli_eq)
  have okX: "cpu_ok c X" "0 < c_ncli (cpus X ! c)" using c off pos by (simp_all add: cpu_ok_def Xc)
  have "release c l X = Inr (depart c l X)"
    using release_eq [OF okX] by (simp add: depart_def Xl)
  moreover have "cpus (depart c l X) = cpus S"
    using c off pos by (cases "cpus S ! c") (simp add: depart_def upd_cpu_def Xc list_update_same_conv)
  moreover have "locks (depart c l X) = locks S"
    using fr by (cases "locks S l") (auto simp: depart_def Xl lock_free_def fun_eq_iff)
  moreover have "depart c l X = X\<lparr>cpus := cpus (depart c l X), locks := locks (depart c l X)\<rparr>"
    by (simp add: depart_def upd_cpu_def upd_lock_def)
  ultimately show "release c l X = Inr (X\<lparr>cpus := cpus S, locks := locks S\<rparr>)" by simp
qed

lemma level_section:
  assumes "level_ctx c S"
  shows "acquire c (LevelLock q) S = Inr (enter c (LevelLock q) S)"
    "cpus X = cpus (enter c (LevelLock q) S) \<Longrightarrow> locks X = locks (enter c (LevelLock q) S) \<Longrightarrow>
      release c (LevelLock q) X = Inr (X\<lparr>cpus := cpus S, locks := locks S\<rparr>)"
  using assms nested_section [of c S "LevelLock q"] by (simp_all add: level_ctx_def)

lemma schedlog_level_out:
  assumes "level_ctx c S" "lv_inv S" "q < 2 * RSDL_LEVELS"
  shows "\<exists>out. schedlog_level c nm q k S = Inr (S\<lparr>k_out := out\<rparr>)"
proof -
  let ?S1 = "enter c (LevelLock q) S"
  obtain o1 where o1: "kprintf ''%d|%s|%d(%d)'' [PWord (k_ticks ?S1), PStr (Some nm), PWord (of_nat k),
       PWord (word_of_int (lq_ticks_left (level_at ?S1 q)))] ?S1 = Inr (?S1\<lparr>k_out := o1\<rparr>)" using kprintf_level by blast
  obtain o2 where o2: "schedlog_procs (map Some (procs_of S q)) (?S1\<lparr>k_out := o1\<rparr>) = Inr (?S1\<lparr>k_out := o1\<rparr>\<lparr>k_out := o2\<rparr>)"
    using schedlog_procs_out by blast
  have rel: "release c (LevelLock q) (?S1\<lparr>k_out := o2\<rparr>) = Inr ((?S1\<lparr>k_out := o2\<rparr>)\<lparr>cpus := cpus S, locks := locks S\<rparr>)"
    by (rule level_section(2) [OF assms(1)]) simp_all
  have eq: "(?S1\<lparr>k_out := o2\<rparr>)\<lparr>cpus := cpus S, locks := locks S\<rparr> = S\<lparr>k_out := o2\<rparr>"
    by (simp add: enter_def pushcli_def upd_lock_def upd_cpu_def Let_def)
  obtain o3 where o3: "kprintf [CHR 0x0A] [] (S\<lparr>k_out := o2\<rparr>) = Inr (S\<lparr>k_out := o2\<rparr>\<lparr>k_out := o3\<rparr>)" using kprintf_nl by blast
  have "schedlog_level c nm q k S = Inr (S\<lparr>k_out := o3\<rparr>)"
    using level_section(1) [OF assms(1)] o1 o2 o3 rel procs_of_list [OF assms(2,3)] unfolding schedlog_level_def eq
    by simp
  then show ?thesis by blast
qed

lemma schedlog_set_out:
  assumes "level_ctx c S" "lv_inv S" "\<forall>k \<in> set ks. base + k < 2 * RSDL_LEVELS"
  shows "\<exists>out. schedlog_set c nm base ks S = Inr (S\<lparr>k_out := out\<rparr>)"
  using assms
proof (induction ks arbitrary: S)
  case Nil
  have "S = S\<lparr>k_out := k_out S\<rparr>" by simp
  then show ?case by (metis schedlog_set.simps(1))
next
  case (Cons k ks)
  obtain out where o1: "schedlog_level c nm (base + k) k S = Inr (S\<lparr>k_out := out\<rparr>)"
    using schedlog_level_out [OF Cons.prems(1,2), of "base + k" nm k] Cons.prems(3) by auto
  have "level_ctx c (S\<lparr>k_out := out\<rparr>)" using Cons.prems(1) by (simp add: level_ctx_def cpu_ok_def lock_free_def)
  moreover have "lv_inv (S\<lparr>k_out := out\<rparr>)" using Cons.prems(2) by (simp add: lv_inv_def table_wf_def queued_def)
  ultimately show ?case using Cons.IH [of "S\<lparr>k_out := out\<rparr>"] Cons.prems(3) o1 by auto
qed

lemma print_schedlog_out:
  assumes "level_ctx c S" "lv_inv S"
  shows "\<exists>out. print_schedlog c S = Inr (S\<lparr>k_out := out\<rparr>)"
proof -
  note set_out = schedlog_set_out [of c _ "[0..<RSDL_LEVELS]"]
  obtain o1 where o1: "schedlog_set c (if is_active_set S (k_active S) then ''active'' else ''expired'') (k_active S) [0..<RSDL_LEVELS] S
      = Inr (S\<lparr>k_out := o1\<rparr>)" using set_out [of S "k_active S"] assms lv_invD(6) [OF assms(2)] by auto
  have "level_ctx c (S\<lparr>k_out := o1\<rparr>)" "lv_inv (S\<lparr>k_out := o1\<rparr>)"
    using assms by (simp_all add: level_ctx_def cpu_ok_def lock_free_def lv_inv_def table_wf_def queued_def)
  then obtain o2 where "schedlog_set c (if is_active_set S (k_expired S) then ''active'' else ''expired'') (k_expired S)
      [0..<RSDL_LEVELS] (S\<lparr>k_out := o1\<rparr>) = Inr (S\<lparr>k_out := o1\<rparr>\<lparr>k_out := o2\<rparr>)"
    using set_out [of "S\<lparr>k_out := o1\<rparr>" "k_expired S"] lv_invD(7) [OF assms(2)] by auto
  then show ?thesis using o1 by (simp add: print_schedlog_def Let_def) blast
qed

section \<open>The start of a turn\<close>

lemma choice_SomeD:
  assumes "choice 0 S = Some (p, q, k)"
  shows "k < RSDL_LEVELS" "q = k_active S + k" "p \<in> set (procs_of S q)" "0 < lq_ticks_left (level_at S q)" "pickable S p"
proof -
  have "(p, k) \<in> set (candidates 0 S)" "pickable S p" "q = k_active S + k"
    using assms by (auto simp: choice_def find_Some_iff in_set_conv_nth)
  then show "k < RSDL_LEVELS" "q = k_active S + k" "p \<in> set (procs_of S q)" "0 < lq_ticks_left (level_at S q)" "pickable S p"
    by (auto simp: candidates_def split: if_splits)
qed

lemma choice_cong:
  assumes "k_procs S = k_procs T" "k_levels S = k_levels T" "k_active S = k_active T"
  shows "choice k S = choice k T"
  using assms by (simp add: choice_def candidates_def procs_of_def pickable_def cong del: if_weak_cong)

lemma swap_tinv:
  assumes inv: "tinv None None S" and ctx: "level_ctx c S"
  shows "\<exists>S'. swap_sets c S = Inr S' \<and> tinv None None S' \<and> same_procs S S' \<and> cpus S' = cpus S \<and> locks S' = locks S"
proof -
  let ?S = "S\<lparr>k_active := k_expired S, k_expired := k_active S\<rparr>"
  note T = tinvD [OF inv]
  obtain S' where S': "swap_sets c S = Inr S'" "rotated ?S S' 0 RSDL_LEVELS"
    using swap_sets_spec [OF T(1,2) _ ctx] tinv_queued_fit(4) [OF inv] by blast
  note R = rotatedD [OF S'(2)] and F = rotated_frame [OF S'(2)]
  define X where "X = set (concat (map (\<lambda>j. procs_of ?S (k_expired ?S + j)) [0..<0 + RSDL_LEVELS]))"
  have pr: "proc_at S' i = (if i \<in> X then (proc_at S i)\<lparr>p_ticks_left := RSDL_PROC_QUANTUM\<rparr> else proc_at S i)" if "i < NPROC" for i
    using R(4) [OF that] unfolding X_def by simp
  have "tinv None None S'"
  proof (rule tinv_requeued [OF inv R(1) _ _ _ pr])
    show "expired_fresh S'" using R(7) F(2) by (simp add: expired_fresh_def)
    show "k_kpgdir S' = k_kpgdir S" using F by simp
    show "set (queued S') = set (queued S)" using R(3) by (simp add: queued_def)
  qed simp_all
  moreover have "same_procs S S'" using same_procs_rotated [OF S'(2)] by (simp add: same_procs_def)
  ultimately show ?thesis using S'(1) F by simp
qed

lemma switchuvm_crit:
  assumes cr: "crit c S" and f: "fit (proc_at S p)"
  shows "\<exists>S'. switchuvm c (Some p) S = Inr S' \<and> crit c S' \<and> cur c S' = cur c S
    \<and> S' = S\<lparr>cpus := cpus S'\<rparr>"
proof -
  have ok: "cpu_ok c S" and n: "c_ncli (cpus S ! c) = 1" using cr by (simp_all add: crit_def)
  have c: "c < length (cpus S)" and off: "\<not> c_if (cpus S ! c)" using ok n by (auto simp: cpu_ok_def)
  have kp: "p_kstack (proc_at S p) \<noteq> 0" "p_pgdir (proc_at S p) \<noteq> 0" "KERNBASE \<le> p_pgdir (proc_at S p)"
    using f by (auto simp: fit_def KERNBASE_def)
  let ?f = "\<lambda>x. x\<lparr>c_esp0 := p_kstack (proc_at S p) + KSTACKSIZE, c_cr3 := p_pgdir (proc_at S p) - KERNBASE\<rparr>"
  let ?S = "upd_cpu c ?f S"
  have S1: "pushcli c S = upd_cpu c (\<lambda>x. x\<lparr>c_if := False, c_ncli := c_ncli x + 1\<rparr>) S"
    using c n by (simp add: pushcli_eq upd_cpu_def)
  have "switchuvm c (Some p) S = Inr ?S"
    using kp c off n unfolding switchuvm_def S1
    by (cases "cpus S ! c") (simp add: V2P_ok popcli_eq Let_def upd_cpu_def)
  moreover have "crit c ?S" using cr by (rule crit_upd_cpu) simp_all
  moreover have "cur c ?S = cur c S" using c by (simp add: cur_def)
  ultimately show ?thesis by (simp add: upd_cpu_def)
qed

lemma tinv_run:
  assumes inv: "tinv None None S" and p: "p < NPROC" "p_state (proc_at S p) = RUNNABLE"
  shows "tinv (Some p) (Some p) (upd_proc p (\<lambda>x. x\<lparr>p_state := RUNNING\<rparr>) S)"
proof (rule tinv_upd_proc [OF inv p(1)])
  show "proc_ok (Some p = Some p) ((proc_at S p)\<lparr>p_state := RUNNING\<rparr>)"
    using tinvD(4) [OF inv p(1)] p(2) by (simp add: proc_ok_def live_def fit_def)
qed (use p(2) in \<open>simp_all add: live_def\<close>)

text \<open>Where \<open>scheduler()\<close> stands when it switches to the process it chose.\<close>

definition switched :: "nat \<Rightarrow> nat \<Rightarrow> nat \<Rightarrow> ('e, 'z) kstate_scheme \<Rightarrow> ('e, 'z) kstate_scheme \<Rightarrow> bool" where
  "switched c p k S S' \<longleftrightarrow> crit c S' \<and> tinv (Some p) (Some p) S'
     \<and> cur c S' = (Some p, Some (k_active S + k), Some (p, k_active S + k, k)) \<and> k_levels S' = k_levels S \<and> k_active S' = k_active S
     \<and> k_procs S' = (k_procs S)[p := (proc_at S p)\<lparr>p_state := RUNNING\<rparr>] \<and> k_initproc S' = k_initproc S
     \<and> k_env S' = k_env S \<and> k_first S' = k_first S"

lemma scheduler_pick_found:
  assumes q: "quiet c S" and inv: "tinv None None S" and ch: "choice 0 S = Some (p, q, k)"
  shows "\<exists>S'. scheduler_pick c S = Inr (True, S') \<and> switched c p k S S'"
proof -
  note C = choice_SomeD [OF ch]
  let ?S0 = "upd_cpu c (\<lambda>x. x\<lparr>c_if := True\<rparr>) S" let ?S1 = "enter c PtableLock ?S0"
  have q0: "quiet c ?S0" using q by (auto simp: quiet_def cpu_ok_def lock_free_def)
  note A = acquire_quiet [OF q0, of PtableLock]
  have cr1: "crit c ?S1" using A(2) by simp
  have i1: "tinv None None ?S1" using inv by simp
  have pk: "pick_levels c 0 RSDL_LEVELS ?S1 = Inr (Some (p, q, k), ?S1)"
    using pick_levels_choice [OF crit_level_ctx [OF cr1] tinvD(1) [OF i1]] choice_cong [of ?S1 S 0] ch by simp
  let ?S3 = "if k_schedlog_active ?S1 \<and> k_ticks ?S1 > word_of_int (k_schedlog_lasttick ?S1) then ?S1\<lparr>k_schedlog_active := False\<rparr> else ?S1"
  let ?T = "upd_cpu c (\<lambda>x. x\<lparr>c_proc := Some p, c_queue := Some q\<rparr>) ?S3"
  have k3: "k_procs ?S3 = k_procs S" "k_levels ?S3 = k_levels S" "k_active ?S3 = k_active S" "k_initproc ?S3 = k_initproc S"
    "k_env ?S3 = k_env S" "k_first ?S3 = k_first S" "cpus ?S3 = cpus ?S1" "locks ?S3 = locks ?S1" by simp_all
  have i3: "tinv None None ?S3" using i1 by simp
  have crT: "crit c ?T" using cr1 crit_cong [OF k3(7,8)] by (intro crit_upd_cpu) simp_all
  have pq: "Some p \<in> set (queued S)" using C lv_invD(6) [OF tinvD(1) [OF inv]] in_queued_procs [OF tinvD(1) [OF inv]] by blast
  note P = tinv_queued_fit [OF inv pq]
  have "fit (proc_at ?T p)" using P(3) by simp
  from switchuvm_crit [OF crT this] obtain S4 where S4: "switchuvm c (Some p) ?T = Inr S4" "crit c S4" "cur c S4 = cur c ?T"
    "S4 = ?T\<lparr>cpus := cpus S4\<rparr>" by blast
  have k4: "k_procs S4 = k_procs S" "k_levels S4 = k_levels S" "k_active S4 = k_active S" "k_initproc S4 = k_initproc S"
    "k_env S4 = k_env S" "k_first S4 = k_first S" "k_expired S4 = k_expired S" "k_kpgdir S4 = k_kpgdir S" by (subst S4(4), simp)+
  have i4: "tinv None None S4" using inv tinv_cong [of S4 S] k4 by simp
  let ?S5 = "upd_proc p (\<lambda>x. x\<lparr>p_state := RUNNING\<rparr>) S4"
  have i5: "tinv (Some p) (Some p) ?S5" using tinv_run [OF i4 P(1)] C(5) k4(1) by (simp add: pickable_def)
  have cr5: "crit c ?S5" using S4(2) by simp
  obtain out where out: "(if k_schedlog_active ?S5 \<and> k_ticks ?S5 \<le> word_of_int (k_schedlog_lasttick ?S5)
        then print_schedlog c ?S5 else Inr ?S5) = Inr (?S5\<lparr>k_out := out\<rparr>)"
    using print_schedlog_out [OF crit_level_ctx [OF cr5] tinvD(1) [OF i5]]
    by (metis (no_types, lifting) kstate.surjective kstate.update_convs(10))
  let ?S6 = "?S5\<lparr>k_out := out\<rparr>" let ?S7 = "upd_cpu c (\<lambda>x. x\<lparr>c_frame := Some (p, q, k)\<rparr>) ?S6"
  have c: "c < length (cpus S4)" "c < length (cpus ?S3)" using S4(2) crT by (auto simp: crit_def cpu_ok_def)
  have "crit c ?S6" using cr5 crit_cong [of ?S6 ?S5] by simp
  then have "crit c ?S7" by (rule crit_upd_cpu) simp_all
  moreover have "cur c ?S7 = (Some p, Some q, Some (p, q, k))" using c S4(3) by (simp add: cur_def)
  ultimately have "switched c p k S ?S7"
    using i5 k4 C(2) unfolding switched_def by (simp add: upd_proc_def)
  moreover have "scheduler_pick c S = Inr (True, ?S7)"
    using A(1) pk S4(1) out by (simp add: scheduler_pick_def Let_def)
  ultimately show ?thesis by blast
qed

text \<open>With nothing to run the turn is the exchange of the sets, between taking and releasing the lock.\<close>

lemma scheduler_pick_swap:
  assumes q: "quiet c S" and inv: "tinv None None S" and ch: "choice 0 S = None"
  obtains S3 S4 where "level_ctx c S3" "tinv None None S3" "k_procs S3 = k_procs S" "k_levels S3 = k_levels S"
    "k_active S3 = k_active S" "k_expired S3 = k_expired S" "swap_sets c S3 = Inr S4" "tinv None None S4" "same_procs S S4"
    "scheduler_pick c S = Inr (False, depart c PtableLock S4)" "quiet c (depart c PtableLock S4)" "cur c (depart c PtableLock S4) = cur c S"
proof -
  let ?S0 = "upd_cpu c (\<lambda>x. x\<lparr>c_if := True\<rparr>) S" let ?S1 = "enter c PtableLock ?S0"
  have q0: "quiet c ?S0" using q by (auto simp: quiet_def cpu_ok_def lock_free_def)
  have c: "c < length (cpus S)" using q by (simp add: quiet_def cpu_ok_def)
  note A = acquire_quiet [OF q0, of PtableLock]
  have cr1: "crit c ?S1" using A(2) by simp
  have i1: "tinv None None ?S1" using inv by simp
  have pk: "pick_levels c 0 RSDL_LEVELS ?S1 = Inr (None, ?S1)"
    using pick_levels_choice [OF crit_level_ctx [OF cr1] tinvD(1) [OF i1]] choice_cong [of ?S1 S 0] ch by simp
  let ?S3 = "if k_schedlog_active ?S1 \<and> k_ticks ?S1 > word_of_int (k_schedlog_lasttick ?S1) then ?S1\<lparr>k_schedlog_active := False\<rparr> else ?S1"
  have k3: "cpus ?S3 = cpus ?S1" "locks ?S3 = locks ?S1" "k_procs ?S3 = k_procs S" "k_initproc ?S3 = k_initproc S"
    "k_levels ?S3 = k_levels S" "k_active ?S3 = k_active S" "k_expired ?S3 = k_expired S" by simp_all
  have i3: "tinv None None ?S3" using i1 by simp
  have cr3: "crit c ?S3" using crit_cong [OF k3(1,2)] cr1 by simp
  obtain S4 where S4: "swap_sets c ?S3 = Inr S4" "tinv None None S4" "same_procs ?S3 S4" "cpus S4 = cpus ?S3" "locks S4 = locks ?S3"
    using swap_tinv [OF i3 crit_level_ctx [OF cr3]] by blast
  have cr4: "crit c S4" using crit_cong [OF S4(4,5)] cr3 by simp
  note R = release_crit [OF cr4]
  have "cur c S4 = cur c S" using cur_cong [OF S4(4)] cur_cong [OF k3(1)] A(3) c by (simp add: cur_def)
  moreover have "same_procs S S4" using S4(3) by (rule same_procs_cong) (simp_all add: k3)
  moreover have "scheduler_pick c S = Inr (False, depart c PtableLock S4)"
    using A(1) pk S4(1) R(1) by (simp add: scheduler_pick_def Let_def)
  ultimately show thesis
    using that [OF crit_level_ctx [OF cr3] i3 k3(3,5,6,7) S4(1,2)] R(2,3) by simp
qed

lemma scheduler_pick_idle:
  assumes q: "quiet c S" and inv: "tinv None None S" and ch: "choice 0 S = None"
  shows "\<exists>S'. scheduler_pick c S = Inr (False, S') \<and> quiet c S' \<and> tinv None None S' \<and> same_procs S S' \<and> cur c S' = cur c S"
  by (rule scheduler_pick_swap [OF assms]) (simp add: same_procs_def)

end
