(* ===== verification/KSteps.thy ===== *)
theory KSteps
  imports KInv
begin

text \<open>
  The operations of \<^verbatim>\<open>proc.c\<close> and \<^verbatim>\<open>trap.c\<close> as steps between the points where CPU
  \<open>c\<close> holds no lock: each keeps the invariant and does not panic.
\<close>

section \<open>The scheduler idle, and a process running\<close>

definition idle_ok :: "nat \<Rightarrow> ('e, 'z) kstate_scheme \<Rightarrow> bool" where
  "idle_ok c S \<longleftrightarrow> quiet c S \<and> tinv None None S \<and> cur c S = (None, None, None)"

definition placed :: "nat \<Rightarrow> nat \<Rightarrow> nat \<Rightarrow> ('e, 'z) kstate_scheme \<Rightarrow> bool" where
  "placed c p k S \<longleftrightarrow> tinv (Some p) (Some p) S \<and> cur c S = (Some p, Some (k_active S + k), Some (p, k_active S + k, k))
     \<and> k < RSDL_LEVELS \<and> p \<in> set (procs_of S (k_active S + k))"

definition run_ok :: "nat \<Rightarrow> nat \<Rightarrow> nat \<Rightarrow> ('e, 'z) kstate_scheme \<Rightarrow> bool" where
  "run_ok c p k S \<longleftrightarrow> quiet c S \<and> placed c p k S"

text \<open>
  What steps never do: change which process is \<open>init\<close>, end it or kill it, or leave a live
  process without a current directory. \<open>X\<close> are processes left out of account.
\<close>

definition lost :: "proc \<Rightarrow> bool" where
  "lost x \<longleftrightarrow> live x \<and> p_cwd x = None"

definition kept :: "nat set \<Rightarrow> ('e, 'z) kstate_scheme \<Rightarrow> ('e, 'z) kstate_scheme \<Rightarrow> bool" where
  "kept X S S' \<longleftrightarrow> k_initproc S' = k_initproc S \<and> (\<forall>i < NPROC. i \<notin> X \<longrightarrow>
     (k_initproc S = Some i \<longrightarrow> (live (proc_at S i) \<longrightarrow> live (proc_at S' i)) \<and> (p_killed (proc_at S' i) \<longrightarrow> p_killed (proc_at S i)))
     \<and> (lost (proc_at S' i) \<longrightarrow> lost (proc_at S i)))"

abbreviation init_kept :: "('e, 'z) kstate_scheme \<Rightarrow> ('e, 'z) kstate_scheme \<Rightarrow> bool" where
  "init_kept S S' \<equiv> kept {} S S'"

lemma kept_refl [simp]: "kept X S S"
  by (simp add: kept_def)

lemma kept_trans: "kept X S T \<Longrightarrow> kept X T U \<Longrightarrow> kept X S U"
  by (simp add: kept_def)

lemma kept_mono: "kept {} S T \<Longrightarrow> kept X S T"
  by (simp add: kept_def)

lemma kept_cong:
  assumes "kept X S S'" "k_procs T = k_procs S" "k_initproc T = k_initproc S" "k_procs T' = k_procs S'" "k_initproc T' = k_initproc S'"
  shows "kept X T T'"
  using assms by (simp add: kept_def)

lemma kept_drop:
  assumes "kept {p} S S'" "k_initproc S \<noteq> Some p" "\<not> live (proc_at S' p)"
  shows "kept {} S S'"
proof -
  have "(k_initproc S = Some i \<longrightarrow> (live (proc_at S i) \<longrightarrow> live (proc_at S' i)) \<and> (p_killed (proc_at S' i) \<longrightarrow> p_killed (proc_at S i)))
     \<and> (lost (proc_at S' i) \<longrightarrow> lost (proc_at S i))" if "i < NPROC" for i
    using assms that by (cases "i = p") (auto simp: kept_def lost_def)
  then show ?thesis using assms(1) by (simp add: kept_def)
qed

lemma kept_same:
  assumes "same_procs S S'"
  shows "kept X S S'"
proof -
  have "live (proc_at S' i) = live (proc_at S i) \<and> p_killed (proc_at S' i) = p_killed (proc_at S i)
      \<and> lost (proc_at S' i) = lost (proc_at S i)" if i: "i < NPROC" for i
  proof -
    obtain t where "proc_at S' i = (proc_at S i)\<lparr>p_ticks_left := t\<rparr>" using assms i by (auto simp: same_procs_def)
    then show ?thesis by (simp add: lost_def)
  qed
  then show ?thesis using assms by (simp add: kept_def same_procs_def)
qed

lemma kept_upd:
  assumes "length (k_procs S) = NPROC" "k_initproc S = Some p \<Longrightarrow> live (f (proc_at S p)) \<or> \<not> live (proc_at S p)"
    "k_initproc S = Some p \<Longrightarrow> p_killed (f (proc_at S p)) \<longrightarrow> p_killed (proc_at S p)"
    "lost (f (proc_at S p)) \<longrightarrow> lost (proc_at S p)"
  shows "kept X S (upd_proc p f S)"
proof -
  have "(k_initproc S = Some i \<longrightarrow> (live (proc_at S i) \<longrightarrow> live (proc_at (upd_proc p f S) i))
      \<and> (p_killed (proc_at (upd_proc p f S) i) \<longrightarrow> p_killed (proc_at S i)))
      \<and> (lost (proc_at (upd_proc p f S) i) \<longrightarrow> lost (proc_at S i))"
    if "i < NPROC" for i
    using assms that by (cases "i = p") auto
  then show ?thesis by (simp add: kept_def)
qed

lemma kept_others:
  assumes "k_initproc S' = k_initproc S" "\<And>i. i \<noteq> p \<Longrightarrow> proc_at S' i = proc_at S i"
  shows "kept {p} S S'"
  using assms by (simp add: kept_def)

lemma placed_cong:
  assumes "k_procs S = k_procs T" "k_levels S = k_levels T" "k_active S = k_active T" "k_expired S = k_expired T"
    "k_kpgdir S = k_kpgdir T" "cur c S = cur c T"
  shows "placed c p k S = placed c p k T"
  using assms tinv_cong [OF assms(1-5)] by (simp add: placed_def procs_of_def)

lemma placedD:
  assumes "placed c p k S"
  shows "tinv (Some p) (Some p) S" "c_proc (cpus S ! c) = Some p" "c_queue (cpus S ! c) = Some (k_active S + k)"
    "c_frame (cpus S ! c) = Some (p, k_active S + k, k)" "k < RSDL_LEVELS" "p \<in> set (procs_of S (k_active S + k))"
    "p < NPROC" "p_state (proc_at S p) = RUNNING" "fit (proc_at S p)" "length (k_procs S) = NPROC"
proof -
  show inv: "tinv (Some p) (Some p) S" and k: "k < RSDL_LEVELS" and m: "p \<in> set (procs_of S (k_active S + k))"
    and "c_proc (cpus S ! c) = Some p" "c_queue (cpus S ! c) = Some (k_active S + k)"
    "c_frame (cpus S ! c) = Some (p, k_active S + k, k)" using assms by (simp_all add: placed_def cur_def)
  have "Some p \<in> set (queued S)"
    using in_queued_procs [OF tinvD(1) [OF inv]] lv_invD(6) [OF tinvD(1) [OF inv] k] m by blast
  note F = tinv_queued_fit [OF inv this]
  show "p < NPROC" "fit (proc_at S p)" by (rule F)+
  show "p_state (proc_at S p) = RUNNING" using tinvD(6) [OF inv F(1)] by simp
  show "length (k_procs S) = NPROC" by (rule lv_inv_len [OF tinvD(1) [OF inv]])
qed

section \<open>Giving up the CPU\<close>

lemma sched_crit:
  assumes cr: "crit c S" and p: "c_proc (cpus S ! c) = Some p" "p_state (proc_at S p) \<noteq> RUNNING"
  shows "sched c caller S = Inr (upd_proc p (\<lambda>x. x\<lparr>p_context := Ctx_sched (c_intena (cpus S ! c)) caller\<rparr>) S)"
proof -
  have ok: "cpu_ok c S" "0 < c_ncli (cpus S ! c)" and n: "c_ncli (cpus S ! c) = 1" and h: "lock_held c PtableLock S"
    using cr by (simp_all add: crit_def)
  have "\<not> c_if (cpus S ! c)" using ok by (simp add: cpu_ok_def)
  then show ?thesis
    using holding_nested [OF ok, of PtableLock] n h p by (simp add: sched_def lock_held_def myproc_def)
qed

text \<open>The running process stops in state \<open>st\<close>, and the scheduler puts it back.\<close>

lemma give_up_state:
  assumes cr: "crit c S" and pl: "placed c p k S" and caller: "caller \<noteq> From_exit"
    and f: "p_state (f (proc_at S p)) \<in> {RUNNABLE, SLEEPING}" "fit (f (proc_at S p))"
  obtains T where "sched c caller (upd_proc p f S) = Inr T"
    "T = upd_proc p (\<lambda>x. (f x)\<lparr>p_context := Ctx_sched (c_intena (cpus S ! c)) caller\<rparr>) S" "crit c T" "tinv None (Some p) T"
    "c_frame (cpus T ! c) = Some (p, k_active T + k, k)" "p \<in> set (procs_of T (k_active T + k))" "p_state (proc_at T p) = p_state (f (proc_at S p))"
proof -
  note P = placedD [OF pl]
  let ?i = "c_intena (cpus S ! c)" let ?g = "\<lambda>x. (f x)\<lparr>p_context := Ctx_sched ?i caller\<rparr>"
  let ?S1 = "upd_proc p ?g S"
  have pn: "p < length (k_procs S)" using P(7,10) by simp
  have sc: "sched c caller (upd_proc p f S) = Inr ?S1"
    using sched_crit [of c "upd_proc p f S" p caller] cr P(2) f(1) pn by (auto simp: upd_proc_def)
  have lv: "live (?g (proc_at S p))" "live (proc_at S p)" using f(1) P(8) by (auto simp: live_def)
  have i1: "tinv None (Some p) ?S1"
  proof (rule tinv_upd_proc [OF P(1,7)])
    show "proc_ok (Some p = Some p) (?g (proc_at S p))" using f caller by (simp add: proc_ok_def fit_def)
  qed (use f(1) lv in auto)
  have "crit c ?S1" "c_frame (cpus ?S1 ! c) = Some (p, k_active ?S1 + k, k)" "p \<in> set (procs_of ?S1 (k_active ?S1 + k))"
    "p_state (proc_at ?S1 p) = p_state (f (proc_at S p))" using cr P(4,6) pn by (simp_all add: procs_of_def)
  with sc i1 that show thesis by blast
qed

lemma give_up:
  assumes cr: "crit c S" and pl: "placed c p k S" and caller: "caller \<noteq> From_exit"
    and f: "p_state (f (proc_at S p)) \<in> {RUNNABLE, SLEEPING}" "fit (f (proc_at S p))"
      "p_killed (f (proc_at S p)) = p_killed (proc_at S p)" "p_cwd (f (proc_at S p)) = p_cwd (proc_at S p)"
  shows "\<exists>S'. bindE (sched c caller (upd_proc p f S)) (scheduler_after c) = Inr S' \<and> idle_ok c S' \<and> init_kept S S'"
proof -
  note P = placedD [OF pl]
  obtain T where T: "sched c caller (upd_proc p f S) = Inr T"
      "T = upd_proc p (\<lambda>x. (f x)\<lparr>p_context := Ctx_sched (c_intena (cpus S ! c)) caller\<rparr>) S" "crit c T" "tinv None (Some p) T"
      "c_frame (cpus T ! c) = Some (p, k_active T + k, k)" "p \<in> set (procs_of T (k_active T + k))"
    using give_up_state [where f = f, OF cr pl caller f(1,2)] by metis
  have b: "back_ok p k T" using P(5,7) T(6) by (simp add: back_ok_def)
  obtain S' where S': "scheduler_after c T = Inr S'" "quiet c S'" "tinv None None S'" "same_procs T S'" "cur c S' = (None, None, None)"
    using scheduler_after_ok [OF T(3,4) b T(5)] by blast
  have "live (f (proc_at S p))" "live (proc_at S p)" using f(1) P(8) by (auto simp: live_def)
  then have "init_kept S T" unfolding T(2) using f(3,4) P(10) by (intro kept_upd) (simp_all add: lost_def live_def)
  then have "init_kept S S'" using kept_same [OF S'(4)] kept_trans by blast
  then show ?thesis using T(1) S' by (simp add: idle_ok_def)
qed

lemma run_enter:
  assumes "run_ok c p k S"
  shows "acquire c PtableLock S = Inr (enter c PtableLock S)" "crit c (enter c PtableLock S)" "placed c p k (enter c PtableLock S)"
proof -
  have q: "quiet c S" and pl: "placed c p k S" using assms by (simp_all add: run_ok_def)
  note A = acquire_quiet [OF q, of PtableLock]
  show "acquire c PtableLock S = Inr (enter c PtableLock S)" "crit c (enter c PtableLock S)" using A by simp_all
  show "placed c p k (enter c PtableLock S)" using pl placed_cong [of "enter c PtableLock S" S c p k] A(3) by simp
qed

lemma run_depart:
  assumes "crit c S" "placed c p k S"
  shows "release c PtableLock S = Inr (depart c PtableLock S)" "run_ok c p k (depart c PtableLock S)"
proof -
  note R = release_crit [OF assms(1)]
  show "release c PtableLock S = Inr (depart c PtableLock S)" by (rule R)
  show "run_ok c p k (depart c PtableLock S)"
    using assms(2) R(2,3) placed_cong [of "depart c PtableLock S" S c p k] by (simp add: run_ok_def)
qed

lemma yield_ok:
  assumes run: "run_ok c p k S"
  shows "\<exists>S'. bindE (yield c S) (scheduler_after c) = Inr S' \<and> idle_ok c S' \<and> init_kept S S'"
proof -
  note E = run_enter [OF run]
  note P = placedD [OF E(3)]
  have "\<exists>S'. bindE (sched c From_yield (upd_proc p (\<lambda>x. x\<lparr>p_state := RUNNABLE\<rparr>) (enter c PtableLock S))) (scheduler_after c) = Inr S'
      \<and> idle_ok c S' \<and> init_kept (enter c PtableLock S) S'"
    using P(9) by (intro give_up [OF E(2,3)]) (simp_all add: fit_def)
  then show ?thesis using E(1) P(2) by (auto simp: yield_def myproc_def kept_def)
qed

section \<open>Sleep and wakeup\<close>

text \<open>\<open>sleep\<close> takes the table lock before it lets go of the caller's lock.\<close>

lemma handover:
  assumes run: "run_ok c p k S" and lk: "lk \<noteq> PtableLock"
  shows "\<exists>S1 S2 T. acquire c lk S = Inr S1 \<and> acquire c PtableLock S1 = Inr S2 \<and> release c lk S2 = Inr T
    \<and> c_proc (cpus S1 ! c) = Some p \<and> crit c T \<and> placed c p k T \<and> k_procs T = k_procs S \<and> k_initproc T = k_initproc S"
proof -
  have q: "quiet c S" and pl: "placed c p k S" using run by (simp_all add: run_ok_def)
  note A = acquire_quiet [OF q, of lk]
  let ?S1 = "enter c lk S" let ?S2 = "enter c PtableLock ?S1" let ?T = "depart c lk ?S2"
  have c: "c < length (cpus S)" "c_ncli (cpus S ! c) = 0" and fr: "\<And>l. lock_free l S" using q by (simp_all add: quiet_def cpu_ok_def)
  have ok1: "cpu_ok c ?S1" "0 < c_ncli (cpus ?S1 ! c)" "lock_free PtableLock ?S1"
    using c fr lk by (auto simp: enter_def pushcli_eq cpu_ok_def lock_free_def)
  have ac: "acquire c PtableLock ?S1 = Inr ?S2" by (rule nested_section(1) [OF ok1])
  have ok2: "cpu_ok c ?S2" "0 < c_ncli (cpus ?S2 ! c)"
    using c by (simp_all add: enter_def pushcli_eq cpu_ok_def)
  have re: "release c lk ?S2 = Inr ?T"
    using c lk by (subst release_eq [OF ok2]) (simp add: depart_def enter_def pushcli_eq)
  have cr: "crit c ?T"
    using c fr lk by (auto simp: crit_def depart_def enter_def pushcli_eq cpu_ok_def lock_held_def lock_free_def)
  have "cur c ?T = cur c S" using c by (simp add: cur_def depart_def enter_def pushcli_eq)
  then have pT: "placed c p k ?T" using pl placed_cong [of ?T S c p k] by simp
  have "c_proc (cpus ?S1 ! c) = Some p" using A(3) placedD(2) [OF pl] by (simp add: cur_def)
  then show ?thesis using A(1) ac re cr pT by auto
qed

lemma sleep_ok:
  assumes run: "run_ok c p k S" and lk: "lk \<noteq> PtableLock"
  shows "\<exists>S'. bindE (bindE (acquire c lk S) (sleep c ch (Some lk))) (scheduler_after c) = Inr S' \<and> idle_ok c S' \<and> init_kept S S'"
proof -
  obtain S1 S2 T where H: "acquire c lk S = Inr S1" "acquire c PtableLock S1 = Inr S2" "release c lk S2 = Inr T"
    "c_proc (cpus S1 ! c) = Some p" "crit c T" "placed c p k T" "k_procs T = k_procs S" "k_initproc T = k_initproc S"
    using handover [OF assms] by blast
  note P = placedD [OF H(6)]
  have "\<exists>S'. bindE (sched c (From_sleep lk) (upd_proc p (\<lambda>x. x\<lparr>p_chan := ch, p_state := SLEEPING\<rparr>) T)) (scheduler_after c) = Inr S'
      \<and> idle_ok c S' \<and> init_kept T S'"
    using P(9) by (intro give_up [OF H(5,6)]) (simp_all add: fit_def)
  then show ?thesis using H lk by (auto simp: sleep_def myproc_def kept_def)
qed

lemma live_wake [simp]: "live (wake_proc ch x) = live x"
  by (simp add: live_def wake_proc_def)

lemma wake_proc_ok:
  assumes "proc_ok sp x"
  shows "proc_ok sp (wake_proc ch x)" "(p_state (wake_proc ch x) = RUNNING) = (p_state x = RUNNING)" "p_killed (wake_proc ch x) = p_killed x"
  using assms by (auto simp: proc_ok_def wake_proc_def live_def fit_def)

lemma wakeup1_sel [simp]:
  "k_levels (wakeup1 ch S) = k_levels S" "k_active (wakeup1 ch S) = k_active S" "k_expired (wakeup1 ch S) = k_expired S"
  "k_kpgdir (wakeup1 ch S) = k_kpgdir S" "k_initproc (wakeup1 ch S) = k_initproc S" "cpus (wakeup1 ch S) = cpus S"
  "locks (wakeup1 ch S) = locks S" "k_env (wakeup1 ch S) = k_env S" "length (k_procs (wakeup1 ch S)) = length (k_procs S)"
  "i < length (k_procs S) \<Longrightarrow> proc_at (wakeup1 ch S) i = wake_proc ch (proc_at S i)"
  by (simp_all add: wakeup1_def)

lemma tinv_wakeup1:
  assumes "tinv rp ex S"
  shows "tinv rp ex (wakeup1 ch S)"
proof -
  note T = tinvD [OF assms]
  have "lv_inv (wakeup1 ch S)" "expired_fresh (wakeup1 ch S)" "queued (wakeup1 ch S) = queued S"
    using T(1,2) by (simp_all add: lv_inv_def table_wf_def queued_def expired_fresh_def)
  moreover have "proc_ok (ex = Some i) (proc_at (wakeup1 ch S) i) \<and> (Some i \<in> set (queued S) \<longleftrightarrow> live (proc_at (wakeup1 ch S) i))
      \<and> (p_state (proc_at (wakeup1 ch S) i) = RUNNING \<longleftrightarrow> rp = Some i)" if "i < NPROC" for i
    using wake_proc_ok [OF T(4) [OF that], of ch] T(5,6) [OF that] that lv_inv_len [OF T(1)] by simp
  ultimately show ?thesis using T(3) by (simp add: tinv_def)
qed

lemma kept_wakeup1:
  assumes "length (k_procs S) = NPROC"
  shows "init_kept S (wakeup1 ch S)"
proof -
  have "p_killed (wake_proc ch x) = p_killed x" "lost (wake_proc ch x) = lost x" for x
    by (simp_all add: wake_proc_def lost_def live_def)
  then show ?thesis using assms by (simp add: kept_def)
qed

lemma placed_wakeup1:
  assumes "placed c p k S"
  shows "placed c p k (wakeup1 ch S)"
  using assms tinv_wakeup1 [OF placedD(1) [OF assms]] by (simp add: placed_def cur_def procs_of_def)

section \<open>Steps in either mode\<close>

lemma set_env_sel [simp]:
  "k_procs (set_env e S) = k_procs S" "k_levels (set_env e S) = k_levels S" "k_active (set_env e S) = k_active S"
  "k_expired (set_env e S) = k_expired S" "k_initproc (set_env e S) = k_initproc S" "k_nextpid (set_env e S) = k_nextpid S"
  "k_kpgdir (set_env e S) = k_kpgdir S" "k_env (set_env e S) = e" "cpus (set_env e S) = cpus S" "locks (set_env e S) = locks S"
  "k_ticks (set_env e S) = k_ticks S" "k_first (set_env e S) = k_first S"
  by (simp_all add: set_env_def)

text \<open>\<open>m\<close> is None while the scheduler looks for a process, else the process and its level.\<close>

definition tab :: "nat \<Rightarrow> (nat \<times> nat) option \<Rightarrow> ('e, 'z) kstate_scheme \<Rightarrow> bool" where
  "tab c m S = (case m of None \<Rightarrow> tinv None None S \<and> cur c S = (None, None, None) | Some (p, k) \<Rightarrow> placed c p k S)"

definition at_ok :: "nat \<Rightarrow> (nat \<times> nat) option \<Rightarrow> ('e, 'z) kstate_scheme \<Rightarrow> bool" where
  "at_ok c m S \<longleftrightarrow> quiet c S \<and> tab c m S"

lemma at_ok_modes: "at_ok c None S = idle_ok c S" "at_ok c (Some (p, k)) S = run_ok c p k S"
  by (simp_all add: at_ok_def tab_def idle_ok_def run_ok_def)

definition runs :: "(nat \<times> nat) option \<Rightarrow> nat option" where
  "runs m = map_option fst m"

lemma tabD:
  assumes "tab c m S"
  shows "tinv (runs m) (runs m) S" "c_proc (cpus S ! c) = runs m" "length (k_procs S) = NPROC"
  using assms placedD(1,2,10) lv_inv_len [OF tinvD(1)] by (auto simp: tab_def runs_def cur_def split: option.splits)

lemma tab_cong:
  assumes "k_procs S = k_procs T" "k_levels S = k_levels T" "k_active S = k_active T" "k_expired S = k_expired T"
    "k_kpgdir S = k_kpgdir T" "cur c S = cur c T"
  shows "tab c m S = tab c m T"
  using placed_cong [OF assms] tinv_cong [OF assms(1-5)] assms(6) by (simp add: tab_def split: option.split)

text \<open>Changes of the process table alone that keep \<open>tinv\<close> keep the mode.\<close>

lemma tab_procs:
  assumes "tab c m S" "tinv (runs m) (runs m) T" "k_levels T = k_levels S" "k_active T = k_active S" "cur c T = cur c S"
  shows "tab c m T"
  using assms by (auto simp: tab_def placed_def procs_of_def runs_def split: option.splits)

lemma tab_enter:
  assumes "at_ok c m S"
  shows "acquire c PtableLock S = Inr (enter c PtableLock S)" "crit c (enter c PtableLock S)" "tab c m (enter c PtableLock S)"
proof -
  have q: "quiet c S" and t: "tab c m S" using assms by (simp_all add: at_ok_def)
  note A = acquire_quiet [OF q, of PtableLock]
  show "acquire c PtableLock S = Inr (enter c PtableLock S)" "crit c (enter c PtableLock S)" using A by simp_all
  show "tab c m (enter c PtableLock S)" using t tab_cong [of "enter c PtableLock S" S c m] A(3) by simp
qed

lemma tab_depart:
  assumes "crit c S" "tab c m S"
  shows "release c PtableLock S = Inr (depart c PtableLock S)" "at_ok c m (depart c PtableLock S)"
proof -
  note R = release_crit [OF assms(1)]
  show "release c PtableLock S = Inr (depart c PtableLock S)" by (rule R)
  show "at_ok c m (depart c PtableLock S)"
    using assms(2) R(2,3) tab_cong [of "depart c PtableLock S" S c m] by (simp add: at_ok_def)
qed

lemma tab_wakeup1:
  assumes "tab c m S"
  shows "tab c m (wakeup1 ch S)"
  using tab_procs [OF assms tinv_wakeup1 [OF tabD(1) [OF assms]]] by (simp add: cur_def)

lemma wakeup_ok:
  assumes "at_ok c m S"
  shows "\<exists>S'. wakeup c ch S = Inr S' \<and> at_ok c m S' \<and> init_kept S S'"
proof -
  note E = tab_enter [OF assms]
  let ?X = "wakeup1 ch (enter c PtableLock S)"
  have "crit c ?X" using E(2) crit_cong [of ?X "enter c PtableLock S"] by simp
  note D = tab_depart [OF this tab_wakeup1 [OF E(3)]]
  have "init_kept (enter c PtableLock S) ?X" by (rule kept_wakeup1 [OF tabD(3) [OF E(3)]])
  then have "init_kept S (depart c PtableLock ?X)" by (rule kept_cong) simp_all
  then show ?thesis using E(1) D by (simp add: wakeup_def)
qed

lemma trap_tick_ok:
  assumes "at_ok c m S"
  shows "\<exists>S'. trap_tick c S = Inr S' \<and> at_ok c m S' \<and> init_kept S S' \<and> k_levels S' = k_levels S \<and> k_active S' = k_active S
    \<and> k_expired S' = k_expired S \<and> k_procs S' = (if c = 0 then map (wake_proc (Some Chan_ticks)) (k_procs S) else k_procs S)
    \<and> k_ticks S' = (if c = 0 then k_ticks S + 1 else k_ticks S)"
proof (cases "c = 0")
  case True
  have q: "quiet c S" and t: "tab c m S" using assms by (simp_all add: at_ok_def)
  have c: "c < length (cpus S)" "c_ncli (cpus S ! c) = 0" and fr: "\<And>l. lock_free l S" using q by (simp_all add: quiet_def cpu_ok_def)
  note A = acquire_quiet [OF q, of TicksLock]
  let ?S1 = "(enter c TicksLock S)\<lparr>k_ticks := k_ticks S + 1\<rparr>" let ?S2 = "enter c PtableLock ?S1" let ?X = "wakeup1 (Some Chan_ticks) ?S2"
  let ?Y = "?X\<lparr>cpus := cpus ?S1, locks := locks ?S1\<rparr>" let ?Z = "depart c TicksLock ?Y"
  have ok1: "cpu_ok c ?S1" "0 < c_ncli (cpus ?S1 ! c)" "lock_free PtableLock ?S1"
    using c fr by (auto simp: enter_def pushcli_eq cpu_ok_def lock_free_def)
  have w: "wakeup c (Some Chan_ticks) ?S1 = Inr ?Y"
    using nested_section(1) [OF ok1] nested_section(2) [OF ok1, of ?X] by (simp add: wakeup_def)
  have t1: "tab c m ?S1" using t tab_cong [of ?S1 S c m] A(3) by (simp add: cur_def)
  then have "tab c m ?S2" using tab_cong [of ?S2 ?S1 c m] c by (simp add: cur_def enter_def pushcli_eq)
  then have "tab c m ?X" by (rule tab_wakeup1)
  moreover have "k_procs ?Y = k_procs ?X" "k_levels ?Y = k_levels ?X" "k_active ?Y = k_active ?X" "k_expired ?Y = k_expired ?X"
    "k_kpgdir ?Y = k_kpgdir ?X" by simp_all
  moreover have "cur c ?Y = cur c ?X" using c by (simp add: cur_def enter_def pushcli_eq)
  ultimately have tY: "tab c m ?Y" using tab_cong by blast
  have okY: "cpu_ok c ?Y" "0 < c_ncli (cpus ?Y ! c)" using ok1 by (simp_all add: cpu_ok_def)
  have re: "release c TicksLock ?Y = Inr ?Z"
    using c by (subst release_eq [OF okY]) (simp add: depart_def enter_def pushcli_eq)
  have cz: "cur c ?Z = cur c ?Y" using c by (simp add: cur_def depart_def enter_def pushcli_eq)
  then have "tab c m ?Z" using tY tab_cong [of ?Z ?Y c m] by simp
  moreover have "quiet c ?Z"
    using c fr by (auto simp: quiet_def depart_def enter_def pushcli_eq cpu_ok_def lock_free_def)
  moreover have "init_kept S ?Z"
  proof (rule kept_cong)
    show "init_kept ?S2 ?X" using tabD(3) [OF t] by (intro kept_wakeup1) simp
  qed simp_all
  ultimately show ?thesis using A(1) w re True by (simp add: trap_tick_def at_ok_def wakeup1_def)
qed (use assms in \<open>simp add: trap_tick_def\<close>)

section \<open>Kill\<close>

lemma kill_proc_tinv:
  assumes inv: "tinv rp ex S" and p: "p < NPROC"
  shows "tinv rp ex (upd_proc p (\<lambda>x. x\<lparr>p_killed := True, p_state := (if p_state x = SLEEPING then RUNNABLE else p_state x)\<rparr>) S)"
proof (rule tinv_upd_proc [OF inv p])
  show "proc_ok (ex = Some p) ((proc_at S p)\<lparr>p_killed := True, p_state := (if p_state (proc_at S p) = SLEEPING then RUNNABLE else p_state (proc_at S p))\<rparr>)"
    using tinvD(4) [OF inv p] by (auto simp: proc_ok_def live_def fit_def)
qed (use tinvD(6) [OF inv p] in \<open>auto simp: live_def\<close>)

lemma kill_ok:
  assumes ok: "at_ok c m S"
    and init: "\<And>i. k_initproc S = Some i \<Longrightarrow> i < NPROC \<Longrightarrow> p_pid (proc_at S i) \<noteq> pid"
  shows "\<exists>r S'. kill c pid S = Inr (r, S') \<and> at_ok c m S' \<and> init_kept S S'"
proof -
  note E = tab_enter [OF ok]
  let ?S1 = "enter c PtableLock S"
  show ?thesis
  proof (cases "List.find (\<lambda>i. p_pid (proc_at S i) = pid) [0..<NPROC]")
    case None
    then show ?thesis using E(1) tab_depart [OF E(2,3)] by (simp add: kill_def kept_def)
  next
    case (Some p)
    then have p: "p < NPROC" "p_pid (proc_at S p) = pid" by (auto simp: find_Some_iff)
    let ?f = "\<lambda>x. x\<lparr>p_killed := True, p_state := (if p_state x = SLEEPING then RUNNABLE else p_state x)\<rparr>"
    let ?X = "upd_proc p ?f ?S1"
    have "tab c m ?X" using tab_procs [OF E(3) kill_proc_tinv [OF tabD(1) [OF E(3)] p(1)]] by simp
    then have D: "release c PtableLock ?X = Inr (depart c PtableLock ?X)" "at_ok c m (depart c PtableLock ?X)"
      using tab_depart [of c ?X m] E(2) by simp_all
    have "init_kept ?S1 ?X" using init p tabD(3) [OF E(3)] by (intro kept_upd) (auto simp: lost_def live_def)
    then have "init_kept S (depart c PtableLock ?X)" by (rule kept_cong) simp_all
    then show ?thesis using E(1) D Some by (simp add: kill_def)
  qed
qed

section \<open>New processes\<close>

lemma allocproc_tinv:
  assumes inv: "tinv rp ex S" and p: "p < NPROC" "\<not> live (proc_at S p)"
    and f: "\<not> live (f (proc_at S p))"
  shows "tinv rp ex (upd_proc p f S)"
  using p f tinvD(6) [OF inv p(1)]
  by (intro tinv_upd_proc [OF inv p(1)]) (auto simp: proc_ok_def live_def)

lemma tab_dead:
  assumes "tab c m S" "p < NPROC" "\<not> live (proc_at S p)" "\<not> live (f (proc_at S p))"
  shows "tab c m (upd_proc p f S)"
proof (rule tab_procs [OF assms(1)])
  show "tinv (runs m) (runs m) (upd_proc p f S)"
    using assms(2-4) by (rule allocproc_tinv [where f = f, OF tabD(1) [OF assms(1)]])
qed simp_all

lemma find_unused_Some:
  assumes "find_unused S = Some p"
  shows "p < NPROC" "p_state (proc_at S p) = UNUSED"
  using assms by (auto simp: find_unused_def find_Some_iff)

text \<open>What \<open>allocproc\<close> returned: nothing free, or the first unused slot, set up for \<open>forkret\<close>.\<close>

definition allocated :: "'e kops \<Rightarrow> ('e, 'z) kstate_scheme \<Rightarrow> ('e, 'z) kstate_scheme \<Rightarrow> nat option \<Rightarrow> bool" where
  "allocated ops S S' r = (case r of
       None \<Rightarrow> (find_unused S = None \<or> fst (op_kalloc ops (k_env S)) = 0)
         \<and> (\<forall>i < NPROC. if p_state (proc_at S i) = UNUSED then p_state (proc_at S' i) = UNUSED else proc_at S' i = proc_at S i)
     | Some p \<Rightarrow> find_unused S = Some p \<and> proc_at S' p = (proc_at S p)\<lparr>p_state := EMBRYO,
         p_pid := k_nextpid S, p_ticks_left := RSDL_PROC_QUANTUM, p_default_level := RSDL_STARTING_LEVEL,
         p_kstack := fst (op_kalloc ops (k_env S)), p_context := Ctx_forkret\<rparr> \<and> fst (op_kalloc ops (k_env S)) \<noteq> 0
         \<and> (\<forall>i. i \<noteq> p \<longrightarrow> proc_at S' i = proc_at S i) \<and> k_env S' = snd (op_kalloc ops (k_env S)))"

lemma allocatedD:
  assumes "allocated ops S S' (Some p)"
  shows "find_unused S = Some p" "p < NPROC" "p_state (proc_at S p) = UNUSED" "fst (op_kalloc ops (k_env S)) \<noteq> 0"
    "proc_at S' p = (proc_at S p)\<lparr>p_state := EMBRYO, p_pid := k_nextpid S, p_ticks_left := RSDL_PROC_QUANTUM,
       p_default_level := RSDL_STARTING_LEVEL, p_kstack := fst (op_kalloc ops (k_env S)), p_context := Ctx_forkret\<rparr>"
    "\<And>i. i \<noteq> p \<Longrightarrow> proc_at S' i = proc_at S i" "k_env S' = snd (op_kalloc ops (k_env S))"
  using assms find_unused_Some [of S p] by (simp_all add: allocated_def)

lemma allocproc_ok:
  assumes ok: "at_ok c m S" and init: "\<And>i. k_initproc S = Some i \<Longrightarrow> live (proc_at S i)"
  shows "\<exists>r S'. allocproc ops c S = Inr (r, S') \<and> at_ok c m S' \<and> init_kept S S' \<and>
    k_levels S' = k_levels S \<and> k_active S' = k_active S \<and> k_expired S' = k_expired S \<and>
    allocated ops S S' r"
proof -
  note E = tab_enter [OF ok]
  let ?S1 = "enter c PtableLock S"
  show ?thesis
  proof (cases "find_unused S")
    case None
    then have "find_unused ?S1 = None" by (simp add: find_unused_def)
    then show ?thesis using None E(1) tab_depart [OF E(2,3)] by (simp add: allocproc_def kept_def allocated_def)
  next
    case (Some p)
    have fu: "find_unused ?S1 = Some p" using Some by (simp add: find_unused_def)
    note p = find_unused_Some [OF Some]
    have pi: "k_initproc S \<noteq> Some p" using init p(2) by (auto simp: live_def)
    let ?f = "\<lambda>x. x\<lparr>p_state := EMBRYO, p_pid := k_nextpid S, p_ticks_left := RSDL_PROC_QUANTUM, p_default_level := RSDL_STARTING_LEVEL\<rparr>"
    let ?X = "(upd_proc p ?f ?S1)\<lparr>k_nextpid := c_int (k_nextpid S + 1)\<rparr>"
    have "tab c m (upd_proc p ?f ?S1)" using tab_dead [OF E(3) p(1), of ?f] p(2) by (simp add: live_def)
    then have "tab c m ?X" using tab_cong [of ?X "upd_proc p ?f ?S1" c m] by simp
    then have D: "release c PtableLock ?X = Inr (depart c PtableLock ?X)" "at_ok c m (depart c PtableLock ?X)"
      using tab_depart [of c ?X m] E(2) by simp_all
    let ?k = "fst (op_kalloc ops (k_env S))" and ?e = "snd (op_kalloc ops (k_env S))"
    let ?Z = "set_env ?e (depart c PtableLock ?X)" let ?Y = "upd_proc p (\<lambda>x. x\<lparr>p_kstack := ?k\<rparr>) ?Z"
    have len: "length (k_procs S) = NPROC" using tabD(3) [OF E(3)] by simp
    have pZ: "proc_at ?Z p = ?f (proc_at S p)" "\<And>i. i \<noteq> p \<Longrightarrow> proc_at ?Z i = proc_at S i"
      "length (k_procs ?Z) = NPROC" "k_initproc ?Z = k_initproc S"
      using len p(1) by (simp_all add: set_env_def)
    have tZ: "tab c m ?Z"
      using D(2) tab_cong [of ?Z "depart c PtableLock ?X" c m] by (simp add: at_ok_def set_env_def cur_def)
    have tY: "tab c m ?Y" "proc_at ?Y p = (?f (proc_at S p))\<lparr>p_kstack := ?k\<rparr>" "length (k_procs ?Y) = NPROC"
      using tab_dead [OF tZ p(1)] pZ p(1) by (simp_all add: live_def)
    have kp: "init_kept S (upd_proc p g ?Y)" if "\<And>x. p_state x = EMBRYO \<Longrightarrow> \<not> live (g x)" for g
    proof (rule kept_drop [OF kept_others pi])
      show "\<not> live (proc_at (upd_proc p g ?Y) p)" using tY(2,3) that p(1) by simp
    qed (use pZ in simp_all)
    have fin: "tab c m (upd_proc p g ?Y) \<and> quiet c (upd_proc p g ?Y)
        \<and> proc_at (upd_proc p g ?Y) p = g ((?f (proc_at S p))\<lparr>p_kstack := ?k\<rparr>)
        \<and> (\<forall>i. i \<noteq> p \<longrightarrow> proc_at (upd_proc p g ?Y) i = proc_at S i) \<and> k_env (upd_proc p g ?Y) = ?e
        \<and> k_levels (upd_proc p g ?Y) = k_levels S \<and> k_active (upd_proc p g ?Y) = k_active S \<and> k_expired (upd_proc p g ?Y) = k_expired S"
      if "\<And>x. p_state x = EMBRYO \<Longrightarrow> \<not> live (g x)" for g
      using tab_dead [OF tY(1) p(1), of g] that pZ pi D(2) tY(2,3) p(1)
      by (auto simp: at_ok_def live_def)
    have al: "allocproc ops c S = (if ?k = 0 then Inr (None, upd_proc p (\<lambda>x. x\<lparr>p_state := UNUSED\<rparr>) ?Y)
        else Inr (Some p, upd_proc p (\<lambda>x. x\<lparr>p_context := Ctx_forkret\<rparr>) ?Y))"
      using E(1) D(1) fu by (simp add: allocproc_def Let_def split_beta)
    show ?thesis
    proof (cases "?k = 0")
      case True
      define g :: "proc \<Rightarrow> proc" where "g = (\<lambda>x. x\<lparr>p_state := UNUSED\<rparr>)"
      define R where "R = upd_proc p g ?Y"
      have a: "allocproc ops c S = Inr (None, R)" unfolding R_def g_def using al by (simp only: if_P [OF True])
      have F: "at_ok c m R" "init_kept S R" "k_levels R = k_levels S" "k_active R = k_active S" "k_expired R = k_expired S"
        "p_state (proc_at R p) = UNUSED" "\<And>i. i \<noteq> p \<Longrightarrow> proc_at R i = proc_at S i"
        using fin [of g] kp [of g] unfolding R_def by (simp_all add: live_def at_ok_def g_def)
      have "if p_state (proc_at S i) = UNUSED then p_state (proc_at R i) = UNUSED else proc_at R i = proc_at S i" for i
        using F(6) F(7) [of i] p(2) by (cases "i = p") simp_all
      then show ?thesis using a F(1-5) True by (simp add: allocated_def)
    next
      case False
      then show ?thesis using al fin [of "\<lambda>x. x\<lparr>p_context := Ctx_forkret\<rparr>"] kp [of "\<lambda>x. x\<lparr>p_context := Ctx_forkret\<rparr>"] p Some
        by (simp add: live_def at_ok_def allocated_def)
    qed
  qed
qed

lemma tinv_enqueue:
  assumes inv: "tinv rp ex S" and p: "p < NPROC" "\<not> live (proc_at S p)" and t: "t < 2 * RSDL_LEVELS"
    and f: "live (f (proc_at S p))" "proc_ok False (f (proc_at S p))" "p_state (f (proc_at S p)) \<noteq> RUNNING"
  shows "tinv rp ex (upd_level t (lq_push (Some p)) (upd_proc p f S))"
proof -
  note T = tinvD [OF inv]
  let ?U = "upd_proc p f S" let ?S = "upd_level t (lq_push (Some p)) ?U"
  have len: "length (k_procs S) = NPROC" by (rule lv_inv_len [OF T(1)])
  have out: "Some p \<notin> set (queued ?U)" using T(5) [OF p(1)] p(2) by simp
  have lv: "lv_inv ?U" using T(1) by simp
  note P = lv_inv_push [OF lv t p(1) out]
  have "lq_ticks_left (level_at ?S r) = lq_ticks_left (level_at S r)" if "r < 2 * RSDL_LEVELS" for r
    using that lv_invD(2) [OF T(1)] by (cases "r = t") simp_all
  then have ef: "expired_fresh ?S" using T(2) lv_invD(7) [OF T(1)] by (simp add: expired_fresh_def)
  have rp: "rp \<noteq> Some p" using T(6) [OF p(1)] p(2) by (auto simp: live_def)
  have "proc_ok (ex = Some i) (proc_at ?S i) \<and> (Some i \<in> set (queued ?S) \<longleftrightarrow> live (proc_at ?S i))
      \<and> (p_state (proc_at ?S i) = RUNNING \<longleftrightarrow> rp = Some i)" if i: "i < NPROC" for i
  proof (cases "i = p")
    case True
    have "proc_ok (ex = Some p) (f (proc_at S p))" using f(2) by (auto simp: proc_ok_def)
    then show ?thesis using True P(2) len p(1) f rp by simp
  next
    case False
    then show ?thesis using P(2) T(4-6) [OF i] by simp
  qed
  then show ?thesis using P(1) ef T(3) by (simp add: tinv_def)
qed

lemma placed_more:
  assumes "tab c m S" "tinv (runs m) (runs m) T" "k_active T = k_active S" "cur c T = cur c S"
    "\<And>r. r < 2 * RSDL_LEVELS \<Longrightarrow> set (procs_of S r) \<subseteq> set (procs_of T r)"
  shows "tab c m T"
proof (cases m)
  case None
  then show ?thesis using assms by (simp add: tab_def runs_def)
next
  case (Some pk)
  obtain p k where m: "m = Some (p, k)" using Some by (cases pk) simp
  then have pl: "placed c p k S" using assms(1) by (simp add: tab_def)
  note P = placedD [OF pl]
  have "k_active S + k < 2 * RSDL_LEVELS" using lv_invD(6) [OF tinvD(1) [OF P(1)] P(5)] .
  then have "p \<in> set (procs_of T (k_active T + k))" using assms(3,5) P(6) by auto
  then show ?thesis using m assms(2-4) pl by (simp add: tab_def placed_def runs_def)
qed

lemma make_runnable_ok:
  assumes ok: "at_ok c m S" and p: "p < NPROC" "p_state (proc_at S p) = EMBRYO"
    and f: "fit (f (proc_at S p))" "ctx_ok (p_context (f (proc_at S p)))" "0 < p_ticks_left (f (proc_at S p))"
    and cwd: "p_cwd (f (proc_at S p)) \<noteq> None" and init: "k_initproc S = Some p \<Longrightarrow> \<not> p_killed (f (proc_at S p))"
  shows "\<exists>S'. make_runnable c p f S = Inr S' \<and> at_ok c m S' \<and> init_kept S S'
    \<and> k_procs S' = (k_procs S)[p := (f (proc_at S p))\<lparr>p_state := RUNNABLE\<rparr>] \<and> k_initproc S' = k_initproc S \<and> k_active S' = k_active S
    \<and> (\<forall>r < 2 * RSDL_LEVELS. lq_ticks_left (level_at S' r) = lq_ticks_left (level_at S r))
    \<and> (let d = nat (p_default_level (f (proc_at S p))); t = tgt S d d in
        procs_of S' t = procs_of S t @ [p] \<and> (\<forall>r < 2 * RSDL_LEVELS. r \<noteq> t \<longrightarrow> procs_of S' r = procs_of S r))"
proof -
  note E = tab_enter [OF ok]
  let ?S1 = "enter c PtableLock S" let ?g = "\<lambda>x. (f x)\<lparr>p_state := RUNNABLE\<rparr>"
  note T1 = tinvD [OF tabD(1) [OF E(3)]]
  let ?U = "upd_proc p ?g ?S1" let ?d = "p_default_level (f (proc_at S p))" let ?t = "tgt S (nat ?d) (nat ?d)"
  have len: "length (k_procs ?S1) = NPROC" by (rule tabD(3) [OF E(3)])
  have dead: "\<not> live (proc_at ?S1 p)" using p(2) by (simp add: live_def)
  have pU: "proc_at ?U p = ?g (proc_at S p)" using len p(1) by simp
  have d: "0 \<le> ?d" "?d < int RSDL_LEVELS" using f(1) by (simp_all add: fit_def)
  have lvU: "lv_inv ?U" and out: "Some p \<notin> set (queued ?U)" using T1(1) T1(5) [OF p(1)] dead by simp_all
  have te: "tgt ?U (nat ?d) (nat ?d) = ?t" by (rule tgt_cong) simp_all
  have tt: "?t < 2 * RSDL_LEVELS" "0 < lq_ticks_left (level_at ?U ?t)"
    using tgt_less [OF lvU, of "nat ?d" "nat ?d"] tgt_open [of ?U "nat ?d" "nat ?d"] T1(2) d te by (simp_all add: nat_less_iff expired_fresh_def)
  have fa: "find_available_queue ?d ?d ?U = Inr ?t"
    using find_available_tgt(1) [OF lvU p(1) out d, of "nat ?d"] te tt(2) d by simp
  let ?V = "upd_level ?t (lq_push (Some p)) ?U"
  have en: "enqueue_proc c (Some p) (Some ?t) ?U = Inr ?V"
    using enqueue_placed [OF lvU _ tt(1) p(1) out, of c] crit_level_ctx [OF E(2)] by simp
  have iV: "tinv (runs m) (runs m) ?V"
    using f by (intro tinv_enqueue [OF tabD(1) [OF E(3)] p(1) dead tt(1)]) (simp_all add: proc_ok_def live_def fit_def)
  have pr: "procs_of ?V r = procs_of S r @ (if r = ?t then [p] else [])" if r: "r < 2 * RSDL_LEVELS" for r
  proof -
    have "lq_wf (level_at S ?t)" "lq_numproc (level_at S ?t) < NPROC"
      using lv_invD(3) [OF lvU tt(1)] lv_room [OF lvU tt(1) p(1) out] by simp_all
    then show ?thesis using lv_invD(2) [OF lvU] r by (simp add: procs_of_def lq_push_list)
  qed
  have tV: "tab c m ?V" by (rule placed_more [OF E(3) iV]) (use pr in \<open>auto simp: procs_of_def\<close>)
  have "crit c ?V" using E(2) by simp
  note D = tab_depart [OF this tV]
  have "make_runnable c p f S = Inr (depart c PtableLock ?V)"
    using E(1) fa en D(1) pU by (simp add: make_runnable_def Let_def)
  moreover have "init_kept S (depart c PtableLock ?V)"
  proof (rule kept_cong)
    show "init_kept ?S1 ?U" using init len dead cwd by (intro kept_upd) (auto simp: lost_def)
  qed simp_all
  moreover have "lq_ticks_left (level_at ?V r) = lq_ticks_left (level_at S r)" if "r < 2 * RSDL_LEVELS" for r
    using that lv_invD(2) [OF lvU] by (cases "r = ?t") simp_all
  ultimately show ?thesis using D(2) pr tt(1) by (simp add: upd_proc_def procs_of_def Let_def)
qed

section \<open>Exit\<close>

lemma remove_from_skip:
  assumes "level_ctx c S" "\<And>r. r \<in> set qs \<Longrightarrow> lq_wf (level_at S r) \<and> x \<notin> set (lq_list (level_at S r))"
  shows "remove_from c x (qs @ rs) S = remove_from c x rs S"
  using assms by (induction qs) (simp_all add: unqueue_absent(1))

lemma remove_proc_ok:
  assumes ctx: "level_ctx c S" and inv: "lv_inv S" and q: "q < 2 * RSDL_LEVELS" and mem: "x \<in> set (lq_list (level_at S q))"
  shows "remove_proc_from_levels c x S = Inr (0, upd_level q (lq_remove x) S)"
proof -
  note D = lv_invD [OF inv]
  have split: "[0..<2 * RSDL_LEVELS] = [0..<q] @ q # [Suc q..<2 * RSDL_LEVELS]"
    using q upt_add_eq_append [of 0 q "2 * RSDL_LEVELS - q"] by (simp add: upt_conv_Cons)
  have "x \<notin> set (lq_list (level_at S r))" if "r < q" for r
    using queued_unique [OF D(4), of r q x] that q mem D(2) by auto
  then have skip: "remove_from c x ([0..<q] @ q # [Suc q..<2 * RSDL_LEVELS]) S = remove_from c x (q # [Suc q..<2 * RSDL_LEVELS]) S"
    using D(3) q by (intro remove_from_skip [OF ctx]) simp
  obtain i where i: "try_unqueue_proc c x (Some q) S = Inr (int i, upd_level q (lq_remove x) S)"
    using unqueue_ok [OF ctx D(3) [OF q] mem, of True] unfolding try_unqueue_proc_def by blast
  have "int i \<noteq> - 1" by simp
  then show ?thesis unfolding remove_proc_from_levels_def split skip by (simp add: i)
qed

text \<open>Passing the children on changes parents and wakes sleepers, nothing else.\<close>

lemma reparent_frame [simp]:
  "k_levels (reparent p is S) = k_levels S" "k_active (reparent p is S) = k_active S"
  "k_expired (reparent p is S) = k_expired S" "k_kpgdir (reparent p is S) = k_kpgdir S"
  "k_initproc (reparent p is S) = k_initproc S" "cpus (reparent p is S) = cpus S" "locks (reparent p is S) = locks S"
  by (induction "is" arbitrary: S) (simp_all add: Let_def)

lemma tinv_parent:
  assumes inv: "tinv rp ex S" and i: "i < NPROC"
  shows "tinv rp ex (upd_proc i (\<lambda>x. x\<lparr>p_parent := q\<rparr>) S)"
proof (rule tinv_upd_proc [OF inv i])
  show "proc_ok (ex = Some i) ((proc_at S i)\<lparr>p_parent := q\<rparr>)"
    using tinvD(4) [OF inv i] by (simp add: proc_ok_def live_def fit_def)
qed (use tinvD(6) [OF inv i] in \<open>simp_all add: live_def\<close>)

lemma reparent_ok:
  assumes "tinv rp ex S" "\<forall>i \<in> set is. i < NPROC"
  shows "tinv rp ex (reparent p is S) \<and> kept {} S (reparent p is S)"
  using assms
proof (induction "is" arbitrary: S)
  case (Cons i "is")
  have len: "length (k_procs S) = NPROC" by (rule lv_inv_len [OF tinvD(1) [OF Cons.prems(1)]])
  let ?S1 = "upd_proc i (\<lambda>x. x\<lparr>p_parent := k_initproc S\<rparr>) S" let ?w = "wakeup1 (map_option Chan_proc (k_initproc S)) ?S1"
  have t1: "tinv rp ex ?S1" using Cons.prems by (intro tinv_parent) simp_all
  have k1: "kept {} S ?S1" using len by (intro kept_upd) (auto simp: lost_def live_def)
  have k2: "kept {} S ?w" using kept_trans [OF k1 kept_wakeup1] len by simp
  note IH = Cons.IH [of S] Cons.IH [OF t1] Cons.IH [OF tinv_wakeup1 [OF t1]]
  show ?case using IH Cons.prems k1 k2 kept_trans [of "{}" S] by (simp add: Let_def)
qed simp

lemma tinv_exit:
  assumes inv: "tinv (Some p) (Some p) S" and p: "p < NPROC" and q: "q < 2 * RSDL_LEVELS" and mem: "Some p \<in> set (lq_list (level_at S q))"
    and f: "\<not> live (f (proc_at S p))"
  shows "tinv None (Some p) (upd_proc p f (upd_level q (lq_remove (Some p)) S))"
proof -
  note T = tinvD [OF inv] and R = lv_inv_remove [OF tinvD(1) [OF inv] q mem]
  let ?H = "upd_level q (lq_remove (Some p)) S" let ?S = "upd_proc p f ?H"
  have len: "length (k_procs S) = NPROC" by (rule lv_inv_len [OF T(1)])
  have "lq_ticks_left (level_at ?S r) = lq_ticks_left (level_at S r)" if "r < 2 * RSDL_LEVELS" for r
    using that lv_invD(2) [OF T(1)] by (cases "r = q") simp_all
  then have ef: "expired_fresh ?S" using T(2) lv_invD(7) [OF T(1)] by (simp add: expired_fresh_def)
  have "proc_ok (Some p = Some i) (proc_at ?S i) \<and> (Some i \<in> set (queued ?S) \<longleftrightarrow> live (proc_at ?S i))
      \<and> (p_state (proc_at ?S i) = RUNNING \<longleftrightarrow> None = Some i)" if i: "i < NPROC" for i
  proof (cases "i = p")
    case True
    then show ?thesis using f len p R(2) by (auto simp: proc_ok_def live_def)
  next
    case False
    then show ?thesis using T(4-6) [OF i] R(2) by auto
  qed
  then show ?thesis using R(1) ef T(3) by (simp add: tinv_def)
qed

lemma close_files_total: "ops_return ops \<Longrightarrow> \<exists>e'. close_files ops fs e = Inr e'"
proof (induction fs arbitrary: e)
  case (Cons f fs)
  then show ?case using ops_returnD(4) [OF Cons.prems] by (cases f) (simp, metis bindE_simps(2) close_files.simps(3))
qed simp

lemma dup_files_total: "ops_return ops \<Longrightarrow> \<exists>e'. dup_files ops fs e = Inr e'"
proof (induction fs arbitrary: e)
  case (Cons f fs)
  then show ?case using ops_returnD(3) [OF Cons.prems] by (cases f) (simp, metis bindE_simps(2) dup_files.simps(3))
qed simp

text \<open>
  Where \<open>exit\<close> stands at its switch: files closed, parent woken, children passed on, the
  process out of its level and a zombie.
\<close>

definition exit_closed :: "proc \<Rightarrow> proc" where
  "exit_closed x = x\<lparr>p_ofile := map (\<lambda>_. None) (p_ofile x), p_cwd := None\<rparr>"

lemma exit_state:
  assumes ops: "ops_return ops" and run: "run_ok c p k S" and ni: "k_initproc S \<noteq> Some p" and cwd: "p_cwd (proc_at S p) \<noteq> None"
  obtains e b S3 S5 where
    "S3 = reparent p [0..<NPROC] (wakeup1 (map_option Chan_proc (p_parent (proc_at S p))) (enter c PtableLock (upd_proc p exit_closed (set_env e S))))"
    "S5 = upd_proc p (\<lambda>x. x\<lparr>p_state := ZOMBIE, p_context := Ctx_sched b From_exit\<rparr>) (upd_level (k_active S + k) (lq_remove (Some p)) S3)"
    "exit ops c S = Inr S5" "crit c S5" "tinv None (Some p) S5" "c_frame (cpus S5 ! c) = Some (p, k_active S5 + k, k)"
    "kept {p} S S5" "length (k_procs S3) = NPROC"
proof -
  have pl: "placed c p k S" using run by (simp add: run_ok_def)
  note P = placedD [OF pl]
  obtain cwd' where cwd': "p_cwd (proc_at S p) = Some cwd'" using cwd by blast
  obtain e1 e2 e3 e4 where e: "close_files ops (p_ofile (proc_at S p)) (k_env S) = Inr e1" "op_begin_op ops e1 = Inr e2"
      "op_iput ops cwd' e2 = Inr e3" "op_end_op ops e3 = Inr e4"
    using close_files_total [OF ops] ops_returnD(6,7,8) [OF ops] by metis
  let ?S0 = "upd_proc p exit_closed (set_env e4 S)"
  have t0: "tinv (Some p) (Some p) ?S0"
    using P by (intro tinv_upd_proc [OF _ P(7)]) (auto simp: proc_ok_def fit_def live_def exit_closed_def)
  have r0: "run_ok c p k ?S0" using run t0 by (simp add: run_ok_def placed_def procs_of_def)
  note E = run_enter [OF r0]
  let ?S1 = "enter c PtableLock ?S0"
  let ?S2 = "wakeup1 (map_option Chan_proc (p_parent (proc_at S p))) ?S1"
  define S3 where "S3 = reparent p [0..<NPROC] ?S2"
  note P1 = placedD [OF E(3)]
  have p1: "p_parent (proc_at ?S1 p) = p_parent (proc_at S p)" using P(7,10) by (simp add: exit_closed_def)
  have t2: "tinv (Some p) (Some p) ?S2" by (rule tinv_wakeup1 [OF P1(1)])
  have R: "tinv (Some p) (Some p) S3" "kept {} ?S2 S3" using reparent_ok [OF t2, of "[0..<NPROC]" p] by (simp_all add: S3_def)
  have F: "k_levels S3 = k_levels S" "k_active S3 = k_active S" "cpus S3 = cpus ?S1" "locks S3 = locks ?S1" by (simp_all add: S3_def)
  let ?q = "k_active S + k"
  have q: "?q < 2 * RSDL_LEVELS" using lv_invD(6) [OF tinvD(1) [OF P(1)] P(5)] .
  have mem: "Some p \<in> set (lq_list (level_at S3 ?q))"
    using procs_of_list [OF tinvD(1) [OF P(1)] q] P(6) by (simp add: F)
  have cr3: "crit c S3" using E(2) crit_cong [OF F(3,4)] by simp
  have rm: "remove_proc_from_levels c (Some p) S3 = Inr (0, upd_level ?q (lq_remove (Some p)) S3)"
    by (rule remove_proc_ok [OF crit_level_ctx [OF cr3] tinvD(1) [OF R(1)] q mem])
  let ?S4 = "upd_level ?q (lq_remove (Some p)) S3" let ?b = "c_intena (cpus S3 ! c)"
  define S5 where "S5 = upd_proc p (\<lambda>x. x\<lparr>p_state := ZOMBIE, p_context := Ctx_sched ?b From_exit\<rparr>) ?S4"
  have len: "length (k_procs S3) = NPROC" by (rule lv_inv_len [OF tinvD(1) [OF R(1)]])
  have "c_proc (cpus S3 ! c) = Some p" using P1(2) by (simp add: F)
  then have sc: "sched c From_exit (upd_proc p (\<lambda>x. x\<lparr>p_state := ZOMBIE\<rparr>) ?S4) = Inr S5"
    using sched_crit [of c "upd_proc p (\<lambda>x. x\<lparr>p_state := ZOMBIE\<rparr>) ?S4" p From_exit] cr3 len P(7) by (simp add: upd_proc_def S5_def)
  have ex: "exit ops c S = Inr S5"
    using e cwd' ni P(2) E(1) rm sc p1 by (auto simp: exit_def myproc_def Let_def S3_def exit_closed_def [abs_def])
  have t5: "tinv None (Some p) S5" unfolding S5_def by (rule tinv_exit [OF R(1) P(7) q mem]) (simp add: live_def)
  have "kept {p} S ?S1" using P(10) by (intro kept_others) simp_all
  moreover have "kept {p} ?S1 S3" using kept_trans [OF kept_wakeup1 R(2)] P1(10) kept_mono by blast
  moreover have "kept {p} S3 S5" unfolding S5_def by (intro kept_others) simp_all
  ultimately have "kept {p} S S5" using kept_trans by blast
  moreover have "c_frame (cpus S5 ! c) = Some (p, k_active S5 + k, k)" using P1(4) by (simp add: S5_def F)
  moreover have "crit c S5" using cr3 by (simp add: S5_def)
  ultimately show thesis using that [OF S3_def S5_def ex _ t5] len by blast
qed

lemma exit_ok:
  assumes ops: "ops_return ops" and run: "run_ok c p k S" and ni: "k_initproc S \<noteq> Some p" and cwd: "p_cwd (proc_at S p) \<noteq> None"
  shows "\<exists>S'. bindE (exit ops c S) (scheduler_after c) = Inr S' \<and> idle_ok c S' \<and> kept {} S S'"
proof -
  have pl: "placed c p k S" using run by (simp add: run_ok_def)
  note P = placedD [OF pl]
  obtain b S3 S5 where X: "S5 = upd_proc p (\<lambda>x. x\<lparr>p_state := ZOMBIE, p_context := Ctx_sched b From_exit\<rparr>) (upd_level (k_active S + k) (lq_remove (Some p)) S3)"
    "exit ops c S = Inr S5" "crit c S5" "tinv None (Some p) S5" "c_frame (cpus S5 ! c) = Some (p, k_active S5 + k, k)"
    "kept {p} S S5" "length (k_procs S3) = NPROC" using exit_state [OF assms] by blast
  have pz: "p_state (proc_at S5 p) = ZOMBIE" using X(1,7) P(7) by simp
  have "back_ok p k S5" using P(5,7) pz by (simp add: back_ok_def)
  then obtain S' where S': "scheduler_after c S5 = Inr S'" "quiet c S'" "tinv None None S'" "same_procs S5 S'" "cur c S' = (None, None, None)"
    using scheduler_after_ok [OF X(3,4)] X(5) by auto
  have k: "kept {p} S S'" using kept_trans [OF X(6) kept_same [OF S'(4)]] .
  have "\<not> live (proc_at S' p)" using S'(4) pz P(7) by (auto simp: same_procs_def live_def)
  then show ?thesis using X(2) S' kept_drop [OF k ni] by (simp add: idle_ok_def)
qed

end
