(* ===== verification/KFork.thy ===== *)
theory KFork
  imports KSteps
begin

text \<open>
  Creating a process and growing one (\<open>priofork\<close>, \<open>growproc\<close>), from a point where the
  calling process runs and holds no lock to the next such point.
\<close>

section \<open>priofork\<close>

text \<open>When \<open>priofork(d)\<close> of process \<open>p\<close> succeeds: a legal level, a free slot, a page for the stack, a copy of the memory.\<close>

definition fork_room :: "'e kops \<Rightarrow> int \<Rightarrow> nat \<Rightarrow> ('e, 'z) kstate_scheme \<Rightarrow> bool" where
  "fork_room ops d p S \<longleftrightarrow> 0 \<le> d \<and> d < int RSDL_LEVELS \<and> find_unused S \<noteq> None \<and> fst (op_kalloc ops (k_env S)) \<noteq> 0
     \<and> (case op_copyuvm ops (p_pgdir (proc_at S p)) (p_sz (proc_at S p)) (snd (op_kalloc ops (k_env S))) of
          Inl _ \<Rightarrow> False | Inr (pg, e) \<Rightarrow> pg \<noteq> 0)"

text \<open>The new process, from its slot \<open>x\<close> and its parent's record \<open>y\<close> in slot \<open>p\<close>.\<close>

definition child_of :: "nat \<Rightarrow> proc \<Rightarrow> int \<Rightarrow> int \<Rightarrow> 32 word \<Rightarrow> 32 word \<Rightarrow> proc \<Rightarrow> proc" where
  "child_of p y d pid stack pg x = x\<lparr>p_state := RUNNABLE, p_pid := pid, p_ticks_left := RSDL_PROC_QUANTUM, p_default_level := d,
     p_kstack := stack, p_context := Ctx_forkret, p_pgdir := pg, p_sz := p_sz y, p_parent := Some p, p_tf := (p_tf y)\<lparr>tf_eax := 0\<rparr>,
     p_ofile := inherit_files (p_ofile y) (p_ofile x), p_cwd := p_cwd y, p_name := name_copy (p_name y)\<rparr>"

text \<open>What a failed \<open>priofork\<close> leaves alone: the live processes and the levels.\<close>

definition untouched :: "('e, 'z) kstate_scheme \<Rightarrow> ('e, 'z) kstate_scheme \<Rightarrow> bool" where
  "untouched S S' \<longleftrightarrow> k_levels S' = k_levels S \<and> k_active S' = k_active S
     \<and> (\<forall>i < NPROC. if p_state (proc_at S i) = UNUSED then p_state (proc_at S' i) = UNUSED else proc_at S' i = proc_at S i)"

definition forked :: "'e kops \<Rightarrow> nat \<Rightarrow> int \<Rightarrow> ('e, 'z) kstate_scheme \<Rightarrow> ('e, 'z) kstate_scheme \<Rightarrow> nat \<Rightarrow> bool" where
  "forked ops p d S S' np \<longleftrightarrow> find_unused S = Some np
     \<and> (\<exists>pg. KERNBASE \<le> pg \<and> proc_at S' np = child_of p (proc_at S p) d (k_nextpid S) (fst (op_kalloc ops (k_env S))) pg (proc_at S np))
     \<and> (\<forall>i. i \<noteq> np \<longrightarrow> proc_at S' i = proc_at S i) \<and> k_active S' = k_active S
     \<and> (\<forall>q < 2 * RSDL_LEVELS. procs_of S' q = procs_of S q @ (if q = tgt S (nat d) (nat d) then [np] else []))"

text \<open>The part of \<open>priofork\<close> after \<open>allocproc\<close> returned slot \<open>np\<close> in state \<open>S1\<close>.\<close>

lemma priofork_tail:
  assumes ops: "ops_return ops" and ok: "at_ok c (Some (p, k)) S1" and d: "0 \<le> d" "d < int RSDL_LEVELS"
    and np: "np < NPROC" "np \<noteq> p" "p_state (proc_at S1 np) = EMBRYO" "p_kstack (proc_at S1 np) \<noteq> 0" "p_context (proc_at S1 np) = Ctx_forkret"
      "p_ticks_left (proc_at S1 np) = RSDL_PROC_QUANTUM" "k_initproc S1 \<noteq> Some np"
    and cwd: "p_cwd (proc_at S1 p) = Some cwd" and al: "allocproc ops c S = Inr (Some np, S1)" and me: "myproc c S = Some p"
    and cp: "op_copyuvm ops (p_pgdir (proc_at S1 p)) (p_sz (proc_at S1 p)) (k_env S1) = Inr (pg, e1)" "KERNBASE \<le> pg"
  shows "\<exists>S'. priofork ops c d S = Inr (p_pid (proc_at S1 np), S') \<and> at_ok c (Some (p, k)) S' \<and> kept {} S1 S'
    \<and> proc_at S' np = child_of p (proc_at S1 p) d (p_pid (proc_at S1 np)) (p_kstack (proc_at S1 np)) pg (proc_at S1 np)
    \<and> (\<forall>i. i \<noteq> np \<longrightarrow> proc_at S' i = proc_at S1 i) \<and> k_active S' = k_active S1
    \<and> (\<forall>q < 2 * RSDL_LEVELS. procs_of S' q = procs_of S1 q @ (if q = tgt S1 (nat d) (nat d) then [np] else []))"
proof -
  let ?y = "proc_at S1 p"
  obtain e2 e3 where e: "dup_files ops (p_ofile ?y) e1 = Inr e2" "op_idup ops cwd e2 = Inr e3"
    using dup_files_total [OF ops] ops_returnD(5) [OF ops] by metis
  define g :: "proc \<Rightarrow> proc" where "g = (\<lambda>x. x\<lparr>p_pgdir := pg, p_sz := p_sz ?y, p_parent := Some p, p_tf := (p_tf ?y)\<lparr>tf_eax := 0\<rparr>,
     p_ofile := inherit_files (p_ofile ?y) (p_ofile x), p_cwd := Some cwd, p_name := name_copy (p_name ?y)\<rparr>)"
  define S3 where "S3 = upd_proc np g (set_env e3 S1)"
  have len: "length (k_procs S1) = NPROC" using ok tabD(3) [of c "Some (p, k)" S1] by (simp add: at_ok_def)
  have pg0: "pg \<noteq> 0" using cp(2) by (auto simp: KERNBASE_def)
  let ?S2 = "upd_proc np (\<lambda>x. x\<lparr>p_pgdir := pg\<rparr>) (set_env e1 S1)"
  let ?g' = "\<lambda>x. x\<lparr>p_sz := p_sz ?y, p_parent := Some p, p_tf := (p_tf ?y)\<lparr>tf_eax := 0\<rparr>,
     p_ofile := inherit_files (p_ofile ?y) (p_ofile x), p_cwd := Some cwd, p_name := name_copy (p_name ?y)\<rparr>"
  have "upd_proc np ?g' (set_env e3 ?S2) = S3"
    using np(1) len by (simp add: S3_def g_def upd_proc_def set_env_def)
  moreover have "p_pid (proc_at S3 np) = p_pid (proc_at S1 np)" using np(1) len by (simp add: S3_def g_def)
  ultimately have pf: "priofork ops c d S = bindE (make_runnable c np (\<lambda>x. x\<lparr>p_default_level := d\<rparr>) S3) (\<lambda>S4. Inr (p_pid (proc_at S1 np), S4))"
    using me d al cp pg0 e cwd np(2) by (simp add: priofork_def Let_def)
  have dead: "\<not> live (proc_at S1 np)" using np(3) by (simp add: live_def)
  let ?S1' = "set_env e3 S1"
  have t1: "tab c (Some (p, k)) ?S1'" using ok tab_cong [of ?S1' S1 c "Some (p, k)"] by (simp add: at_ok_def cur_def)
  have "tab c (Some (p, k)) S3" unfolding S3_def using np(1) dead by (intro tab_dead [OF t1]) (simp_all add: g_def live_def)
  then have ok3: "at_ok c (Some (p, k)) S3" using ok quiet_cong [of S3 S1 c] by (simp add: at_ok_def S3_def)
  have p3: "proc_at S3 np = g (proc_at S1 np)" "\<And>i. i \<noteq> np \<Longrightarrow> proc_at S3 i = proc_at S1 i" using np(1) len by (simp_all add: S3_def)
  have k3: "k_levels S3 = k_levels S1" "k_active S3 = k_active S1" "k_expired S3 = k_expired S1" "k_initproc S3 = k_initproc S1" by (simp_all add: S3_def)
  have kp3: "kept {} S1 S3"
    using kept_drop [OF kept_others [of S3 S1 np] np(7)] p3 k3 np(3) by (simp add: g_def live_def)
  obtain S' where S': "make_runnable c np (\<lambda>x. x\<lparr>p_default_level := d\<rparr>) S3 = Inr S'" "at_ok c (Some (p, k)) S'" "init_kept S3 S'"
      "k_procs S' = (k_procs S3)[np := (proc_at S3 np)\<lparr>p_default_level := d, p_state := RUNNABLE\<rparr>]" "k_active S' = k_active S3"
      "\<forall>r < 2 * RSDL_LEVELS. procs_of S' r = procs_of S3 r @ (if r = tgt S3 (nat d) (nat d) then [np] else [])"
    using make_runnable_ok [OF ok3 np(1), of "\<lambda>x. x\<lparr>p_default_level := d\<rparr>"] p3(1) np d cp(2) k3(4)
    by (auto simp: g_def fit_def Let_def)
  have "tgt S3 (nat d) (nat d) = tgt S1 (nat d) (nat d)" by (rule tgt_cong) (simp_all add: k3)
  moreover have "procs_of S3 r = procs_of S1 r" for r by (simp add: procs_of_def k3)
  moreover have "proc_at S' np = child_of p ?y d (p_pid (proc_at S1 np)) (p_kstack (proc_at S1 np)) pg (proc_at S1 np)"
    using S'(4) p3 np len cwd by (simp add: child_of_def g_def S3_def)
  ultimately show ?thesis using pf S' p3(2) kept_trans [OF kp3 S'(3)] k3 by simp
qed

lemma priofork_nomem:
  assumes ops: "ops_return ops" and ok: "at_ok c (Some (p, k)) S1" and al: "allocproc ops c S = Inr (Some np, S1)"
    and d: "0 \<le> d" "d < int RSDL_LEVELS" and me: "myproc c S = Some p"
    and np: "np < NPROC" "p_state (proc_at S np) = UNUSED" "p_state (proc_at S1 np) = EMBRYO"
    and cp: "op_copyuvm ops (p_pgdir (proc_at S1 p)) (p_sz (proc_at S1 p)) (k_env S1) = Inr (0, e1)"
    and fr: "k_levels S1 = k_levels S" "k_active S1 = k_active S" "\<And>i. i \<noteq> np \<Longrightarrow> proc_at S1 i = proc_at S i" and ni: "k_initproc S1 \<noteq> Some np"
  shows "\<exists>S'. priofork ops c d S = Inr (-1, S') \<and> at_ok c (Some (p, k)) S' \<and> kept {} S1 S' \<and> untouched S S'"
proof -
  obtain e2 where e2: "op_kfree ops (p_kstack (proc_at S1 np)) e1 = Inr e2" using ops_returnD(1) [OF ops] by blast
  define g :: "proc \<Rightarrow> proc" where "g = (\<lambda>x. x\<lparr>p_pgdir := 0, p_kstack := 0, p_state := UNUSED\<rparr>)"
  define S3 where "S3 = upd_proc np g (set_env e2 S1)"
  have len: "length (k_procs S1) = NPROC" using ok tabD(3) [of c "Some (p, k)" S1] by (simp add: at_ok_def)
  have pf: "priofork ops c d S = Inr (-1, S3)"
    using me d al cp np(1) e2 len by (simp add: priofork_def Let_def S3_def g_def upd_proc_def set_env_def)
  have t1: "tab c (Some (p, k)) (set_env e2 S1)" using ok tab_cong [of "set_env e2 S1" S1 c "Some (p, k)"] by (simp add: at_ok_def cur_def)
  have "tab c (Some (p, k)) S3" unfolding S3_def using np by (intro tab_dead [OF t1]) (simp_all add: g_def live_def)
  then have "at_ok c (Some (p, k)) S3" using ok quiet_cong [of S3 S1 c] by (simp add: at_ok_def S3_def)
  moreover have p3: "p_state (proc_at S3 np) = UNUSED" "\<And>i. i \<noteq> np \<Longrightarrow> proc_at S3 i = proc_at S i" "k_levels S3 = k_levels S" "k_active S3 = k_active S"
    using np len fr by (simp_all add: S3_def g_def)
  have "if p_state (proc_at S i) = UNUSED then p_state (proc_at S3 i) = UNUSED else proc_at S3 i = proc_at S i" for i
    using p3 np(2) by (cases "i = np") simp_all
  then have "untouched S S3" using p3(3,4) by (simp add: untouched_def)
  moreover have "kept {} S1 S3"
    using kept_drop [OF kept_others [of S3 S1 np] ni] p3 fr by (simp add: S3_def live_def)
  ultimately show ?thesis using pf by blast
qed

lemma priofork_spec:
  assumes ops: "ops_return ops" and run: "run_ok c p k S" and init: "\<And>i. k_initproc S = Some i \<Longrightarrow> live (proc_at S i)"
    and cwd: "p_cwd (proc_at S p) \<noteq> None"
  shows "\<exists>r S'. priofork ops c d S = Inr (r, S') \<and> run_ok c p k S' \<and> kept {} S S' \<and>
    (if fork_room ops d p S then \<exists>np. r = k_nextpid S \<and> forked ops p d S S' np else r = -1 \<and> untouched S S')"
proof -
  have pl: "placed c p k S" using run by (simp add: run_ok_def)
  note P = placedD [OF pl]
  have me: "myproc c S = Some p" using P(2) by (simp add: myproc_def)
  have ok: "at_ok c (Some (p, k)) S" using run at_ok_modes(2) by blast
  show ?thesis
  proof (cases "0 \<le> d \<and> d < int RSDL_LEVELS")
    case False
    then show ?thesis using run me by (auto simp: priofork_def fork_room_def untouched_def)
  next
    case d: True
    let ?stack = "fst (op_kalloc ops (k_env S))" and ?e0 = "snd (op_kalloc ops (k_env S))"
    obtain npo S1 where S1: "allocproc ops c S = Inr (npo, S1)" "at_ok c (Some (p, k)) S1" "kept {} S S1"
        "k_levels S1 = k_levels S" "k_active S1 = k_active S" "k_expired S1 = k_expired S"
      and npo: "allocated ops S S1 npo"
      using allocproc_ok [OF ok init, of ops] by blast
    have r1: "run_ok c p k S1" using S1(2) at_ok_modes(2) by blast
    show ?thesis
    proof (cases npo)
      case None
      then have "priofork ops c d S = Inr (-1, S1)" using S1(1) me d by (simp add: priofork_def)
      moreover have "\<not> fork_room ops d p S" using npo None by (auto simp: fork_room_def allocated_def)
      moreover have "untouched S S1" using npo None S1(4,5) by (simp add: untouched_def allocated_def)
      ultimately show ?thesis using r1 S1(3) by auto
    next
      case (Some np)
      note N = allocatedD [OF npo [unfolded Some]]
      have ne: "np \<noteq> p" using N(3) P(8) by auto
      then have y: "proc_at S1 p = proc_at S p" using N(6) by simp
      have ni: "k_initproc S1 \<noteq> Some np" using init [of np] N(3) S1(3) by (auto simp: kept_def live_def)
      obtain pg e1 where cp: "op_copyuvm ops (p_pgdir (proc_at S p)) (p_sz (proc_at S p)) ?e0 = Inr (pg, e1)" "pg = 0 \<or> KERNBASE \<le> pg"
        using ops_returnD(10) [OF ops] by blast
      have room: "fork_room ops d p S \<longleftrightarrow> pg \<noteq> 0" using d N cp(1) by (simp add: fork_room_def)
      show ?thesis
      proof (cases "pg = 0")
        case True
        obtain S3 where "priofork ops c d S = Inr (-1, S3)" "at_ok c (Some (p, k)) S3" "kept {} S1 S3" "untouched S S3"
          using priofork_nomem [OF ops S1(2,1) [unfolded Some] _ _ me N(2,3) _ _ S1(4,5) N(6) ni, of d e1] d cp(1) True y N(5,7) by auto
        then show ?thesis using room True kept_trans [OF S1(3)] by (auto simp: at_ok_modes)
      next
        case False
        obtain cwd' where cwd': "p_cwd (proc_at S p) = Some cwd'" using cwd by blast
        obtain S' where S': "priofork ops c d S = Inr (p_pid (proc_at S1 np), S')" "at_ok c (Some (p, k)) S'" "kept {} S1 S'"
            "proc_at S' np = child_of p (proc_at S1 p) d (p_pid (proc_at S1 np)) (p_kstack (proc_at S1 np)) pg (proc_at S1 np)"
            "\<forall>i. i \<noteq> np \<longrightarrow> proc_at S' i = proc_at S1 i" "k_active S' = k_active S1"
            "\<forall>q < 2 * RSDL_LEVELS. procs_of S' q = procs_of S1 q @ (if q = tgt S1 (nat d) (nat d) then [np] else [])"
          using priofork_tail [OF ops S1(2), of d np cwd' S pg e1] d N ne ni cwd' y S1(1) Some me cp False by auto
        have "tgt S1 (nat d) (nat d) = tgt S (nat d) (nat d)" by (rule tgt_cong) (simp_all add: S1)
        moreover have "procs_of S1 q = procs_of S q" for q by (simp add: procs_of_def S1)
        moreover have "proc_at S' np = child_of p (proc_at S p) d (k_nextpid S) ?stack pg (proc_at S np)"
          using S'(4) N(5) y by (simp add: child_of_def)
        ultimately have "forked ops p d S S' np" using N S' S1(5) cp(2) False by (auto simp: forked_def)
        then show ?thesis using S' N(5) room False kept_trans [OF S1(3) S'(3)] by (auto simp: at_ok_modes)
      qed
    qed
  qed
qed

section \<open>growproc\<close>

lemma switchuvm_quiet:
  assumes q: "quiet c S" and f: "fit (proc_at S p)"
  shows "\<exists>S'. switchuvm c (Some p) S = Inr S' \<and> quiet c S' \<and> cur c S' = cur c S \<and> S' = S\<lparr>cpus := cpus S'\<rparr>"
proof -
  have c: "c < length (cpus S)" and n: "c_ncli (cpus S ! c) = 0" using q by (simp_all add: quiet_def cpu_ok_def)
  have kp: "p_kstack (proc_at S p) \<noteq> 0" "p_pgdir (proc_at S p) \<noteq> 0" "KERNBASE \<le> p_pgdir (proc_at S p)"
    using f by (auto simp: fit_def KERNBASE_def)
  let ?f = "\<lambda>x. x\<lparr>c_esp0 := p_kstack (proc_at S p) + KSTACKSIZE, c_cr3 := p_pgdir (proc_at S p) - KERNBASE, c_intena := c_if x\<rparr>"
  let ?S = "upd_cpu c ?f S"
  have S1: "pushcli c S = upd_cpu c (\<lambda>x. x\<lparr>c_if := False, c_ncli := 1, c_intena := c_if x\<rparr>) S"
    using c n by (simp add: pushcli_eq upd_cpu_def)
  have "switchuvm c (Some p) S = Inr ?S"
    using kp c n unfolding switchuvm_def S1
    by (cases "cpus S ! c") (simp add: V2P_ok popcli_eq Let_def upd_cpu_def)
  moreover have "quiet c ?S" using q c by (simp add: quiet_def cpu_ok_def lock_free_def)
  moreover have "cur c ?S = cur c S" using c by (simp add: cur_def)
  ultimately show ?thesis by (simp add: upd_cpu_def)
qed

text \<open>\<open>growproc(n)\<close> sets the size to what the page-table code returns, or fails and changes no process.\<close>

lemma growproc_spec:
  assumes ops: "ops_return ops" and run: "run_ok c p k S"
  shows "\<exists>r S'. growproc ops c n S = Inr (r, S') \<and> run_ok c p k S' \<and> kept {} S S' \<and> k_levels S' = k_levels S \<and> k_active S' = k_active S
    \<and> (r = 0 \<or> r = -1) \<and> (r = -1 \<longrightarrow> k_procs S' = k_procs S)
    \<and> (r = 0 \<longrightarrow> (\<exists>sz. k_procs S' = (k_procs S)[p := (proc_at S p)\<lparr>p_sz := sz\<rparr>]))"
proof -
  have pl: "placed c p k S" and q: "quiet c S" using run by (simp_all add: run_ok_def)
  note P = placedD [OF pl]
  let ?sz = "p_sz (proc_at S p)"
  obtain sz e where re: "(if n > 0 then op_allocuvm ops (p_pgdir (proc_at S p)) ?sz (?sz + word_of_int n) (k_env S)
      else if n < 0 then op_deallocuvm ops (p_pgdir (proc_at S p)) ?sz (?sz + word_of_int n) (k_env S) else Inr (?sz, k_env S)) = Inr (sz, e)"
    using ops_returnD(11) [OF ops, of "p_pgdir (proc_at S p)" ?sz "?sz + word_of_int n" "k_env S"]
      ops_returnD(12) [OF ops, of "p_pgdir (proc_at S p)" ?sz "?sz + word_of_int n" "k_env S"] by (cases "n > 0"; cases "n < 0") auto
  show ?thesis
  proof (cases "n \<noteq> 0 \<and> sz = 0")
    case True
    then have "growproc ops c n S = Inr (-1, set_env e S)" using re P(2) by (simp add: growproc_def myproc_def)
    moreover have "run_ok c p k (set_env e S)"
      using run placed_cong [of "set_env e S" S c p k] quiet_cong [of "set_env e S" S c] by (simp add: run_ok_def cur_def)
    ultimately show ?thesis by (simp add: kept_def)
  next
    case False
    define T where "T = upd_proc p (\<lambda>x. x\<lparr>p_sz := sz\<rparr>) (set_env e S)"
    have pT: "proc_at T p = (proc_at S p)\<lparr>p_sz := sz\<rparr>" using P(7,10) by (simp add: T_def)
    have qT: "quiet c T" using q quiet_cong [of T S c] by (simp add: T_def)
    have "fit (proc_at T p)" using P(9) by (simp add: pT fit_def)
    from switchuvm_quiet [OF qT this] obtain S' where S': "switchuvm c (Some p) T = Inr S'" "quiet c S'" "cur c S' = cur c T" "S' = T\<lparr>cpus := cpus S'\<rparr>" by blast
    have g: "growproc ops c n S = Inr (0, S')" using re False P(2) S'(1) by (simp add: growproc_def myproc_def T_def)
    have tT: "tinv (Some p) (Some p) T" unfolding T_def
      using P by (intro tinv_upd_proc) (auto simp: proc_ok_def fit_def live_def)
    have f: "k_procs S' = k_procs T" "k_levels S' = k_levels T" "k_active S' = k_active T" "k_expired S' = k_expired T"
      "k_kpgdir S' = k_kpgdir T" "k_initproc S' = k_initproc T" by (subst S'(4), simp)+
    have "placed c p k T" using pl tT by (simp add: placed_def procs_of_def T_def cur_def)
    then have r: "run_ok c p k S'" using S'(2,3) placed_cong [of S' T c p k] f by (simp add: run_ok_def)
    have "kept {} (set_env e S) T" unfolding T_def using P by (intro kept_upd) (auto simp: lost_def live_def)
    then have "kept {} S S'" by (rule kept_cong) (simp_all add: f T_def)
    moreover have "k_procs S' = (k_procs S)[p := (proc_at S p)\<lparr>p_sz := sz\<rparr>]" by (simp add: f T_def upd_proc_def)
    ultimately show ?thesis using g r f by (auto simp: T_def)
  qed
qed

end
