(* ===== verification/KRun.thy ===== *)
theory KRun
  imports KFork
begin

text \<open>
  Whole turns of one CPU, the events that move the kernel from one point without locks to
  the next, and the reachable states: none of them panics.
\<close>

section \<open>Wait\<close>

lemma wait_scan_ok:
  assumes ops: "ops_return ops" and t: "tab c m S" and il: "\<forall>i \<in> set is. i < NPROC"
  shows "\<exists>r S'. wait_scan ops p is h S = Inr (r, S') \<and> tab c m S' \<and> kept {} S S' \<and> cpus S' = cpus S \<and> locks S' = locks S"
  using il
proof (induction "is" arbitrary: h)
  case (Cons i "is")
  note IH = Cons.IH
  show ?case
  proof (cases "p_parent (proc_at S i) = Some p \<and> p_state (proc_at S i) = ZOMBIE")
    case True
    obtain e1 e2 where e: "op_kfree ops (p_kstack (proc_at S i)) (k_env S) = Inr e1" "op_freevm ops (p_pgdir (proc_at S i)) e1 = Inr e2"
      using ops_returnD(1,2) [OF ops] by metis
    let ?f = "\<lambda>x. x\<lparr>p_kstack := 0, p_pid := 0, p_parent := None, p_name := [], p_killed := False, p_state := UNUSED\<rparr>"
    let ?X = "upd_proc i ?f (set_env e2 S)"
    have i: "i < NPROC" "\<not> live (proc_at S i)" using Cons.prems True by (simp_all add: live_def)
    have tS: "tab c m (set_env e2 S)" using t tab_cong [of "set_env e2 S" S c m] by simp
    have "tab c m ?X" using tab_dead [OF tS i(1), of ?f] i(2) by (simp add: live_def)
    moreover have "kept {} (set_env e2 S) ?X" using tabD(3) [OF tS] i(2) by (intro kept_upd) (simp_all add: lost_def live_def)
    then have "kept {} S ?X" by (rule kept_cong) simp_all
    ultimately show ?thesis using True e by simp
  next
    case False
    then show ?thesis using IH [of h] IH [of True] Cons.prems by auto
  qed
qed (simp add: t)

definition wait_turn :: "'e kops \<Rightarrow> nat \<Rightarrow> (int option \<times> ('e, 'z) kstate_scheme) result \<Rightarrow> ('e, 'z) kstate_scheme result" where
  "wait_turn ops c r = bindE r (\<lambda>(res, S1). case res of Some pid \<Rightarrow> Inr S1 | None \<Rightarrow> scheduler_after c S1)"

lemma wait_body_ok:
  assumes ops: "ops_return ops" and cr: "crit c S" and pl: "placed c p k S"
  shows "\<exists>m S'. wait_turn ops c (wait_body ops c S) = Inr S' \<and> at_ok c m S' \<and> kept {} S S'"
proof -
  note P = placedD [OF pl]
  have t: "tab c (Some (p, k)) S" using pl by (simp add: tab_def)
  obtain r S1 where S1: "wait_scan ops p [0..<NPROC] False S = Inr (r, S1)" "tab c (Some (p, k)) S1" "kept {} S S1"
      "cpus S1 = cpus S" "locks S1 = locks S"
    using wait_scan_ok [OF ops t, of "[0..<NPROC]" p False] by auto
  have cr1: "crit c S1" using cr crit_cong [OF S1(4,5)] by simp
  have pl1: "placed c p k S1" using S1(2) by (simp add: tab_def)
  note P1 = placedD [OF pl1] and D = tab_depart [OF cr1 S1(2)]
  have kd: "kept {} S (depart c PtableLock S1)" using S1(3) by (rule kept_cong) simp_all
  show ?thesis
  proof (cases "\<exists>pid. r = Inl pid \<or> (\<exists>h. r = Inr h \<and> (\<not> h \<or> p_killed (proc_at S1 p)))")
    case True
    then have "\<exists>x. wait_body ops c S = Inr (Some x, depart c PtableLock S1)"
      using S1(1) D(1) P(2) by (auto simp: wait_body_def myproc_def)
    then show ?thesis using D(2) kd by (auto simp: wait_turn_def)
  next
    case False
    then obtain h where h: "r = Inr h" "h" "\<not> p_killed (proc_at S1 p)" by (cases r) auto
    let ?f = "\<lambda>x. x\<lparr>p_chan := Some (Chan_proc p), p_state := SLEEPING\<rparr>"
    have "\<exists>S'. bindE (sched c (From_sleep PtableLock) (upd_proc p ?f S1)) (scheduler_after c) = Inr S' \<and> idle_ok c S' \<and> kept {} S1 S'"
      using P1(9) by (intro give_up [OF cr1 pl1]) (simp_all add: fit_def)
    then obtain S' where S': "bindE (sched c (From_sleep PtableLock) (upd_proc p ?f S1)) (scheduler_after c) = Inr S'"
      "idle_ok c S'" "kept {} S1 S'" by blast
    have "wait_turn ops c (wait_body ops c S) = bindE (sched c (From_sleep PtableLock) (upd_proc p ?f S1)) (scheduler_after c)"
      using S1(1) h P(2) P1(2) by (simp add: wait_body_def myproc_def sleep_def wait_turn_def bindE_assoc)
    then show ?thesis using S' at_ok_modes(1) kept_trans [OF S1(3)] by metis
  qed
qed

lemma wait_ok:
  assumes ops: "ops_return ops" and run: "run_ok c p k S"
  shows "\<exists>m S'. wait_turn ops c (wait ops c S) = Inr S' \<and> at_ok c m S' \<and> kept {} S S'"
proof -
  note E = run_enter [OF run]
  obtain m S' where "wait_turn ops c (wait_body ops c (enter c PtableLock S)) = Inr S'" "at_ok c m S'" "kept {} (enter c PtableLock S) S'"
    using wait_body_ok [OF ops E(2,3)] by blast
  moreover from this(3) have "kept {} S S'" by (rule kept_cong) simp_all
  ultimately show ?thesis using E(1) by (auto simp: wait_def)
qed

section \<open>A turn of the scheduler\<close>

text \<open>
  From the head of the loop in \<open>scheduler()\<close> until the chosen process is back in its own
  code without locks, or until the next time around. A process that slept in \<open>wait\<close> holds
  \<open>ptable.lock\<close> when it comes back and goes on with the loop there; one that slept
  elsewhere is about to take its own lock again.
\<close>

definition sched_turn :: "'e kops \<Rightarrow> nat \<Rightarrow> ('e, 'z) kstate_scheme \<Rightarrow> ('e, 'z) kstate_scheme result" where
  "sched_turn ops c S =
     bindE (scheduler_pick c S) (\<lambda>(sw, S1).
     if \<not> sw then Inr S1
     else bindE (resume ops c S1) (\<lambda>(r, S2).
       case r of Res_wait \<Rightarrow> wait_turn ops c (wait_body ops c S2) | _ \<Rightarrow> Inr S2))"

lemma switched_placed:
  assumes "switched c p k S S'" "k < RSDL_LEVELS" "p \<in> set (procs_of S (k_active S + k))"
  shows "crit c S'" "placed c p k S'"
  using assms by (simp_all add: switched_def placed_def procs_of_def)

lemma resume_ok:
  assumes ops: "ops_return ops" and cr: "crit c S" and pl: "placed c p k S" and ctx: "ctx_ok (p_context (proc_at S p))"
  shows "\<exists>r S'. resume ops c S = Inr (r, S') \<and> kept {} S S'
    \<and> (if r = Res_wait then crit c S' \<and> placed c p k S' else run_ok c p k S')"
proof -
  note P = placedD [OF pl]
  have c: "c < length (cpus S)" using cr by (simp add: crit_def cpu_ok_def)
  show ?thesis
  proof (cases "p_context (proc_at S p)")
    case Ctx_none
    with ctx show ?thesis by simp
  next
    case Ctx_forkret
    note D = run_depart [OF cr pl]
    let ?D = "depart c PtableLock S"
    obtain e where e: "op_fsinit ops (k_env ?D) = Inr e" using ops_returnD(9) [OF ops] by blast
    let ?F = "set_env e (?D\<lparr>k_first := False\<rparr>)"
    have "run_ok c p k ?F" using D(2) quiet_cong [of ?F ?D c] placed_cong [of ?F ?D c p k]
      by (simp add: run_ok_def cur_def)
    then show ?thesis using Ctx_forkret P(2) D e by (simp add: resume_def myproc_def forkret_def kept_def)
  next
    case (Ctx_sched b caller)
    let ?S1 = "upd_cpu c (\<lambda>x. x\<lparr>c_intena := b\<rparr>) S"
    have cr1: "crit c ?S1" using cr by (rule crit_upd_cpu) simp_all
    have pl1: "placed c p k ?S1" using pl placed_cong [of ?S1 S c p k] c by (simp add: cur_def)
    let ?f = "\<lambda>x. x\<lparr>p_chan := None\<rparr>" let ?S2 = "upd_proc p ?f ?S1"
    note P1 = placedD [OF pl1]
    have t2: "tinv (Some p) (Some p) ?S2"
      using P1 by (intro tinv_upd_proc [OF _ P1(7)]) (auto simp: proc_ok_def fit_def live_def)
    then have pl2: "placed c p k ?S2" using pl1 by (simp add: placed_def procs_of_def)
    have k2: "kept {} S ?S2"
    proof (rule kept_cong)
      show "kept {} ?S1 ?S2" using P1(10) by (intro kept_upd) (auto simp: lost_def live_def)
    qed simp_all
    have cr2: "crit c ?S2" using cr1 by simp
    note D1 = run_depart [OF cr1 pl1] and D2 = run_depart [OF cr2 pl2]
    have kd: "kept {} S (depart c PtableLock ?S1)" "kept {} S (depart c PtableLock ?S2)"
      using k2 by (simp_all add: kept_def)
    show ?thesis
    proof (cases caller)
      case From_yield
      then show ?thesis using Ctx_sched P(2) D1 kd by (simp add: resume_def myproc_def)
    next
      case (From_sleep lk)
      then show ?thesis using Ctx_sched P(2) D2 kd k2 cr2 pl2
        by (cases "lk = PtableLock") (simp_all add: resume_def myproc_def)
    next
      case From_exit
      then show ?thesis using Ctx_sched ctx by simp
    qed
  qed
qed

lemma kept_switched:
  assumes "switched c p k S S'" "p_state (proc_at S p) = RUNNABLE"
  shows "kept {} S S'"
proof -
  have "live (proc_at S' i) = live (proc_at S i) \<and> p_killed (proc_at S' i) = p_killed (proc_at S i)
      \<and> lost (proc_at S' i) = lost (proc_at S i)" for i
    using assms by (cases "i = p"; cases "p < length (k_procs S)") (auto simp: switched_def live_def lost_def list_update_beyond)
  then show ?thesis using assms(1) by (simp add: kept_def switched_def)
qed

lemma sched_turn_ok:
  assumes ops: "ops_return ops" and idle: "idle_ok c S"
  shows "\<exists>m S'. sched_turn ops c S = Inr S' \<and> at_ok c m S' \<and> kept {} S S'"
proof -
  have q: "quiet c S" and t: "tinv None None S" and cu: "cur c S = (None, None, None)" using idle by (simp_all add: idle_ok_def)
  show ?thesis
  proof (cases "choice 0 S")
    case None
    obtain S' where "scheduler_pick c S = Inr (False, S')" "quiet c S'" "tinv None None S'" "same_procs S S'" "cur c S' = cur c S"
      using scheduler_pick_idle [OF q t None] by blast
    then have "sched_turn ops c S = Inr S'" "at_ok c None S'" "kept {} S S'"
      using cu kept_same by (simp_all add: sched_turn_def at_ok_def tab_def)
    then show ?thesis by blast
  next
    case (Some pqk)
    obtain p q' k where ch: "choice 0 S = Some (p, q', k)" using Some by (cases pqk) simp
    note C = choice_SomeD [OF ch]
    obtain S1 where S1: "scheduler_pick c S = Inr (True, S1)" "switched c p k S S1"
      using scheduler_pick_found [OF q t ch] by blast
    note W = switched_placed [OF S1(2)]
    have cr: "crit c S1" and pl: "placed c p k S1" using W C by simp_all
    have pn: "p < NPROC" by (rule placedD(7) [OF pl])
    have "proc_ok False (proc_at S p)" using tinvD(4) [OF t pn] by simp
    then have "ctx_ok (p_context (proc_at S p))" using C(5) by (simp add: proc_ok_def pickable_def live_def)
    moreover have "proc_at S1 p = (proc_at S p)\<lparr>p_state := RUNNING\<rparr>"
      using S1(2) pn lv_inv_len [OF tinvD(1) [OF t]] by (simp add: switched_def)
    ultimately have ctx: "ctx_ok (p_context (proc_at S1 p))" by simp
    obtain r S2 where S2: "resume ops c S1 = Inr (r, S2)" "kept {} S1 S2"
        "if r = Res_wait then crit c S2 \<and> placed c p k S2 else run_ok c p k S2"
      using resume_ok [OF ops cr pl ctx] by blast
    have k2: "kept {} S S2" using kept_trans [OF kept_switched [OF S1(2)] S2(2)] C(5) by (simp add: pickable_def)
    show ?thesis
    proof (cases "r = Res_wait")
      case True
      obtain m S' where "wait_turn ops c (wait_body ops c S2) = Inr S'" "at_ok c m S'" "kept {} S2 S'"
        using wait_body_ok [OF ops, of c S2 p k] S2(3) True by auto
      then show ?thesis using S1(1) S2(1) True kept_trans [OF k2] by (auto simp: sched_turn_def)
    next
      case False
      then have "sched_turn ops c S = Inr S2" "at_ok c (Some (p, k)) S2"
        using S1(1) S2(1,3) at_ok_modes(2) [of c p k S2] by (auto simp: sched_turn_def split: resumed.split)
      then show ?thesis using k2 by blast
    qed
  qed
qed

section \<open>A timer interrupt\<close>

definition settle :: "nat \<Rightarrow> (flow \<times> ('e, 'z) kstate_scheme) result \<Rightarrow> ('e, 'z) kstate_scheme result" where
  "settle c r = bindE r (\<lambda>(fl, S). case fl of Flow_ret \<Rightarrow> Inr S | Flow_switch \<Rightarrow> scheduler_after c S)"

lemma settle_leave [simp]: "settle c (leave r) = bindE r (scheduler_after c)"
  by (cases r) (simp_all add: settle_def leave_def)

text \<open>The two counters can have any values while a process runs.\<close>

lemma counters_ok:
  fixes a :: "proc \<Rightarrow> int" and b :: "level_queue \<Rightarrow> int"
  assumes run: "run_ok c p k S"
  defines "V \<equiv> upd_level (k_active S + k) (\<lambda>x. x\<lparr>lq_ticks_left := b x\<rparr>) (upd_proc p (\<lambda>x. x\<lparr>p_ticks_left := a x\<rparr>) S)"
  shows "run_ok c p k V" "kept {} S V"
proof -
  let ?q = "k_active S + k"
  let ?f = "\<lambda>x. x\<lparr>p_ticks_left := a x\<rparr>" let ?g = "\<lambda>x. x\<lparr>lq_ticks_left := b x\<rparr>"
  let ?U = "upd_proc p ?f S" let ?V = "upd_level ?q ?g ?U"
  have pl: "placed c p k S" using run by (simp add: run_ok_def)
  note P = placedD [OF pl]
  have "tinv (Some p) (Some p) ?U"
    using P by (intro tinv_upd_proc [OF _ P(7)]) (auto simp: proc_ok_def fit_def live_def)
  note T = tinvD [OF this]
  have q: "?q < 2 * RSDL_LEVELS" using lv_invD(6) [OF T(1)] P(5) by simp
  have len: "length (k_levels S) = 2 * RSDL_LEVELS" using lv_invD(2) [OF T(1)] by simp
  have eq: "lq_list (level_at ?V r) = lq_list (level_at S r)" for r
    using len q by (cases "r = ?q") (simp_all add: lq_list_def)
  have qd: "queued ?V = queued ?U"
    using eq len by (simp add: queued_def) (rule arg_cong [of _ _ concat], rule nth_equalityI, simp_all)
  have "lq_wf (?g (level_at ?U ?q))" using lv_invD(3) [OF T(1) q] by (simp add: lq_wf_def)
  then have "table_wf ?V" using T(1) by (intro table_wf_upd_level) (simp_all add: lv_inv_def)
  then have lv: "lv_inv ?V" using T(1) qd by (simp add: lv_inv_def)
  have "level_at ?V (k_expired S + j) = level_at S (k_expired S + j)" if "j < RSDL_LEVELS" for j
    using sets_apart [OF T(1) P(5) that] by simp
  then have "expired_fresh ?V" using T(2) by (simp add: expired_fresh_def)
  then have "tinv (Some p) (Some p) ?V" using lv T(3-6) qd by (simp add: tinv_def)
  then have "placed c p k ?V" using pl eq by (simp add: placed_def procs_of_def)
  moreover have "quiet c ?V" using run quiet_cong [of ?V S c] by (simp add: run_ok_def)
  ultimately show "run_ok c p k V" by (simp add: V_def run_ok_def)
  show "kept {} S V" unfolding V_def
  proof (rule kept_cong)
    show "kept {} S ?U" using P(10) by (intro kept_upd) (auto simp: lost_def)
  qed simp_all
qed

lemma charge_ok:
  assumes run: "run_ok c p k S"
  shows "run_ok c p k (snd (charge p (k_active S + k) S))" "kept {} S (snd (charge p (k_active S + k) S))"
    "p_killed (proc_at (snd (charge p (k_active S + k) S)) p) = p_killed (proc_at S p)"
proof -
  have ch: "snd (charge p (k_active S + k) S) = upd_level (k_active S + k) (\<lambda>x. x\<lparr>lq_ticks_left := lq_ticks_left x - 1\<rparr>)
      (upd_proc p (\<lambda>x. x\<lparr>p_ticks_left := p_ticks_left x - 1\<rparr>) S)" by (simp add: charge_def Let_def)
  show "run_ok c p k (snd (charge p (k_active S + k) S))" "kept {} S (snd (charge p (k_active S + k) S))"
    unfolding ch by (rule counters_ok [OF run])+
  have "placed c p k S" using run by (simp add: run_ok_def)
  from placedD(7,10) [OF this] show "p_killed (proc_at (snd (charge p (k_active S + k) S)) p) = p_killed (proc_at S p)"
    unfolding ch by simp
qed

text \<open>What keeps the kernel alive: \<open>init\<close> lives and is not killed, and live processes have a directory.\<close>

definition hale :: "('e, 'z) kstate_scheme \<Rightarrow> bool" where
  "hale S \<longleftrightarrow> (\<forall>i. k_initproc S = Some i \<longrightarrow> i < NPROC \<and> live (proc_at S i) \<and> \<not> p_killed (proc_at S i))
     \<and> (\<forall>i < NPROC. \<not> lost (proc_at S i))"

lemma hale_kept: "hale S \<Longrightarrow> kept {} S S' \<Longrightarrow> hale S'"
  by (auto simp: hale_def kept_def)

lemma hale_cwd:
  assumes "hale S" "run_ok c p k S"
  shows "p_cwd (proc_at S p) \<noteq> None" "\<And>i. k_initproc S = Some i \<Longrightarrow> live (proc_at S i)"
proof -
  have pl: "placed c p k S" using assms(2) by (simp add: run_ok_def)
  show "p_cwd (proc_at S p) \<noteq> None"
    using assms(1) placedD(7,8) [OF pl] by (auto simp: hale_def lost_def live_def)
  show "\<And>i. k_initproc S = Some i \<Longrightarrow> live (proc_at S i)" using assms(1) by (simp add: hale_def)
qed

lemma hale_exit:
  assumes "ops_return ops" "hale S" "run_ok c p k S" "k_initproc S \<noteq> Some p"
  shows "\<exists>S'. bindE (exit ops c S) (scheduler_after c) = Inr S' \<and> idle_ok c S' \<and> kept {} S S'"
  by (rule exit_ok [OF assms(1,3,4) hale_cwd(1) [OF assms(2,3)]])

lemma trap_rest_ok:
  assumes ops: "ops_return ops" and h: "hale S" and ok: "at_ok c m S" and tf: "tf_trapno tf = T_IRQ0 + IRQ_TIMER"
  shows "\<exists>m' S'. settle c (trap_rest ops c tf S) = Inr S' \<and> at_ok c m' S' \<and> kept {} S S'"
proof (cases m)
  case None
  have "c_proc (cpus S ! c) = None" using tabD(2) [of c m S] ok None by (simp add: at_ok_def runs_def)
  then have "trap_rest ops c tf S = Inr (Flow_ret, S)"
    by (simp add: trap_rest_def killed_user_def trap_quantum_def trap_end_def myproc_def)
  then show ?thesis using ok by (auto simp: settle_def)
next
  case (Some pk)
  obtain p k where m: "m = Some (p, k)" using Some by (cases pk) simp
  have run: "run_ok c p k S" using ok m at_ok_modes(2) by blast
  then have pl: "placed c p k S" by (simp add: run_ok_def)
  note P = placedD [OF pl]
  let ?q = "k_active S + k" let ?V = "snd (charge p ?q S)"
  show ?thesis
  proof (cases "killed_user c tf S")
    case True
    then have "p_killed (proc_at S p)" using P(2) by (simp add: killed_user_def myproc_def)
    then have "k_initproc S \<noteq> Some p" using h by (auto simp: hale_def)
    from hale_exit [OF ops h run this] show ?thesis
      using True at_ok_modes(1) by (auto simp: trap_rest_def)
  next
    case False
    note C = charge_ok [OF run]
    have "\<not> killed_user c tf ?V"
      using False C(3) P(2) placedD(2) [of c p k ?V] C(1) by (simp add: killed_user_def myproc_def run_ok_def)
    then have tr: "trap_rest ops c tf S = (if fst (charge p ?q S) then leave (yield c ?V) else Inr (Flow_ret, ?V))"
      using False P(2,3,8) tf by (simp add: trap_rest_def trap_quantum_def trap_end_def myproc_def split_beta)
    obtain S' where y: "bindE (yield c ?V) (scheduler_after c) = Inr S'" "idle_ok c S'" "kept {} ?V S'"
      using yield_ok [OF C(1)] by blast
    show ?thesis
    proof (cases "fst (charge p ?q S)")
      case True
      then have "settle c (trap_rest ops c tf S) = Inr S'" "at_ok c None S'"
        using tr y at_ok_modes(1) [of c S'] by simp_all
      then show ?thesis using kept_trans [OF C(2) y(3)] by blast
    next
      case False
      then have "settle c (trap_rest ops c tf S) = Inr ?V" "at_ok c (Some (p, k)) ?V"
        using tr C(1) at_ok_modes(2) [of c p k ?V] by (simp_all add: settle_def)
      then show ?thesis using C(2) by blast
    qed
  qed
qed

lemma trap_timer_ok:
  assumes ops: "ops_return ops" and h: "hale S" and ok: "at_ok c m S" and tf: "tf_trapno tf = T_IRQ0 + IRQ_TIMER"
  shows "\<exists>m' S'. settle c (trap ops devs sys c tf cr2 S) = Inr S' \<and> at_ok c m' S' \<and> kept {} S S'"
proof -
  obtain S1 where S1: "trap_tick c S = Inr S1" "at_ok c m S1" "kept {} S S1" using trap_tick_ok [OF ok] by blast
  have ne: "tf_trapno tf \<noteq> T_SYSCALL" using tf by (simp add: trap_defs)
  have "settle c (trap ops devs sys c tf cr2 S) = settle c (trap_rest ops c tf S1)"
    using ne tf S1(1) by (simp add: trap_def trap_irq_def)
  then show ?thesis
    using trap_rest_ok [OF ops hale_kept [OF h S1(3)] S1(2) tf] kept_trans [OF S1(3)] by metis
qed

section \<open>Events\<close>

text \<open>
  What CPU \<open>c\<close> can do next when it holds no lock. \<open>E_sleep\<close> is the pattern
  \<open>acquire(lk)\<close>; \<open>sleep(chan, lk)\<close> of all callers but \<open>wait\<close>. \<open>E_self\<close> stands
  for the writes of \<open>exec\<close> and the file system calls to the record of the running process
  (size, page directory, trap frame, name, open files, current directory).
\<close>

datatype event =
    E_turn | E_tick trapframe | E_yield | E_sleep "chan option" lockid | E_wait | E_exit
  | E_wakeup "chan option" | E_kill int | E_fork int | E_grow int | E_self "proc \<Rightarrow> proc"

definition kexec :: "'e kops \<Rightarrow> nat \<Rightarrow> event \<Rightarrow> ('e, 'z) kstate_scheme \<Rightarrow> ('e, 'z) kstate_scheme result" where
  "kexec ops c ev S = (case ev of
      E_turn \<Rightarrow> sched_turn ops c S
    | E_tick tf \<Rightarrow> settle c (trap ops \<lparr>dev_ideintr = Inr, dev_kbdintr = Inr, dev_uartintr = Inr\<rparr> (\<lambda>_. nullderef) c tf 0 S)
    | E_yield \<Rightarrow> bindE (yield c S) (scheduler_after c)
    | E_sleep ch lk \<Rightarrow> bindE (bindE (acquire c lk S) (sleep c ch (Some lk))) (scheduler_after c)
    | E_wait \<Rightarrow> wait_turn ops c (wait ops c S)
    | E_exit \<Rightarrow> bindE (exit ops c S) (scheduler_after c)
    | E_wakeup ch \<Rightarrow> wakeup c ch S
    | E_kill pid \<Rightarrow> bindE (kill c pid S) (\<lambda>(r, S1). Inr S1)
    | E_fork d \<Rightarrow> bindE (priofork ops c d S) (\<lambda>(r, S1). Inr S1)
    | E_grow n \<Rightarrow> bindE (growproc ops c n S) (\<lambda>(r, S1). Inr S1)
    | E_self f \<Rightarrow> (case myproc c S of None \<Rightarrow> nullderef | Some p \<Rightarrow> Inr (upd_proc p f S)))"

text \<open>When an event can happen.\<close>

definition enabled :: "nat \<Rightarrow> event \<Rightarrow> ('e, 'z) kstate_scheme \<Rightarrow> bool" where
  "enabled c ev S = (case ev of
      E_turn \<Rightarrow> myproc c S = None
    | E_tick tf \<Rightarrow> tf_trapno tf = T_IRQ0 + IRQ_TIMER
    | E_yield \<Rightarrow> myproc c S \<noteq> None
    | E_sleep ch lk \<Rightarrow> myproc c S \<noteq> None \<and> lk \<noteq> PtableLock
    | E_wait \<Rightarrow> myproc c S \<noteq> None
    | E_exit \<Rightarrow> myproc c S \<noteq> None \<and> myproc c S \<noteq> k_initproc S
    | E_wakeup ch \<Rightarrow> True
    | E_kill pid \<Rightarrow> (case k_initproc S of None \<Rightarrow> True | Some i \<Rightarrow> p_pid (proc_at S i) \<noteq> pid)
    | E_fork d \<Rightarrow> myproc c S \<noteq> None
    | E_grow n \<Rightarrow> myproc c S \<noteq> None
    | E_self f \<Rightarrow> (case myproc c S of None \<Rightarrow> False
        | Some p \<Rightarrow> p_state (f (proc_at S p)) = RUNNING \<and> fit (f (proc_at S p)) \<and> p_cwd (f (proc_at S p)) \<noteq> None
            \<and> p_killed (f (proc_at S p)) = p_killed (proc_at S p)))"

definition kinv :: "nat \<Rightarrow> ('e, 'z) kstate_scheme \<Rightarrow> bool" where
  "kinv c S \<longleftrightarrow> (\<exists>m. at_ok c m S) \<and> hale S"

lemma kinv_idle: "kinv c S \<Longrightarrow> myproc c S = None \<Longrightarrow> idle_ok c S"
  using tabD(2) [of c _ S] at_ok_modes by (fastforce simp: kinv_def at_ok_def runs_def myproc_def)

lemma kinv_run:
  assumes "kinv c S" "myproc c S = Some p"
  obtains k where "run_ok c p k S"
proof -
  obtain m where m: "at_ok c m S" using assms(1) by (auto simp: kinv_def)
  then have "runs m = Some p" using tabD(2) [of c m S] assms(2) by (simp add: at_ok_def myproc_def)
  then obtain k where "m = Some (p, k)" by (auto simp: runs_def)
  then show thesis using that m at_ok_modes(2) by blast
qed

lemma kinv_step:
  assumes "hale S" "\<exists>m S'. r = Inr S' \<and> at_ok c m S' \<and> kept {} S S'"
  shows "\<exists>S'. r = Inr S' \<and> kinv c S'"
  using assms hale_kept by (auto simp: kinv_def)

lemma kinv_step_idle:
  assumes "hale S" "\<exists>S'. r = Inr S' \<and> idle_ok c S' \<and> kept {} S S'"
  shows "\<exists>S'. r = Inr S' \<and> kinv c S'"
  using kinv_step [of S r c] assms at_ok_modes(1) by metis

lemma E_self_ok:
  assumes inv: "kinv c S" and en: "enabled c (E_self f) S"
  shows "\<exists>S'. kexec ops c (E_self f) S = Inr S' \<and> kinv c S'"
proof -
  obtain p where p: "myproc c S = Some p" using en by (cases "myproc c S") (auto simp: enabled_def)
  have f: "p_state (f (proc_at S p)) = RUNNING" "fit (f (proc_at S p))" "p_cwd (f (proc_at S p)) \<noteq> None"
    "p_killed (f (proc_at S p)) = p_killed (proc_at S p)" using en p by (simp_all add: enabled_def)
  obtain k where run: "run_ok c p k S" using kinv_run [OF inv p] by blast
  then have pl: "placed c p k S" by (simp add: run_ok_def)
  note P = placedD [OF pl]
  let ?U = "upd_proc p f S"
  have "tinv (Some p) (Some p) ?U"
    using P f by (intro tinv_upd_proc [OF _ P(7)]) (auto simp: proc_ok_def live_def)
  then have "run_ok c p k ?U" using run by (simp add: run_ok_def placed_def procs_of_def)
  then have "at_ok c (Some (p, k)) ?U" using at_ok_modes(2) by blast
  moreover have "kept {} S ?U" using P f by (intro kept_upd) (auto simp: lost_def live_def)
  ultimately show ?thesis using inv hale_kept p by (auto simp: kinv_def kexec_def)
qed

lemma kexec_ok:
  assumes ops: "ops_return ops" and inv: "kinv c S" and en: "enabled c ev S"
  shows "\<exists>S'. kexec ops c ev S = Inr S' \<and> kinv c S'"
proof -
  obtain m where m: "at_ok c m S" and h: "hale S" using inv by (auto simp: kinv_def)
  have run: "\<exists>k. run_ok c p k S" if "myproc c S = Some p" for p using kinv_run [OF inv that] by blast
  note step = kinv_step [OF h, of "kexec ops c ev S" c] and stepi = kinv_step_idle [OF h, of "kexec ops c ev S" c]
  show ?thesis
  proof (cases ev)
    case E_turn
    then show ?thesis using step sched_turn_ok [OF ops kinv_idle [OF inv]] en by (simp add: kexec_def enabled_def)
  next
    case (E_tick tf)
    then show ?thesis using step trap_timer_ok [OF ops h m] en by (simp add: kexec_def enabled_def)
  next
    case E_yield
    then show ?thesis using stepi yield_ok run en by (fastforce simp: kexec_def enabled_def)
  next
    case (E_sleep ch lk)
    then show ?thesis using stepi sleep_ok run en by (fastforce simp: kexec_def enabled_def)
  next
    case E_wait
    then show ?thesis using step wait_ok [OF ops] run en by (fastforce simp: kexec_def enabled_def)
  next
    case E_exit
    then show ?thesis using stepi hale_exit [OF ops h] run en by (fastforce simp: kexec_def enabled_def)
  next
    case (E_wakeup ch)
    then show ?thesis using step wakeup_ok [OF m, of ch] by (auto simp: kexec_def)
  next
    case (E_kill pid)
    have "p_pid (proc_at S i) \<noteq> pid" if "k_initproc S = Some i" "i < NPROC" for i
      using E_kill en that by (simp add: enabled_def)
    then obtain r S' where "kill c pid S = Inr (r, S')" "at_ok c m S'" "kept {} S S'"
      using kill_ok [OF m, of pid] by blast
    then show ?thesis using step E_kill by (auto simp: kexec_def)
  next
    case (E_fork d)
    then obtain p k where r: "run_ok c p k S" using run en by (auto simp: enabled_def)
    obtain x S' where "priofork ops c d S = Inr (x, S')" "run_ok c p k S'" "kept {} S S'"
      using priofork_spec [OF ops r hale_cwd(2,1) [OF h r], of d] by blast
    then show ?thesis using step E_fork by (auto simp: kexec_def at_ok_modes(2) [symmetric])
  next
    case (E_grow n)
    then obtain p k where r: "run_ok c p k S" using run en by (auto simp: enabled_def)
    obtain x S' where "growproc ops c n S = Inr (x, S')" "run_ok c p k S'" "kept {} S S'"
      using growproc_spec [OF ops r, of n] by blast
    then show ?thesis using step E_grow by (auto simp: kexec_def at_ok_modes(2) [symmetric])
  qed (use E_self_ok [OF inv] en in blast)
qed

section \<open>Start-up\<close>

definition level_fresh :: level_queue where
  "level_fresh = \<lparr>lq_numproc = 0, lq_ticks_left = RSDL_LEVEL_QUANTUM, lq_proc = replicate NPROC None\<rparr>"

lemma level_fresh_facts: "lq_wf level_fresh" "lq_list level_fresh = []" "lq_ticks_left level_fresh = RSDL_LEVEL_QUANTUM"
  by (simp_all add: level_fresh_def lq_wf_def lq_list_def)

lemma pinit_level_eq:
  assumes ok: "cpu_ok c S" "0 < c_ncli (cpus S ! c)"
  shows "pinit_level c q S = Inr (S\<lparr>locks := (locks S)(LevelLock q := \<lparr>lk_locked = False, lk_name = ''level queue'', lk_cpu = None\<rparr>),
    k_levels := (k_levels S)[q := level_fresh]\<rparr>)"
proof -
  let ?I = "initlock (LevelLock q) ''level queue'' S" let ?E = "enter c (LevelLock q) ?I" let ?X = "upd_level q (\<lambda>_. level_fresh) ?E"
  have cp: "cpus ?I = cpus S" by (simp add: initlock_def)
  then have okI: "cpu_ok c ?I" "0 < c_ncli (cpus ?I ! c)" using ok by (simp_all add: cpu_ok_def)
  note N = nested_section [OF okI initlock_free]
  have "release c (LevelLock q) ?X = Inr (?X\<lparr>cpus := cpus ?I, locks := locks ?I\<rparr>)" by (rule N(2)) simp_all
  moreover have "?X\<lparr>cpus := cpus ?I, locks := locks ?I\<rparr> = S\<lparr>locks := (locks S)(LevelLock q := \<lparr>lk_locked = False, lk_name = ''level queue'', lk_cpu = None\<rparr>),
    k_levels := (k_levels S)[q := level_fresh]\<rparr>"
    by (simp add: enter_def initlock_def upd_level_def upd_lock_def pushcli_def upd_cpu_def Let_def)
  ultimately show ?thesis using N(1) by (simp add: pinit_level_def level_fresh_def)
qed

lemma pinit_levels_eq:
  assumes "cpu_ok c S" "0 < c_ncli (cpus S ! c)"
  shows "\<exists>lk lv. pinit_levels c qs S = Inr (S\<lparr>locks := lk, k_levels := lv\<rparr>) \<and> length lv = length (k_levels S)
    \<and> (\<forall>q < length lv. lv ! q = (if q \<in> set qs then level_fresh else level_at S q))
    \<and> lk PtableLock = locks S PtableLock \<and> (\<forall>l. lk l = locks S l \<or> \<not> lk_locked (lk l) \<and> lk_cpu (lk l) = None)"
  using assms
proof (induction qs arbitrary: S)
  case Nil
  show ?case by (rule exI [of _ "locks S"], rule exI [of _ "k_levels S"]) simp
next
  case (Cons q qs)
  let ?S1 = "S\<lparr>locks := (locks S)(LevelLock q := \<lparr>lk_locked = False, lk_name = ''level queue'', lk_cpu = None\<rparr>),
    k_levels := (k_levels S)[q := level_fresh]\<rparr>"
  have "cpu_ok c ?S1" "0 < c_ncli (cpus ?S1 ! c)" using Cons.prems by (simp_all add: cpu_ok_def)
  from Cons.IH [OF this] obtain lk lv where L: "pinit_levels c qs ?S1 = Inr (?S1\<lparr>locks := lk, k_levels := lv\<rparr>)" "length lv = length (k_levels ?S1)"
    "\<forall>q < length lv. lv ! q = (if q \<in> set qs then level_fresh else level_at ?S1 q)" "lk PtableLock = locks ?S1 PtableLock"
    "\<forall>l. lk l = locks ?S1 l \<or> \<not> lk_locked (lk l) \<and> lk_cpu (lk l) = None" by blast
  have "pinit_levels c (q # qs) S = Inr (S\<lparr>locks := lk, k_levels := lv\<rparr>)"
    using L(1) by (simp add: pinit_level_eq [OF Cons.prems])
  moreover have "\<forall>r < length lv. lv ! r = (if r \<in> set (q # qs) then level_fresh else level_at S r)"
    using L(2,3) by (auto simp: nth_list_update)
  moreover have "\<forall>l. lk l = locks S l \<or> \<not> lk_locked (lk l) \<and> lk_cpu (lk l) = None"
  proof
    fix l
    show "lk l = locks S l \<or> \<not> lk_locked (lk l) \<and> lk_cpu (lk l) = None" using spec [OF L(5), of l] by (cases "l = LevelLock q") auto
  qed
  moreover have "length lv = length (k_levels S)" "lk PtableLock = locks S PtableLock" using L(2,4) by simp_all
  ultimately show ?case by blast
qed

lemma pinit_ok:
  assumes q: "quiet c S" and len: "length (k_levels S) = 2 * RSDL_LEVELS" "length (k_procs S) = NPROC"
    and dead: "\<forall>i < NPROC. \<not> live (proc_at S i)" and pg: "KERNBASE \<le> k_kpgdir S"
  shows "\<exists>S'. pinit c S = Inr S' \<and> quiet c S' \<and> tinv None None S' \<and> cur c S' = cur c S \<and> k_procs S' = k_procs S \<and> k_initproc S' = k_initproc S
    \<and> k_env S' = k_env S \<and> k_active S' = 0 \<and> (\<forall>r < 2 * RSDL_LEVELS. level_at S' r = level_fresh)"
proof -
  let ?I = "initlock PtableLock ''ptable'' S" let ?E = "enter c PtableLock ?I"
  have qI: "quiet c ?I" using q by (auto simp: quiet_def initlock_def cpu_ok_def lock_free_def)
  note A = acquire_quiet [OF qI, of PtableLock]
  have cr: "crit c ?E" using A(2) by simp
  then have okE: "cpu_ok c ?E" "0 < c_ncli (cpus ?E ! c)" by (simp_all add: crit_def)
  obtain lk lv where L: "pinit_levels c [0..<2 * RSDL_LEVELS] ?E = Inr (?E\<lparr>locks := lk, k_levels := lv\<rparr>)" "length lv = length (k_levels ?E)"
    "\<forall>q < length lv. lv ! q = (if q \<in> set [0..<2 * RSDL_LEVELS] then level_fresh else level_at ?E q)" "lk PtableLock = locks ?E PtableLock"
    "\<forall>l. lk l = locks ?E l \<or> \<not> lk_locked (lk l) \<and> lk_cpu (lk l) = None"
    using pinit_levels_eq [OF okE] by blast
  let ?X = "?E\<lparr>locks := lk, k_levels := lv\<rparr>\<lparr>k_active := 0, k_expired := RSDL_LEVELS\<rparr>"
  have kI: "k_procs ?I = k_procs S" "k_levels ?I = k_levels S" "k_kpgdir ?I = k_kpgdir S" "k_initproc ?I = k_initproc S" "cur c ?I = cur c S" "k_env ?I = k_env S"
    by (simp_all add: initlock_def cur_def)
  have lv: "length lv = 2 * RSDL_LEVELS" "\<And>q. q < 2 * RSDL_LEVELS \<Longrightarrow> lv ! q = level_fresh" using L(2,3) len kI by simp_all
  have crX: "crit c ?X"
    using cr L(4,5) by (auto simp: crit_def cpu_ok_def lock_held_def lock_free_def; metis)
  have "map lq_list lv = map (\<lambda>_. []) lv"
    using lv by (intro nth_equalityI) (simp_all add: level_fresh_facts)
  then have qd: "queued ?X = []" by (simp add: queued_def)
  have "table_wf ?X" using lv len kI by (simp add: table_wf_def level_fresh_facts)
  then have "lv_inv ?X" using qd by (simp add: lv_inv_def)
  moreover have "expired_fresh ?X" using lv by (simp add: expired_fresh_def level_fresh_facts)
  ultimately have tX: "tinv None None ?X"
    using qd pg dead kI by (auto simp: tinv_def proc_ok_def live_def)
  note R = release_crit [OF crX]
  have "pinit c S = Inr (depart c PtableLock ?X)"
    using A(1) L(1) R(1) by (simp add: pinit_def)
  moreover have "cur c ?X = cur c S" using A(3) kI by (simp add: cur_def)
  moreover have "\<forall>r < 2 * RSDL_LEVELS. level_at (depart c PtableLock ?X) r = level_fresh" using lv by simp
  ultimately show ?thesis using R(2,3) tX kI by simp
qed

text \<open>The parts of \<open>main()\<close> that set up processes, on the boot CPU, with kernel page directory \<open>pg\<close>.\<close>

definition boot :: "'e kops \<Rightarrow> 8 word list \<Rightarrow> 32 word \<Rightarrow> 'e \<Rightarrow> 'e kstate result" where
  "boot ops ids pg e = bindE (pinit 0 ((kstate_zero ids e)\<lparr>k_kpgdir := pg\<rparr>)) (userinit ops 0)"

lemma userinit_spec:
  assumes ok: "at_ok c None S" and ni: "k_initproc S = None"
    and fresh: "\<forall>i < NPROC. \<not> p_killed (proc_at S i) \<and> \<not> lost (proc_at S i)" and u: "find_unused S = Some p"
    and o: "op_kalloc ops (k_env S) = (stack, e0)" "stack \<noteq> 0" "op_setupkvm ops e0 = Inr (pg, e1)" "KERNBASE \<le> pg"
      "op_inituvm ops pg e1 = Inr e2" "op_namei ops ''/'' e2 = Inr (Some root, e3)"
  shows "\<exists>S'. userinit ops c S = Inr S' \<and> at_ok c None S' \<and> hale S' \<and> k_initproc S' = Some p
    \<and> p_state (proc_at S' p) = RUNNABLE \<and> p_context (proc_at S' p) = Ctx_forkret \<and> p_ticks_left (proc_at S' p) = RSDL_PROC_QUANTUM
    \<and> (\<forall>i. i \<noteq> p \<longrightarrow> proc_at S' i = proc_at S i) \<and> k_active S' = k_active S
    \<and> (\<forall>r < 2 * RSDL_LEVELS. lq_ticks_left (level_at S' r) = lq_ticks_left (level_at S r)
         \<and> procs_of S' r = procs_of S r @ (if r = tgt S 0 0 then [p] else []))"
proof -
  obtain po S1 where S1: "allocproc ops c S = Inr (po, S1)" "at_ok c None S1" and po: "allocated ops S S1 po"
    and l1: "k_levels S1 = k_levels S" "k_active S1 = k_active S" "k_expired S1 = k_expired S"
    using allocproc_ok [OF ok, of ops] ni by auto
  have p: "po = Some p" using po u o(1,2) by (cases po) (auto simp: allocated_def)
  note A = allocatedD [OF po [unfolded p]]
  have P: "p < NPROC" "p_state (proc_at S1 p) = EMBRYO" "p_kstack (proc_at S1 p) \<noteq> 0" "p_context (proc_at S1 p) = Ctx_forkret"
    "p_ticks_left (proc_at S1 p) = RSDL_PROC_QUANTUM" "p_default_level (proc_at S1 p) = RSDL_STARTING_LEVEL"
    "\<not> p_killed (proc_at S1 p)" "k_env S1 = e0" using A fresh o(1,2) by auto
  define f :: "proc \<Rightarrow> proc" where "f = (\<lambda>x. x\<lparr>p_pgdir := pg, p_sz := 4096,
          p_tf := tf_zero\<lparr>tf_cs := 0x1b, tf_ds := 0x23, tf_es := 0x23, tf_ss := 0x23,
            tf_eflags := 0x200, tf_esp := 4096, tf_eip := 0\<rparr>, p_name := ''initcode'', p_cwd := Some root\<rparr>)"
  let ?S2 = "set_env e3 (S1\<lparr>k_initproc := Some p\<rparr>)"
  define S3 where "S3 = upd_proc p f ?S2"
  have pg0: "pg \<noteq> 0" using o(4) by (auto simp: KERNBASE_def)
  have ui: "userinit ops c S = make_runnable c p (\<lambda>x. x) S3"
    using S1(1) p o P(8) pg0 by (simp add: userinit_def Let_def f_def S3_def)
  have len: "length (k_procs S1) = NPROC" using tabD(3) [of c None S1] S1(2) by (simp add: at_ok_def)
  have fp: "proc_at S3 p = f (proc_at S1 p)" "\<And>i. i \<noteq> p \<Longrightarrow> proc_at S3 i = proc_at S i" "length (k_procs S3) = NPROC" "k_initproc S3 = Some p"
    using P(1) len A(6) by (simp_all add: S3_def)
  have l3: "k_levels S3 = k_levels S" "k_active S3 = k_active S" "k_expired S3 = k_expired S" by (simp_all add: S3_def l1)
  have a2: "at_ok c None ?S2"
    using S1(2) tab_cong [of ?S2 S1 c None] by (simp add: at_ok_def cur_def)
  have "tab c None S3"
    unfolding S3_def using a2 P by (intro tab_dead) (simp_all add: at_ok_def live_def f_def)
  then have a3: "at_ok c None S3" using a2 by (simp add: at_ok_def S3_def)
  have te: "tgt S3 0 0 = tgt S 0 0" by (rule tgt_cong) (simp_all add: l3)
  have pr: "procs_of S3 r = procs_of S r" for r by (simp add: procs_of_def l3)
  obtain S' where S': "make_runnable c p (\<lambda>x. x) S3 = Inr S'" "at_ok c None S'" "k_initproc S' = k_initproc S3"
      "k_procs S' = (k_procs S3)[p := (proc_at S3 p)\<lparr>p_state := RUNNABLE\<rparr>]" "k_active S' = k_active S3"
      "\<forall>r < 2 * RSDL_LEVELS. lq_ticks_left (level_at S' r) = lq_ticks_left (level_at S3 r)"
      "\<forall>r < 2 * RSDL_LEVELS. procs_of S' r = procs_of S3 r @ (if r = tgt S3 0 0 then [p] else [])"
    using make_runnable_ok [OF a3 P(1), of "\<lambda>x. x"] fp P o(4) by (auto simp: f_def fit_def rsdl_defs Let_def)
  have p': "proc_at S' p = (f (proc_at S1 p))\<lparr>p_state := RUNNABLE\<rparr>" "\<And>i. i \<noteq> p \<Longrightarrow> proc_at S' i = proc_at S i"
    using S'(4) fp P(1) by simp_all
  have "\<not> lost (proc_at S' i)" if "i < NPROC" for i
    using p' fresh that by (cases "i = p") (simp_all add: lost_def f_def)
  moreover have "live (proc_at S' p)" "\<not> p_killed (proc_at S' p)" using p'(1) P(7) by (simp_all add: live_def f_def)
  ultimately have "hale S'" using S'(3) P(1) fp(4) by (simp add: hale_def)
  moreover have "p_context (proc_at S' p) = Ctx_forkret" "p_state (proc_at S' p) = RUNNABLE" "p_ticks_left (proc_at S' p) = RSDL_PROC_QUANTUM"
    using p'(1) P(4,5) by (simp_all add: f_def)
  ultimately show ?thesis using S' ui p'(2) fp(4) by (simp add: l3 te pr)
qed

lemma userinit_ok:
  assumes ops: "ops_sane ops" and ok: "at_ok c None S" and ni: "k_initproc S = None"
    and fresh: "\<forall>i < NPROC. \<not> p_killed (proc_at S i) \<and> \<not> lost (proc_at S i)" and r: "userinit ops c S = Inr S'"
  shows "kinv c S'"
proof -
  obtain po S1 where S1: "allocproc ops c S = Inr (po, S1)" and po: "allocated ops S S1 po"
    using allocproc_ok [OF ok, of ops] ni by auto
  obtain p where p: "po = Some p" using r S1 by (cases po) (simp_all add: userinit_def nullderef_def panic_def)
  note A = allocatedD [OF po [unfolded p]]
  obtain pg e1 where o1: "op_setupkvm ops (k_env S1) = Inr (pg, e1)"
    using r S1 p by (cases "op_setupkvm ops (k_env S1)") (auto simp: userinit_def)
  have pg0: "pg \<noteq> 0" using r S1 p o1 by (auto simp: userinit_def panic_def)
  obtain e2 where o2: "op_inituvm ops pg e1 = Inr e2"
    using r S1 p o1 pg0 by (cases "op_inituvm ops pg e1") (auto simp: userinit_def)
  obtain root e3 where o3: "op_namei ops ''/'' e2 = Inr (root, e3)"
    using r S1 p o1 pg0 o2 by (cases "op_namei ops ''/'' e2") (auto simp: userinit_def)
  have pg: "KERNBASE \<le> pg" "root \<noteq> None" using ops_saneD(1) [OF ops o1] pg0 ops_saneD(3) [OF ops o3] by simp_all
  then obtain root' where rt: "root = Some root'" by blast
  have k: "op_kalloc ops (k_env S) = (fst (op_kalloc ops (k_env S)), k_env S1)" using A(7) by simp
  obtain S'' where "userinit ops c S = Inr S''" "at_ok c None S''" "hale S''"
    using userinit_spec [OF ok ni fresh A(1) k A(4) o1 pg(1) o2 o3 [unfolded rt]] by blast
  then show ?thesis using r by (auto simp: kinv_def)
qed

lemma pinit_boot:
  assumes "ids \<noteq> []" "KERNBASE \<le> pg"
  obtains S where "pinit 0 ((kstate_zero ids e)\<lparr>k_kpgdir := pg\<rparr>) = Inr S" "at_ok 0 None S" "k_initproc S = None"
    "k_procs S = replicate NPROC proc_zero" "k_env S = e" "k_active S = 0" "\<forall>r < 2 * RSDL_LEVELS. level_at S r = level_fresh"
proof -
  let ?Z = "(kstate_zero ids e)\<lparr>k_kpgdir := pg\<rparr>"
  have q: "quiet 0 ?Z" using assms(1) by (auto simp: quiet_def kstate_zero_def cpu_ok_def lock_free_def)
  have len: "length (k_levels ?Z) = 2 * RSDL_LEVELS" "length (k_procs ?Z) = NPROC" by (simp_all add: kstate_zero_def)
  have "\<forall>i < NPROC. \<not> live (proc_at ?Z i)" by (simp add: kstate_zero_def proc_zero_def live_def)
  from pinit_ok [OF q len this] obtain S1 where S1: "pinit 0 ?Z = Inr S1" "quiet 0 S1" "tinv None None S1" "cur 0 S1 = cur 0 ?Z"
      "k_procs S1 = k_procs ?Z" "k_initproc S1 = k_initproc ?Z" "k_env S1 = k_env ?Z" "k_active S1 = 0"
      "\<forall>r < 2 * RSDL_LEVELS. level_at S1 r = level_fresh" using assms(2) by auto
  have "cur 0 ?Z = (None, None, None)" using assms(1) by (cases ids) (simp_all add: cur_def kstate_zero_def)
  then have "at_ok 0 None S1" using S1 by (simp add: at_ok_def tab_def)
  with S1 that show thesis by (simp add: kstate_zero_def)
qed

lemma boot_ok:
  assumes ops: "ops_sane ops" and ids: "ids \<noteq> []" and pg: "KERNBASE \<le> pg" and b: "boot ops ids pg e = Inr S"
  shows "kinv 0 S"
proof -
  obtain S1 where S1: "pinit 0 ((kstate_zero ids e)\<lparr>k_kpgdir := pg\<rparr>) = Inr S1" "at_ok 0 None S1" "k_initproc S1 = None"
    "k_procs S1 = replicate NPROC proc_zero" by (rule pinit_boot [OF ids pg])
  moreover have "\<forall>i < NPROC. \<not> p_killed (proc_at S1 i) \<and> \<not> lost (proc_at S1 i)"
    using S1(4) by (simp add: proc_zero_def lost_def live_def)
  moreover have "userinit ops 0 S1 = Inr S" using b S1(1) by (simp add: boot_def)
  ultimately show ?thesis by (intro userinit_ok [OF ops])
qed

text \<open>The state in which the first process is ready: alone, in the first level, with full quanta.\<close>

lemma boot_returns:
  assumes ids: "ids \<noteq> []" and pg: "KERNBASE \<le> pg"
    and o: "op_kalloc ops e = (stack, e0)" "stack \<noteq> 0" "op_setupkvm ops e0 = Inr (ipg, e1)" "KERNBASE \<le> ipg"
      "op_inituvm ops ipg e1 = Inr e2" "op_namei ops ''/'' e2 = Inr (Some root, e3)"
  shows "\<exists>S. boot ops ids pg e = Inr S \<and> at_ok 0 None S \<and> hale S \<and> k_initproc S = Some 0 \<and> k_active S = 0
    \<and> p_state (proc_at S 0) = RUNNABLE \<and> p_context (proc_at S 0) = Ctx_forkret \<and> p_ticks_left (proc_at S 0) = RSDL_PROC_QUANTUM
    \<and> (\<forall>i. i \<noteq> 0 \<longrightarrow> i < NPROC \<longrightarrow> proc_at S i = proc_zero)
    \<and> (\<forall>r < 2 * RSDL_LEVELS. lq_ticks_left (level_at S r) = RSDL_LEVEL_QUANTUM \<and> procs_of S r = (if r = 0 then [0] else []))"
proof -
  obtain S1 where S1: "pinit 0 ((kstate_zero ids e)\<lparr>k_kpgdir := pg\<rparr>) = Inr S1" "at_ok 0 None S1" "k_initproc S1 = None"
    "k_procs S1 = replicate NPROC proc_zero" "k_env S1 = e" "k_active S1 = 0" and lf: "\<forall>r < 2 * RSDL_LEVELS. level_at S1 r = level_fresh"
    by (rule pinit_boot [OF ids pg])
  have fresh: "\<forall>i < NPROC. \<not> p_killed (proc_at S1 i) \<and> \<not> lost (proc_at S1 i)"
    using S1(4) by (simp add: proc_zero_def lost_def live_def)
  have fu: "find_unused S1 = Some 0"
    using S1(4) by (simp add: find_unused_def proc_zero_def upt_conv_Cons)
  have t: "tgt S1 0 0 = 0" using tgt_here [of 0 S1 0] lf S1(6) by (simp add: level_fresh_facts)
  have k: "op_kalloc ops (k_env S1) = (stack, e0)" using o(1) S1(5) by simp
  have pr: "procs_of S1 r = []" if "r < 2 * RSDL_LEVELS" for r using lf that by (simp add: procs_of_def level_fresh_facts)
  from userinit_spec [OF S1(2,3) fresh fu k o(2-6)] show ?thesis
    using S1(1,4,6) lf by (auto simp: boot_def t pr level_fresh_facts)
qed

section \<open>Reachable states\<close>

inductive kreach :: "'e kops \<Rightarrow> 'e kstate \<Rightarrow> bool" for ops where
  kr_boot: "ids \<noteq> [] \<Longrightarrow> KERNBASE \<le> pg \<Longrightarrow> boot ops ids pg e = Inr S \<Longrightarrow> kreach ops S"
| kr_step: "kreach ops S \<Longrightarrow> enabled 0 ev S \<Longrightarrow> kexec ops 0 ev S = Inr S' \<Longrightarrow> kreach ops S'"

lemma wait_turn_fail: "fails E r r' \<Longrightarrow> fails E (wait_turn ops c r) (wait_turn ops' c r')"
  unfolding wait_turn_def by (erule fails_bind) simp

lemma kexec_fail:
  assumes "enabled c ev S"
  shows "fails (op_error ops) (kexec ops c ev S) (kexec (skip_errors ops) c ev S)"
proof (cases ev)
  case E_turn
  have "fails (op_error ops) (sched_turn ops c S) (sched_turn (skip_errors ops) c S)"
    unfolding sched_turn_def
    by (intro fails_struct fails_bind [OF resume_fail]) (auto split: resumed.split intro!: wait_turn_fail wait_body_fail)
  then show ?thesis using E_turn by (simp add: kexec_def)
next
  case (E_tick tf)
  then have "tf_trapno tf \<noteq> T_SYSCALL" using assms by (simp add: enabled_def trap_defs)
  then show ?thesis using E_tick by (simp add: kexec_def settle_def fails_bind [OF trap_fail])
qed (simp_all add: kexec_def wait_turn_fail wait_fail fails_bind [OF exit_fail] fails_bind [OF priofork_fail] fails_bind [OF growproc_fail])

text \<open>
  A step from a state with the invariant ends in such a state, or with an error that a
  lower part raised: the process code itself never panics, dereferences NULL, finds a lock
  taken or loops for ever.
\<close>

lemma kexec_safe:
  assumes "ops_sane ops" "kinv c S" "enabled c ev S"
  shows "(\<exists>S'. kexec ops c ev S = Inr S' \<and> kinv c S') \<or> (\<exists>err. kexec ops c ev S = Inl err \<and> op_error ops err)"
  using kexec_ok [OF skip_errors_return [OF assms(1)] assms(2,3)] kexec_fail [OF assms(3), of ops] by (auto simp: fails_def)

lemma kreach_kinv:
  assumes "kreach ops S" "ops_sane ops"
  shows "kinv 0 S"
  using assms
proof (induction rule: kreach.induct)
  case (kr_boot ids pg e S)
  then show ?case by (intro boot_ok [of ops ids pg e S])
next
  case (kr_step S ev S')
  have "kinv 0 S" using kr_step by simp
  from kexec_safe [OF kr_step.prems this kr_step.hyps(2)] kr_step.hyps(3) show ?case by auto
qed

end
