(* ===== verification/Rsdl.thy ===== *)
theory Rsdl
  imports KRun
begin

text \<open>
  The scheduling policy, stated of the handlers as they run: who is dispatched, where a
  process goes when its quantum or its level's quantum is used up, what the exchange of
  the sets does, and that a ready process is dispatched. The states the statements are
  tried on come from a small instance of the parts below.
\<close>

section \<open>An instance of the parts below\<close>

text \<open>
  Page allocation that always succeeds and counts its calls, and file operations without
  effect.
\<close>

definition plain_ops :: "nat kops" where
  "plain_ops = \<lparr>op_kalloc = (\<lambda>n. (KERNBASE, n + 1)), op_kfree = (\<lambda>_ e. Inr e),
     op_setupkvm = (\<lambda>n. Inr (KERNBASE, n + 1)),
     op_inituvm = (\<lambda>_ e. Inr e), op_allocuvm = (\<lambda>_ _ n e. Inr (n, e)), op_deallocuvm = (\<lambda>_ _ n e. Inr (n, e)),
     op_copyuvm = (\<lambda>_ _ n. Inr (KERNBASE, n + 1)), op_freevm = (\<lambda>_ e. Inr e),
     op_filedup = (\<lambda>_ e. Inr e), op_fileclose = (\<lambda>_ e. Inr e), op_idup = (\<lambda>_ e. Inr e), op_iput = (\<lambda>_ e. Inr e),
     op_begin_op = Inr, op_end_op = Inr, op_namei = (\<lambda>_ e. Inr (Some 0, e)), op_fsinit = Inr\<rparr>"

lemma plain_ops_ok: "ops_return plain_ops" "ops_sane plain_ops"
  by (simp_all add: ops_return_def ops_sane_def total_def plain_ops_def KERNBASE_def)

lemma plain_boot:
  obtains S where "boot plain_ops [0] KERNBASE 0 = Inr S" "kreach plain_ops S" "kinv 0 S" "idle_ok 0 S" "k_initproc S = Some 0" "k_active S = 0"
    "p_state (proc_at S 0) = RUNNABLE" "p_context (proc_at S 0) = Ctx_forkret" "p_ticks_left (proc_at S 0) = RSDL_PROC_QUANTUM"
    "\<And>i. i \<noteq> 0 \<Longrightarrow> i < NPROC \<Longrightarrow> proc_at S i = proc_zero"
    "\<And>r. r < 2 * RSDL_LEVELS \<Longrightarrow> lq_ticks_left (level_at S r) = RSDL_LEVEL_QUANTUM \<and> procs_of S r = (if r = 0 then [0] else [])"
proof -
  obtain S where S: "boot plain_ops [0] KERNBASE 0 = Inr S" "at_ok 0 None S" "hale S" "k_initproc S = Some 0" "k_active S = 0"
    "p_state (proc_at S 0) = RUNNABLE" "p_context (proc_at S 0) = Ctx_forkret" "p_ticks_left (proc_at S 0) = RSDL_PROC_QUANTUM"
    "\<forall>i. i \<noteq> 0 \<longrightarrow> i < NPROC \<longrightarrow> proc_at S i = proc_zero"
    "\<forall>r < 2 * RSDL_LEVELS. lq_ticks_left (level_at S r) = RSDL_LEVEL_QUANTUM \<and> procs_of S r = (if r = 0 then [0] else [])"
    using boot_returns [of "[0]" KERNBASE plain_ops 0 KERNBASE 1 KERNBASE 2 2 0 2] by (auto simp: plain_ops_def KERNBASE_def)
  have "kreach plain_ops S" by (rule kr_boot [OF _ _ S(1)]) simp_all
  moreover have "kinv 0 S" using S by (auto simp: kinv_def)
  moreover have "idle_ok 0 S" using S(2) by (simp add: at_ok_modes)
  ultimately show thesis using that S(1,4-8) spec [OF S(9)] spec [OF S(10)] by blast
qed

section \<open>Where the process that ran goes\<close>

lemma remove1_map_Some: "remove1 (Some x) (map Some xs) = map Some (remove1 x xs)"
  by (induction xs) simp_all

lemma relevel_procs:
  assumes inv: "lv_inv S" and q: "q < 2 * RSDL_LEVELS" "t < 2 * RSDL_LEVELS" "r < 2 * RSDL_LEVELS" and mem: "p \<in> set (procs_of S q)"
  shows "procs_of (upd_level t (lq_push (Some p)) (upd_level q (lq_remove (Some p)) S)) r
    = (if r = q then remove1 p (procs_of S q) else procs_of S r) @ (if r = t then [p] else [])"
proof -
  note D = lv_invD [OF inv]
  have l: "lq_list (level_at S q) = map Some (procs_of S q)" by (rule procs_of_list [OF inv q(1)])
  then have m: "Some p \<in> set (lq_list (level_at S q))" using mem by simp
  let ?H = "upd_level q (lq_remove (Some p)) S"
  note H = lv_inv_remove [OF inv q(1) m]
  have pq: "Some p \<in> set (queued S)" using m q D(2) by (auto simp: in_queued)
  then have pn: "p < NPROC" using D(5) by auto
  have out: "Some p \<notin> set (queued ?H)" using H(2) by simp
  have hr: "lq_list (level_at ?H r') = (if r' = q then map Some (remove1 p (procs_of S q)) else lq_list (level_at S r'))"
    if "r' < 2 * RSDL_LEVELS" for r'
    using that D(2) D(3) [OF q(1)] l q(1) by (simp add: remove1_map_Some)
  show ?thesis
  proof (cases "r = t")
    case True
    have "lq_list (level_at (upd_level t (lq_push (Some p)) ?H) r) = lq_list (level_at ?H r) @ [Some p]"
      using True lv_invD(2,3) [OF H(1)] q lv_room [OF H(1) q(2) pn out] by (simp add: lq_push_list)
    then show ?thesis using True hr [OF q(3)] by (simp add: procs_of_def comp_def)
  next
    case False
    then show ?thesis using hr [OF q(3)] by (simp add: procs_of_def comp_def)
  qed
qed

text \<open>A target depends on the levels from \<open>a\<close> on only.\<close>

lemma tgt_cong_from:
  assumes "k_active S = k_active T" "k_expired S = k_expired T"
    "\<And>j. a \<le> j \<Longrightarrow> j < RSDL_LEVELS \<Longrightarrow> lq_ticks_left (level_at S (k_active S + j)) = lq_ticks_left (level_at T (k_active S + j))"
  shows "tgt S a d = tgt T a d"
proof -
  have "List.find (\<lambda>k. 0 < lq_ticks_left (level_at S (k_active S + k))) [a..<RSDL_LEVELS]
      = List.find (\<lambda>k. 0 < lq_ticks_left (level_at T (k_active T + k))) [a..<RSDL_LEVELS]"
    using assms by (intro find_cong) auto
  then show ?thesis using assms(1,2) by (simp add: tgt_def split: option.split)
qed

lemma step_down_cong:
  assumes "k_procs S = k_procs T" "k_levels S = k_levels T" "k_active S = k_active T" "k_expired S = k_expired T"
  shows "step_down k S = step_down k T"
proof
  fix x show "step_down k S x = step_down k T x"
    unfolding step_down_def assms(1) by (rule tgt_cong) (simp_all add: assms)
qed

text \<open>The end of a turn in a level that has quantum left, and in one that has not.\<close>

lemma after_alive:
  assumes cr: "crit c S" and inv: "tinv None (Some p) S" and k: "k < RSDL_LEVELS" and mem: "p \<in> set (procs_of S (k_active S + k))"
    and f: "c_frame (cpus S ! c) = Some (p, k_active S + k, k)" and st: "p_state (proc_at S p) \<noteq> ZOMBIE"
    and ticks: "0 < lq_ticks_left (level_at S (k_active S + k))"
  shows "\<exists>S'. scheduler_after c S = Inr S' \<and> k_active S' = k_active S \<and> k_procs S' = k_procs (alive_refill S p)
    \<and> (\<forall>r < 2 * RSDL_LEVELS. procs_of S' r = (if r = k_active S + k then remove1 p (procs_of S r) else procs_of S r)
          @ (if r = alive_tgt k S p then [p] else []))"
proof -
  note T = tinvD [OF inv]
  let ?q = "k_active S + k"
  have q: "?q < 2 * RSDL_LEVELS" by (rule lv_invD(6) [OF T(1) k])
  obtain pa where pa: "V2P (k_kpgdir S) = Inr pa" using V2P_ok [OF T(3)] by blast
  let ?S1 = "upd_cpu c (\<lambda>x. x\<lparr>c_cr3 := pa\<rparr>) S"
  have cr1: "crit c ?S1" using cr by (rule crit_upd_cpu) simp_all
  have m1: "Some p \<in> set (lq_list (level_at ?S1 ?q))" using procs_of_list [OF T(1) q] mem by simp
  have d: "default_ok S p" using tinv_queued_fit(4) [OF inv, of p] m1 q lv_invD(2) [OF T(1)] by (auto simp: in_queued)
  have t: "alive_tgt k S p < 2 * RSDL_LEVELS" using step_down_facts(1) [OF T(1,2) k d] q by (simp add: alive_tgt_def)
  have te: "alive_tgt k ?S1 p = alive_tgt k S p" 
    using step_down_cong [of ?S1 S k] by (simp add: alive_tgt_def)
  let ?U = "upd_level (alive_tgt k S p) (lq_push (Some p)) (upd_level ?q (lq_remove (Some p)) (alive_refill ?S1 p))"
  have al: "level_alive c p ?q k ?S1 = Inr ?U"
    using level_alive_spec [of ?S1 k c p] T(1,2) k crit_level_ctx [OF cr1] ticks m1 st d te
    by (simp add: lv_inv_def table_wf_def queued_def expired_fresh_def default_ok_def)
  let ?S3 = "upd_cpu c (\<lambda>x. x\<lparr>c_proc := None, c_queue := None, c_frame := None\<rparr>) ?U"
  have "cpus ?U = cpus ?S1" "locks ?U = locks ?S1" by (simp_all add: alive_refill_def refill_def)
  then have "crit c ?U" using crit_cong cr1 by blast
  then have cr3: "crit c ?S3" by (rule crit_upd_cpu) simp_all
  have sa: "scheduler_after c S = Inr (depart c PtableLock ?S3)"
    using f pa al ticks release_crit(1) [OF cr3] by (simp add: scheduler_after_def switchkvm_def)
  have pR: "procs_of (alive_refill ?S1 p) r = procs_of S r" "procs_of (depart c PtableLock ?S3) r = procs_of ?U r" for r
    by (simp_all add: procs_of_def)
  have "lv_inv ?S1" using T(1) by (simp add: lv_inv_def table_wf_def queued_def)
  then have lR: "lv_inv (alive_refill ?S1 p)" by simp
  have "procs_of (depart c PtableLock ?S3) r = (if r = ?q then remove1 p (procs_of S r) else procs_of S r)
          @ (if r = alive_tgt k S p then [p] else [])" if r: "r < 2 * RSDL_LEVELS" for r
    using relevel_procs [OF lR q t r, of p] mem by (simp add: pR)
  moreover have "k_procs (depart c PtableLock ?S3) = k_procs (alive_refill S p)"
    by (simp add: alive_refill_def refill_def upd_proc_def)
  ultimately show ?thesis using sa by simp
qed

lemma after_depleted:
  assumes cr: "crit c S" and inv: "tinv None (Some p) S" and k: "k < RSDL_LEVELS" and mem: "p \<in> set (procs_of S (k_active S + k))"
    and f: "c_frame (cpus S ! c) = Some (p, k_active S + k, k)" and st: "p_state (proc_at S p) \<noteq> ZOMBIE"
    and ticks: "lq_ticks_left (level_at S (k_active S + k)) \<le> 0"
  shows "\<exists>S'. scheduler_after c S = Inr S' \<and> k_active S' = k_active S
    \<and> (\<forall>i < NPROC. proc_at S' i = (if i \<in> set (procs_of S (k_active S + k)) then (proc_at S i)\<lparr>p_ticks_left := RSDL_PROC_QUANTUM\<rparr> else proc_at S i))
    \<and> (\<forall>r < 2 * RSDL_LEVELS. procs_of S' r = (if r = k_active S + k then [] else procs_of S r
          @ filter (\<lambda>x. step_down k S x = r) (remove1 p (procs_of S (k_active S + k)) @ [p])))"
proof -
  note T = tinvD [OF inv]
  let ?q = "k_active S + k" let ?xs = "procs_of S ?q"
  have q: "?q < 2 * RSDL_LEVELS" by (rule lv_invD(6) [OF T(1) k])
  obtain pa where pa: "V2P (k_kpgdir S) = Inr pa" using V2P_ok [OF T(3)] by blast
  let ?S1 = "upd_cpu c (\<lambda>x. x\<lparr>c_cr3 := pa\<rparr>) S"
  have cr1: "crit c ?S1" using cr by (rule crit_upd_cpu) simp_all
  have i1: "tinv None (Some p) ?S1" using inv by simp
  note T1 = tinvD [OF i1]
  have l: "lq_list (level_at ?S1 (k_active ?S1 + k)) = map Some ?xs" using procs_of_list [OF T(1) q] by simp
  have d: "\<forall>x \<in> set ?xs. default_ok ?S1 x"
    using tinv_queued_fit(4) [OF inv] in_queued_procs [OF T(1)] q by (fastforce simp: default_ok_def)
  have sd: "step_down k ?S1 = step_down k S" by (rule step_down_cong) simp_all
  obtain S2 where S2: "level_depleted c p ?q k ?S1 = Inr S2" "moved ?S1 S2 ?q (remove1 p ?xs @ [p]) (\<lambda>_. True) (step_down k S)"
    using level_depleted_spec [OF T1(1,2) k crit_level_ctx [OF cr1] l d] st mem sd by auto
  note M = movedD [OF S2(2)] and F = moved_frame [OF S2(2)]
  let ?S3 = "upd_cpu c (\<lambda>x. x\<lparr>c_proc := None, c_queue := None, c_frame := None\<rparr>) S2"
  have "crit c S2" using crit_cong [of S2 ?S1] F(3,4) cr1 by simp
  then have cr3: "crit c ?S3" by (rule crit_upd_cpu) simp_all
  have sa: "scheduler_after c S = Inr (depart c PtableLock ?S3)"
    using f pa S2(1) ticks release_crit(1) [OF cr3] by (simp add: scheduler_after_def switchkvm_def)
  have "mset (remove1 p ?xs @ [p]) = mset ?xs" using mem by simp
  then have "set (remove1 p ?xs @ [p]) = set ?xs" by (rule mset_eq_setD)
  then have "\<forall>i < NPROC. proc_at (depart c PtableLock ?S3) i = (if i \<in> set ?xs then (proc_at S i)\<lparr>p_ticks_left := RSDL_PROC_QUANTUM\<rparr> else proc_at S i)"
    using M(4) by simp
  moreover have "procs_of (depart c PtableLock ?S3) r = (if r = ?q then [] else procs_of S r
          @ filter (\<lambda>x. step_down k S x = r) (remove1 p ?xs @ [p]))" if r: "r < 2 * RSDL_LEVELS" for r
    using M(6) [OF r] M(7) [OF q] by (auto simp: procs_of_def comp_def)
  ultimately show ?thesis using sa F(1) by simp
qed

text \<open>
  A process that gives up the CPU. What it is worth is fixed by the two counters at that
  moment: while its level has quantum it goes behind the others of the level, or down if
  its own quantum is used up.
\<close>

lemma give_up_alive:
  assumes cr: "crit c S" and pl: "placed c p k S" and caller: "caller \<noteq> From_exit"
    and f: "p_state (f (proc_at S p)) \<in> {RUNNABLE, SLEEPING}" "fit (f (proc_at S p))"
      "p_ticks_left (f (proc_at S p)) = p_ticks_left (proc_at S p)" "p_default_level (f (proc_at S p)) = p_default_level (proc_at S p)"
    and ticks: "0 < lq_ticks_left (level_at S (k_active S + k))"
  shows "\<exists>S'. bindE (sched c caller (upd_proc p f S)) (scheduler_after c) = Inr S' \<and> k_active S' = k_active S
    \<and> p_state (proc_at S' p) = p_state (f (proc_at S p)) \<and> p_chan (proc_at S' p) = p_chan (f (proc_at S p))
    \<and> p_ticks_left (proc_at S' p) = (if p_ticks_left (proc_at S p) \<le> 0 then RSDL_PROC_QUANTUM else p_ticks_left (proc_at S p))
    \<and> (\<forall>i. i \<noteq> p \<longrightarrow> proc_at S' i = proc_at S i)
    \<and> (\<forall>r < 2 * RSDL_LEVELS. procs_of S' r = (if r = k_active S + k then remove1 p (procs_of S r) else procs_of S r)
          @ (if r = alive_tgt k S p then [p] else []))"
proof -
  note P = placedD [OF pl]
  obtain T where T: "sched c caller (upd_proc p f S) = Inr T"
      "T = upd_proc p (\<lambda>x. (f x)\<lparr>p_context := Ctx_sched (c_intena (cpus S ! c)) caller\<rparr>) S" "crit c T" "tinv None (Some p) T"
      "c_frame (cpus T ! c) = Some (p, k_active T + k, k)" "p \<in> set (procs_of T (k_active T + k))" "p_state (proc_at T p) = p_state (f (proc_at S p))"
    using give_up_state [where f = f, OF cr pl caller f(1,2)] by metis
  have fr: "k_active T = k_active S" "k_levels T = k_levels S" "k_expired T = k_expired S" unfolding T(2) by simp_all
  have pT: "p_ticks_left (proc_at T p) = p_ticks_left (proc_at S p)" "p_default_level (proc_at T p) = p_default_level (proc_at S p)"
    "\<And>i. i \<noteq> p \<Longrightarrow> proc_at T i = proc_at S i" "p_chan (proc_at T p) = p_chan (f (proc_at S p))" unfolding T(2) using P(7,10) f(3,4) by simp_all
  have lt: "length (k_procs T) = NPROC" by (rule lv_inv_len [OF tinvD(1) [OF T(4)]])
  have te: "alive_tgt k T p = alive_tgt k S p"
    unfolding alive_tgt_def step_down_def pT fr(1) using fr tgt_cong [of T S] by simp
  have "p_state (proc_at T p) \<noteq> ZOMBIE" using T(7) f(1) by auto
  from after_alive [OF T(3,4) P(5) T(6,5) this] ticks fr obtain S' where S': "scheduler_after c T = Inr S'" "k_active S' = k_active T"
      "k_procs S' = k_procs (alive_refill T p)"
      "\<forall>r < 2 * RSDL_LEVELS. procs_of S' r = (if r = k_active T + k then remove1 p (procs_of T r) else procs_of T r)
          @ (if r = alive_tgt k T p then [p] else [])" by auto
  have "procs_of T r = procs_of S r" for r by (simp add: procs_of_def fr)
  then show ?thesis
    using T(1,7) S' pT lt P(7) by (simp add: fr te alive_refill_def refill_def)
qed

lemma give_up_depleted:
  assumes cr: "crit c S" and pl: "placed c p k S" and caller: "caller \<noteq> From_exit"
    and f: "p_state (f (proc_at S p)) \<in> {RUNNABLE, SLEEPING}" "fit (f (proc_at S p))" "p_default_level (f (proc_at S p)) = p_default_level (proc_at S p)"
    and ticks: "lq_ticks_left (level_at S (k_active S + k)) \<le> 0"
  shows "\<exists>S'. bindE (sched c caller (upd_proc p f S)) (scheduler_after c) = Inr S' \<and> k_active S' = k_active S
    \<and> p_state (proc_at S' p) = p_state (f (proc_at S p)) \<and> p_chan (proc_at S' p) = p_chan (f (proc_at S p))
    \<and> (\<forall>i < NPROC. i \<noteq> p \<longrightarrow> p_state (proc_at S' i) = p_state (proc_at S i))
    \<and> (\<forall>i \<in> set (procs_of S (k_active S + k)). p_ticks_left (proc_at S' i) = RSDL_PROC_QUANTUM)
    \<and> (\<forall>r < 2 * RSDL_LEVELS. procs_of S' r = (if r = k_active S + k then [] else procs_of S r
          @ filter (\<lambda>x. step_down k S x = r) (remove1 p (procs_of S (k_active S + k)) @ [p])))"
proof -
  note P = placedD [OF pl]
  obtain T where T: "sched c caller (upd_proc p f S) = Inr T"
      "T = upd_proc p (\<lambda>x. (f x)\<lparr>p_context := Ctx_sched (c_intena (cpus S ! c)) caller\<rparr>) S" "crit c T" "tinv None (Some p) T"
      "c_frame (cpus T ! c) = Some (p, k_active T + k, k)" "p \<in> set (procs_of T (k_active T + k))" "p_state (proc_at T p) = p_state (f (proc_at S p))"
    using give_up_state [where f = f, OF cr pl caller f(1,2)] by metis
  have fr: "k_active T = k_active S" "k_levels T = k_levels S" "k_expired T = k_expired S" unfolding T(2) by simp_all
  have pT: "p_default_level (proc_at T p) = p_default_level (proc_at S p)" "\<And>i. i \<noteq> p \<Longrightarrow> proc_at T i = proc_at S i"
    "p_chan (proc_at T p) = p_chan (f (proc_at S p))" unfolding T(2) using P(7,10) f(3) by simp_all
  have "p_default_level (proc_at T x) = p_default_level (proc_at S x)" for x using pT by (cases "x = p") auto
  then have sd: "step_down k T = step_down k S"
    unfolding step_down_def using fr tgt_cong [of T S] by simp
  have pr: "procs_of T r = procs_of S r" for r by (simp add: procs_of_def fr)
  have lt: "x < NPROC" if "x \<in> set (procs_of S (k_active S + k))" for x
    using that in_queued_procs [OF tinvD(1) [OF P(1)]] lv_invD(6) [OF tinvD(1) [OF P(1)] P(5)] tinv_queued_fit(1) [OF P(1)] by blast
  have "p_state (proc_at T p) \<noteq> ZOMBIE" using T(7) f(1) by auto
  from after_depleted [OF T(3,4) P(5) T(6,5) this] ticks fr obtain S' where S': "scheduler_after c T = Inr S'" "k_active S' = k_active S"
    "\<forall>i < NPROC. proc_at S' i = (if i \<in> set (procs_of T (k_active T + k)) then (proc_at T i)\<lparr>p_ticks_left := RSDL_PROC_QUANTUM\<rparr> else proc_at T i)"
    "\<forall>r < 2 * RSDL_LEVELS. procs_of S' r = (if r = k_active T + k then [] else procs_of T r
          @ filter (\<lambda>x. step_down k T x = r) (remove1 p (procs_of T (k_active T + k)) @ [p]))" by auto
  show ?thesis using T(1,7) S' pT(2,3) lt P(7) by (simp add: fr pr sd)
qed

section \<open>Ready processes are dispatched\<close>

lemma swap_levels_after:
  assumes inv: "tinv None None S" and ctx: "level_ctx c S"
  shows "\<exists>S'. swap_sets c S = Inr S' \<and> k_active S' = k_expired S \<and> k_expired S' = k_active S
    \<and> (let ys = concat (map (\<lambda>j. procs_of S (k_active S + j)) [0..<RSDL_LEVELS]) in
       (\<forall>i < NPROC. proc_at S' i = (if i \<in> set ys then (proc_at S i)\<lparr>p_ticks_left := RSDL_PROC_QUANTUM\<rparr> else proc_at S i))
       \<and> (\<forall>j < RSDL_LEVELS. procs_of S' (k_active S' + j) = procs_of S (k_expired S + j) @ filter (\<lambda>x. p_default_level (proc_at S x) = int j) ys
            \<and> procs_of S' (k_expired S' + j) = [] \<and> lq_ticks_left (level_at S' (k_active S' + j)) = RSDL_LEVEL_QUANTUM
            \<and> lq_ticks_left (level_at S' (k_expired S' + j)) = RSDL_LEVEL_QUANTUM))"
proof -
  let ?S = "S\<lparr>k_active := k_expired S, k_expired := k_active S\<rparr>"
  note T = tinvD [OF inv]
  obtain S' where S': "swap_sets c S = Inr S'" "rotated ?S S' 0 RSDL_LEVELS"
    using swap_sets_spec [OF T(1,2) _ ctx] tinv_queued_fit(4) [OF inv] by blast
  note R = rotatedD [OF S'(2)] and F = rotated_frame [OF S'(2)]
  have "procs_of ?S r = procs_of S r" for r by (simp add: procs_of_def)
  then have ys: "concat (map (\<lambda>j. procs_of ?S (k_expired ?S + j)) [0..<0 + RSDL_LEVELS])
      = concat (map (\<lambda>j. procs_of S (k_active S + j)) [0..<RSDL_LEVELS])" by simp
  have "lq_ticks_left (level_at S' (k_active S' + j)) = RSDL_LEVEL_QUANTUM" if "j < RSDL_LEVELS" for j
    using R(5) [OF that] F(1) T(2) that by (simp add: expired_fresh_def)
  moreover have "procs_of S' (k_active S' + j) = procs_of S (k_expired S + j)
      @ filter (\<lambda>x. p_default_level (proc_at S x) = int j) (concat (map (\<lambda>j. procs_of S (k_active S + j)) [0..<RSDL_LEVELS]))"
    if "j < RSDL_LEVELS" for j using R(6) [OF that] F(1) unfolding ys by (simp add: procs_of_def)
  moreover have "proc_at S' i = (if i \<in> set (concat (map (\<lambda>j. procs_of S (k_active S + j)) [0..<RSDL_LEVELS]))
      then (proc_at S i)\<lparr>p_ticks_left := RSDL_PROC_QUANTUM\<rparr> else proc_at S i)" if "i < NPROC" for i
    using R(4) [OF that] unfolding ys by simp
  ultimately show ?thesis using S'(1) R(7,8) F(1,2) by (simp add: Let_def)
qed

lemma choice_exists:
  assumes "j < RSDL_LEVELS" "0 < lq_ticks_left (level_at S (k_active S + j))" "p \<in> set (procs_of S (k_active S + j))" "pickable S p"
  shows "choice 0 S \<noteq> None"
proof -
  have "(p, j) \<in> set (candidates 0 S)" using assms by (auto simp: candidates_def)
  then show ?thesis using assms(4) by (auto simp: choice_def find_None_iff)
qed

lemma idle_pickable:
  assumes inv: "tinv None None S" and p: "p < NPROC" "p_state (proc_at S p) = RUNNABLE"
  shows "pickable S p" "Some p \<in> set (queued S)"
  using tinvD(4,5) [OF inv p(1)] p(2) by (simp_all add: proc_ok_def pickable_def live_def)

lemma ready_after_swap:
  assumes inv: "tinv None None S" and ctx: "level_ctx c S" and p: "p < NPROC" "p_state (proc_at S p) = RUNNABLE"
    and r: "swap_sets c S = Inr S'" and inv': "tinv None None S'"
  shows "choice 0 S' \<noteq> None"
proof -
  let ?ys = "concat (map (\<lambda>j. procs_of S (k_active S + j)) [0..<RSDL_LEVELS])"
  obtain S'' where S'': "swap_sets c S = Inr S''" "\<forall>i < NPROC. proc_at S'' i = (if i \<in> set ?ys then (proc_at S i)\<lparr>p_ticks_left := RSDL_PROC_QUANTUM\<rparr> else proc_at S i)"
      "\<forall>j < RSDL_LEVELS. procs_of S'' (k_expired S'' + j) = []" "\<forall>j < RSDL_LEVELS. lq_ticks_left (level_at S'' (k_active S'' + j)) = RSDL_LEVEL_QUANTUM"
    using swap_levels_after [OF inv ctx] unfolding Let_def by metis
  have e: "S'' = S'" using S''(1) r by simp
  have "p_state (proc_at S' p) = RUNNABLE" using S''(2) p by (simp add: e)
  note I = idle_pickable [OF inv' p(1) this]
  obtain q where q: "q < 2 * RSDL_LEVELS" "p \<in> set (procs_of S' q)"
    using I(2) in_queued_procs [OF tinvD(1) [OF inv']] by blast
  have "\<not> (\<exists>j < RSDL_LEVELS. q = k_expired S' + j)" using S''(3) q(2) e by auto
  moreover have "k_active S' = 0 \<and> k_expired S' = RSDL_LEVELS \<or> k_active S' = RSDL_LEVELS \<and> k_expired S' = 0"
    using tinvD(1) [OF inv'] by (simp add: lv_inv_def table_wf_def)
  ultimately obtain j where j: "j < RSDL_LEVELS" "q = k_active S' + j"
    using q(1) by (metis add.commute add.left_neutral add_diff_inverse_nat less_diff_conv2 linorder_not_less mult_2 not_less)
  then show ?thesis using choice_exists [OF j(1) _ _ I(1)] q(2) S''(4) e by (simp add: rsdl_defs)
qed

section \<open>Whose turn it is\<close>

lemma find_first:
  assumes "P p" "\<And>x. x \<in> set xs \<Longrightarrow> \<not> P x"
  shows "List.find P (xs @ p # ys) = Some p"
  using assms by (induction xs) simp_all

lemma choice_first:
  assumes k: "k < RSDL_LEVELS" "procs_of S (k_active S + k) = xs @ p # ys" "0 < lq_ticks_left (level_at S (k_active S + k))"
    and p: "pickable S p" "\<And>x. x \<in> set xs \<Longrightarrow> \<not> pickable S x"
    and above: "\<And>j. j < k \<Longrightarrow> lq_ticks_left (level_at S (k_active S + j)) \<le> 0 \<or> (\<forall>x \<in> set (procs_of S (k_active S + j)). \<not> pickable S x)"
  shows "choice 0 S = Some (p, k_active S + k, k)"
proof -
  let ?f = "\<lambda>j. if 0 < lq_ticks_left (level_at S (k_active S + j)) then map (\<lambda>p. (p, j)) (procs_of S (k_active S + j)) else []"
  have "[0..<RSDL_LEVELS] = [0..<k] @ k # [Suc k..<RSDL_LEVELS]"
    using k(1) upt_add_eq_append [of 0 k "RSDL_LEVELS - k"] by (simp add: upt_conv_Cons)
  then have cand: "candidates 0 S = (concat (map ?f [0..<k]) @ map (\<lambda>x. (x, k)) xs) @ (p, k) # map (\<lambda>x. (x, k)) ys @ concat (map ?f [Suc k..<RSDL_LEVELS])"
    using k(2,3) by (simp add: candidates_def)
  have none: "\<not> (case z of (x, j) \<Rightarrow> pickable S x)" if z: "z \<in> set (concat (map ?f [0..<k]) @ map (\<lambda>x. (x, k)) xs)" for z
    using z p(2) above by (auto split: if_splits) (meson linorder_not_le)
  have "List.find (\<lambda>(x, j). pickable S x) (candidates 0 S) = Some (p, k)"
    unfolding cand by (rule find_first) (use p(1) none in simp_all)
  then show ?thesis by (simp add: choice_def)
qed

lemma kinv_frame:
  assumes "kinv c S" "c_frame (cpus S ! c) = Some (p, q, k)"
  shows "run_ok c p k S" "q = k_active S + k" "myproc c S = Some p"
proof -
  obtain m where m: "at_ok c m S" using assms(1) by (auto simp: kinv_def)
  obtain p' k' where "m = Some (p', k')" using assms(2) m by (cases m) (auto simp: at_ok_modes idle_ok_def cur_def)
  then have r: "run_ok c p' k' S" using m by (simp add: at_ok_modes)
  then have "placed c p' k' S" by (simp add: run_ok_def)
  from placedD(2,4) [OF this] r assms(2) show "run_ok c p k S" "q = k_active S + k" "myproc c S = Some p"
    by (simp_all add: myproc_def)
qed

section \<open>Ticks\<close>

lemma wake_running [simp]: "p_state x = RUNNING \<Longrightarrow> wake_proc ch x = x"
  by (simp add: wake_proc_def)

text \<open>The timer interrupt up to the accounting: the clock moves, sleepers on \<open>ticks\<close> wake up.\<close>

lemma timer_charge:
  assumes run: "run_ok c p k S" and tf: "tf_trapno tf = T_IRQ0 + IRQ_TIMER" and nk: "\<not> (p_killed (proc_at S p) \<and> from_user tf)"
  obtains S1 where "run_ok c p k S1" "kept {} S S1" "k_levels S1 = k_levels S" "k_active S1 = k_active S" "k_expired S1 = k_expired S"
    "k_procs S1 = (if c = 0 then map (wake_proc (Some Chan_ticks)) (k_procs S) else k_procs S)" "proc_at S1 p = proc_at S p"
    "k_ticks S1 = (if c = 0 then k_ticks S + 1 else k_ticks S)"
    "settle c (trap ops devs sys c tf cr2 S) = (let (give_up, V) = charge p (k_active S + k) S1 in
       if give_up then bindE (yield c V) (scheduler_after c) else Inr V)"
proof -
  have ok: "at_ok c (Some (p, k)) S" using run by (simp add: at_ok_modes)
  obtain S1 where S1: "trap_tick c S = Inr S1" "at_ok c (Some (p, k)) S1" "init_kept S S1" "k_levels S1 = k_levels S" "k_active S1 = k_active S"
    "k_expired S1 = k_expired S" "k_procs S1 = (if c = 0 then map (wake_proc (Some Chan_ticks)) (k_procs S) else k_procs S)"
    "k_ticks S1 = (if c = 0 then k_ticks S + 1 else k_ticks S)" using trap_tick_ok [OF ok] by blast
  have r1: "run_ok c p k S1" using S1(2) by (simp add: at_ok_modes)
  have pl: "placed c p k S" "placed c p k S1" using run r1 by (simp_all add: run_ok_def)
  note P = placedD [OF pl(1)] and P1 = placedD [OF pl(2)]
  have pp: "proc_at S1 p = proc_at S p" using S1(7) P(7,8,10) by (simp split: if_splits)
  have ne: "tf_trapno tf \<noteq> T_SYSCALL" using tf by (simp add: trap_defs)
  have ku: "\<not> killed_user c tf S1" using nk pp P1(2) by (simp add: killed_user_def myproc_def)
  let ?V = "snd (charge p (k_active S + k) S1)"
  note C = charge_ok [OF r1]
  have "\<not> killed_user c tf ?V"
    using ku C(3) P1(2) placedD(2) [of c p k ?V] C(1) S1(5) by (simp add: killed_user_def myproc_def run_ok_def)
  then have "settle c (trap ops devs sys c tf cr2 S) = (let (give_up, V) = charge p (k_active S + k) S1 in
       if give_up then bindE (yield c V) (scheduler_after c) else Inr V)"
    using ne tf S1(1,5) ku P1(2,3,8)
    by (simp add: trap_def trap_irq_def trap_rest_def trap_quantum_def trap_end_def myproc_def split_beta) (simp add: settle_def)
  then show thesis using that [OF r1 S1(3-7) pp S1(8)] by blast
qed

lemma charge_sel:
  assumes "run_ok c p k S"
  defines "V \<equiv> snd (charge p (k_active S + k) S)"
  shows "p_ticks_left (proc_at V p) = p_ticks_left (proc_at S p) - 1" "lq_ticks_left (level_at V (k_active S + k)) = lq_ticks_left (level_at S (k_active S + k)) - 1"
    "\<And>i. i \<noteq> p \<Longrightarrow> proc_at V i = proc_at S i" "\<And>r. r \<noteq> k_active S + k \<Longrightarrow> level_at V r = level_at S r" "k_active V = k_active S" "k_expired V = k_expired S"
    "\<And>r. procs_of V r = procs_of S r" "p_default_level (proc_at V p) = p_default_level (proc_at S p)"
    "fst (charge p (k_active S + k) S) \<longleftrightarrow> p_ticks_left (proc_at S p) \<le> 1 \<or> lq_ticks_left (level_at S (k_active S + k)) \<le> 1"
proof -
  have pl: "placed c p k S" using assms(1) by (simp add: run_ok_def)
  note P = placedD [OF pl]
  have q: "k_active S + k < length (k_levels S)"
    using lv_invD(2,6) [OF tinvD(1) [OF P(1)]] P(5) by simp
  show "p_ticks_left (proc_at V p) = p_ticks_left (proc_at S p) - 1" "lq_ticks_left (level_at V (k_active S + k)) = lq_ticks_left (level_at S (k_active S + k)) - 1"
    "\<And>i. i \<noteq> p \<Longrightarrow> proc_at V i = proc_at S i" "\<And>r. r \<noteq> k_active S + k \<Longrightarrow> level_at V r = level_at S r" "k_active V = k_active S" "k_expired V = k_expired S"
    "p_default_level (proc_at V p) = p_default_level (proc_at S p)"
    "fst (charge p (k_active S + k) S) \<longleftrightarrow> p_ticks_left (proc_at S p) \<le> 1 \<or> lq_ticks_left (level_at S (k_active S + k)) \<le> 1"
    using P(7,10) q by (auto simp: V_def charge_def Let_def)
  show "procs_of V r = procs_of S r" for r
    using q by (cases "r = k_active S + k") (simp_all add: V_def charge_def Let_def procs_of_def lq_list_def)
qed

text \<open>A process that gives up the CPU by \<open>yield()\<close>, with quantum left in its level and without.\<close>

lemma yield_alive:
  assumes run: "run_ok c p k S" and ticks: "0 < lq_ticks_left (level_at S (k_active S + k))"
  shows "\<exists>S'. bindE (yield c S) (scheduler_after c) = Inr S' \<and> k_active S' = k_active S
    \<and> p_state (proc_at S' p) = RUNNABLE \<and> p_chan (proc_at S' p) = p_chan (proc_at S p)
    \<and> p_ticks_left (proc_at S' p) = (if p_ticks_left (proc_at S p) \<le> 0 then RSDL_PROC_QUANTUM else p_ticks_left (proc_at S p))
    \<and> (\<forall>i. i \<noteq> p \<longrightarrow> proc_at S' i = proc_at S i)
    \<and> (\<forall>r < 2 * RSDL_LEVELS. procs_of S' r = (if r = k_active S + k then remove1 p (procs_of S r) else procs_of S r)
          @ (if r = alive_tgt k S p then [p] else []))"
proof -
  note E = run_enter [OF run]
  note P = placedD [OF E(3)]
  let ?E = "enter c PtableLock S" let ?f = "\<lambda>x. x\<lparr>p_state := RUNNABLE\<rparr>"
  have "alive_tgt k ?E p = alive_tgt k S p" using step_down_cong [of ?E S k] by (simp add: alive_tgt_def)
  moreover have "procs_of ?E r = procs_of S r" for r by (simp add: procs_of_def)
  moreover have "yield c S = sched c From_yield (upd_proc p ?f ?E)" using E(1) P(2) by (simp add: yield_def myproc_def)
  ultimately show ?thesis
    using give_up_alive [where f = ?f, OF E(2,3), of From_yield] P(9) ticks by (simp add: fit_def cong del: if_weak_cong split del: if_split)
qed

lemma yield_depleted:
  assumes run: "run_ok c p k S" and ticks: "lq_ticks_left (level_at S (k_active S + k)) \<le> 0"
  shows "\<exists>S'. bindE (yield c S) (scheduler_after c) = Inr S' \<and> k_active S' = k_active S
    \<and> p_state (proc_at S' p) = RUNNABLE \<and> p_chan (proc_at S' p) = p_chan (proc_at S p) \<and> (\<forall>i < NPROC. i \<noteq> p \<longrightarrow> p_state (proc_at S' i) = p_state (proc_at S i))
    \<and> (\<forall>i \<in> set (procs_of S (k_active S + k)). p_ticks_left (proc_at S' i) = RSDL_PROC_QUANTUM)
    \<and> (\<forall>r < 2 * RSDL_LEVELS. procs_of S' r = (if r = k_active S + k then [] else procs_of S r
          @ filter (\<lambda>x. step_down k S x = r) (remove1 p (procs_of S (k_active S + k)) @ [p])))"
proof -
  note E = run_enter [OF run]
  note P = placedD [OF E(3)]
  let ?E = "enter c PtableLock S" let ?f = "\<lambda>x. x\<lparr>p_state := RUNNABLE\<rparr>"
  have sd: "step_down k ?E = step_down k S" by (rule step_down_cong) simp_all
  have pr: "procs_of ?E r = procs_of S r" for r by (simp add: procs_of_def)
  have "yield c S = sched c From_yield (upd_proc p ?f ?E)" using E(1) P(2) by (simp add: yield_def myproc_def)
  then show ?thesis
    using give_up_depleted [where f = ?f, OF E(2,3), of From_yield] P(9) ticks by (simp add: fit_def sd pr cong del: if_weak_cong split del: if_split)
qed

text \<open>A process that goes to sleep is found sleeping on its channel, wherever it was put.\<close>

lemma sleep_spec:
  assumes run: "run_ok c p k S" and lk: "lk \<noteq> PtableLock"
  shows "\<exists>S1 S2 T S'. acquire c lk S = Inr S1 \<and> acquire c PtableLock S1 = Inr S2 \<and> release c lk S2 = Inr T \<and> crit c T
    \<and> sleep c ch (Some lk) S1 = sched c (From_sleep lk) (upd_proc p (\<lambda>x. x\<lparr>p_chan := ch, p_state := SLEEPING\<rparr>) T)
    \<and> bindE (sleep c ch (Some lk) S1) (scheduler_after c) = Inr S' \<and> idle_ok c S' \<and> kept {} S S'
    \<and> p_state (proc_at S' p) = SLEEPING \<and> p_chan (proc_at S' p) = ch
    \<and> (\<forall>i < NPROC. i \<noteq> p \<longrightarrow> p_state (proc_at S' i) = p_state (proc_at S i))"
proof -
  obtain S1 S2 T where H: "acquire c lk S = Inr S1" "acquire c PtableLock S1 = Inr S2" "release c lk S2 = Inr T"
    "c_proc (cpus S1 ! c) = Some p" "crit c T" "placed c p k T" "k_procs T = k_procs S" "k_initproc T = k_initproc S"
    using handover [OF assms] by blast
  note P = placedD [OF H(6)]
  let ?f = "\<lambda>x. x\<lparr>p_chan := ch, p_state := SLEEPING\<rparr>"
  have sl: "sleep c ch (Some lk) S1 = sched c (From_sleep lk) (upd_proc p ?f T)" using H lk by (simp add: sleep_def myproc_def)
  obtain S' where S': "bindE (sched c (From_sleep lk) (upd_proc p ?f T)) (scheduler_after c) = Inr S'" "p_state (proc_at S' p) = SLEEPING"
    "p_chan (proc_at S' p) = ch" "\<forall>i < NPROC. i \<noteq> p \<longrightarrow> p_state (proc_at S' i) = p_state (proc_at T i)"
  proof (cases "0 < lq_ticks_left (level_at T (k_active T + k))")
    case True
    from give_up_alive [where f = ?f, OF H(5,6), of "From_sleep lk"] P(9) True that show thesis by (auto simp: fit_def)
  next
    case False
    from give_up_depleted [where f = ?f, OF H(5,6), of "From_sleep lk"] P(9) False that show thesis by (auto simp: fit_def)
  qed
  moreover obtain S'' where "bindE (sleep c ch (Some lk) S1) (scheduler_after c) = Inr S''" "idle_ok c S''" "kept {} S S''"
    using sleep_ok [OF assms, of ch] H(1) by auto
  ultimately show ?thesis using H sl by auto
qed

section \<open>The first turn of a new process\<close>

lemma turn_forkret:
  assumes ops: "ops_return ops" and idle: "idle_ok c S" and ch: "choice 0 S = Some (p, q, k)" and ctx: "p_context (proc_at S p) = Ctx_forkret"
  shows "\<exists>S'. sched_turn ops c S = Inr S' \<and> run_ok c p k S' \<and> k_levels S' = k_levels S \<and> k_active S' = k_active S
    \<and> k_procs S' = (k_procs S)[p := (proc_at S p)\<lparr>p_state := RUNNING\<rparr>] \<and> k_initproc S' = k_initproc S"
proof -
  have q: "quiet c S" and t: "tinv None None S" using idle by (simp_all add: idle_ok_def)
  note C = choice_SomeD [OF ch]
  obtain S1 where S1: "scheduler_pick c S = Inr (True, S1)" "switched c p k S S1" using scheduler_pick_found [OF q t ch] by blast
  have cr: "crit c S1" and pl: "placed c p k S1" using switched_placed [OF S1(2) C(1)] C by simp_all
  note P = placedD [OF pl] and D = run_depart [OF cr pl]
  have W: "k_levels S1 = k_levels S" "k_active S1 = k_active S" "k_procs S1 = (k_procs S)[p := (proc_at S p)\<lparr>p_state := RUNNING\<rparr>]"
    "k_initproc S1 = k_initproc S" using S1(2) by (simp_all add: switched_def)
  have c1: "p_context (proc_at S1 p) = Ctx_forkret" using W(3) ctx P(7,10) by simp
  let ?D = "depart c PtableLock S1"
  obtain e where e: "op_fsinit ops (k_env ?D) = Inr e" using ops_returnD(9) [OF ops] by blast
  define T where "T = (if k_first ?D then set_env e (?D\<lparr>k_first := False\<rparr>) else ?D)"
  have "sched_turn ops c S = Inr T"
    using S1(1) P(2) c1 D(1) e by (simp add: sched_turn_def resume_def myproc_def forkret_def T_def)
  moreover have "run_ok c p k T" using D(2) quiet_cong [of T ?D c] placed_cong [of T ?D c p k]
    by (simp add: run_ok_def cur_def T_def)
  moreover have "k_levels T = k_levels S" "k_active T = k_active S" "k_initproc T = k_initproc S" "k_procs T = k_procs S1" by (simp_all add: T_def W)
  ultimately show ?thesis using W(3) by simp
qed

end
