(* ===== verification/Family.thy ===== *)
theory Family
  imports Rsdl
begin

text \<open>
  Exit, wait and kill: what each leaves behind. A zombie keeps its slot until its parent
  waits; abandoned children belong to \<open>init\<close>; a kill reaches a sleeper.
\<close>

section \<open>Exit\<close>

lemma wakeup1_proc: "i < length (k_procs S) \<Longrightarrow> proc_at (wakeup1 ch S) i = wake_proc ch (proc_at S i)"
  by (simp add: wakeup1_def)

lemma wake_proc_sel [simp]:
  "p_parent (wake_proc ch x) = p_parent x" "p_pid (wake_proc ch x) = p_pid x" "p_ofile (wake_proc ch x) = p_ofile x" "p_cwd (wake_proc ch x) = p_cwd x"
  by (simp_all add: wake_proc_def)

lemma wake_proc_ready: "p_state x = RUNNABLE \<or> p_state x = SLEEPING \<and> p_chan x = ch \<Longrightarrow> p_state (wake_proc ch x) = RUNNABLE"
  "p_state x = RUNNABLE \<Longrightarrow> wake_proc ch x = x"
  by (auto simp: wake_proc_def)

lemma reparent_len: "length (k_procs (reparent me is S)) = length (k_procs S)"
  by (induction "is" arbitrary: S) (simp_all add: Let_def wakeup1_def)

lemma reparent_proc:
  assumes "k_initproc S \<noteq> Some me" "\<forall>j \<in> set is. j < length (k_procs S)" "i < length (k_procs S)"
  shows "p_parent (proc_at (reparent me is S) i) = (if i \<in> set is \<and> p_parent (proc_at S i) = Some me then k_initproc S else p_parent (proc_at S i))
    \<and> p_ofile (proc_at (reparent me is S) i) = p_ofile (proc_at S i) \<and> p_cwd (proc_at (reparent me is S) i) = p_cwd (proc_at S i)
    \<and> (p_state (proc_at S i) = RUNNABLE \<longrightarrow> p_state (proc_at (reparent me is S) i) = RUNNABLE)"
  using assms
proof (induction "is" arbitrary: S)
  case (Cons j "is")
  let ?S1 = "upd_proc j (\<lambda>x. x\<lparr>p_parent := k_initproc S\<rparr>) S" let ?w = "wakeup1 (map_option Chan_proc (k_initproc S)) ?S1"
  have l: "length (k_procs ?S1) = length (k_procs S)" "length (k_procs ?w) = length (k_procs S)" "k_initproc ?w = k_initproc S" "k_initproc ?S1 = k_initproc S"
    by (simp_all add: wakeup1_def)
  have p1: "proc_at ?S1 i = (if i = j then (proc_at S i)\<lparr>p_parent := k_initproc S\<rparr> else proc_at S i)" using Cons.prems by simp
  have w: "proc_at ?w i = wake_proc (map_option Chan_proc (k_initproc S)) (proc_at ?S1 i)" using Cons.prems l by (simp add: wakeup1_proc)
  have IH: "p_parent (proc_at (reparent me is T) i) = (if i \<in> set is \<and> p_parent (proc_at T i) = Some me then k_initproc S else p_parent (proc_at T i))
    \<and> p_ofile (proc_at (reparent me is T) i) = p_ofile (proc_at T i) \<and> p_cwd (proc_at (reparent me is T) i) = p_cwd (proc_at T i)
    \<and> (p_state (proc_at T i) = RUNNABLE \<longrightarrow> p_state (proc_at (reparent me is T) i) = RUNNABLE)" if "T \<in> {S, ?S1, ?w}" for T
    using Cons.IH [of T] Cons.prems l that by auto
  show ?case
  proof (cases "p_parent (proc_at S j) = Some me")
    case False
    then show ?thesis using IH [of S] by auto
  next
    case True
    define T where "T = (if p_state (proc_at ?S1 j) = ZOMBIE then ?w else ?S1)"
    have "reparent me (j # is) S = reparent me is T" using True by (simp add: T_def Let_def)
    moreover have "T \<in> {S, ?S1, ?w}" by (simp add: T_def)
    moreover have "proc_at T i = proc_at ?S1 i \<or> proc_at T i = wake_proc (map_option Chan_proc (k_initproc S)) (proc_at ?S1 i)"
      using w by (simp add: T_def)
    then have "p_parent (proc_at T i) = p_parent (proc_at ?S1 i)" "p_ofile (proc_at T i) = p_ofile (proc_at ?S1 i)"
      "p_cwd (proc_at T i) = p_cwd (proc_at ?S1 i)" "p_state (proc_at ?S1 i) = RUNNABLE \<Longrightarrow> p_state (proc_at T i) = RUNNABLE"
      by (auto simp: wake_proc_ready)
    then have "p_parent (proc_at T i) = (if i = j then k_initproc S else p_parent (proc_at S i))" "p_ofile (proc_at T i) = p_ofile (proc_at S i)"
      "p_cwd (proc_at T i) = p_cwd (proc_at S i)" "p_state (proc_at S i) = RUNNABLE \<Longrightarrow> p_state (proc_at T i) = RUNNABLE"
      unfolding p1 by (simp_all split: if_splits)
    ultimately show ?thesis using IH [of T] True Cons.prems(1) by auto
  qed
qed simp

lemma exit_spec:
  assumes ops: "ops_return ops" and run: "run_ok c p k S" and ni: "k_initproc S \<noteq> Some p" and cwd: "p_cwd (proc_at S p) \<noteq> None"
  shows "\<exists>S'. exit ops c S = Inr S' \<and> p_state (proc_at S' p) = ZOMBIE \<and> set (p_ofile (proc_at S' p)) \<subseteq> {None} \<and> p_cwd (proc_at S' p) = None
    \<and> Some p \<notin> set (queued S')
    \<and> (\<forall>i < NPROC. p_parent (proc_at S' i) = (if p_parent (proc_at S i) = Some p then k_initproc S else p_parent (proc_at S i)))
    \<and> (\<forall>i < NPROC. p_state (proc_at S i) = SLEEPING \<longrightarrow> p_chan (proc_at S i) = map_option Chan_proc (p_parent (proc_at S p))
         \<longrightarrow> p_state (proc_at S' i) = RUNNABLE)"
proof -
  have pl: "placed c p k S" using run by (simp add: run_ok_def)
  note P = placedD [OF pl]
  obtain e b S3 S5 where X: "S3 = reparent p [0..<NPROC] (wakeup1 (map_option Chan_proc (p_parent (proc_at S p))) (enter c PtableLock (upd_proc p exit_closed (set_env e S))))"
    "S5 = upd_proc p (\<lambda>x. x\<lparr>p_state := ZOMBIE, p_context := Ctx_sched b From_exit\<rparr>) (upd_level (k_active S + k) (lq_remove (Some p)) S3)"
    "exit ops c S = Inr S5" "tinv None (Some p) S5" "length (k_procs S3) = NPROC" by (rule exit_state [OF assms]) (rule that)
  let ?ch = "map_option Chan_proc (p_parent (proc_at S p))"
  let ?W = "wakeup1 ?ch (enter c PtableLock (upd_proc p exit_closed (set_env e S)))"
  have lW: "length (k_procs ?W) = NPROC" "k_initproc ?W = k_initproc S" using P(10) by (simp_all add: wakeup1_def)
  have W: "proc_at ?W i = wake_proc ?ch (if i = p then exit_closed (proc_at S i) else proc_at S i)" if "i < NPROC" for i
    using that P(10) by (simp add: wakeup1_proc)
  have p5: "proc_at S5 i = (if i = p then (proc_at S3 p)\<lparr>p_state := ZOMBIE, p_context := Ctx_sched b From_exit\<rparr> else proc_at S3 i)" for i
    using X(2,5) P(7) by simp
  have R: "p_parent (proc_at S3 i) = (if p_parent (proc_at S i) = Some p then k_initproc S else p_parent (proc_at S i))"
    "p_ofile (proc_at S3 i) = p_ofile (proc_at ?W i)" "p_cwd (proc_at S3 i) = p_cwd (proc_at ?W i)"
    "p_state (proc_at ?W i) = RUNNABLE \<Longrightarrow> p_state (proc_at S3 i) = RUNNABLE" if i: "i < NPROC" for i
    using reparent_proc [of ?W p "[0..<NPROC]" i] lW ni i W [OF i] by (auto simp: X(1) exit_closed_def)
  have "p_state (proc_at S5 i) = RUNNABLE" if i: "i < NPROC" "p_state (proc_at S i) = SLEEPING" "p_chan (proc_at S i) = ?ch" for i
    using R(4) [OF i(1)] W [OF i(1)] wake_proc_ready(1) [of "proc_at S i" ?ch] i P(8) p5 by auto
  moreover have "Some p \<notin> set (queued S5)" using tinvD(5) [OF X(4) P(7)] p5 by (simp add: live_def)
  ultimately show ?thesis using X(3) R(1) R(2,3) [OF P(7)] W [OF P(7)] p5 by (auto simp: exit_closed_def)
qed

section \<open>Wait\<close>

lemma wait_scan_find:
  "wait_scan ops me is h S = (case List.find (\<lambda>i. p_parent (proc_at S i) = Some me \<and> p_state (proc_at S i) = ZOMBIE) is of
     None \<Rightarrow> Inr (Inr (h \<or> (\<exists>i \<in> set is. p_parent (proc_at S i) = Some me)), S)
   | Some i \<Rightarrow> bindE (op_kfree ops (p_kstack (proc_at S i)) (k_env S)) (\<lambda>e1. bindE (op_freevm ops (p_pgdir (proc_at S i)) e1) (\<lambda>e2.
           Inr (Inl (p_pid (proc_at S i)), upd_proc i (\<lambda>x. x\<lparr>p_kstack := 0, p_pid := 0, p_parent := None,
             p_name := [], p_killed := False, p_state := UNUSED\<rparr>) (set_env e2 S)))))"
  by (induction "is" arbitrary: h) (auto split: option.split)

lemma wait_spec:
  assumes ops: "ops_return ops" and run: "run_ok c p k S"
  shows "case List.find (\<lambda>i. p_parent (proc_at S i) = Some p \<and> p_state (proc_at S i) = ZOMBIE) [0..<NPROC] of
      Some i \<Rightarrow> \<exists>S'. wait ops c S = Inr (Some (p_pid (proc_at S i)), S') \<and> p_state (proc_at S' i) = UNUSED \<and> p_parent (proc_at S' i) = None
         \<and> (\<forall>j. j \<noteq> i \<longrightarrow> proc_at S' j = proc_at S j) \<and> k_levels S' = k_levels S
    | None \<Rightarrow> if (\<forall>i < NPROC. p_parent (proc_at S i) \<noteq> Some p) \<or> p_killed (proc_at S p)
        then \<exists>S'. wait ops c S = Inr (Some (-1), S') \<and> k_procs S' = k_procs S \<and> k_levels S' = k_levels S
        else \<exists>S'. wait ops c S = Inr (None, S') \<and> p_state (proc_at S' p) = SLEEPING \<and> p_chan (proc_at S' p) = Some (Chan_proc p)
           \<and> (\<forall>j. j \<noteq> p \<longrightarrow> proc_at S' j = proc_at S j)"
proof -
  note E = run_enter [OF run]
  note P = placedD [OF E(3)]
  let ?S1 = "enter c PtableLock S"
  let ?P = "\<lambda>i. p_parent (proc_at S i) = Some p \<and> p_state (proc_at S i) = ZOMBIE"
  have my: "myproc c ?S1 = Some p" using P(2) by (simp add: myproc_def)
  have scan: "wait_scan ops p [0..<NPROC] False ?S1 = (case List.find ?P [0..<NPROC] of
     None \<Rightarrow> Inr (Inr (\<exists>i \<in> set [0..<NPROC]. p_parent (proc_at S i) = Some p), ?S1)
   | Some i \<Rightarrow> bindE (op_kfree ops (p_kstack (proc_at S i)) (k_env S)) (\<lambda>e1. bindE (op_freevm ops (p_pgdir (proc_at S i)) e1) (\<lambda>e2.
           Inr (Inl (p_pid (proc_at S i)), upd_proc i (\<lambda>x. x\<lparr>p_kstack := 0, p_pid := 0, p_parent := None,
             p_name := [], p_killed := False, p_state := UNUSED\<rparr>) (set_env e2 ?S1)))))"
    by (simp add: wait_scan_find split: option.split)
  show ?thesis
  proof (cases "List.find ?P [0..<NPROC]")
    case None
    have wb: "wait ops c S = (if (\<forall>i < NPROC. p_parent (proc_at S i) \<noteq> Some p) \<or> p_killed (proc_at S p)
        then bindE (release c PtableLock ?S1) (\<lambda>S2. Inr (Some (-1), S2))
        else bindE (sleep c (Some (Chan_proc p)) (Some PtableLock) ?S1) (\<lambda>S2. Inr (None, S2)))"
      using E(1) my scan None by (auto simp: wait_def wait_body_def)
    let ?f = "\<lambda>x. x\<lparr>p_chan := Some (Chan_proc p), p_state := SLEEPING\<rparr>"
    obtain T where T: "sched c (From_sleep PtableLock) (upd_proc p ?f ?S1) = Inr T"
        "T = upd_proc p (\<lambda>x. (?f x)\<lparr>p_context := Ctx_sched (c_intena (cpus ?S1 ! c)) (From_sleep PtableLock)\<rparr>) ?S1"
      using give_up_state [where f = ?f, OF E(2,3), of "From_sleep PtableLock"] P(9) by (auto simp: fit_def)
    have "sleep c (Some (Chan_proc p)) (Some PtableLock) ?S1 = Inr T" using my T(1) by (simp add: sleep_def)
    moreover have "p_state (proc_at T p) = SLEEPING" "p_chan (proc_at T p) = Some (Chan_proc p)" "\<forall>j. j \<noteq> p \<longrightarrow> proc_at T j = proc_at S j"
      unfolding T(2) using P(7,10) by simp_all
    moreover have "release c PtableLock ?S1 = Inr (depart c PtableLock ?S1)" by (rule release_crit(1) [OF E(2)])
    ultimately show ?thesis using None wb by simp
  next
    case (Some i)
    then have i: "i < NPROC" by (auto simp: find_Some_iff)
    obtain e1 e2 where e: "op_kfree ops (p_kstack (proc_at S i)) (k_env S) = Inr e1" "op_freevm ops (p_pgdir (proc_at S i)) e1 = Inr e2"
      using ops_returnD(1,2) [OF ops] by metis
    let ?X = "upd_proc i (\<lambda>x. x\<lparr>p_kstack := 0, p_pid := 0, p_parent := None, p_name := [], p_killed := False, p_state := UNUSED\<rparr>) (set_env e2 ?S1)"
    have "crit c ?X" using E(2) crit_cong [of ?X ?S1] by simp
    from release_crit(1) [OF this] show ?thesis using E(1) my scan Some e i P(10) by (simp add: wait_def wait_body_def)
  qed
qed

section \<open>Kill\<close>

lemma kill_spec:
  assumes "at_ok c m S"
  shows "\<exists>r S'. kill c pid S = Inr (r, S') \<and> k_levels S' = k_levels S \<and> k_active S' = k_active S \<and> k_initproc S' = k_initproc S \<and> k_nextpid S' = k_nextpid S \<and> k_env S' = k_env S \<and>
    (case List.find (\<lambda>i. p_pid (proc_at S i) = pid) [0..<NPROC] of
       None \<Rightarrow> r = -1 \<and> k_procs S' = k_procs S
     | Some i \<Rightarrow> r = 0 \<and> i < NPROC \<and> k_procs S' = (k_procs S)[i := (proc_at S i)\<lparr>p_killed := True,
         p_state := (if p_state (proc_at S i) = SLEEPING then RUNNABLE else p_state (proc_at S i))\<rparr>])"
proof -
  note E = tab_enter [OF assms]
  let ?f = "\<lambda>x. x\<lparr>p_killed := True, p_state := (if p_state x = SLEEPING then RUNNABLE else p_state x)\<rparr>"
  have R: "release c PtableLock (enter c PtableLock S) = Inr (depart c PtableLock (enter c PtableLock S))"
    "\<And>i. release c PtableLock (upd_proc i ?f (enter c PtableLock S)) = Inr (depart c PtableLock (upd_proc i ?f (enter c PtableLock S)))"
    using E(2) by (simp_all add: release_crit(1))
  show ?thesis
  proof (cases "List.find (\<lambda>i. p_pid (proc_at S i) = pid) [0..<NPROC]")
    case (Some i)
    then have "i < NPROC" by (auto simp: find_Some_iff)
    then show ?thesis using E(1) R(2) [of i] Some by (simp add: kill_def upd_proc_def)
  qed (use E(1) R(1) in \<open>simp add: kill_def\<close>)
qed

end
