(* ===== verification/Demo.thy ===== *)
theory Demo
  imports Rsdl
begin

text \<open>
  Concrete reachable states: the kernel after boot on one CPU with memory to spare
  (\<open>demo_boot\<close>), the same after the first turn of the scheduler, with \<open>init\<close> running (\<open>demo_run\<close>), and that state
  with the quanta of the process and of its level set to \<open>a\<close> and \<open>b\<close> (\<open>demo_at a b\<close>).
\<close>

section \<open>States to try the properties on\<close>

lemma kinv_runI:
  assumes "run_ok c p k S" "hale S"
  shows "kinv c S" "myproc c S = Some p"
proof -
  have "at_ok c (Some (p, k)) S" using assms(1) by (simp add: at_ok_modes)
  then show "kinv c S" using assms(2) by (auto simp: kinv_def)
  show "myproc c S = Some p" using placedD(2) [of c p k S] assms(1) by (simp add: run_ok_def myproc_def)
qed

definition demo_boot :: "nat kstate" where
  "demo_boot = (case boot plain_ops [0] KERNBASE 0 of Inr S \<Rightarrow> S | Inl _ \<Rightarrow> kstate_zero [0] 0)"

lemma demo_boot_facts:
  "kreach plain_ops demo_boot" "kinv 0 demo_boot" "idle_ok 0 demo_boot" "k_initproc demo_boot = Some 0" "k_active demo_boot = 0"
  "p_state (proc_at demo_boot 0) = RUNNABLE" "p_context (proc_at demo_boot 0) = Ctx_forkret" "p_ticks_left (proc_at demo_boot 0) = RSDL_PROC_QUANTUM"
  "\<And>i. i \<noteq> 0 \<Longrightarrow> i < NPROC \<Longrightarrow> proc_at demo_boot i = proc_zero"
  "\<And>r. r < 2 * RSDL_LEVELS \<Longrightarrow> lq_ticks_left (level_at demo_boot r) = RSDL_LEVEL_QUANTUM \<and> procs_of demo_boot r = (if r = 0 then [0] else [])"
  by (rule plain_boot; simp add: demo_boot_def; fail)+

definition demo_run :: "nat kstate" where
  "demo_run = (case sched_turn plain_ops 0 demo_boot of Inr S \<Rightarrow> S | Inl _ \<Rightarrow> demo_boot)"

lemma demo_choice: "choice 0 demo_boot = Some (0, 0, 0)"
proof -
  have "choice 0 demo_boot = Some (0, k_active demo_boot + 0, 0)"
    using demo_boot_facts by (intro choice_first [where xs = "[]" and ys = "[]"]) (simp_all add: pickable_def)
  then show ?thesis using demo_boot_facts(5) by simp
qed

lemma demo_run_facts:
  "kreach plain_ops demo_run" "kinv 0 demo_run" "run_ok 0 0 0 demo_run" "k_active demo_run = 0" "k_initproc demo_run = Some 0"
  "proc_at demo_run 0 = (proc_at demo_boot 0)\<lparr>p_state := RUNNING\<rparr>" "\<And>i. i \<noteq> 0 \<Longrightarrow> i < NPROC \<Longrightarrow> proc_at demo_run i = proc_zero"
  "\<And>r. r < 2 * RSDL_LEVELS \<Longrightarrow> lq_ticks_left (level_at demo_run r) = RSDL_LEVEL_QUANTUM \<and> procs_of demo_run r = (if r = 0 then [0] else [])"
proof -
  note B = demo_boot_facts
  obtain S' where S': "sched_turn plain_ops 0 demo_boot = Inr S'" "run_ok 0 0 0 S'" "k_levels S' = k_levels demo_boot" "k_active S' = k_active demo_boot"
      "k_procs S' = (k_procs demo_boot)[0 := (proc_at demo_boot 0)\<lparr>p_state := RUNNING\<rparr>]" "k_initproc S' = k_initproc demo_boot"
    using turn_forkret [OF plain_ops_ok(1) B(3) demo_choice B(7)] by blast
  have e: "S' = demo_run" using S'(1) by (simp add: demo_run_def)
  have "tinv None None demo_boot" using B(3) by (simp add: idle_ok_def)
  note len = lv_inv_len [OF tinvD(1) [OF this]]
  have "enabled 0 E_turn demo_boot" using B(3) by (simp add: enabled_def idle_ok_def cur_def myproc_def)
  moreover have "kexec plain_ops 0 E_turn demo_boot = Inr demo_run" using S'(1) e by (simp add: kexec_def)
  ultimately show r: "kreach plain_ops demo_run" by (rule kr_step [OF B(1)])
  show "kinv 0 demo_run" by (rule kreach_kinv [OF r plain_ops_ok(2)])
  show "run_ok 0 0 0 demo_run" "k_active demo_run = 0" "k_initproc demo_run = Some 0"
    "proc_at demo_run 0 = (proc_at demo_boot 0)\<lparr>p_state := RUNNING\<rparr>" "\<And>i. i \<noteq> 0 \<Longrightarrow> i < NPROC \<Longrightarrow> proc_at demo_run i = proc_zero"
    using S' B len unfolding e by simp_all
  show "lq_ticks_left (level_at demo_run r) = RSDL_LEVEL_QUANTUM \<and> procs_of demo_run r = (if r = 0 then [0] else [])" if "r < 2 * RSDL_LEVELS" for r
    using S'(3) B(10) [OF that] unfolding e by (simp add: procs_of_def)
qed

lemma demo_run_mode:
  "placed 0 0 0 demo_run" "myproc 0 demo_run = Some 0" "0 < length (k_procs demo_run)" "\<not> p_killed (proc_at demo_run 0)"
proof -
  show pl: "placed 0 0 0 demo_run" using demo_run_facts(3) by (simp add: run_ok_def)
  show "myproc 0 demo_run = Some 0" "0 < length (k_procs demo_run)" using placedD(2,7,10) [OF pl] by (simp_all add: myproc_def)
  show "\<not> p_killed (proc_at demo_run 0)" using demo_run_facts(2,5) by (auto simp: kinv_def hale_def)
qed

definition demo_at :: "int \<Rightarrow> int \<Rightarrow> nat kstate" where
  "demo_at a b = upd_level 0 (\<lambda>x. x\<lparr>lq_ticks_left := b\<rparr>) (upd_proc 0 (\<lambda>x. x\<lparr>p_ticks_left := a\<rparr>) demo_run)"

lemma demo_at_facts:
  "kinv 0 (demo_at a b)" "run_ok 0 0 0 (demo_at a b)" "c_frame (cpus (demo_at a b) ! 0) = Some (0, 0, 0)" "k_active (demo_at a b) = 0" "\<not> p_killed (proc_at (demo_at a b) 0)"
  "p_ticks_left (proc_at (demo_at a b) 0) = a" "lq_ticks_left (level_at (demo_at a b) 0) = b"
  "\<And>r. r \<noteq> 0 \<Longrightarrow> level_at (demo_at a b) r = level_at demo_run r" "\<And>r. r < 2 * RSDL_LEVELS \<Longrightarrow> procs_of (demo_at a b) r = (if r = 0 then [0] else [])"
proof -
  note R = demo_run_facts
  have run: "run_ok 0 0 0 (demo_at a b)" and kp: "kept {} demo_run (demo_at a b)"
    using counters_ok [OF R(3), of "\<lambda>_. b" "\<lambda>_. a"] R(4) by (simp_all add: demo_at_def)
  show "run_ok 0 0 0 (demo_at a b)" by (rule run)
  have h: "hale (demo_at a b)" using R(2) hale_kept [OF _ kp] by (simp add: kinv_def)
  then show "kinv 0 (demo_at a b)" using run by (auto simp: kinv_def at_ok_modes(2) [symmetric])
  show "\<not> p_killed (proc_at (demo_at a b) 0)" using h R(5) by (auto simp: hale_def demo_at_def)
  have pl: "placed 0 0 0 demo_run" using R(3) by (simp add: run_ok_def)
  note P = placedD [OF pl]
  have ll: "0 < length (k_levels demo_run)" using lv_invD(2) [OF tinvD(1) [OF P(1)]] by simp
  show "c_frame (cpus (demo_at a b) ! 0) = Some (0, 0, 0)" "k_active (demo_at a b) = 0"
    "p_ticks_left (proc_at (demo_at a b) 0) = a" "lq_ticks_left (level_at (demo_at a b) 0) = b"
    "\<And>r. r \<noteq> 0 \<Longrightarrow> level_at (demo_at a b) r = level_at demo_run r"
    using P(4,7,10) R(4) ll by (simp_all add: demo_at_def)
  show "procs_of (demo_at a b) r = (if r = 0 then [0] else [])" if "r < 2 * RSDL_LEVELS" for r
    using R(8) [OF that] ll by (cases "r = 0") (simp_all add: demo_at_def procs_of_def lq_list_def)
qed

text \<open>A timer interrupt on the first CPU.\<close>

definition demo_tick :: "nat kstate \<Rightarrow> nat kstate result" where
  "demo_tick S = settle 0 (trap plain_ops \<lparr>dev_ideintr = Inr, dev_kbdintr = Inr, dev_uartintr = Inr\<rparr> (\<lambda>_. nullderef) 0 (tf_zero\<lparr>tf_trapno := 32\<rparr>) 0 S)"

end
