(* ===== verification/Policy.thy ===== *)
theory Policy
  imports Family Demo
begin

text \<open>
  The properties of the scheduler and of the process operations over whole runs: safety of
  every reachable step, the invariant of the process table and the levels, and the
  scheduling policy. Each is tried on a small kernel state: \<open>demo_boot\<close> after start-up,
  \<open>demo_run\<close> when the first process has been switched to, and \<open>demo_at a b\<close>, the same
  with the quanta of the process and of its level set to \<open>a\<close> and \<open>b\<close>.
\<close>

section \<open>Safety and invariant\<close>



text \<open>
  C2. In every reachable state the levels hold exactly the live processes, each of them once:
  a process is in a level if and only if it sleeps, is ready or runs. No level is over its
  capacity, at most the process of this CPU runs, and it is in the level that the CPU notes
  for it, which belongs to the active set.
\<close>

theorem reachable_levels:
  assumes "kreach ops S" "ops_sane ops"
  shows "distinct (queued S)
    \<and> (\<forall>i < NPROC. Some i \<in> set (queued S) \<longleftrightarrow> p_state (proc_at S i) \<in> {SLEEPING, RUNNABLE, RUNNING})
    \<and> (\<forall>q < 2 * RSDL_LEVELS. lq_numproc (level_at S q) \<le> NPROC)
    \<and> (\<forall>i < NPROC. p_state (proc_at S i) = RUNNING \<longleftrightarrow> myproc 0 S = Some i)
    \<and> (\<forall>p. myproc 0 S = Some p \<longrightarrow> (\<exists>q. c_queue (cpus S ! 0) = Some q \<and> is_active_set S q \<and> p \<in> set (procs_of S q)))"
proof -
  have inv: "kinv 0 S" by (rule kreach_kinv [OF assms])
  then obtain m where "at_ok 0 m S" by (auto simp: kinv_def)
  then have t: "tab 0 m S" by (simp add: at_ok_def)
  note T = tinvD [OF tabD(1) [OF t]] and D = lv_invD [OF T(1)]
  have my: "myproc 0 S = runs m" using tabD(2) [OF t] by (simp add: myproc_def)
  have "\<exists>q. c_queue (cpus S ! 0) = Some q \<and> is_active_set S q \<and> p \<in> set (procs_of S q)" if r: "myproc 0 S = Some p" for p
  proof -
    obtain k where "run_ok 0 p k S" using kinv_run [OF inv r] by blast
    then have "placed 0 p k S" by (simp add: run_ok_def)
    from placedD(3,5,6) [OF this] show ?thesis by (simp add: is_active_set_def)
  qed
  then show ?thesis using D(3,4) T(5,6) my by (auto simp: live_def lq_wf_def)
qed

theorem reachable_levels_witness:
  "distinct (queued demo_run) \<and> Some 0 \<in> set (queued demo_run) \<and> Some 1 \<notin> set (queued demo_run) \<and> p_state (proc_at demo_run 0) = RUNNING"
proof -
  note L = reachable_levels [OF demo_run_facts(1) plain_ops_ok(2)]
  have "p_state (proc_at demo_run 0) = RUNNING" "p_state (proc_at demo_run 1) = UNUSED"
    using demo_run_facts(6,7) by (simp_all add: proc_zero_def NPROC_def)
  moreover have "Some 0 \<in> set (queued demo_run) \<longleftrightarrow> p_state (proc_at demo_run 0) \<in> {SLEEPING, RUNNABLE, RUNNING}"
    "Some 1 \<in> set (queued demo_run) \<longleftrightarrow> p_state (proc_at demo_run 1) \<in> {SLEEPING, RUNNABLE, RUNNING}"
    using L by (simp_all add: NPROC_def)
  ultimately show ?thesis using L by simp
qed

section \<open>The scheduling policy\<close>

text \<open>
  C3. Who runs next: when the CPU is idle, the scheduler switches to the first ready process
  of the highest level of the active set that has quantum left and holds a ready process.
  It changes nothing but the state of that process, and notes the level.
\<close>

theorem dispatch_first:
  assumes "kinv c S" "myproc c S = None"
    and "k < RSDL_LEVELS" "procs_of S (k_active S + k) = xs @ p # ys" "0 < lq_ticks_left (level_at S (k_active S + k))"
    and "p_state (proc_at S p) = RUNNABLE" "\<forall>x \<in> set xs. p_state (proc_at S x) \<noteq> RUNNABLE"
    and "\<forall>j < k. lq_ticks_left (level_at S (k_active S + j)) \<le> 0 \<or> (\<forall>x \<in> set (procs_of S (k_active S + j)). p_state (proc_at S x) \<noteq> RUNNABLE)"
  shows "\<exists>S'. scheduler_pick c S = Inr (True, S') \<and> myproc c S' = Some p \<and> c_queue (cpus S' ! c) = Some (k_active S + k)
    \<and> k_procs S' = (k_procs S)[p := (proc_at S p)\<lparr>p_state := RUNNING\<rparr>] \<and> k_levels S' = k_levels S \<and> k_active S' = k_active S"
proof -
  have idle: "idle_ok c S" by (rule kinv_idle [OF assms(1,2)])
  then have q: "quiet c S" and t: "tinv None None S" by (simp_all add: idle_ok_def)
  have "p \<in> set (procs_of S (k_active S + k))" using assms(4) by simp
  then have "Some p \<in> set (queued S)" using in_queued_procs [OF tinvD(1) [OF t]] lv_invD(6) [OF tinvD(1) [OF t] assms(3)] by blast
  then have "p < NPROC" using tinv_queued_fit(1) [OF t] by blast
  then have "pickable S p" using idle_pickable(1) [OF t] assms(6) by blast
  then have "choice 0 S = Some (p, k_active S + k, k)"
    using assms(7,8) by (intro choice_first [OF assms(3-5)]) (auto simp: pickable_def)
  from scheduler_pick_found [OF q t this] show ?thesis by (auto simp: switched_def cur_def myproc_def)
qed

theorem dispatch_first_witness:
  "\<exists>S'. scheduler_pick 0 demo_boot = Inr (True, S') \<and> myproc 0 S' = Some 0"
proof -
  note B = demo_boot_facts
  have "myproc 0 demo_boot = None" using B(3) by (simp add: idle_ok_def cur_def myproc_def)
  then show ?thesis
    using dispatch_first [OF B(2), of 0 "[]" 0 "[]"] B(5,6) B(10) [of 0] by auto
qed

text \<open>
  C4. A ready process is never forgotten: if some process is ready while the CPU is idle,
  then the first or the second pass of the scheduler loop switches to a process. (The first
  pass can find all ready processes behind used-up quanta; it then exchanges the sets and
  renews the quanta, so that the next pass finds one.)
\<close>

theorem ready_dispatched:
  assumes inv: "kinv c S" "myproc c S = None" and p: "p < NPROC" "p_state (proc_at S p) = RUNNABLE"
  shows "\<exists>b S1. scheduler_pick c S = Inr (b, S1) \<and> (b \<or> (\<exists>S2. scheduler_pick c S1 = Inr (True, S2)))"
proof -
  have idle: "idle_ok c S" by (rule kinv_idle [OF inv])
  then have q: "quiet c S" and t: "tinv None None S" by (simp_all add: idle_ok_def)
  show ?thesis
  proof (cases "choice 0 S")
    case None
    obtain S3 S4 where S: "level_ctx c S3" "tinv None None S3" "k_procs S3 = k_procs S" "swap_sets c S3 = Inr S4" "tinv None None S4"
        "scheduler_pick c S = Inr (False, depart c PtableLock S4)" "quiet c (depart c PtableLock S4)"
      by (rule scheduler_pick_swap [OF q t None])
    have "choice 0 S4 \<noteq> None" using ready_after_swap [OF S(2,1) p(1) _ S(4,5)] p(2) S(3) by simp
    then obtain p' q' k' where "choice 0 S4 = Some (p', q', k')" by auto
    then have "choice 0 (depart c PtableLock S4) = Some (p', q', k')" using choice_cong [of "depart c PtableLock S4" S4 0] by simp
    from scheduler_pick_found [OF S(7) _ this] S(5) show ?thesis using S(6) by auto
  next
    case (Some pqk)
    then show ?thesis using scheduler_pick_found [OF q t] by (cases pqk) blast
  qed
qed

theorem ready_dispatched_witness:
  "\<exists>b S1. scheduler_pick 0 demo_boot = Inr (b, S1) \<and> (b \<or> (\<exists>S2. scheduler_pick 0 S1 = Inr (True, S2)))"
  using ready_dispatched [OF demo_boot_facts(2), of 0] demo_boot_facts(3,6) by (simp add: idle_ok_def cur_def myproc_def)

text \<open>
  C5. A tick while both quanta last: the running process keeps the CPU; the tick takes one off
  its quantum and one off the quantum of its level, advances the clock (on the first CPU) and
  wakes exactly the processes that sleep on \<open>ticks\<close>.
\<close>

theorem tick_runs_on:
  assumes inv: "kinv c S" "c_frame (cpus S ! c) = Some (p, q, k)" and tf: "tf_trapno tf = T_IRQ0 + IRQ_TIMER"
    and nk: "\<not> (p_killed (proc_at S p) \<and> from_user tf)" and quanta: "1 < p_ticks_left (proc_at S p)" "1 < lq_ticks_left (level_at S q)"
  shows "\<exists>S'. settle c (trap ops devs sys c tf cr2 S) = Inr S' \<and> myproc c S' = Some p
    \<and> p_ticks_left (proc_at S' p) = p_ticks_left (proc_at S p) - 1 \<and> lq_ticks_left (level_at S' q) = lq_ticks_left (level_at S q) - 1
    \<and> k_ticks S' = (if c = 0 then k_ticks S + 1 else k_ticks S) \<and> (\<forall>r. procs_of S' r = procs_of S r)
    \<and> (\<forall>i < NPROC. i \<noteq> p \<longrightarrow> proc_at S' i = (if c = 0 then wake_proc (Some Chan_ticks) (proc_at S i) else proc_at S i))"
proof -
  note R = kinv_frame [OF inv]
  have len: "length (k_procs S) = NPROC" using placedD(10) [of c p k S] R(1) by (simp add: run_ok_def)
  obtain S1 where S1: "run_ok c p k S1" "k_levels S1 = k_levels S" "k_active S1 = k_active S"
    "k_procs S1 = (if c = 0 then map (wake_proc (Some Chan_ticks)) (k_procs S) else k_procs S)" "proc_at S1 p = proc_at S p"
    "k_ticks S1 = (if c = 0 then k_ticks S + 1 else k_ticks S)"
    "settle c (trap ops devs sys c tf cr2 S) = (let (give_up, V) = charge p (k_active S + k) S1 in
       if give_up then bindE (yield c V) (scheduler_after c) else Inr V)" by (rule timer_charge [OF R(1) tf nk])
  let ?V = "snd (charge p (k_active S1 + k) S1)"
  note V = charge_sel [OF S1(1)] and C = charge_ok [OF S1(1)]
  have "\<not> fst (charge p (k_active S1 + k) S1)" using quanta V(9) S1(2,3,5) R(2) by simp
  then have "settle c (trap ops devs sys c tf cr2 S) = Inr ?V" using S1(3,7) by (simp add: split_beta Let_def)
  moreover have "myproc c ?V = Some p" using C(1) placedD(2) [of c p k ?V] by (simp add: run_ok_def myproc_def)
  moreover have "k_ticks ?V = k_ticks S1" by (simp add: charge_def Let_def)
  moreover have "procs_of S1 r = procs_of S r" for r by (simp add: procs_of_def S1(2))
  ultimately show ?thesis
    using V(1,2,3,7) S1(2-6) R(2) len by simp
qed

theorem tick_runs_on_witness:
  "\<exists>S'. demo_tick demo_run = Inr S'
     \<and> myproc 0 S' = Some 0 \<and> p_ticks_left (proc_at S' 0) = 19 \<and> lq_ticks_left (level_at S' 0) = 99"
proof -
  note R = demo_run_facts
  have f: "c_frame (cpus demo_run ! 0) = Some (0, 0, 0)" using R(3,4) placedD(4) [of 0 0 0 demo_run] by (simp add: run_ok_def)
  have "\<not> p_killed (proc_at demo_run 0)" using R(2,5) by (auto simp: kinv_def hale_def)
  then show ?thesis
    using tick_runs_on [OF R(2) f, of "tf_zero\<lparr>tf_trapno := 32\<rparr>" plain_ops "\<lparr>dev_ideintr = Inr, dev_kbdintr = Inr, dev_uartintr = Inr\<rparr>" "\<lambda>_. nullderef" 0] R(6) R(8) [of 0] demo_boot_facts(8)
    by (auto simp: trap_defs rsdl_defs demo_tick_def)
qed

text \<open>
  C6. A process that uses up its quantum steps down the staircase: it goes to the end of the
  next lower level of the active set that has quantum left, or, if there is none, to the end of
  its own default level in the expired set, with a full quantum. No other process moves.
\<close>

theorem tick_quantum_expiry:
  assumes inv: "kinv c S" "c_frame (cpus S ! c) = Some (p, q, k)" and tf: "tf_trapno tf = T_IRQ0 + IRQ_TIMER"
    and nk: "\<not> (p_killed (proc_at S p) \<and> from_user tf)" and quanta: "p_ticks_left (proc_at S p) = 1" "1 < lq_ticks_left (level_at S q)"
  shows "\<exists>S'. settle c (trap ops devs sys c tf cr2 S) = Inr S' \<and> p_state (proc_at S' p) = RUNNABLE
    \<and> p_ticks_left (proc_at S' p) = RSDL_PROC_QUANTUM
    \<and> (\<forall>r < 2 * RSDL_LEVELS. procs_of S' r = (if r = q then remove1 p (procs_of S q) else procs_of S r)
         @ (if r = tgt S (k + 1) (nat (p_default_level (proc_at S p))) then [p] else []))"
proof -
  note R = kinv_frame [OF inv]
  obtain S1 where S1: "run_ok c p k S1" "k_levels S1 = k_levels S" "k_active S1 = k_active S" "k_expired S1 = k_expired S" "proc_at S1 p = proc_at S p"
    "settle c (trap ops devs sys c tf cr2 S) = (let (give_up, V) = charge p (k_active S + k) S1 in
       if give_up then bindE (yield c V) (scheduler_after c) else Inr V)" by (rule timer_charge [OF R(1) tf nk])
  let ?V = "snd (charge p (k_active S1 + k) S1)"
  note V = charge_sel [OF S1(1)] and C = charge_ok [OF S1(1)]
  have ch: "fst (charge p (k_active S1 + k) S1)" using quanta V(9) S1(5) by simp
  have st: "settle c (trap ops devs sys c tf cr2 S) = bindE (yield c ?V) (scheduler_after c)" using S1(3,6) ch by (simp add: split_beta Let_def)
  have "0 < lq_ticks_left (level_at ?V (k_active ?V + k))" using V(2,5) quanta(2) S1(2,3) R(2) by simp
  from yield_alive [OF _ this] C(1) obtain S' where S': "bindE (yield c ?V) (scheduler_after c) = Inr S'" "p_state (proc_at S' p) = RUNNABLE"
    "p_ticks_left (proc_at S' p) = (if p_ticks_left (proc_at ?V p) \<le> 0 then RSDL_PROC_QUANTUM else p_ticks_left (proc_at ?V p))"
    "\<forall>r < 2 * RSDL_LEVELS. procs_of S' r = (if r = k_active ?V + k then remove1 p (procs_of ?V r) else procs_of ?V r)
          @ (if r = alive_tgt k ?V p then [p] else [])" by blast
  have "k_active ?V + k \<noteq> k_active ?V + j" if "Suc k \<le> j" for j using that by simp
  then have "tgt ?V (Suc k) d = tgt S (Suc k) d" for d
    using V(4,5,6) S1(2-4) by (intro tgt_cong_from) simp_all
  then have "alive_tgt k ?V p = tgt S (k + 1) (nat (p_default_level (proc_at S p)))"
    using V(1,8) quanta(1) S1(5) by (simp add: alive_tgt_def step_down_def)
  moreover have "procs_of ?V r = procs_of S r" for r using V(7) by (simp add: procs_of_def S1(2))
  ultimately show ?thesis using st S' V(1,5) quanta(1) S1(3,5) R(2) by simp
qed

theorem tick_quantum_expiry_witness:
  "\<exists>S'. demo_tick (demo_at 1 50) = Inr S'
     \<and> p_ticks_left (proc_at S' 0) = 20 \<and> procs_of S' 0 = [] \<and> procs_of S' 1 = [0]"
proof -
  note A = demo_at_facts
  have t: "tgt (demo_at 1 50) 1 d = 1" for d
    using tgt_here [of 1 "demo_at 1 50" d] A(4) A(8) [of 1 1 50] demo_run_facts(8) [of 1] by (simp add: rsdl_defs)
  obtain S' where S': "demo_tick (demo_at 1 50) = Inr S'"
    "p_ticks_left (proc_at S' 0) = RSDL_PROC_QUANTUM"
    "\<forall>r < 2 * RSDL_LEVELS. procs_of S' r = (if r = 0 then remove1 0 (procs_of (demo_at 1 50) 0) else procs_of (demo_at 1 50) r)
         @ (if r = tgt (demo_at 1 50) (0 + 1) (nat (p_default_level (proc_at (demo_at 1 50) 0))) then [0] else [])"
    using tick_quantum_expiry [OF A(1,3), of "tf_zero\<lparr>tf_trapno := 32\<rparr>" 1 50 plain_ops "\<lparr>dev_ideintr = Inr, dev_kbdintr = Inr, dev_uartintr = Inr\<rparr>" "\<lambda>_. nullderef" 0] A(5-7) by (auto simp: trap_defs demo_tick_def)
  have "procs_of (demo_at 1 50) 0 = [0]" "procs_of (demo_at 1 50) 1 = []" using A(9) by (simp_all add: rsdl_defs)
  then have "procs_of S' 0 = []" "procs_of S' 1 = [0]" using S'(3) t by (simp_all add: rsdl_defs)
  then show ?thesis using S'(1,2) by (auto simp: rsdl_defs)
qed

text \<open>
  C7. When the quantum of a level is used up, all its processes leave it in their order, the
  running one last: each goes to the end of the next lower active level that has quantum left, or
  of its own default level in the expired set, and gets a full quantum.
\<close>

theorem tick_level_expiry:
  assumes inv: "kinv c S" "c_frame (cpus S ! c) = Some (p, q, k)" and tf: "tf_trapno tf = T_IRQ0 + IRQ_TIMER"
    and nk: "\<not> (p_killed (proc_at S p) \<and> from_user tf)" and quanta: "lq_ticks_left (level_at S q) \<le> 1"
  shows "\<exists>S'. settle c (trap ops devs sys c tf cr2 S) = Inr S' \<and> p_state (proc_at S' p) = RUNNABLE
    \<and> (\<forall>i \<in> set (procs_of S q). p_ticks_left (proc_at S' i) = RSDL_PROC_QUANTUM)
    \<and> (\<forall>r < 2 * RSDL_LEVELS. procs_of S' r = (if r = q then [] else procs_of S r
         @ filter (\<lambda>x. tgt S (k + 1) (nat (p_default_level (proc_at S x))) = r) (remove1 p (procs_of S q) @ [p])))"
proof -
  note R = kinv_frame [OF inv]
  have pl: "placed c p k S" using R(1) by (simp add: run_ok_def)
  have len: "length (k_procs S) = NPROC" by (rule placedD(10) [OF pl])
  obtain S1 where S1: "run_ok c p k S1" "k_levels S1 = k_levels S" "k_active S1 = k_active S" "k_expired S1 = k_expired S"
    "k_procs S1 = (if c = 0 then map (wake_proc (Some Chan_ticks)) (k_procs S) else k_procs S)"
    "settle c (trap ops devs sys c tf cr2 S) = (let (give_up, V) = charge p (k_active S + k) S1 in
       if give_up then bindE (yield c V) (scheduler_after c) else Inr V)" by (rule timer_charge [OF R(1) tf nk])
  define V where "V = snd (charge p (k_active S1 + k) S1)"
  note V = charge_sel [OF S1(1), folded V_def] and C = charge_ok [OF S1(1), folded V_def]
  have ch: "fst (charge p (k_active S1 + k) S1)" using quanta V(9) S1(2,3) R(2) by simp
  have st: "settle c (trap ops devs sys c tf cr2 S) = bindE (yield c V) (scheduler_after c)" using S1(3,6) ch by (simp add: split_beta Let_def V_def)
  have "lq_ticks_left (level_at V (k_active V + k)) \<le> 0" using V(2,5) quanta S1(2,3) R(2) by simp
  from yield_depleted [OF _ this] C(1) obtain S' where S': "bindE (yield c V) (scheduler_after c) = Inr S'" "p_state (proc_at S' p) = RUNNABLE"
    "\<forall>i \<in> set (procs_of V (k_active V + k)). p_ticks_left (proc_at S' i) = RSDL_PROC_QUANTUM"
    "\<forall>r < 2 * RSDL_LEVELS. procs_of S' r = (if r = k_active V + k then [] else procs_of V r
          @ filter (\<lambda>x. step_down k V x = r) (remove1 p (procs_of V (k_active V + k)) @ [p]))" by blast
  have t: "tgt V (Suc k) d = tgt S (Suc k) d" for d
    using V(4,5,6) S1(2-4) by (intro tgt_cong_from) simp_all
  have d1: "p_default_level (proc_at S1 x) = p_default_level (proc_at S x)" if "x < NPROC" for x
    using S1(5) len that by (simp add: wake_proc_def)
  have "p_default_level (proc_at V x) = p_default_level (proc_at S x)" if "x < NPROC" for x
    using d1 [OF that] V(3) [of x] V(8) by (cases "x = p") simp_all
  then have sd: "step_down k V x = tgt S (k + 1) (nat (p_default_level (proc_at S x)))" if "x < NPROC" for x
    using t that by (simp add: step_down_def)
  have pr: "procs_of V r = procs_of S r" for r using V(7) by (simp add: procs_of_def S1(2))
  have q: "q < 2 * RSDL_LEVELS" using lv_invD(6) [OF tinvD(1) [OF placedD(1) [OF pl]] placedD(5) [OF pl]] R(2) by simp
  have "x < NPROC" if "x \<in> set (remove1 p (procs_of S q) @ [p])" for x
  proof -
    have "x \<in> set (procs_of S q)" using that placedD(6) [OF pl] R(2) set_remove1_subset by fastforce
    then show ?thesis using q in_queued_procs [OF tinvD(1) [OF placedD(1) [OF pl]]] tinv_queued_fit(1) [OF placedD(1) [OF pl]] by blast
  qed
  then have "filter (\<lambda>x. step_down k V x = r) (remove1 p (procs_of S q) @ [p])
      = filter (\<lambda>x. tgt S (k + 1) (nat (p_default_level (proc_at S x))) = r) (remove1 p (procs_of S q) @ [p])" for r
    using sd by (intro filter_cong refl) simp
  then show ?thesis using st S' V(5) S1(3) R(2) by (simp add: pr del: filter_append cong del: if_weak_cong)
qed

theorem tick_level_expiry_witness:
  "\<exists>S'. demo_tick (demo_at 7 1) = Inr S' \<and> p_ticks_left (proc_at S' 0) = 20 \<and> procs_of S' 0 = [] \<and> procs_of S' 1 = [0]"
proof -
  note A = demo_at_facts
  have t: "tgt (demo_at 7 1) 1 d = 1" for d
    using tgt_here [of 1 "demo_at 7 1" d] A(4) A(8) [of 1 7 1] demo_run_facts(8) [of 1] by (simp add: rsdl_defs)
  have pr: "procs_of (demo_at 7 1) 0 = [0]" "procs_of (demo_at 7 1) 1 = []" using A(9) by (simp_all add: rsdl_defs)
  obtain S' where S': "demo_tick (demo_at 7 1) = Inr S'"
    "\<forall>i \<in> set (procs_of (demo_at 7 1) 0). p_ticks_left (proc_at S' i) = RSDL_PROC_QUANTUM"
    "\<forall>r < 2 * RSDL_LEVELS. procs_of S' r = (if r = 0 then [] else procs_of (demo_at 7 1) r
         @ filter (\<lambda>x. tgt (demo_at 7 1) (0 + 1) (nat (p_default_level (proc_at (demo_at 7 1) x))) = r) (remove1 0 (procs_of (demo_at 7 1) 0) @ [0]))"
    using tick_level_expiry [OF A(1,3), of "tf_zero\<lparr>tf_trapno := 32\<rparr>" 7 1 plain_ops "\<lparr>dev_ideintr = Inr, dev_kbdintr = Inr, dev_uartintr = Inr\<rparr>" "\<lambda>_. nullderef" 0] A(5-7)
    unfolding demo_tick_def by (force simp: trap_defs)
  have "procs_of S' 0 = []" "procs_of S' 1 = [0]" using S'(3) t pr by (simp_all add: rsdl_defs)
  then show ?thesis using S'(1,2) pr by (auto simp: rsdl_defs)
qed

text \<open>
  C8. Round robin within a level: a process that gives up the CPU while both quanta last goes
  to the end of its level and keeps what is left of its quantum; the others keep their order.
\<close>

theorem yield_round_robin:
  assumes inv: "kinv c S" "c_frame (cpus S ! c) = Some (p, q, k)"
    and quanta: "0 < p_ticks_left (proc_at S p)" "0 < lq_ticks_left (level_at S q)"
  shows "\<exists>S'. bindE (yield c S) (scheduler_after c) = Inr S' \<and> kinv c S' \<and> myproc c S' = None \<and> p_state (proc_at S' p) = RUNNABLE
    \<and> p_ticks_left (proc_at S' p) = p_ticks_left (proc_at S p) \<and> (\<forall>i. i \<noteq> p \<longrightarrow> proc_at S' i = proc_at S i)
    \<and> procs_of S' q = remove1 p (procs_of S q) @ [p] \<and> (\<forall>r < 2 * RSDL_LEVELS. r \<noteq> q \<longrightarrow> procs_of S' r = procs_of S r)"
proof -
  note R = kinv_frame [OF inv]
  have pl: "placed c p k S" using R(1) by (simp add: run_ok_def)
  have q: "q < 2 * RSDL_LEVELS" using lv_invD(6) [OF tinvD(1) [OF placedD(1) [OF pl]] placedD(5) [OF pl]] R(2) by simp
  obtain S' where S': "bindE (yield c S) (scheduler_after c) = Inr S'" "p_state (proc_at S' p) = RUNNABLE"
    "p_ticks_left (proc_at S' p) = (if p_ticks_left (proc_at S p) \<le> 0 then RSDL_PROC_QUANTUM else p_ticks_left (proc_at S p))"
    "\<forall>i. i \<noteq> p \<longrightarrow> proc_at S' i = proc_at S i"
    "\<forall>r < 2 * RSDL_LEVELS. procs_of S' r = (if r = k_active S + k then remove1 p (procs_of S r) else procs_of S r)
          @ (if r = alive_tgt k S p then [p] else [])" using yield_alive [OF R(1)] quanta(2) R(2) by auto
  have "alive_tgt k S p = q" using quanta(1) R(2) by (simp add: alive_tgt_def)
  moreover obtain S'' where "bindE (yield c S) (scheduler_after c) = Inr S''" "idle_ok c S''" "kept {} S S''" using yield_ok [OF R(1)] by blast
  then have "idle_ok c S'" "kept {} S S'" using S'(1) by simp_all
  then have "kinv c S'" "myproc c S' = None"
    using inv(1) hale_kept at_ok_modes(1) [of c S'] by (auto simp: kinv_def idle_ok_def cur_def myproc_def)
  ultimately show ?thesis using S' quanta R(2) q by simp
qed

theorem yield_round_robin_witness:
  "\<exists>S'. bindE (yield 0 (demo_at 7 50)) (scheduler_after 0) = Inr S' \<and> p_ticks_left (proc_at S' 0) = 7 \<and> procs_of S' 0 = [0]"
  using yield_round_robin [OF demo_at_facts(1,3), of 7 50] demo_at_facts(6,7) [of 7 50] demo_at_facts(9) [of 0 7 50]
  by auto

text \<open>
  C9. The exchange of the sets: when no level of the active set with quantum left holds a ready
  process, the scheduler makes the expired set the active one. Every process of the old active
  set goes, in order, behind the ones that are already in its default level, with a full quantum;
  the new expired set is empty and all levels have full quanta.
\<close>

theorem sets_exchanged:
  assumes inv: "kinv c S" "myproc c S = None"
    and none: "\<forall>j < RSDL_LEVELS. lq_ticks_left (level_at S (k_active S + j)) \<le> 0 \<or> (\<forall>x \<in> set (procs_of S (k_active S + j)). p_state (proc_at S x) \<noteq> RUNNABLE)"
  defines "ys \<equiv> concat (map (\<lambda>j. procs_of S (k_active S + j)) [0..<RSDL_LEVELS])"
  shows "\<exists>S'. scheduler_pick c S = Inr (False, S') \<and> k_active S' = k_expired S \<and> k_expired S' = k_active S
    \<and> (\<forall>i < NPROC. proc_at S' i = (if i \<in> set ys then (proc_at S i)\<lparr>p_ticks_left := RSDL_PROC_QUANTUM\<rparr> else proc_at S i))
    \<and> (\<forall>j < RSDL_LEVELS. procs_of S' (k_active S' + j) = procs_of S (k_expired S + j) @ filter (\<lambda>x. p_default_level (proc_at S x) = int j) ys
         \<and> procs_of S' (k_expired S' + j) = [] \<and> lq_ticks_left (level_at S' (k_active S' + j)) = RSDL_LEVEL_QUANTUM
         \<and> lq_ticks_left (level_at S' (k_expired S' + j)) = RSDL_LEVEL_QUANTUM)"
proof -
  have idle: "idle_ok c S" by (rule kinv_idle [OF inv])
  then have q: "quiet c S" and t: "tinv None None S" by (simp_all add: idle_ok_def)
  have "choice 0 S = None"
  proof (rule ccontr)
    assume "choice 0 S \<noteq> None"
    then obtain p q' k where "choice 0 S = Some (p, q', k)" by auto
    from choice_SomeD [OF this] none show False by (auto simp: pickable_def)
  qed
  then obtain S3 S4 where S: "level_ctx c S3" "tinv None None S3" "k_procs S3 = k_procs S" "k_levels S3 = k_levels S"
    "k_active S3 = k_active S" "k_expired S3 = k_expired S" "swap_sets c S3 = Inr S4"
    "scheduler_pick c S = Inr (False, depart c PtableLock S4)" using scheduler_pick_swap [OF q t] by blast
  have pr: "procs_of S3 r = procs_of S r" "procs_of (depart c PtableLock S4) r = procs_of S4 r" for r by (simp_all add: procs_of_def S(4))
  from swap_levels_after [OF S(2,1)] show ?thesis
    using S(3,5-8) unfolding Let_def pr ys_def by (auto simp: pr)
qed

lemma demo_sleep:
  obtains S :: "nat kstate" where "kinv 0 S" "myproc 0 S = None" "\<forall>i < NPROC. p_state (proc_at S i) \<noteq> RUNNABLE" "p_state (proc_at S 0) = SLEEPING"
proof -
  note R = demo_run_facts
  obtain S1 S' where S': "bindE (sleep 0 (Some Chan_ticks) (Some TicksLock) S1) (scheduler_after 0) = Inr S'" "idle_ok 0 S'" "kept {} demo_run S'"
    "p_state (proc_at S' 0) = SLEEPING" "\<forall>i < NPROC. i \<noteq> 0 \<longrightarrow> p_state (proc_at S' i) = p_state (proc_at demo_run i)"
    using sleep_spec [OF R(3), of TicksLock "Some Chan_ticks"] by auto
  have "kinv 0 S'" using S'(2,3) R(2) hale_kept at_ok_modes(1) [of 0 S'] by (auto simp: kinv_def)
  moreover have "p_state (proc_at S' i) \<noteq> RUNNABLE" if "i < NPROC" for i
    using S'(4,5) R(7) [of i] that by (cases "i = 0") (simp_all add: proc_zero_def)
  ultimately show thesis using that S'(2,4) by (simp add: idle_ok_def cur_def myproc_def)
qed

theorem sets_exchanged_witness:
  "\<exists>S S' :: nat kstate. p_state (proc_at S 0) = SLEEPING \<and> scheduler_pick 0 S = Inr (False, S') \<and> k_active S' = k_expired S"
proof -
  obtain S :: "nat kstate" where S: "kinv 0 S" "myproc 0 S = None" "\<forall>i < NPROC. p_state (proc_at S i) \<noteq> RUNNABLE" "p_state (proc_at S 0) = SLEEPING"
    by (rule demo_sleep)
  then have t: "tinv None None S" using kinv_idle [OF S(1,2)] by (simp add: idle_ok_def)
  have "\<forall>x \<in> set (procs_of S (k_active S + j)). p_state (proc_at S x) \<noteq> RUNNABLE" if "j < RSDL_LEVELS" for j
    using S(3) tinv_queued_fit(1) [OF t] in_queued_procs [OF tinvD(1) [OF t]] lv_invD(6) [OF tinvD(1) [OF t] that] by blast
  then show ?thesis using sets_exchanged [OF S(1,2)] S(4) by blast
qed

section \<open>Sleeping and waking\<close>



section \<open>Creating processes\<close>

text \<open>
  C13. \<open>priofork(d)\<close>: if the level is legal, a slot and memory are there, the child gets the
  first unused slot, the next process number and a full quantum, inherits memory size, open
  files, directory and name, returns 0 in \<open>eax\<close>, and waits at the end of level \<open>d\<close> of the active set (of the next
  lower one with quantum left, or of level \<open>d\<close> of the expired set); no other process changes. Otherwise the call
  returns -1 and leaves the live processes and the levels as they were.
\<close>

theorem priofork_result:
  assumes "ops_return ops" "kinv c S" "myproc c S = Some p"
  shows "\<exists>r S'. priofork ops c d S = Inr (r, S') \<and> kinv c S' \<and> myproc c S' = Some p \<and>
    (if fork_room ops d p S then \<exists>np. r = k_nextpid S \<and> forked ops p d S S' np else r = -1 \<and> untouched S S')"
proof -
  obtain k where run: "run_ok c p k S" using kinv_run [OF assms(2,3)] by blast
  have h: "hale S" using assms(2) by (simp add: kinv_def)
  from priofork_spec [OF assms(1) run hale_cwd(2,1) [OF h run], of d] obtain r S' where S': "priofork ops c d S = Inr (r, S')" "run_ok c p k S'" "kept {} S S'"
    "if fork_room ops d p S then \<exists>np. r = k_nextpid S \<and> forked ops p d S S' np else r = -1 \<and> untouched S S'" by blast
  moreover have "kinv c S'" using S'(2) hale_kept [OF h S'(3)] by (auto simp: kinv_def at_ok_modes(2) [symmetric])
  moreover have "myproc c S' = Some p" using placedD(2) [of c p k S'] S'(2) by (simp add: run_ok_def myproc_def)
  ultimately show ?thesis by blast
qed

theorem priofork_result_witness:
  "\<exists>r S'. priofork plain_ops 0 1 demo_run = Inr (r, S') \<and> forked plain_ops 0 1 demo_run S' 1"
proof -
  note R = demo_run_facts
  have my: "myproc 0 demo_run = Some 0" using R(3) placedD(2) [of 0 0 0 demo_run] by (simp add: run_ok_def myproc_def)
  have "p_state (proc_at demo_run 0) \<noteq> UNUSED" "p_state (proc_at demo_run 1) = UNUSED" using R(6) R(7) [of 1] by (simp_all add: proc_zero_def NPROC_def)
  then have fu: "find_unused demo_run = Some 1" by (simp add: find_unused_def upt_conv_Cons NPROC_def)
  then have "fork_room plain_ops 1 0 demo_run" by (simp add: fork_room_def plain_ops_def rsdl_defs KERNBASE_def)
  then show ?thesis using priofork_result [OF plain_ops_ok(1) R(2) my, of 1] fu by (auto simp: forked_def)
qed

section \<open>Exit, wait, kill\<close>

text \<open>
  C14. \<open>exit\<close> of any process but \<open>init\<close> closes its files and directory, takes it out of its
  level and leaves a zombie; exactly its children are passed on to \<open>init\<close>, and a parent that
  sleeps in \<open>wait\<close> is woken.
\<close>

theorem exit_result:
  assumes "ops_return ops" "kinv c S" "myproc c S = Some p" "k_initproc S \<noteq> Some p"
  shows "\<exists>S'. exit ops c S = Inr S' \<and> p_state (proc_at S' p) = ZOMBIE \<and> set (p_ofile (proc_at S' p)) \<subseteq> {None} \<and> p_cwd (proc_at S' p) = None
    \<and> Some p \<notin> set (queued S')
    \<and> (\<forall>i < NPROC. p_parent (proc_at S' i) = (if p_parent (proc_at S i) = Some p then k_initproc S else p_parent (proc_at S i)))
    \<and> (\<forall>i < NPROC. p_state (proc_at S i) = SLEEPING \<longrightarrow> p_chan (proc_at S i) = map_option Chan_proc (p_parent (proc_at S p))
         \<longrightarrow> p_state (proc_at S' i) = RUNNABLE)"
proof -
  obtain k where run: "run_ok c p k S" using kinv_run [OF assms(2,3)] by blast
  have "hale S" using assms(2) by (simp add: kinv_def)
  from exit_spec [OF assms(1) run assms(4) hale_cwd(1) [OF this run]] show ?thesis .
qed

theorem exit_result_witness:
  "\<exists>S'. exit plain_ops 0 (demo_run\<lparr>k_initproc := None\<rparr>) = Inr S' \<and> p_state (proc_at S' 0) = ZOMBIE \<and> Some 0 \<notin> set (queued S')"
proof -
  note R = demo_run_facts
  let ?S = "demo_run\<lparr>k_initproc := None\<rparr>"
  have "run_ok 0 0 0 ?S" using R(3) quiet_cong [of ?S demo_run 0] placed_cong [of ?S demo_run 0 0 0] by (simp add: run_ok_def cur_def)
  moreover have "hale ?S" using R(2) by (simp add: kinv_def hale_def)
  ultimately have "kinv 0 ?S" "myproc 0 ?S = Some 0" by (rule kinv_runI)+
  from exit_result [OF plain_ops_ok(1) this] show ?thesis by auto
qed

text \<open>
  C15. \<open>wait\<close>: with a zombie child it frees the slot of the first one and returns its process
  number; with no child, or when the caller has been killed, it returns -1 and changes nothing;
  otherwise the caller sleeps on its own address, where the \<open>exit\<close> of a child finds it.
\<close>

theorem wait_result:
  assumes "ops_return ops" "kinv c S" "myproc c S = Some p"
  shows "case List.find (\<lambda>i. p_parent (proc_at S i) = Some p \<and> p_state (proc_at S i) = ZOMBIE) [0..<NPROC] of
      Some i \<Rightarrow> \<exists>S'. wait ops c S = Inr (Some (p_pid (proc_at S i)), S') \<and> p_state (proc_at S' i) = UNUSED \<and> p_parent (proc_at S' i) = None
         \<and> (\<forall>j. j \<noteq> i \<longrightarrow> proc_at S' j = proc_at S j) \<and> k_levels S' = k_levels S
    | None \<Rightarrow> if (\<forall>i < NPROC. p_parent (proc_at S i) \<noteq> Some p) \<or> p_killed (proc_at S p)
        then \<exists>S'. wait ops c S = Inr (Some (-1), S') \<and> k_procs S' = k_procs S \<and> k_levels S' = k_levels S
        else \<exists>S'. wait ops c S = Inr (None, S') \<and> p_state (proc_at S' p) = SLEEPING \<and> p_chan (proc_at S' p) = Some (Chan_proc p)
           \<and> (\<forall>j. j \<noteq> p \<longrightarrow> proc_at S' j = proc_at S j)"
proof -
  obtain k where "run_ok c p k S" using kinv_run [OF assms(2,3)] by blast
  then show ?thesis by (rule wait_spec [OF assms(1)])
qed

definition demo_zombie :: "nat kstate" where
  "demo_zombie = upd_proc 1 (\<lambda>x. x\<lparr>p_state := ZOMBIE, p_parent := Some 0, p_pid := 2\<rparr>) demo_run"

theorem wait_result_witness:
  "\<exists>S'. wait plain_ops 0 demo_zombie = Inr (Some 2, S') \<and> p_state (proc_at S' 1) = UNUSED"
proof -
  note R = demo_run_facts
  have dead: "\<not> live (proc_at demo_run 1)" "1 < NPROC" using R(7) [of 1] by (simp_all add: proc_zero_def live_def NPROC_def)
  have ok: "at_ok 0 (Some (0, 0)) demo_run" using R(3) by (simp add: at_ok_modes)
  have "tab 0 (Some (0, 0)) demo_zombie" unfolding demo_zombie_def
    using ok dead by (intro tab_dead) (simp_all add: at_ok_def live_def)
  then have ok': "at_ok 0 (Some (0, 0)) demo_zombie" using ok by (simp add: at_ok_def demo_zombie_def)
  have pl: "placed 0 0 0 demo_run" using R(3) by (simp add: run_ok_def)
  have "kept {} demo_run demo_zombie" unfolding demo_zombie_def
    using placedD(10) [OF pl] dead(1) R(5) by (intro kept_upd) (simp_all add: lost_def live_def)
  then have "kinv 0 demo_zombie" "myproc 0 demo_zombie = Some 0"
    using R(2) hale_kept ok' placedD(2) [OF pl] by (auto simp: kinv_def myproc_def demo_zombie_def)
  from wait_result [OF plain_ops_ok(1) this] show ?thesis
    using R(6) dead(2) placedD(8,10) [OF pl] by (auto simp: NPROC_def upt_conv_Cons demo_zombie_def)
qed

text \<open>
  C24. Process number 0 belongs to every unused slot. \<open>kill(0)\<close> therefore succeeds, marks an unused
  slot as killed, and the next process created in that slot is born killed.
\<close>

theorem kill_zero_marks_child:
  assumes ops: "ops_return ops" and inv: "kinv c S" "myproc c S = Some p" and np: "find_unused S = Some np"
    and zero: "List.find (\<lambda>i. p_pid (proc_at S i) = 0) [0..<NPROC] = Some np" "\<forall>i. k_initproc S = Some i \<longrightarrow> p_pid (proc_at S i) \<noteq> 0"
    and room: "fork_room ops d p S"
  shows "\<exists>S1 r S2. kill c 0 S = Inr (0, S1) \<and> priofork ops c d S1 = Inr (r, S2) \<and> p_state (proc_at S2 np) = RUNNABLE \<and> p_killed (proc_at S2 np)"
proof -
  obtain k where run: "run_ok c p k S" using kinv_run [OF inv] by blast
  then have pl: "placed c p k S" and ok: "at_ok c (Some (p, k)) S" by (simp_all add: run_ok_def at_ok_def tab_def)
  note P = placedD [OF pl] and N = find_unused_Some [OF np]
  have h: "hale S" using inv(1) by (simp add: kinv_def)
  obtain r0 S1 where S1: "kill c 0 S = Inr (r0, S1)" "at_ok c (Some (p, k)) S1" "kept {} S S1" using kill_ok [OF ok, of 0] zero(2) by blast
  obtain r1 S1' where S1': "kill c 0 S = Inr (r1, S1')" "r1 = 0" "k_procs S1' = (k_procs S)[np := (proc_at S np)\<lparr>p_killed := True, p_state := UNUSED\<rparr>]" "k_env S1' = k_env S"
    using kill_spec [OF ok, of 0] zero(1) N(2) by auto
  then have e: "r0 = 0" "k_procs S1 = (k_procs S)[np := (proc_at S np)\<lparr>p_killed := True, p_state := UNUSED\<rparr>]" "k_env S1 = k_env S" using S1(1) by simp_all
  have run1: "run_ok c p k S1" using S1(2) by (simp add: at_ok_modes)
  have np_p: "np \<noteq> p" using N(2) P(8) by auto
  have "p_state (proc_at S1 i) = p_state (proc_at S i)" for i
    using e(2) N P(10) by (cases "i = np") simp_all
  then have fu: "find_unused S1 = Some np" using np by (simp add: find_unused_def)
  have "fork_room ops d p S1" using room fu e(2,3) np_p by (simp add: fork_room_def)
  then obtain r S2 np' where "priofork ops c d S1 = Inr (r, S2)" "forked ops p d S1 S2 np'"
    using priofork_spec [OF ops run1 hale_cwd(2,1) [OF hale_kept [OF h S1(3)] run1], of d] by auto
  then show ?thesis using S1(1) e(1,2) fu N(1) P(10) by (auto simp: forked_def child_of_def)
qed


definition demo_pid :: "nat kstate" where
  "demo_pid = upd_proc 0 (\<lambda>x. x\<lparr>p_pid := 1\<rparr>) demo_run"

theorem kill_zero_marks_child_witness:
  "\<exists>S1 r S2. kill 0 0 demo_pid = Inr (0, S1) \<and> priofork plain_ops 0 1 S1 = Inr (r, S2) \<and> p_state (proc_at S2 1) = RUNNABLE \<and> p_killed (proc_at S2 1)"
proof -
  note R = demo_run_facts
  have pl: "placed 0 0 0 demo_run" using R(3) by (simp add: run_ok_def)
  have my: "myproc 0 demo_run = Some 0" "myproc 0 demo_pid = Some 0" using placedD(2) [OF pl] by (simp_all add: myproc_def demo_pid_def)
  have fit: "fit (proc_at demo_run 0)" "p_state (proc_at demo_run 0) = RUNNING" using placedD(8,9) [OF pl] by simp_all
  have "p_cwd (proc_at demo_run 0) \<noteq> None" using R(2) hale_cwd(1) [OF _ R(3)] by (simp add: kinv_def)
  then have "enabled 0 (E_self (\<lambda>x. x\<lparr>p_pid := 1\<rparr>)) demo_run" using my(1) fit by (simp add: enabled_def fit_def)
  moreover have "kexec plain_ops 0 (E_self (\<lambda>x. x\<lparr>p_pid := 1\<rparr>)) demo_run = Inr demo_pid" using my(1) by (simp add: kexec_def demo_pid_def)
  ultimately have "kreach plain_ops demo_pid" by (rule kr_step [OF R(1)])
  then have inv: "kinv 0 demo_pid" by (rule kreach_kinv [OF _ plain_ops_ok(2)])
  have p: "proc_at demo_pid 0 = (proc_at demo_run 0)\<lparr>p_pid := 1\<rparr>" "proc_at demo_pid 1 = proc_zero"
    using placedD(7,10) [OF pl] R(7) [of 1] by (simp_all add: demo_pid_def NPROC_def)
  then have "find_unused demo_pid = Some 1" "List.find (\<lambda>i. p_pid (proc_at demo_pid i) = 0) [0..<NPROC] = Some 1"
    using fit(2) by (simp_all add: find_unused_def upt_conv_Cons NPROC_def proc_zero_def)
  moreover from this(1) have "fork_room plain_ops 1 0 demo_pid" by (simp add: fork_room_def plain_ops_def rsdl_defs KERNBASE_def)
  moreover have "\<forall>i. k_initproc demo_pid = Some i \<longrightarrow> p_pid (proc_at demo_pid i) \<noteq> 0" using R(5) p(1) by (simp add: demo_pid_def)
  ultimately show ?thesis using kill_zero_marks_child [OF plain_ops_ok(1) inv my(2)] by blast
qed

end
