(* ===== verification/Monitor.thy ===== *)
theory Monitor
  imports Rsdl
begin

text \<open>
  Sections of kernel code under one spin lock other than \<open>ptable.lock\<close>, with \<open>wakeup\<close> and \<open>sleep\<close>
  inside: the pattern of pipes, sleep locks, the log and the console.

  A routine that may sleep is modelled as its section up to the point where it returns or calls
  \<open>sleep\<close>. \<open>Ret v\<close> is a return, \<open>Blocked x\<close> the state inside \<open>sched()\<close> with \<open>x\<close> what is left to do;
  when \<open>sleep\<close> returns it has taken the lock again, so that the routine goes on like one that starts on \<open>x\<close>.
\<close>

datatype ('a, 'b) sect = Ret 'a | Blocked 'b

section \<open>Inside the lock\<close>

definition held :: "nat \<Rightarrow> lockid \<Rightarrow> (nat \<times> nat) option \<Rightarrow> ('e, 'z) kstate_scheme \<Rightarrow> bool" where
  "held c lk mo S \<longleftrightarrow> lk \<noteq> PtableLock \<and> cpu_ok c S \<and> c_ncli (cpus S ! c) = 1 \<and> lock_held c lk S
     \<and> (\<forall>l. l \<noteq> lk \<longrightarrow> lock_free l S) \<and> tab c mo S"

lemma held_acquire:
  assumes "at_ok c mo S" "lk \<noteq> PtableLock"
  shows "acquire c lk S = Inr (enter c lk S)" "held c lk mo (enter c lk S)"
proof -
  have q: "quiet c S" and t: "tab c mo S" using assms(1) by (simp_all add: at_ok_def)
  have c: "c < length (cpus S)" "c_ncli (cpus S ! c) = 0" and fr: "\<And>l. lock_free l S" using q by (simp_all add: quiet_def cpu_ok_def)
  note A = acquire_quiet [OF q, of lk]
  show "acquire c lk S = Inr (enter c lk S)" by (rule A)
  have "tab c mo (enter c lk S)" using t tab_cong [of "enter c lk S" S c mo] A(3) by simp
  then show "held c lk mo (enter c lk S)"
    using c fr assms(2) by (auto simp: held_def enter_def pushcli_eq cpu_ok_def lock_held_def lock_free_def)
qed

lemma held_wakeup:
  assumes "held c lk mo S"
  shows "wakeup c ch S = Inr (wakeup1 ch S)" "held c lk mo (wakeup1 ch S)"
proof -
  have ok: "cpu_ok c S" "0 < c_ncli (cpus S ! c)" "lock_free PtableLock S" using assms by (auto simp: held_def)
  note N = nested_section [OF ok]
  have "wakeup1 ch S = (wakeup1 ch (enter c PtableLock S))\<lparr>cpus := cpus S, locks := locks S\<rparr>"
    by (simp add: wakeup1_def enter_def pushcli_def upd_lock_def upd_cpu_def Let_def)
  then show "wakeup c ch S = Inr (wakeup1 ch S)"
    using N(1) N(2) [of "wakeup1 ch (enter c PtableLock S)"] by (simp add: wakeup_def)
  show "held c lk mo (wakeup1 ch S)"
    using assms tab_wakeup1 [of c mo S ch] by (auto simp: held_def cpu_ok_def lock_held_def lock_free_def)
qed

lemma held_release:
  assumes "held c lk mo S"
  shows "release c lk S = Inr (depart c lk S)" "at_ok c mo (depart c lk S)" "enter c lk (depart c lk S) = S"
proof -
  have h: "cpu_ok c S" "c_ncli (cpus S ! c) = 1" "lock_held c lk S" "tab c mo S" and fr: "\<And>l. l \<noteq> lk \<Longrightarrow> lock_free l S"
    using assms by (auto simp: held_def)
  have c: "c < length (cpus S)" using h(1) by (simp add: cpu_ok_def)
  show "release c lk S = Inr (depart c lk S)" using release_eq [OF h(1), of lk] h(2,3) by (simp add: depart_def lock_held_def)
  have "quiet c (depart c lk S)" "cur c (depart c lk S) = cur c S"
    using c h fr by (auto simp: quiet_def depart_def cpu_ok_def lock_free_def cur_def)
  then show "at_ok c mo (depart c lk S)" using h(4) tab_cong [of "depart c lk S" S c mo] by (simp add: at_ok_def)
  have "\<not> c_if (cpus S ! c)" using h(1,2) by (auto simp: cpu_ok_def)
  then have "(cpus S ! c)\<lparr>c_if := False, c_ncli := 1\<rparr> = cpus S ! c" using h(2) by (cases "cpus S ! c") simp
  moreover have "locks S lk\<lparr>lk_locked := True, lk_cpu := Some c\<rparr> = locks S lk"
    using h(3) by (cases "locks S lk") (simp add: lock_held_def)
  ultimately show "enter c lk (depart c lk S) = S"
    using c h(2) by (simp add: enter_def depart_def pushcli_eq upd_lock_def upd_cpu_def)
qed

lemma held_sleep:
  assumes "held c lk (Some (p, k)) S"
  shows "\<exists>S1 S'. sleep c ch (Some lk) S = Inr S1 \<and> scheduler_after c S1 = Inr S' \<and> idle_ok c S' \<and> init_kept S S'
    \<and> p_state (proc_at S' p) = SLEEPING \<and> p_chan (proc_at S' p) = ch
    \<and> (\<forall>i < NPROC. i \<noteq> p \<longrightarrow> p_state (proc_at S' i) = p_state (proc_at S i))"
proof -
  note R = held_release [OF assms]
  have run: "run_ok c p k (depart c lk S)" and lk: "lk \<noteq> PtableLock" using R(2) assms by (simp_all add: at_ok_modes held_def)
  have "quiet c (depart c lk S)" using run by (simp add: run_ok_def)
  from acquire_quiet(1) [OF this, of lk] R(3) have "acquire c lk (depart c lk S) = Inr S" by simp
  with sleep_spec [OF run lk, of ch] obtain S' where S': "bindE (sleep c ch (Some lk) S) (scheduler_after c) = Inr S'" "idle_ok c S'"
    "init_kept (depart c lk S) S'" "p_state (proc_at S' p) = SLEEPING" "p_chan (proc_at S' p) = ch"
    "\<forall>i < NPROC. i \<noteq> p \<longrightarrow> p_state (proc_at S' i) = p_state (proc_at (depart c lk S) i)" by auto
  moreover have "init_kept S S'" using S'(3) by (rule kept_cong) simp_all
  ultimately show ?thesis by (auto elim: bindE_InrE)
qed

end
