(* ===== verification/Sleeplock.thy ===== *)
theory Sleeplock
  imports Monitor Demo
begin

text \<open>
  Sleep locks (\<^verbatim>\<open>sleeplock.c\<close>). They lie in the state \<open>'e\<close> of a part below the process table; a \<open>'e sleepref\<close> is what a pointer to one stands for:
  the spin lock and the channel that go with the address, and the way to read and write the lock in that state.

  \<open>acquiresleep\<close> is a section in the sense of Monitor. Code that runs on after it uses \<open>locksleep\<close>, in which waiting for another process
  is the error value \<open>Spin\<close>: that code is modelled for the executions that find their sleep locks free.

  The lemmas follow a process through such code: \<open>fctx c m pr S\<close> says that it runs on CPU \<open>c\<close> with interrupts on, no spin lock held and \<open>pr\<close> its
  entry in the process table; \<open>ends\<close> and \<open>gives\<close> that a call returns to such a point with a given state of the part below.
\<close>

record sleeplock =
  sl_locked :: bool
  sl_name :: string
  sl_pid :: int

record 'e sleepref =
  sr_lk :: lockid
  sr_chan :: chan
  sr_get :: "'e \<Rightarrow> sleeplock"
  sr_upd :: "(sleeplock \<Rightarrow> sleeplock) \<Rightarrow> 'e \<Rightarrow> 'e"

definition upd_env :: "('e \<Rightarrow> 'e) \<Rightarrow> ('e, 'z) kstate_scheme \<Rightarrow> ('e, 'z) kstate_scheme" where
  "upd_env f S = set_env (f (k_env S)) S"

definition initsleeplock :: "'e sleepref \<Rightarrow> string \<Rightarrow> ('e, 'z) kstate_scheme \<Rightarrow> ('e, 'z) kstate_scheme" where
  "initsleeplock r nm S =
     upd_env (sr_upd r (\<lambda>_. \<lparr>sl_locked = False, sl_name = nm, sl_pid = 0\<rparr>)) (initlock (sr_lk r) ''sleep lock'' S)"

definition acquiresleep :: "'e sleepref \<Rightarrow> nat \<Rightarrow> ('e, 'z) kstate_scheme \<Rightarrow> ((unit, unit) sect \<times> ('e, 'z) kstate_scheme) result" where
  "acquiresleep r c S =
     bindE (acquire c (sr_lk r) S) (\<lambda>S1.
     if sl_locked (sr_get r (k_env S1))
     then bindE (sleep c (Some (sr_chan r)) (Some (sr_lk r)) S1) (\<lambda>S2. Inr (Blocked (), S2))
     else case myproc c S1 of None \<Rightarrow> nullderef
       | Some p \<Rightarrow>
          bindE (release c (sr_lk r) (upd_env (sr_upd r (\<lambda>l. l\<lparr>sl_locked := True, sl_pid := p_pid (proc_at S1 p)\<rparr>)) S1)) (\<lambda>S2.
          Inr (Ret (), S2)))"

definition locksleep :: "'e sleepref \<Rightarrow> nat \<Rightarrow> ('e, 'z) kstate_scheme \<Rightarrow> ('e, 'z) kstate_scheme result" where
  "locksleep r c S = bindE (acquiresleep r c S) (\<lambda>(x, S1). case x of Ret _ \<Rightarrow> Inr S1 | Blocked _ \<Rightarrow> Inl Spin)"

definition releasesleep :: "'e sleepref \<Rightarrow> nat \<Rightarrow> ('e, 'z) kstate_scheme \<Rightarrow> ('e, 'z) kstate_scheme result" where
  "releasesleep r c S =
     bindE (acquire c (sr_lk r) S) (\<lambda>S1.
     bindE (wakeup c (Some (sr_chan r)) (upd_env (sr_upd r (\<lambda>l. l\<lparr>sl_locked := False, sl_pid := 0\<rparr>)) S1))
       (release c (sr_lk r)))"

definition holdingsleep :: "'e sleepref \<Rightarrow> nat \<Rightarrow> ('e, 'z) kstate_scheme \<Rightarrow> (bool \<times> ('e, 'z) kstate_scheme) result" where
  "holdingsleep r c S =
     bindE (acquire c (sr_lk r) S) (\<lambda>S1.
     if \<not> sl_locked (sr_get r (k_env S1)) then bindE (release c (sr_lk r) S1) (\<lambda>S2. Inr (False, S2))
     else case myproc c S1 of None \<Rightarrow> nullderef
       | Some p \<Rightarrow>
          let h = (sl_pid (sr_get r (k_env S1)) = p_pid (proc_at S1 p))
          in bindE (release c (sr_lk r) S1) (\<lambda>S2. Inr (h, S2)))"

section \<open>Following a process\<close>

definition fctx :: "nat \<Rightarrow> nat \<times> nat \<Rightarrow> proc \<Rightarrow> ('e, 'z) kstate_scheme \<Rightarrow> bool" where
  "fctx c m pr S \<longleftrightarrow> at_ok c (Some m) S \<and> proc_at S (fst m) = pr"

definition ends :: "nat \<Rightarrow> nat \<times> nat \<Rightarrow> proc \<Rightarrow> 'e \<Rightarrow> ('e, 'z) kstate_scheme result \<Rightarrow> bool" where
  "ends c m pr e res \<longleftrightarrow> (\<exists>S. res = Inr S \<and> fctx c m pr S \<and> k_env S = e)"

definition gives :: "nat \<Rightarrow> nat \<times> nat \<Rightarrow> proc \<Rightarrow> 'a \<Rightarrow> 'e \<Rightarrow> ('a \<times> ('e, 'z) kstate_scheme) result \<Rightarrow> bool" where
  "gives c m pr x e res \<longleftrightarrow> (\<exists>S. res = Inr (x, S) \<and> fctx c m pr S \<and> k_env S = e)"

lemma ends_bind:
  assumes "ends c m pr e res" "\<And>S. fctx c m pr S \<Longrightarrow> k_env S = e \<Longrightarrow> Q (f S)"
  shows "Q (bindE res f)"
  using assms by (auto simp: ends_def)

lemma gives_bind:
  assumes "gives c m pr x e res" "\<And>S. fctx c m pr S \<Longrightarrow> k_env S = e \<Longrightarrow> Q (f (x, S))"
  shows "Q (bindE res f)"
  using assms by (auto simp: gives_def)

lemma ends_Inr: "fctx c m pr S \<Longrightarrow> ends c m pr (k_env S) (Inr S)"
  by (simp add: ends_def)

lemma gives_Inr: "fctx c m pr S \<Longrightarrow> gives c m pr x (k_env S) (Inr (x, S))"
  by (simp add: gives_def)

lemma fctx_env [simp]: "fctx c m pr (set_env e S) = fctx c m pr S" "fctx c m pr (upd_env f S) = fctx c m pr S"
proof -
  show "fctx c m pr (set_env e S) = fctx c m pr S" for e
    using quiet_cong [of "set_env e S" S c] tab_cong [of "set_env e S" S c "Some m"] cur_cong [of "set_env e S" S c]
    by (simp add: fctx_def at_ok_def)
  then show "fctx c m pr (upd_env f S) = fctx c m pr S" by (simp add: upd_env_def)
qed

lemma upd_env_sel [simp]: "k_env (upd_env f S) = f (k_env S)" "k_procs (upd_env f S) = k_procs S" "cpus (upd_env f S) = cpus S"
  by (simp_all add: upd_env_def)

lemma held_env [simp]: "held c lk mo (upd_env f S) = held c lk mo S"
proof -
  have "tab c mo (upd_env f S) = tab c mo S"
    using tab_cong [of "upd_env f S" S c mo] cur_cong [of "upd_env f S" S c] by (simp add: upd_env_def)
  then show ?thesis by (simp add: held_def cpu_ok_def lock_held_def lock_free_def upd_env_def)
qed

lemma fctx_acquire:
  assumes "fctx c m pr S" "lk \<noteq> PtableLock"
  shows "\<exists>S1. acquire c lk S = Inr S1 \<and> held c lk (Some m) S1 \<and> proc_at S1 (fst m) = pr \<and> k_env S1 = k_env S"
  using held_acquire [of c "Some m" S lk] assms by (auto simp: fctx_def enter_def upd_lock_def)

lemma fctx_release:
  assumes "held c lk (Some m) S" "proc_at S (fst m) = pr"
  shows "ends c m pr (k_env S) (release c lk S)"
  using held_release [OF assms(1)] assms(2) by (auto simp: ends_def fctx_def depart_def upd_cpu_def upd_lock_def)

lemma held_myproc: "held c lk (Some m) S \<Longrightarrow> myproc c S = Some (fst m)"
  by (cases m) (auto simp: held_def tab_def placed_def cur_def myproc_def)

lemma held_running: "held c lk (Some m) S \<Longrightarrow> p_state (proc_at S (fst m)) = RUNNING \<and> fst m < length (k_procs S)"
  using placedD(7,8,10) [of c "fst m" "snd m" S] by (cases m) (auto simp: held_def tab_def)

lemma fctx_wakeup:
  assumes "held c lk (Some m) S" "proc_at S (fst m) = pr"
  shows "\<exists>S1. wakeup c ch S = Inr S1 \<and> held c lk (Some m) S1 \<and> proc_at S1 (fst m) = pr \<and> k_env S1 = k_env S"
  using held_wakeup [OF assms(1), of ch] held_running [OF assms(1)] assms(2)
  by (auto simp: wakeup1_def wake_proc_def)

text \<open>Between \<open>acquire\<close> and \<open>release\<close> of one spin lock.\<close>

lemma fctx_section:
  assumes "fctx c m pr S" "lk \<noteq> PtableLock"
  shows "ends c m pr (f (k_env S)) (bindE (acquire c lk S) (\<lambda>S1. release c lk (upd_env f S1)))"
    "gives c m pr (g (k_env S)) (f (k_env S)) (bindE (acquire c lk S) (\<lambda>S1. bindE (release c lk (upd_env f S1)) (\<lambda>S2. Inr (g (k_env S1), S2))))"
proof -
  obtain S1 where S1: "acquire c lk S = Inr S1" "held c lk (Some m) S1" "proc_at S1 (fst m) = pr" "k_env S1 = k_env S"
    using fctx_acquire [OF assms] by blast
  have "ends c m pr (f (k_env S)) (release c lk (upd_env f S1))" using fctx_release [of c lk m "upd_env f S1" pr] S1 by simp
  then show "ends c m pr (f (k_env S)) (bindE (acquire c lk S) (\<lambda>S1. release c lk (upd_env f S1)))"
    "gives c m pr (g (k_env S)) (f (k_env S)) (bindE (acquire c lk S) (\<lambda>S1. bindE (release c lk (upd_env f S1)) (\<lambda>S2. Inr (g (k_env S1), S2))))"
    using S1 by (auto simp: ends_def gives_def)
qed

section \<open>Taking and giving back\<close>

locale sleep_lock =
  fixes r :: "'e sleepref" and inside :: "'e \<Rightarrow> bool"
  assumes lk: "sr_lk r \<noteq> PtableLock"
    and get_upd: "inside e \<Longrightarrow> sr_get r (sr_upd r f e) = f (sr_get r e)"
begin

lemma lock_gives:
  assumes "fctx c m pr S" "inside (k_env S)" "\<not> sl_locked (sr_get r (k_env S))"
  shows "ends c m pr (sr_upd r (\<lambda>l. l\<lparr>sl_locked := True, sl_pid := p_pid pr\<rparr>) (k_env S)) (locksleep r c S)"
proof -
  obtain S1 where S1: "acquire c (sr_lk r) S = Inr S1" "held c (sr_lk r) (Some m) S1" "proc_at S1 (fst m) = pr" "k_env S1 = k_env S"
    using fctx_acquire [OF assms(1) lk] by blast
  then show ?thesis
    using fctx_release [of c "sr_lk r" m "upd_env (sr_upd r (\<lambda>l. l\<lparr>sl_locked := True, sl_pid := p_pid pr\<rparr>)) S1" pr] assms(3) held_myproc [OF S1(2)]
    by (auto simp: locksleep_def acquiresleep_def ends_def)
qed

lemma lock_busy:
  assumes "fctx c m pr S" "sl_locked (sr_get r (k_env S))"
  shows "\<exists>S1 S'. acquiresleep r c S = Inr (Blocked (), S1) \<and> scheduler_after c S1 = Inr S' \<and> idle_ok c S'
    \<and> p_state (proc_at S' (fst m)) = SLEEPING \<and> p_chan (proc_at S' (fst m)) = Some (sr_chan r)"
proof -
  obtain S1 where S1: "acquire c (sr_lk r) S = Inr S1" "held c (sr_lk r) (Some (fst m, snd m)) S1" "k_env S1 = k_env S"
    using fctx_acquire [OF assms(1) lk] by auto
  from held_sleep [OF S1(2), of "Some (sr_chan r)"] show ?thesis using S1(1,3) assms(2) by (auto simp: acquiresleep_def)
qed

lemma unlock_ends:
  assumes "fctx c m pr S"
  shows "ends c m pr (sr_upd r (\<lambda>l. l\<lparr>sl_locked := False, sl_pid := 0\<rparr>) (k_env S)) (releasesleep r c S)"
proof -
  let ?f = "sr_upd r (\<lambda>l. l\<lparr>sl_locked := False, sl_pid := 0\<rparr>)"
  obtain S1 where S1: "acquire c (sr_lk r) S = Inr S1" "held c (sr_lk r) (Some m) S1" "proc_at S1 (fst m) = pr" "k_env S1 = k_env S"
    using fctx_acquire [OF assms(1) lk] by blast
  then obtain S2 where S2: "wakeup c (Some (sr_chan r)) (upd_env ?f S1) = Inr S2" "held c (sr_lk r) (Some m) S2" "proc_at S2 (fst m) = pr"
    "k_env S2 = k_env (upd_env ?f S1)"
    using fctx_wakeup [of c "sr_lk r" m "upd_env ?f S1" pr] by auto
  then show ?thesis using fctx_release [OF S2(2,3)] S1 by (simp add: releasesleep_def)
qed

lemma holding_gives:
  assumes "fctx c m pr S"
  shows "gives c m pr (sl_locked (sr_get r (k_env S)) \<and> sl_pid (sr_get r (k_env S)) = p_pid pr) (k_env S) (holdingsleep r c S)"
proof -
  obtain S1 where S1: "acquire c (sr_lk r) S = Inr S1" "held c (sr_lk r) (Some m) S1" "proc_at S1 (fst m) = pr" "k_env S1 = k_env S"
    using fctx_acquire [OF assms(1) lk] by blast
  then show ?thesis using fctx_release [OF S1(2,3)] held_myproc [OF S1(2)] by (auto simp: holdingsleep_def ends_def gives_def Let_def)
qed

end

end
