(* ===== verification/KString.thy ===== *)
theory KString
  imports Prelude
begin

text \<open>
  Memory as an array of bytes over 32-bit addresses, the string instructions of
  \<^verbatim>\<open>x86.h\<close>, and the routines of \<^verbatim>\<open>string.c\<close> on it.

  Address arithmetic wraps. \<open>copied\<close> and \<open>filled\<close> say what a block copy and a
  block fill mean; \<open>cstr m a bs\<close> says that the bytes at \<open>a\<close> are \<open>bs\<close> (none of them NUL) with a
  terminating NUL. Loops that run until they meet a NUL may not end, and are partial functions.
\<close>

unbundle bit_operations_syntax

type_synonym addr = "32 word"
type_synonym byte = "8 word"
type_synonym bmem = "addr \<Rightarrow> byte"

section \<open>Words in memory\<close>

definition load32 :: "addr \<Rightarrow> bmem \<Rightarrow> 32 word" where
  "load32 a m = push_bit 24 (ucast (m (a + 3))) OR push_bit 16 (ucast (m (a + 2))) OR push_bit 8 (ucast (m (a + 1))) OR ucast (m a)"

definition store32 :: "addr \<Rightarrow> 32 word \<Rightarrow> bmem \<Rightarrow> bmem" where
  "store32 a w m = m(a := ucast w, a + 1 := ucast (drop_bit 8 w), a + 2 := ucast (drop_bit 16 w), a + 3 := ucast (drop_bit 24 w))"

fun stosb :: "addr \<Rightarrow> byte \<Rightarrow> nat \<Rightarrow> bmem \<Rightarrow> bmem" where
  "stosb a v 0 m = m"
| "stosb a v (Suc n) m = stosb (a + 1) v n (m(a := v))"

fun stosl :: "addr \<Rightarrow> 32 word \<Rightarrow> nat \<Rightarrow> bmem \<Rightarrow> bmem" where
  "stosl a v 0 m = m"
| "stosl a v (Suc n) m = stosl (a + 4) v n (store32 a v m)"

section \<open>The routines\<close>

definition memset :: "addr \<Rightarrow> 32 word \<Rightarrow> 32 word \<Rightarrow> bmem \<Rightarrow> bmem" where
  "memset dst c n m =
     (if dst mod 4 = 0 \<and> n mod 4 = 0
      then let c = c AND 0xFF
           in stosl dst (push_bit 24 c OR push_bit 16 c OR push_bit 8 c OR c) (unat (n div 4)) m
      else stosb dst (ucast c) (unat n) m)"

fun memcmp :: "bmem \<Rightarrow> addr \<Rightarrow> addr \<Rightarrow> nat \<Rightarrow> int" where
  "memcmp m s1 s2 0 = 0"
| "memcmp m s1 s2 (Suc n) = (if m s1 \<noteq> m s2 then uint (m s1) - uint (m s2) else memcmp m (s1 + 1) (s2 + 1) n)"

text \<open>The two loops of \<open>memmove\<close>: upwards from the start, downwards from the end.\<close>

fun copy_up :: "nat \<Rightarrow> addr \<Rightarrow> addr \<Rightarrow> bmem \<Rightarrow> bmem" where
  "copy_up 0 d s m = m"
| "copy_up (Suc n) d s m = copy_up n (d + 1) (s + 1) (m(d := m s))"

fun copy_down :: "nat \<Rightarrow> addr \<Rightarrow> addr \<Rightarrow> bmem \<Rightarrow> bmem" where
  "copy_down 0 d s m = m"
| "copy_down (Suc n) d s m = copy_down n (d - 1) (s - 1) (m(d - 1 := m (s - 1)))"

definition memmove :: "addr \<Rightarrow> addr \<Rightarrow> 32 word \<Rightarrow> bmem \<Rightarrow> bmem" where
  "memmove dst src n m =
     (if src < dst \<and> src + n > dst then copy_down (unat n) (dst + n) (src + n) m
      else copy_up (unat n) dst src m)"

definition memcpy :: "addr \<Rightarrow> addr \<Rightarrow> 32 word \<Rightarrow> bmem \<Rightarrow> bmem" where
  "memcpy dst src n m = memmove dst src n m"

fun strncmp :: "bmem \<Rightarrow> addr \<Rightarrow> addr \<Rightarrow> nat \<Rightarrow> int" where
  "strncmp m p q 0 = 0"
| "strncmp m p q (Suc n) =
     (if m p \<noteq> 0 \<and> m p = m q then strncmp m (p + 1) (q + 1) n else uint (m p) - uint (m q))"

text \<open>\<open>strncpy\<close>: the copying loop, and the loop that fills up with NULs.\<close>

fun strncpy_pad :: "nat \<Rightarrow> addr \<Rightarrow> bmem \<Rightarrow> bmem" where
  "strncpy_pad 0 s m = m"
| "strncpy_pad (Suc n) s m = strncpy_pad n (s + 1) (m(s := 0))"

fun strncpy_loop :: "nat \<Rightarrow> addr \<Rightarrow> addr \<Rightarrow> bmem \<Rightarrow> bmem" where
  "strncpy_loop 0 s t m = m"
| "strncpy_loop (Suc n) s t m =
     (let m1 = m(s := m t)
      in if m t \<noteq> 0 then strncpy_loop n (s + 1) (t + 1) m1 else strncpy_pad n (s + 1) m1)"

definition strncpy :: "addr \<Rightarrow> addr \<Rightarrow> int \<Rightarrow> bmem \<Rightarrow> bmem" where
  "strncpy s t n m = strncpy_loop (nat n) s t m"

text \<open>
  The loop of \<open>safestrcpy\<close> with the store after it; \<open>k\<close> is how often \<open>--n > 0\<close> can still hold.
  When the loop ends at a NUL, that NUL has been copied and the store writes one more.
\<close>

fun safestrcpy_loop :: "nat \<Rightarrow> addr \<Rightarrow> addr \<Rightarrow> bmem \<Rightarrow> bmem" where
  "safestrcpy_loop 0 s t m = m(s := 0)"
| "safestrcpy_loop (Suc k) s t m =
     (let m1 = m(s := m t)
      in if m t \<noteq> 0 then safestrcpy_loop k (s + 1) (t + 1) m1 else m1(s + 1 := 0))"

definition safestrcpy :: "addr \<Rightarrow> addr \<Rightarrow> int \<Rightarrow> bmem \<Rightarrow> bmem" where
  "safestrcpy s t n m = (if n \<le> 0 then m else safestrcpy_loop (nat n - 1) s t m)"

partial_function (option) strlen_loop :: "bmem \<Rightarrow> addr \<Rightarrow> nat \<Rightarrow> nat option" where
  "strlen_loop m s n = (if m (s + of_nat n) \<noteq> 0 then strlen_loop m s (n + 1) else Some n)"

definition strlen :: "bmem \<Rightarrow> addr \<Rightarrow> nat option" where
  "strlen m s = strlen_loop m s 0"

section \<open>Blocks of memory\<close>

definition copied :: "addr \<Rightarrow> addr \<Rightarrow> nat \<Rightarrow> bmem \<Rightarrow> bmem" where
  "copied d s n m = (\<lambda>x. if unat (x - d) < n then m (s + (x - d)) else m x)"

definition filled :: "addr \<Rightarrow> nat \<Rightarrow> byte \<Rightarrow> bmem \<Rightarrow> bmem" where
  "filled d n v m = (\<lambda>x. if unat (x - d) < n then v else m x)"

lemma unat_max: "unat (x :: 32 word) \<le> 2 ^ 32 - 1"
  using unsigned_less [where ?'a = nat, of x] by simp

text \<open>The distance from the next address.\<close>

lemma unat_next: "unat (x - (d + 1)) = (if x = d then 2 ^ 32 - 1 else unat (x - d) - 1)" for x d :: addr
proof (cases "x = d")
  case True
  then show ?thesis by (simp add: unsigned_minus_1_eq_mask mask_eq_exp_minus_1)
next
  case False
  then have "x - d \<noteq> 0" by simp
  then have "unat (x - d - 1) = unat (x - d) - 1" by (rule unat_minus_one)
  then show ?thesis using False by (simp add: algebra_simps)
qed

lemma unat_dist_pos: "x \<noteq> d \<Longrightarrow> 0 < unat (x - d)" for x d :: addr
  by (simp add: unat_gt_0)

lemma unat_dist_rev:
  fixes a b :: addr
  assumes "a \<noteq> b"
  shows "unat (a - b) + unat (b - a) = 2 ^ 32"
proof -
  have "(unat (a - b) + unat (b - a)) mod 2 ^ 32 = 0" using unat_word_ariths(1) [of "a - b" "b - a"] by simp
  moreover have "0 < unat (a - b)" using assms by (rule unat_dist_pos)
  moreover have "unat (a - b) < 2 ^ 32" "unat (b - a) < 2 ^ 32" using unat_max [of "a - b"] unat_max [of "b - a"] by simp_all
  ultimately show ?thesis by (cases "unat (a - b) + unat (b - a) < 2 ^ 32") (simp_all add: le_mod_geq)
qed

lemma block_next:
  fixes x d :: addr
  assumes "n < 2 ^ 32"
  shows "unat (x - (d + 1)) < n \<longleftrightarrow> x \<noteq> d \<and> unat (x - d) < Suc n"
  using assms unat_dist_pos [of x d] by (auto simp: unat_next)

lemma stosb_filled: "n \<le> 2 ^ 32 \<Longrightarrow> stosb a v n m = filled a n v m"
proof (induction n arbitrary: a m)
  case (Suc n)
  then show ?case by (auto simp: filled_def block_next)
qed (simp add: filled_def)

lemma copy_up_copied:
  assumes "n \<le> 2 ^ 32" "d = s \<or> n \<le> unat (d - s)"
  shows "copy_up n d s m = copied d s n m"
  using assms
proof (induction n arbitrary: d s m)
  case (Suc n)
  have "copy_up n (d + 1) (s + 1) (m(d := m s)) = copied (d + 1) (s + 1) n (m(d := m s))"
    using Suc.prems by (intro Suc.IH) auto
  moreover have "s + (x - d) \<noteq> d" if "x \<noteq> d" "unat (x - d) < Suc n" for x
  proof
    assume "s + (x - d) = d"
    then have e: "x - d = d - s" by (simp add: algebra_simps)
    then have "d \<noteq> s" using that(1) by auto
    then show False using Suc.prems(2) that(2) e by simp
  qed
  ultimately show ?case using Suc.prems(1) by (auto simp: copied_def block_next)
qed (simp add: copied_def)

lemma copy_down_copied:
  assumes "n \<le> 2 ^ 32" "d = s \<or> n \<le> unat (s - d)"
  shows "copy_down n (d + of_nat n) (s + of_nat n) m = copied d s n m"
  using assms
proof (induction n arbitrary: m)
  case (Suc n)
  have last: "unat (of_nat n :: addr) = n" using Suc.prems(1) by (simp add: unat_of_nat)
  let ?m = "m(d + of_nat n := m (s + of_nat n))"
  have e: "copy_down n (d + of_nat n) (s + of_nat n) ?m = copied d s n ?m"
    using Suc.prems by (intro Suc.IH) auto
  have "s + (x - d) \<noteq> d + of_nat n" if "unat (x - d) < n" for x
  proof
    assume "s + (x - d) = d + of_nat n"
    then have x: "s - d = of_nat n - (x - d)" by (simp add: algebra_simps)
    moreover have "unat (of_nat n - (x - d)) = n - unat (x - d)"
      using that last by (simp add: unat_sub word_le_nat_alt)
    ultimately have "unat (s - d) \<le> n" by (metis diff_le_self)
    then have "d = s" using Suc.prems(2) by auto
    then show False using x that last by auto
  qed
  moreover have "unat (x - d) = n \<longleftrightarrow> x = d + of_nat n" for x
    using last word_unat_eq_iff [of "x - d" "of_nat n"] by (auto simp: algebra_simps)
  ultimately have "copied d s n ?m = copied d s (Suc n) m" by (auto simp: copied_def less_Suc_eq)
  then show ?case using e by (simp add: algebra_simps)
qed (simp add: copied_def)


lemma store32_bytes:
  "store32 a w m a = ucast w" "store32 a w m (a + 1) = ucast (drop_bit 8 w)"
  "store32 a w m (a + 2) = ucast (drop_bit 16 w)" "store32 a w m (a + 3) = ucast (drop_bit 24 w)"
  by (simp_all add: store32_def)

lemma load_store32: "load32 a (store32 a w m) = w"
proof (rule bit_word_eqI)
  show "bit (load32 a (store32 a w m)) n = bit w n" if "n < LENGTH(32)" for n
    using that unfolding load32_def store32_bytes by (cases "n < 8"; cases "n < 16"; cases "n < 24") (auto simp: bit_simps)
qed

lemma store32_other: "4 \<le> unat (x - a) \<Longrightarrow> store32 a w m x = m x"
  by (auto simp: store32_def)

text \<open>Four equal bytes stored as a word.\<close>

lemma store32_filled:
  assumes "ucast w = v" "ucast (drop_bit 8 w) = v" "ucast (drop_bit 16 w) = v" "ucast (drop_bit 24 w) = v"
  shows "store32 a w m = filled a 4 v m"
proof -
  have "stosb a v 4 m = store32 a w m" using assms by (simp add: eval_nat_numeral store32_def add.assoc)
  then show ?thesis using stosb_filled [of 4 a v m] by simp
qed

lemma filled_twice:
  assumes "j + n \<le> 2 ^ 32"
  shows "filled (a + of_nat j) n v (filled a j v m) = filled a (j + n) v m"
proof (cases "j = 2 ^ 32")
  case False
  then have j: "unat (of_nat j :: addr) = j" using assms by (simp add: unat_of_nat)
  have "unat (x - (a + of_nat j)) < n \<and> \<not> unat (x - a) < j \<longleftrightarrow> unat (x - a) < j + n \<and> \<not> unat (x - a) < j" for x
  proof (cases "unat (x - a) < j")
    case False
    then have "unat (x - a - of_nat j) = unat (x - a) - j" using j by (simp add: unat_sub word_le_nat_alt)
    then show ?thesis using False by (auto simp: algebra_simps)
  qed simp
  moreover have "unat (x - a) < j \<Longrightarrow> unat (x - a) < j + n" for x by simp
  ultimately show ?thesis by (simp add: filled_def fun_eq_iff) blast
qed (use assms in \<open>simp add: filled_def\<close>)

lemma stosl_filled:
  assumes "\<And>a m. store32 a w m = filled a 4 v m" "4 * n \<le> 2 ^ 32"
  shows "stosl a w n m = filled a (4 * n) v m"
  using assms(2)
proof (induction n arbitrary: a m)
  case (Suc n)
  then show ?case using assms(1) filled_twice [of 4 "4 * n" a v m] by simp
qed (simp add: filled_def)

lemma memset_filled: "memset dst c n m = filled dst (unat n) (ucast c) m"
proof (cases "dst mod 4 = 0 \<and> n mod 4 = 0")
  case True
  let ?c = "c AND 0xFF :: 32 word"
  let ?w = "push_bit 24 ?c OR push_bit 16 ?c OR push_bit 8 ?c OR ?c"
  have c: "?c = take_bit 8 c" by (simp add: take_bit_eq_mask mask_eq_exp_minus_1)
  have w: "store32 a ?w m = filled a 4 (ucast c) m" for a m
    by (rule store32_filled; rule bit_word_eqI; unfold c; auto simp: bit_simps)
  have n: "4 * unat (n div 4) = unat n" using True unat_mod [of n 4] unat_div [of n 4] by (simp add: unat_eq_0 [symmetric]) presburger
  then have "stosl dst ?w (unat (n div 4)) m = filled dst (4 * unat (n div 4)) (ucast c) m"
    using unat_max [of n] by (intro stosl_filled w) linarith
  then show ?thesis using True n by (simp add: memset_def Let_def)
next
  case False
  then show ?thesis using stosb_filled [of "unat n" dst "ucast c" m] unat_max [of n] by (auto simp: memset_def)
qed

text \<open>\<open>memmove\<close> copies as if through a buffer, whether or not the regions overlap.\<close>

lemma memmove_copied:
  assumes "unat src + unat n < 2 ^ 32" "unat dst + unat n \<le> 2 ^ 32"
  shows "memmove dst src n m = copied dst src (unat n) m"
proof -
  have sn: "unat (src + n) = unat src + unat n" using assms(1) by (simp add: unat_word_ariths)
  have up: "unat (a - b) = unat a - unat b" if "b \<le> a" for a b :: addr using that by (rule unat_sub)
  have wrap: "unat (b - a) = 2 ^ 32 - (unat a - unat b)" if "b < a" for a b :: addr
    using unat_dist_rev [of b a] up [OF less_imp_le [OF that]] that by (simp add: word_less_nat_alt less_imp_neq [OF that])
  show ?thesis
  proof (cases "src < dst \<and> src + n > dst")
    case True
    then have "unat n \<le> unat (src - dst)" using wrap [of src dst] assms(2) sn by (simp add: word_less_nat_alt)
    then show ?thesis using True copy_down_copied [of "unat n" dst src m] unat_max [of n] by (simp add: memmove_def)
  next
    case False
    then have "dst = src \<or> unat n \<le> unat (dst - src)"
      using wrap [of dst src] up [of src dst] assms(1) sn by (cases dst src rule: linorder_cases) (auto simp: word_less_nat_alt word_le_nat_alt)
    then show ?thesis using False copy_up_copied [of "unat n" dst src m] unat_max [of n] by (auto simp: memmove_def)
  qed
qed

section \<open>Strings\<close>

fun cstr :: "bmem \<Rightarrow> addr \<Rightarrow> byte list \<Rightarrow> bool" where
  "cstr m a [] = (m a = 0)"
| "cstr m a (b # bs) = (m a = b \<and> b \<noteq> 0 \<and> cstr m (a + 1) bs)"

text \<open>The \<open>n\<close> bytes at \<open>s\<close> do not meet the \<open>k\<close> bytes at \<open>t\<close>.\<close>

definition apart :: "addr \<Rightarrow> nat \<Rightarrow> addr \<Rightarrow> nat \<Rightarrow> bool" where
  "apart s n t k \<longleftrightarrow> (\<forall>i < k. n \<le> unat (t + of_nat i - s))"

lemma apartD: "apart s n t k \<Longrightarrow> i < k \<Longrightarrow> n \<le> unat (t + of_nat i - s)"
  by (simp add: apart_def)

lemma apart_Suc:
  assumes "apart s (Suc n) t (Suc k)"
  shows "apart (s + 1) n (t + 1) k"
proof -
  have "n \<le> unat (t + 1 + of_nat i - (s + 1))" if "i < k" for i
    using apartD [OF assms, of "Suc i"] that unat_next [of "t + 1 + of_nat i" s] by (auto simp: algebra_simps split: if_splits)
  then show ?thesis by (simp add: apart_def)
qed

lemma apart_neq: "apart s (Suc n) t (Suc k) \<Longrightarrow> i \<le> k \<Longrightarrow> t + of_nat i \<noteq> s"
  by (drule apartD [where i = i]) auto

lemma cstr_cong:
  assumes "\<And>i. i \<le> length bs \<Longrightarrow> m' (a + of_nat i) = m (a + of_nat i)"
  shows "cstr m' a bs = cstr m a bs"
  using assms
proof (induction bs arbitrary: a)
  case (Cons b bs)
  have "m' (a + 1 + of_nat i) = m (a + 1 + of_nat i)" if "i \<le> length bs" for i
    using Cons.prems [of "Suc i"] that by (simp add: algebra_simps)
  then have "cstr m' (a + 1) bs = cstr m (a + 1) bs" by (rule Cons.IH)
  then show ?case using Cons.prems [of 0] by simp
qed (use assms [of 0] in simp)

lemma cstr_write:
  assumes "cstr m t bs" "\<And>i. i \<le> length bs \<Longrightarrow> t + of_nat i \<noteq> s"
  shows "cstr (m(s := v)) t bs"
  using assms(1) cstr_cong [of bs "m(s := v)" t m] assms(2) by auto

lemma cstr_apart: "cstr m t bs \<Longrightarrow> apart s (Suc n) t (Suc (length bs)) \<Longrightarrow> cstr (m(s := v)) t bs"
  by (rule cstr_write) (auto dest: apart_neq)

lemma strlen_loop_cstr: "cstr m (s + of_nat n) bs \<Longrightarrow> strlen_loop m s n = Some (n + length bs)"
proof (induction bs arbitrary: n)
  case Nil
  then show ?case by (subst strlen_loop.simps) simp
next
  case (Cons b bs)
  then show ?case using Cons.IH [of "Suc n"] by (subst strlen_loop.simps) (simp add: algebra_simps)
qed

lemma strlen_cstr: "cstr m s bs \<Longrightarrow> strlen m s = Some (length bs)"
  using strlen_loop_cstr [of m s 0 bs] by (simp add: strlen_def)

lemma strncmp_cstr:
  assumes "cstr m p ps" "cstr m q qs"
  shows "strncmp m p q n = 0 \<longleftrightarrow> take n ps = take n qs"
  using assms
proof (induction n arbitrary: p q ps qs)
  case (Suc n)
  then show ?case using Suc.IH [of "p + 1" "tl ps" "q + 1" "tl qs"] by (cases ps; cases qs) (auto simp: word_uint_eq_iff [symmetric] unsigned_eq_0_iff)
qed simp

lemma safestrcpy_loop_cstr:
  assumes "cstr m t bs" "apart s (Suc k) t (Suc (length bs))" "Suc k < 2 ^ 32"
  shows "cstr (safestrcpy_loop k s t m) s (take k bs) \<and> (\<forall>x. Suc k \<le> unat (x - s) \<longrightarrow> safestrcpy_loop k s t m x = m x)"
  using assms
proof (induction k arbitrary: s t m bs)
  case 0
  then show ?case by auto
next
  case (Suc k)
  show ?case
  proof (cases bs)
    case Nil
    then show ?thesis using Suc.prems(1) by (auto simp: Let_def)
  next
    case (Cons b cs)
    let ?m = "m(s := b)"
    have m: "m t = b" "b \<noteq> 0" "cstr m (t + 1) cs" using Suc.prems(1) Cons by simp_all
    have ap: "apart (s + 1) (Suc k) (t + 1) (Suc (length cs))" using apart_Suc [OF Suc.prems(2)] Cons by simp
    have "t + 1 + of_nat i \<noteq> s" if "i \<le> length cs" for i
      using apart_neq [OF Suc.prems(2), of "Suc i"] that Cons by (simp add: algebra_simps)
    then have "cstr ?m (t + 1) cs" by (rule cstr_write [OF m(3)])
    note this = Suc.IH [OF this ap]
    then have IH: "cstr (safestrcpy_loop k (s + 1) (t + 1) ?m) (s + 1) (take k cs)"
      "\<And>x. Suc k \<le> unat (x - (s + 1)) \<Longrightarrow> safestrcpy_loop k (s + 1) (t + 1) ?m x = ?m x"
      using Suc.prems(3) by (simp_all del: fun_upd_apply)
    have "safestrcpy_loop k (s + 1) (t + 1) ?m s = b" using IH(2) [of s] unat_next [of s s] Suc.prems(3) by simp
    moreover have "safestrcpy_loop k (s + 1) (t + 1) ?m x = m x" if "Suc (Suc k) \<le> unat (x - s)" for x
      using IH(2) [of x] that by (cases "x = s") (simp_all add: unat_next)
    ultimately show ?thesis using m IH(1) Cons by (simp add: Let_def)
  qed
qed

lemma strncpy_pad_filled: "n \<le> 2 ^ 32 \<Longrightarrow> strncpy_pad n s m = filled s n 0 m"
proof -
  have "strncpy_pad n s m = stosb s 0 n m" by (induction n arbitrary: s m) simp_all
  then show "n \<le> 2 ^ 32 \<Longrightarrow> strncpy_pad n s m = filled s n 0 m" using stosb_filled by simp
qed

text \<open>The field that \<open>strncpy\<close> leaves: the string, cut off or filled up to the length.\<close>

definition field_at :: "addr \<Rightarrow> nat \<Rightarrow> byte list \<Rightarrow> bmem \<Rightarrow> bmem" where
  "field_at s n bs m = (\<lambda>x. if unat (x - s) < n then if unat (x - s) < length bs then bs ! unat (x - s) else 0 else m x)"

lemma field_at_Nil: "field_at s n [] m = filled s n 0 m"
  by (simp add: field_at_def filled_def fun_eq_iff)

lemma strncpy_loop_field:
  assumes "cstr m t bs" "apart s n t (Suc (length bs))" "n < 2 ^ 32"
  shows "strncpy_loop n s t m = field_at s n bs m"
  using assms
proof (induction n arbitrary: s t m bs)
  case (Suc n)
  show ?case
  proof (cases bs)
    case Nil
    then have "m t = 0" using Suc.prems(1) by simp
    moreover have "filled (s + 1) n 0 (m(s := 0)) = filled s (Suc n) 0 m"
      using Suc.prems(3) by (auto simp: filled_def fun_eq_iff block_next)
    ultimately show ?thesis using Nil Suc.prems(3) strncpy_pad_filled [of n "s + 1" "m(s := 0)"]
      by (simp add: Let_def field_at_Nil)
  next
    case (Cons b cs)
    have m: "m t = b" "b \<noteq> 0" "cstr m (t + 1) cs" using Suc.prems(1) Cons by simp_all
    have "t + 1 + of_nat i \<noteq> s" if "i \<le> length cs" for i
      using apart_neq [OF Suc.prems(2), of "Suc i"] that Cons by (simp add: algebra_simps)
    then have c: "cstr (m(s := b)) (t + 1) cs" by (rule cstr_write [OF m(3)])
    have "strncpy_loop n (s + 1) (t + 1) (m(s := b)) = field_at (s + 1) n cs (m(s := b))"
      using Suc.prems(3) apart_Suc [OF Suc.prems(2)] Cons by (intro Suc.IH [OF c]) simp_all
    moreover have "field_at (s + 1) n cs (m(s := b)) x = field_at s (Suc n) bs m x" for x
      using Suc.prems(3) Cons unat_dist_pos [of x s] by (cases "x = s") (auto simp: field_at_def unat_next nth_Cons')
    ultimately show ?thesis using m by (simp add: Let_def fun_eq_iff)
  qed
qed (simp add: field_at_def)

section \<open>What the routines do\<close>

text \<open>
  C25. \<open>memmove\<close> copies as if through a buffer, however the two blocks overlap: afterwards the
  \<open>n\<close> bytes at \<open>dst\<close> are the ones that were at \<open>src\<close>, and no other byte has changed. \<open>memset\<close> sets
  exactly the \<open>n\<close> bytes at \<open>dst\<close>, on its path with word stores as on the one with byte stores.
\<close>

theorem memmove_memset:
  assumes "unat src + unat n < 2 ^ 32" "unat dst + unat n \<le> 2 ^ 32"
  shows "memmove dst src n m x = (if unat (x - dst) < unat n then m (src + (x - dst)) else m x)
    \<and> memset dst c n m x = (if unat (x - dst) < unat n then ucast c else m x)"
  using memmove_copied [OF assms] memset_filled [of dst c n m] by (simp add: copied_def filled_def)

theorem memmove_memset_witness:
  "memmove 1002 1000 8 (\<lambda>a. ucast a) 1005 = ucast (1003 :: addr) \<and> memset 1000 0x101 8 (\<lambda>a. 7) 1007 = 1"
  using memmove_memset [of 1000 8 1002 "\<lambda>a. ucast a" 1005 0] memmove_memset [of 0 8 1000 "\<lambda>a. 7" 1007 "0x101"] by simp

text \<open>
  C26. \<open>safestrcpy\<close> into a buffer of \<open>n\<close> bytes always leaves a terminated string, the source cut off
  after \<open>n - 1\<close> characters, and writes nothing outside the buffer.
\<close>

theorem safestrcpy_cstr:
  assumes "cstr m t bs" "0 < n" "n < 2 ^ 31" "apart s (nat n) t (Suc (length bs))"
  shows "cstr (safestrcpy s t n m) s (take (nat n - 1) bs) \<and> (\<forall>x. nat n \<le> unat (x - s) \<longrightarrow> safestrcpy s t n m x = m x)"
proof -
  obtain k where k: "nat n = Suc k" using assms(2) by (cases "nat n") auto
  then have "Suc k < 2 ^ 32" using assms(3) by simp
  from safestrcpy_loop_cstr [OF assms(1) _ this] show ?thesis using assms(2,4) k by (simp add: safestrcpy_def)
qed

theorem safestrcpy_cstr_witness:
  "cstr (safestrcpy 100 200 3 ((\<lambda>_. 0)(200 := 120, 201 := 121, 202 := 122, 203 := 123))) 100 [120, 121]"
proof -
  let ?m = "(\<lambda>_. 0)(200 := 120, 201 := 121, 202 := 122, 203 := 123) :: bmem"
  have "cstr ?m 200 [120, 121, 122, 123]" by simp
  moreover have "3 \<le> unat (200 + of_nat i - 100 :: addr)" if "i < 5" for i
  proof -
    have "i = 0 \<or> i = 1 \<or> i = 2 \<or> i = 3 \<or> i = 4" using that by linarith
    then show ?thesis by (elim disjE) simp_all
  qed
  then have "apart 100 (nat 3) 200 (Suc (length [120, 121, 122, 123 :: byte]))" by (simp add: apart_def)
  ultimately show ?thesis using safestrcpy_cstr [of ?m 200 "[120, 121, 122, 123]" 3 100] by simp
qed

end
