(* ===== verification/Bio.thy ===== *)
theory Bio
  imports Sleeplock KString
begin

text \<open>
  The buffer cache (\<^verbatim>\<open>bio.c\<close>) on the disk in memory (\<^verbatim>\<open>memide.c\<close>). A block is a list of \<open>BSIZE\<close> bytes; \<open>f_lru\<close> is the list through \<open>next\<close> from
  \<open>bcache.head\<close>, most recently used first, as positions in \<open>bcache.buf\<close>. \<open>f_writes\<close> records the writes that the disk
  has carried out, in order; no code reads it.
\<close>

unbundle bit_operations_syntax

definition BSIZE :: nat where "BSIZE = 512"
definition B_VALID :: "32 word" where "B_VALID = 0x2"
definition B_DIRTY :: "32 word" where "B_DIRTY = 0x4"

type_synonym block = "byte list"

record buf =
  b_flags :: "32 word"
  b_dev :: "32 word"
  b_blockno :: "32 word"
  b_lock :: sleeplock
  b_refcnt :: "32 word"
  b_data :: block

record bcache =
  f_disk :: "block list"
  f_writes :: "(nat \<times> block) list"
  f_buf :: "buf list"
  f_lru :: "nat list"

abbreviation buf_at :: "'x bcache_scheme \<Rightarrow> nat \<Rightarrow> buf" where
  "buf_at e i \<equiv> f_buf e ! i"

definition upd_buf :: "nat \<Rightarrow> (buf \<Rightarrow> buf) \<Rightarrow> 'x bcache_scheme \<Rightarrow> 'x bcache_scheme" where
  "upd_buf i f e = e\<lparr>f_buf := (f_buf e)[i := f (buf_at e i)]\<rparr>"

definition BcacheLock :: lockid where "BcacheLock = OtherLock 2"

definition buf_lock :: "nat \<Rightarrow> ('x bcache_scheme) sleepref" where
  "buf_lock i = \<lparr>sr_lk = OtherLock (100 + i), sr_chan = Chan_addr (100 + i), sr_get = (\<lambda>e. b_lock (buf_at e i)),
     sr_upd = (\<lambda>f. upd_buf i (\<lambda>b. b\<lparr>b_lock := f (b_lock b)\<rparr>))\<rparr>"

section \<open>The disk\<close>

definition iderw :: "nat \<Rightarrow> nat \<Rightarrow> ('x bcache_scheme, 'z) kstate_scheme \<Rightarrow> ('x bcache_scheme, 'z) kstate_scheme result" where
  "iderw c i S =
     bindE (holdingsleep (buf_lock i) c S) (\<lambda>(h, S1).
     if \<not> h then panic ''iderw: buf not locked''
     else let e = k_env S1; b = buf_at e i; n = unat (b_blockno b)
       in if b_flags b AND (B_VALID OR B_DIRTY) = B_VALID then panic ''iderw: nothing to do''
          else if b_dev b \<noteq> 1 then panic ''iderw: request not for disk 1''
          else if n \<ge> length (f_disk e) then panic ''iderw: block out of range''
          else if b_flags b AND B_DIRTY \<noteq> 0
          then Inr (upd_env (\<lambda>e. upd_buf i (\<lambda>b. b\<lparr>b_flags := b_flags b AND NOT B_DIRTY OR B_VALID\<rparr>)
                 (e\<lparr>f_disk := (f_disk e)[n := b_data b], f_writes := f_writes e @ [(n, b_data b)]\<rparr>)) S1)
          else Inr (upd_env (\<lambda>e. upd_buf i (\<lambda>b. b\<lparr>b_data := f_disk e ! n, b_flags := b_flags b OR B_VALID\<rparr>) e) S1))"

section \<open>The cache\<close>

fun binit_loop :: "nat list \<Rightarrow> ('x bcache_scheme, 'z) kstate_scheme \<Rightarrow> ('x bcache_scheme, 'z) kstate_scheme" where
  "binit_loop [] S = S"
| "binit_loop (i # is) S = binit_loop is (upd_env (\<lambda>e. e\<lparr>f_lru := i # f_lru e\<rparr>) (initsleeplock (buf_lock i) ''buffer'' S))"

definition binit :: "('x bcache_scheme, 'z) kstate_scheme \<Rightarrow> ('x bcache_scheme, 'z) kstate_scheme" where
  "binit S = binit_loop [0..<NBUF] (upd_env (\<lambda>e. e\<lparr>f_lru := []\<rparr>) (initlock BcacheLock ''bcache'' S))"

definition bget :: "nat \<Rightarrow> 32 word \<Rightarrow> 32 word \<Rightarrow> ('x bcache_scheme, 'z) kstate_scheme \<Rightarrow> (nat \<times> ('x bcache_scheme, 'z) kstate_scheme) result" where
  "bget c dev blockno S =
     bindE (acquire c BcacheLock S) (\<lambda>S1.
     let e = k_env S1
     in case find (\<lambda>i. b_dev (buf_at e i) = dev \<and> b_blockno (buf_at e i) = blockno) (f_lru e) of
          Some i \<Rightarrow>
            bindE (release c BcacheLock (upd_env (upd_buf i (\<lambda>b. b\<lparr>b_refcnt := b_refcnt b + 1\<rparr>)) S1)) (\<lambda>S2.
            bindE (locksleep (buf_lock i) c S2) (\<lambda>S3. Inr (i, S3)))
        | None \<Rightarrow>
            (case find (\<lambda>i. b_refcnt (buf_at e i) = 0 \<and> b_flags (buf_at e i) AND B_DIRTY = 0) (rev (f_lru e)) of
               Some i \<Rightarrow>
                 bindE (release c BcacheLock (upd_env (upd_buf i (\<lambda>b. b\<lparr>b_dev := dev, b_blockno := blockno, b_flags := 0, b_refcnt := 1\<rparr>)) S1)) (\<lambda>S2.
                 bindE (locksleep (buf_lock i) c S2) (\<lambda>S3. Inr (i, S3)))
             | None \<Rightarrow> panic ''bget: no buffers''))"

definition bread :: "nat \<Rightarrow> 32 word \<Rightarrow> 32 word \<Rightarrow> ('x bcache_scheme, 'z) kstate_scheme \<Rightarrow> (nat \<times> ('x bcache_scheme, 'z) kstate_scheme) result" where
  "bread c dev blockno S =
     bindE (bget c dev blockno S) (\<lambda>(i, S1).
     if b_flags (buf_at (k_env S1) i) AND B_VALID = 0 then bindE (iderw c i S1) (\<lambda>S2. Inr (i, S2)) else Inr (i, S1))"

definition bwrite :: "nat \<Rightarrow> nat \<Rightarrow> ('x bcache_scheme, 'z) kstate_scheme \<Rightarrow> ('x bcache_scheme, 'z) kstate_scheme result" where
  "bwrite c i S =
     bindE (holdingsleep (buf_lock i) c S) (\<lambda>(h, S1).
     if \<not> h then panic ''bwrite''
     else iderw c i (upd_env (upd_buf i (\<lambda>b. b\<lparr>b_flags := b_flags b OR B_DIRTY\<rparr>)) S1))"

definition brelse :: "nat \<Rightarrow> nat \<Rightarrow> ('x bcache_scheme, 'z) kstate_scheme \<Rightarrow> ('x bcache_scheme, 'z) kstate_scheme result" where
  "brelse c i S =
     bindE (holdingsleep (buf_lock i) c S) (\<lambda>(h, S1).
     if \<not> h then panic ''brelse''
     else bindE (releasesleep (buf_lock i) c S1) (\<lambda>S2.
       bindE (acquire c BcacheLock S2) (\<lambda>S3.
       let S4 = upd_env (upd_buf i (\<lambda>b. b\<lparr>b_refcnt := b_refcnt b - 1\<rparr>)) S3
       in release c BcacheLock
            (if b_refcnt (buf_at (k_env S4) i) = 0 then upd_env (\<lambda>e. e\<lparr>f_lru := i # remove1 i (f_lru e)\<rparr>) S4 else S4))))"

section \<open>The locks of the buffers\<close>

lemma upd_buf_sel [simp]:
  "f_disk (upd_buf i f e) = f_disk e" "f_writes (upd_buf i f e) = f_writes e" "f_lru (upd_buf i f e) = f_lru e"
  "length (f_buf (upd_buf i f e)) = length (f_buf e)"
  "bcache.more (upd_buf i f e) = bcache.more e"
  by (simp_all add: upd_buf_def)

lemma buf_at_upd: "i < length (f_buf e) \<Longrightarrow> buf_at (upd_buf i f e) j = (if j = i then f (buf_at e i) else buf_at e j)"
  by (simp add: upd_buf_def)

interpretation bufl: sleep_lock "buf_lock i" "\<lambda>e. i < length (f_buf e)" for i
  by unfold_locales (simp_all add: buf_lock_def buf_at_upd)

end
