(* ===== verification/Ondisk.thy ===== *)
theory Ondisk
  imports Bio
begin

text \<open>
  What lies in the blocks of the disk (\<^verbatim>\<open>fs.h\<close>): numbers as little-endian bytes, the super block, inodes and directory entries, and \<open>readsb\<close> of \<^verbatim>\<open>fs.c\<close>.
\<close>

unbundle bit_operations_syntax

section \<open>Numbers in a block\<close>

definition splice :: "nat \<Rightarrow> 'a list \<Rightarrow> 'a list \<Rightarrow> 'a list" where
  "splice i ys xs = take i xs @ ys @ drop (i + length ys) xs"

definition get16 :: "nat \<Rightarrow> block \<Rightarrow> 16 word" where
  "get16 i xs = push_bit 8 (ucast (xs ! (i + 1))) OR ucast (xs ! i)"

definition put16 :: "nat \<Rightarrow> 16 word \<Rightarrow> block \<Rightarrow> block" where
  "put16 i w xs = splice i [ucast w, ucast (drop_bit 8 w)] xs"

definition get32 :: "nat \<Rightarrow> block \<Rightarrow> 32 word" where
  "get32 i xs = push_bit 24 (ucast (xs ! (i + 3))) OR push_bit 16 (ucast (xs ! (i + 2))) OR push_bit 8 (ucast (xs ! (i + 1))) OR ucast (xs ! i)"

definition put32 :: "nat \<Rightarrow> 32 word \<Rightarrow> block \<Rightarrow> block" where
  "put32 i w xs = splice i [ucast w, ucast (drop_bit 8 w), ucast (drop_bit 16 w), ucast (drop_bit 24 w)] xs"

fun put32s :: "nat \<Rightarrow> 32 word list \<Rightarrow> block \<Rightarrow> block" where
  "put32s i [] xs = xs"
| "put32s i (w # ws) xs = put32s (i + 4) ws (put32 i w xs)"

section \<open>The super block\<close>

record superblock =
  sb_size :: "32 word"
  sb_nblocks :: "32 word"
  sb_ninodes :: "32 word"
  sb_nlog :: "32 word"
  sb_logstart :: "32 word"
  sb_inodestart :: "32 word"
  sb_bmapstart :: "32 word"

definition superblock_of :: "block \<Rightarrow> superblock" where
  "superblock_of xs = \<lparr>sb_size = get32 0 xs, sb_nblocks = get32 4 xs, sb_ninodes = get32 8 xs, sb_nlog = get32 12 xs,
     sb_logstart = get32 16 xs, sb_inodestart = get32 20 xs, sb_bmapstart = get32 24 xs\<rparr>"

definition readsb :: "nat \<Rightarrow> 32 word \<Rightarrow> ('x bcache_scheme, 'z) kstate_scheme \<Rightarrow> (superblock \<times> ('x bcache_scheme, 'z) kstate_scheme) result" where
  "readsb c dev S =
     bindE (bread c dev 1 S) (\<lambda>(bp, S1).
     let sb = superblock_of (b_data (buf_at (k_env S1) bp))
     in bindE (brelse c bp S1) (\<lambda>S2. Inr (sb, S2)))"

section \<open>Inodes and directory entries\<close>

definition ROOTINO :: "32 word" where "ROOTINO = 1"
definition NDIRECT :: nat where "NDIRECT = 12"
definition NINDIRECT :: nat where "NINDIRECT = BSIZE div 4"
definition MAXFILE :: nat where "MAXFILE = NDIRECT + NINDIRECT"

record dinode =
  d_type :: "16 word"
  d_major :: "16 word"
  d_minor :: "16 word"
  d_nlink :: "16 word"
  d_size :: "32 word"
  d_addrs :: "32 word list"

definition IPB :: "32 word" where "IPB = 8"
definition BPB :: "32 word" where "BPB = 4096"

definition IBLOCK :: "32 word \<Rightarrow> superblock \<Rightarrow> 32 word" where
  "IBLOCK i sb = i div IPB + sb_inodestart sb"

definition BBLOCK :: "32 word \<Rightarrow> superblock \<Rightarrow> 32 word" where
  "BBLOCK b sb = b div BPB + sb_bmapstart sb"

text \<open>The inode at byte \<open>64 * (inum % IPB)\<close> of its block.\<close>

definition dinode_off :: "32 word \<Rightarrow> nat" where
  "dinode_off inum = 64 * unat (inum mod IPB)"

definition get_dinode :: "nat \<Rightarrow> block \<Rightarrow> dinode" where
  "get_dinode i xs = \<lparr>d_type = get16 i xs, d_major = get16 (i + 2) xs, d_minor = get16 (i + 4) xs, d_nlink = get16 (i + 6) xs,
     d_size = get32 (i + 8) xs, d_addrs = map (\<lambda>k. get32 (i + 12 + 4 * k) xs) [0..<NDIRECT + 1]\<rparr>"

definition put_dinode :: "nat \<Rightarrow> dinode \<Rightarrow> block \<Rightarrow> block" where
  "put_dinode i d xs =
     put32s (i + 12) (d_addrs d) (put32 (i + 8) (d_size d) (put16 (i + 6) (d_nlink d) (put16 (i + 4) (d_minor d)
       (put16 (i + 2) (d_major d) (put16 i (d_type d) xs)))))"

definition DIRSIZ :: nat where "DIRSIZ = 14"

record dirent =
  de_inum :: "16 word"
  de_name :: "byte list"

definition dirent_of :: "byte list \<Rightarrow> dirent" where
  "dirent_of xs = \<lparr>de_inum = get16 0 xs, de_name = take DIRSIZ (drop 2 xs)\<rparr>"

definition dirent_bytes :: "dirent \<Rightarrow> byte list" where
  "dirent_bytes d = [ucast (de_inum d), ucast (drop_bit 8 (de_inum d))] @ de_name d"

end
