(* ===== verification/Log.thy ===== *)
theory Log
  imports Ondisk
begin

text \<open>
  The log of the file system (\<^verbatim>\<open>log.c\<close>). \<open>f_log\<close> is the structure \<open>log\<close>, with \<open>l_n\<close> and \<open>l_block\<close> for \<open>log.lh\<close>. \<open>begin_op\<close> is a section; \<open>start_op\<close>
  is what code that runs on after it uses.
\<close>

record log =
  l_start :: int
  l_size :: int
  l_outstanding :: int
  l_committing :: bool
  l_dev :: int
  l_n :: int
  l_block :: "int list"

record logged = bcache +
  f_log :: log

definition LogLock :: lockid where "LogLock = OtherLock 3"
definition log_chan :: "chan option" where "log_chan = Some (Chan_addr 3)"

definition upd_log :: "(log \<Rightarrow> log) \<Rightarrow> 'x logged_scheme \<Rightarrow> 'x logged_scheme" where
  "upd_log f e = e\<lparr>f_log := f (f_log e)\<rparr>"

definition log_block :: "log \<Rightarrow> nat \<Rightarrow> int result" where
  "log_block l t = (if t < length (l_block l) then Inr (l_block l ! t) else Inl Undef)"

text \<open>One round of the loops of \<open>install_trans\<close> and \<open>write_log\<close>: the block of the log at \<open>tail\<close> and the block that it stands for.\<close>

definition install_one :: "nat \<Rightarrow> nat \<Rightarrow> ('x logged_scheme, 'z) kstate_scheme \<Rightarrow> ('x logged_scheme, 'z) kstate_scheme result" where
  "install_one c t S =
     (let l = f_log (k_env S)
      in bindE (bread c (word_of_int (l_dev l)) (word_of_int (l_start l + int t + 1)) S) (\<lambda>(lbuf, S1).
         bindE (log_block l t) (\<lambda>bno.
         bindE (bread c (word_of_int (l_dev l)) (word_of_int bno) S1) (\<lambda>(dbuf, S2).
         bindE (bwrite c dbuf (upd_env (\<lambda>e. upd_buf dbuf (\<lambda>b. b\<lparr>b_data := b_data (buf_at e lbuf)\<rparr>) e) S2)) (\<lambda>S3.
         bindE (brelse c lbuf S3) (brelse c dbuf))))))"

fun install_loop :: "nat \<Rightarrow> nat list \<Rightarrow> ('x logged_scheme, 'z) kstate_scheme \<Rightarrow> ('x logged_scheme, 'z) kstate_scheme result" where
  "install_loop c [] S = Inr S"
| "install_loop c (t # ts) S = bindE (install_one c t S) (install_loop c ts)"

definition install_trans :: "nat \<Rightarrow> ('x logged_scheme, 'z) kstate_scheme \<Rightarrow> ('x logged_scheme, 'z) kstate_scheme result" where
  "install_trans c S = install_loop c [0..<nat (l_n (f_log (k_env S)))] S"

fun head_blocks :: "nat list \<Rightarrow> block \<Rightarrow> log \<Rightarrow> log result" where
  "head_blocks [] xs l = Inr l"
| "head_blocks (i # is) xs l =
     (if i < length (l_block l)
      then head_blocks is xs (l\<lparr>l_block := (l_block l)[i := sint (get32 (4 + 4 * i) xs)]\<rparr>)
      else Inl Undef)"

definition read_head :: "nat \<Rightarrow> ('x logged_scheme, 'z) kstate_scheme \<Rightarrow> ('x logged_scheme, 'z) kstate_scheme result" where
  "read_head c S =
     (let l = f_log (k_env S)
      in bindE (bread c (word_of_int (l_dev l)) (word_of_int (l_start l)) S) (\<lambda>(buf, S1).
         let xs = b_data (buf_at (k_env S1) buf); n = sint (get32 0 xs)
         in bindE (head_blocks [0..<nat n] xs ((f_log (k_env S1))\<lparr>l_n := n\<rparr>)) (\<lambda>l1.
            brelse c buf (upd_env (upd_log (\<lambda>_. l1)) S1))))"

fun put_blocks :: "nat list \<Rightarrow> log \<Rightarrow> block \<Rightarrow> block result" where
  "put_blocks [] l xs = Inr xs"
| "put_blocks (i # is) l xs = bindE (log_block l i) (\<lambda>b. put_blocks is l (put32 (4 + 4 * i) (word_of_int b) xs))"

definition write_head :: "nat \<Rightarrow> ('x logged_scheme, 'z) kstate_scheme \<Rightarrow> ('x logged_scheme, 'z) kstate_scheme result" where
  "write_head c S =
     (let l = f_log (k_env S)
      in bindE (bread c (word_of_int (l_dev l)) (word_of_int (l_start l)) S) (\<lambda>(buf, S1).
         bindE (put_blocks [0..<nat (l_n l)] l (put32 0 (word_of_int (l_n l)) (b_data (buf_at (k_env S1) buf)))) (\<lambda>xs.
         bindE (bwrite c buf (upd_env (upd_buf buf (\<lambda>b. b\<lparr>b_data := xs\<rparr>)) S1)) (brelse c buf))))"

definition recover_from_log :: "nat \<Rightarrow> ('x logged_scheme, 'z) kstate_scheme \<Rightarrow> ('x logged_scheme, 'z) kstate_scheme result" where
  "recover_from_log c S =
     bindE (read_head c S) (\<lambda>S1. bindE (install_trans c S1) (\<lambda>S2. write_head c (upd_env (upd_log (\<lambda>l. l\<lparr>l_n := 0\<rparr>)) S2)))"

definition initlog :: "nat \<Rightarrow> int \<Rightarrow> ('x logged_scheme, 'z) kstate_scheme \<Rightarrow> ('x logged_scheme, 'z) kstate_scheme result" where
  "initlog c dev S =
     (if 4 * (1 + LOGSIZE) \<ge> BSIZE then panic ''initlog: too big logheader''
      else bindE (readsb c (word_of_int dev) (initlock LogLock ''log'' S)) (\<lambda>(sb, S1).
        recover_from_log c (upd_env (upd_log (\<lambda>l. l\<lparr>l_start := sint (sb_logstart sb), l_size := sint (sb_nlog sb), l_dev := dev\<rparr>)) S1)))"

section \<open>Transactions\<close>

definition begin_op :: "nat \<Rightarrow> ('x logged_scheme, 'z) kstate_scheme \<Rightarrow> ((unit, unit) sect \<times> ('x logged_scheme, 'z) kstate_scheme) result" where
  "begin_op c S =
     bindE (acquire c LogLock S) (\<lambda>S1.
     let l = f_log (k_env S1)
     in if l_committing l then bindE (sleep c log_chan (Some LogLock) S1) (\<lambda>S2. Inr (Blocked (), S2))
        else if l_n l + (l_outstanding l + 1) * int MAXOPBLOCKS > int LOGSIZE
        then bindE (sleep c log_chan (Some LogLock) S1) (\<lambda>S2. Inr (Blocked (), S2))
        else bindE (release c LogLock (upd_env (upd_log (\<lambda>l. l\<lparr>l_outstanding := l_outstanding l + 1\<rparr>)) S1)) (\<lambda>S2. Inr (Ret (), S2)))"

definition start_op :: "nat \<Rightarrow> ('x logged_scheme, 'z) kstate_scheme \<Rightarrow> ('x logged_scheme, 'z) kstate_scheme result" where
  "start_op c S = bindE (begin_op c S) (\<lambda>(x, S1). case x of Ret _ \<Rightarrow> Inr S1 | Blocked _ \<Rightarrow> Inl Spin)"

definition write_one :: "nat \<Rightarrow> nat \<Rightarrow> ('x logged_scheme, 'z) kstate_scheme \<Rightarrow> ('x logged_scheme, 'z) kstate_scheme result" where
  "write_one c t S =
     (let l = f_log (k_env S)
      in bindE (bread c (word_of_int (l_dev l)) (word_of_int (l_start l + int t + 1)) S) (\<lambda>(to, S1).
         bindE (log_block l t) (\<lambda>bno.
         bindE (bread c (word_of_int (l_dev l)) (word_of_int bno) S1) (\<lambda>(from, S2).
         bindE (bwrite c to (upd_env (\<lambda>e. upd_buf to (\<lambda>b. b\<lparr>b_data := b_data (buf_at e from)\<rparr>) e) S2)) (\<lambda>S3.
         bindE (brelse c from S3) (brelse c to))))))"

fun write_loop :: "nat \<Rightarrow> nat list \<Rightarrow> ('x logged_scheme, 'z) kstate_scheme \<Rightarrow> ('x logged_scheme, 'z) kstate_scheme result" where
  "write_loop c [] S = Inr S"
| "write_loop c (t # ts) S = bindE (write_one c t S) (write_loop c ts)"

definition write_log :: "nat \<Rightarrow> ('x logged_scheme, 'z) kstate_scheme \<Rightarrow> ('x logged_scheme, 'z) kstate_scheme result" where
  "write_log c S = write_loop c [0..<nat (l_n (f_log (k_env S)))] S"

definition commit :: "nat \<Rightarrow> ('x logged_scheme, 'z) kstate_scheme \<Rightarrow> ('x logged_scheme, 'z) kstate_scheme result" where
  "commit c S =
     (if l_n (f_log (k_env S)) > 0
      then bindE (write_log c S) (\<lambda>S1. bindE (write_head c S1) (\<lambda>S2. bindE (install_trans c S2) (\<lambda>S3.
           write_head c (upd_env (upd_log (\<lambda>l. l\<lparr>l_n := 0\<rparr>)) S3))))
      else Inr S)"

definition end_op :: "nat \<Rightarrow> ('x logged_scheme, 'z) kstate_scheme \<Rightarrow> ('x logged_scheme, 'z) kstate_scheme result" where
  "end_op c S =
     bindE (acquire c LogLock S) (\<lambda>S1.
     let S2 = upd_env (upd_log (\<lambda>l. l\<lparr>l_outstanding := l_outstanding l - 1\<rparr>)) S1; l = f_log (k_env S2)
     in if l_committing l then panic ''log.committing''
        else if l_outstanding l = 0
        then bindE (release c LogLock (upd_env (upd_log (\<lambda>l. l\<lparr>l_committing := True\<rparr>)) S2)) (\<lambda>S3.
             bindE (commit c S3) (\<lambda>S4.
             bindE (acquire c LogLock S4) (\<lambda>S5.
             bindE (wakeup c log_chan (upd_env (upd_log (\<lambda>l. l\<lparr>l_committing := False\<rparr>)) S5)) (release c LogLock))))
        else bindE (wakeup c log_chan S2) (release c LogLock))"

text \<open>The position of a block in the header: absorbed, or appended at \<open>n\<close>.\<close>

definition log_pos :: "log \<Rightarrow> int \<Rightarrow> nat" where
  "log_pos l b = length (takeWhile (\<lambda>x. x \<noteq> b) (take (nat (l_n l)) (l_block l)))"

definition log_write :: "nat \<Rightarrow> nat \<Rightarrow> ('x logged_scheme, 'z) kstate_scheme \<Rightarrow> ('x logged_scheme, 'z) kstate_scheme result" where
  "log_write c i S =
     (let l = f_log (k_env S)
      in if l_n l \<ge> int LOGSIZE \<or> l_n l \<ge> l_size l - 1 then panic ''too big a transaction''
         else if l_outstanding l < 1 then panic ''log_write outside of trans''
         else bindE (acquire c LogLock S) (\<lambda>S1.
           let l = f_log (k_env S1); b = sint (b_blockno (buf_at (k_env S1) i)); k = log_pos l b
           in release c LogLock (upd_env (\<lambda>e. upd_buf i (\<lambda>x. x\<lparr>b_flags := b_flags x OR B_DIRTY\<rparr>)
                (upd_log (\<lambda>l. l\<lparr>l_block := (l_block l)[k := b], l_n := (if int k = l_n l then l_n l + 1 else l_n l)\<rparr>) e)) S1)))"

end
