(* ===== verification/Fs.thy ===== *)
theory Fs
  imports Log
begin

text \<open>
  The file system (\<^verbatim>\<open>fs.c\<close>): blocks, inodes, directories, paths. An inode is known by its position in \<open>icache.inode\<close>; a null
  pointer is \<open>None\<close>. Bytes that a routine copies to or from its caller's memory are lists. The functions of the devices
  (\<open>devsw\<close>) are an argument. Loops over block numbers, inode numbers and offsets run over the list of the
  values of their variable.
\<close>

unbundle bit_operations_syntax

record inode =
  i_dev :: "32 word"
  i_inum :: "32 word"
  i_ref :: int
  i_lock :: sleeplock
  i_valid :: bool
  i_type :: "16 word"
  i_major :: "16 word"
  i_minor :: "16 word"
  i_nlink :: "16 word"
  i_size :: "32 word"
  i_addrs :: "32 word list"

record icached = logged +
  f_sb :: superblock
  f_inode :: "inode list"

definition T_DIR :: "16 word" where "T_DIR = 1"
definition T_FILE :: "16 word" where "T_FILE = 2"
definition T_DEV :: "16 word" where "T_DEV = 3"

abbreviation inode_at :: "'x icached_scheme \<Rightarrow> nat \<Rightarrow> inode" where
  "inode_at e i \<equiv> f_inode e ! i"

definition upd_inode :: "nat \<Rightarrow> (inode \<Rightarrow> inode) \<Rightarrow> 'x icached_scheme \<Rightarrow> 'x icached_scheme" where
  "upd_inode i f e = e\<lparr>f_inode := (f_inode e)[i := f (inode_at e i)]\<rparr>"

definition IcacheLock :: lockid where "IcacheLock = OtherLock 4"

definition inode_lock :: "nat \<Rightarrow> ('x icached_scheme) sleepref" where
  "inode_lock i = \<lparr>sr_lk = OtherLock (200 + i), sr_chan = Chan_addr (200 + i), sr_get = (\<lambda>e. i_lock (inode_at e i)),
     sr_upd = (\<lambda>f. upd_inode i (\<lambda>x. x\<lparr>i_lock := f (i_lock x)\<rparr>))\<rparr>"

text \<open>A change of the data of a buffer.\<close>

definition edit :: "nat \<Rightarrow> (block \<Rightarrow> block) \<Rightarrow> ('x bcache_scheme, 'z) kstate_scheme \<Rightarrow> ('x bcache_scheme, 'z) kstate_scheme" where
  "edit i f S = upd_env (upd_buf i (\<lambda>b. b\<lparr>b_data := f (b_data b)\<rparr>)) S"

abbreviation data_of :: "nat \<Rightarrow> ('x bcache_scheme, 'z) kstate_scheme \<Rightarrow> block" where
  "data_of i S \<equiv> b_data (buf_at (k_env S) i)"

section \<open>Blocks\<close>

definition bzero :: "nat \<Rightarrow> 32 word \<Rightarrow> 32 word \<Rightarrow> ('x logged_scheme, 'z) kstate_scheme \<Rightarrow> ('x logged_scheme, 'z) kstate_scheme result" where
  "bzero c dev bno S =
     bindE (bread c dev bno S) (\<lambda>(bp, S1).
     bindE (log_write c bp (edit bp (\<lambda>_. replicate BSIZE 0) S1)) (brelse c bp))"

text \<open>The bit of block \<open>bi\<close> in a block of the bitmap.\<close>

definition bit_mask :: "nat \<Rightarrow> byte" where
  "bit_mask bi = push_bit (bi mod 8) 1"

definition find_free :: "block \<Rightarrow> nat \<Rightarrow> nat option" where
  "find_free xs n = find (\<lambda>bi. xs ! (bi div 8) AND bit_mask bi = 0) [0..<n]"

fun balloc_loop :: "nat \<Rightarrow> 32 word \<Rightarrow> nat list \<Rightarrow> ('x icached_scheme, 'z) kstate_scheme \<Rightarrow> (32 word \<times> ('x icached_scheme, 'z) kstate_scheme) result" where
  "balloc_loop c dev [] S = panic ''balloc: out of blocks''"
| "balloc_loop c dev (b # bs) S =
     (let sb = f_sb (k_env S)
      in bindE (bread c dev (BBLOCK (of_nat b) sb) S) (\<lambda>(bp, S1).
         case find_free (data_of bp S1) (min (unat BPB) (unat (sb_size sb) - b)) of
           Some bi \<Rightarrow>
             bindE (log_write c bp (edit bp (\<lambda>xs. xs[bi div 8 := xs ! (bi div 8) OR bit_mask bi]) S1)) (\<lambda>S2.
             bindE (brelse c bp S2) (\<lambda>S3.
             bindE (bzero c dev (of_nat (b + bi)) S3) (\<lambda>S4. Inr (of_nat (b + bi), S4))))
         | None \<Rightarrow> bindE (brelse c bp S1) (balloc_loop c dev bs)))"

text \<open>\<open>steps s n\<close>: the values of a loop variable that runs from 0 below \<open>n\<close> in steps of \<open>s\<close>.\<close>

definition steps :: "nat \<Rightarrow> nat \<Rightarrow> nat list" where
  "steps s n = map (\<lambda>k. s * k) [0..<(n + s - 1) div s]"

definition balloc :: "nat \<Rightarrow> 32 word \<Rightarrow> ('x icached_scheme, 'z) kstate_scheme \<Rightarrow> (32 word \<times> ('x icached_scheme, 'z) kstate_scheme) result" where
  "balloc c dev S = balloc_loop c dev (steps (unat BPB) (unat (sb_size (f_sb (k_env S))))) S"

definition bfree :: "nat \<Rightarrow> 32 word \<Rightarrow> 32 word \<Rightarrow> ('x icached_scheme, 'z) kstate_scheme \<Rightarrow> ('x icached_scheme, 'z) kstate_scheme result" where
  "bfree c dev b S =
     bindE (bread c dev (BBLOCK b (f_sb (k_env S))) S) (\<lambda>(bp, S1).
     let bi = unat (b mod BPB); m = bit_mask bi
     in if data_of bp S1 ! (bi div 8) AND m = 0 then panic ''freeing free block''
        else bindE (log_write c bp (edit bp (\<lambda>xs. xs[bi div 8 := xs ! (bi div 8) AND NOT m]) S1)) (brelse c bp))"

section \<open>Inodes\<close>

fun iinit_loop :: "nat list \<Rightarrow> ('x icached_scheme, 'z) kstate_scheme \<Rightarrow> ('x icached_scheme, 'z) kstate_scheme" where
  "iinit_loop [] S = S"
| "iinit_loop (i # is) S = iinit_loop is (initsleeplock (inode_lock i) ''inode'' S)"

definition iinit :: "nat \<Rightarrow> 32 word \<Rightarrow> ('x icached_scheme, 'z) kstate_scheme \<Rightarrow> ('x icached_scheme, 'z) kstate_scheme result" where
  "iinit c dev S =
     bindE (readsb c dev (iinit_loop [0..<NINODE] (initlock IcacheLock ''icache'' S))) (\<lambda>(sb, S1).
     kprintf ''sb: size %d nblocks %d ninodes %d nlog %d logstart %d inodestart %d bmap start %d\<newline>''
       (map PWord [sb_size sb, sb_nblocks sb, sb_ninodes sb, sb_nlog sb, sb_logstart sb, sb_inodestart sb, sb_bmapstart sb])
       (upd_env (\<lambda>e. e\<lparr>f_sb := sb\<rparr>) S1))"

definition iget :: "nat \<Rightarrow> 32 word \<Rightarrow> 32 word \<Rightarrow> ('x icached_scheme, 'z) kstate_scheme \<Rightarrow> (nat \<times> ('x icached_scheme, 'z) kstate_scheme) result" where
  "iget c dev inum S =
     bindE (acquire c IcacheLock S) (\<lambda>S1.
     let e = k_env S1
     in case find (\<lambda>i. i_ref (inode_at e i) > 0 \<and> i_dev (inode_at e i) = dev \<and> i_inum (inode_at e i) = inum) [0..<NINODE] of
          Some ip \<Rightarrow>
            bindE (release c IcacheLock (upd_env (upd_inode ip (\<lambda>x. x\<lparr>i_ref := i_ref x + 1\<rparr>)) S1)) (\<lambda>S2. Inr (ip, S2))
        | None \<Rightarrow>
            (case find (\<lambda>i. i_ref (inode_at e i) = 0) [0..<NINODE] of
               None \<Rightarrow> panic ''iget: no inodes''
             | Some ip \<Rightarrow>
                 bindE (release c IcacheLock (upd_env (upd_inode ip (\<lambda>x. x\<lparr>i_dev := dev, i_inum := inum, i_ref := 1, i_valid := False\<rparr>)) S1))
                   (\<lambda>S2. Inr (ip, S2))))"

fun ialloc_loop :: "nat \<Rightarrow> 32 word \<Rightarrow> 16 word \<Rightarrow> nat list \<Rightarrow> ('x icached_scheme, 'z) kstate_scheme \<Rightarrow> (nat \<times> ('x icached_scheme, 'z) kstate_scheme) result" where
  "ialloc_loop c dev ty [] S = panic ''ialloc: no inodes''"
| "ialloc_loop c dev ty (inum # is) S =
     bindE (bread c dev (IBLOCK (of_nat inum) (f_sb (k_env S))) S) (\<lambda>(bp, S1).
     let k = dinode_off (of_nat inum)
     in if d_type (get_dinode k (data_of bp S1)) = 0
        then bindE (log_write c bp (edit bp (\<lambda>xs. put16 k ty (splice k (replicate 64 0) xs)) S1)) (\<lambda>S2.
             bindE (brelse c bp S2) (iget c dev (of_nat inum)))
        else bindE (brelse c bp S1) (ialloc_loop c dev ty is))"

definition ialloc :: "nat \<Rightarrow> 32 word \<Rightarrow> 16 word \<Rightarrow> ('x icached_scheme, 'z) kstate_scheme \<Rightarrow> (nat \<times> ('x icached_scheme, 'z) kstate_scheme) result" where
  "ialloc c dev ty S = ialloc_loop c dev ty [1..<unat (sb_ninodes (f_sb (k_env S)))] S"

definition dinode_of :: "inode \<Rightarrow> dinode" where
  "dinode_of x = \<lparr>d_type = i_type x, d_major = i_major x, d_minor = i_minor x, d_nlink = i_nlink x, d_size = i_size x, d_addrs = i_addrs x\<rparr>"

definition iupdate :: "nat \<Rightarrow> nat \<Rightarrow> ('x icached_scheme, 'z) kstate_scheme \<Rightarrow> ('x icached_scheme, 'z) kstate_scheme result" where
  "iupdate c ip S =
     (let x = inode_at (k_env S) ip
      in bindE (bread c (i_dev x) (IBLOCK (i_inum x) (f_sb (k_env S))) S) (\<lambda>(bp, S1).
         bindE (log_write c bp (edit bp (put_dinode (dinode_off (i_inum x)) (dinode_of x)) S1)) (brelse c bp)))"

definition idup :: "nat \<Rightarrow> nat \<Rightarrow> ('x icached_scheme, 'z) kstate_scheme \<Rightarrow> (nat \<times> ('x icached_scheme, 'z) kstate_scheme) result" where
  "idup c ip S =
     bindE (acquire c IcacheLock S) (\<lambda>S1.
     bindE (release c IcacheLock (upd_env (upd_inode ip (\<lambda>x. x\<lparr>i_ref := i_ref x + 1\<rparr>)) S1)) (\<lambda>S2. Inr (ip, S2)))"

definition load_inode :: "dinode \<Rightarrow> inode \<Rightarrow> inode" where
  "load_inode d x = x\<lparr>i_type := d_type d, i_major := d_major d, i_minor := d_minor d, i_nlink := d_nlink d, i_size := d_size d, i_addrs := d_addrs d\<rparr>"

definition ilock :: "nat \<Rightarrow> nat option \<Rightarrow> ('x icached_scheme, 'z) kstate_scheme \<Rightarrow> ('x icached_scheme, 'z) kstate_scheme result" where
  "ilock c ipo S =
     (case ipo of None \<Rightarrow> panic ''ilock''
      | Some ip \<Rightarrow>
         if i_ref (inode_at (k_env S) ip) < 1 then panic ''ilock''
         else bindE (locksleep (inode_lock ip) c S) (\<lambda>S1.
           let x = inode_at (k_env S1) ip
           in if i_valid x then Inr S1
              else bindE (bread c (i_dev x) (IBLOCK (i_inum x) (f_sb (k_env S1))) S1) (\<lambda>(bp, S2).
                let d = get_dinode (dinode_off (i_inum x)) (data_of bp S2)
                in bindE (brelse c bp (upd_env (upd_inode ip (load_inode d)) S2)) (\<lambda>S3.
                   let S4 = upd_env (upd_inode ip (\<lambda>x. x\<lparr>i_valid := True\<rparr>)) S3
                   in if i_type (inode_at (k_env S4) ip) = 0 then panic ''ilock: no type'' else Inr S4))))"

definition iunlock :: "nat \<Rightarrow> nat option \<Rightarrow> ('x icached_scheme, 'z) kstate_scheme \<Rightarrow> ('x icached_scheme, 'z) kstate_scheme result" where
  "iunlock c ipo S =
     (case ipo of None \<Rightarrow> panic ''iunlock''
      | Some ip \<Rightarrow>
         bindE (holdingsleep (inode_lock ip) c S) (\<lambda>(h, S1).
         if \<not> h \<or> i_ref (inode_at (k_env S1) ip) < 1 then panic ''iunlock'' else releasesleep (inode_lock ip) c S1))"

section \<open>The blocks of an inode\<close>

definition bmap :: "nat \<Rightarrow> nat \<Rightarrow> 32 word \<Rightarrow> ('x icached_scheme, 'z) kstate_scheme \<Rightarrow> (32 word \<times> ('x icached_scheme, 'z) kstate_scheme) result" where
  "bmap c ip bn S =
     (let x = inode_at (k_env S) ip; n = unat bn; set_addr = (\<lambda>k addr. upd_env (upd_inode ip (\<lambda>x. x\<lparr>i_addrs := (i_addrs x)[k := addr]\<rparr>)))
      in if n < NDIRECT
         then if i_addrs x ! n = 0
              then bindE (balloc c (i_dev x) S) (\<lambda>(addr, S1). Inr (addr, set_addr n addr S1))
              else Inr (i_addrs x ! n, S)
         else if n - NDIRECT < NINDIRECT
         then bindE (if i_addrs x ! NDIRECT = 0
                     then bindE (balloc c (i_dev x) S) (\<lambda>(addr, S1). Inr (addr, set_addr NDIRECT addr S1))
                     else Inr (i_addrs x ! NDIRECT, S)) (\<lambda>(ind, S1).
              bindE (bread c (i_dev x) ind S1) (\<lambda>(bp, S2).
              let k = 4 * (n - NDIRECT); addr = get32 k (data_of bp S2)
              in if addr = 0
                 then bindE (balloc c (i_dev x) S2) (\<lambda>(addr, S3).
                      bindE (log_write c bp (edit bp (put32 k addr) S3)) (\<lambda>S4.
                      bindE (brelse c bp S4) (\<lambda>S5. Inr (addr, S5))))
                 else bindE (brelse c bp S2) (\<lambda>S3. Inr (addr, S3))))
         else panic ''bmap: out of range'')"

fun itrunc_direct :: "nat \<Rightarrow> nat \<Rightarrow> nat list \<Rightarrow> ('x icached_scheme, 'z) kstate_scheme \<Rightarrow> ('x icached_scheme, 'z) kstate_scheme result" where
  "itrunc_direct c ip [] S = Inr S"
| "itrunc_direct c ip (i # is) S =
     (let x = inode_at (k_env S) ip
      in if i_addrs x ! i \<noteq> 0
         then bindE (bfree c (i_dev x) (i_addrs x ! i) S) (\<lambda>S1.
              itrunc_direct c ip is (upd_env (upd_inode ip (\<lambda>x. x\<lparr>i_addrs := (i_addrs x)[i := 0]\<rparr>)) S1))
         else itrunc_direct c ip is S)"

fun itrunc_indirect :: "nat \<Rightarrow> nat \<Rightarrow> nat \<Rightarrow> nat list \<Rightarrow> ('x icached_scheme, 'z) kstate_scheme \<Rightarrow> ('x icached_scheme, 'z) kstate_scheme result" where
  "itrunc_indirect c ip bp [] S = Inr S"
| "itrunc_indirect c ip bp (j # js) S =
     (let a = get32 (4 * j) (data_of bp S)
      in if a \<noteq> 0 then bindE (bfree c (i_dev (inode_at (k_env S) ip)) a S) (itrunc_indirect c ip bp js) else itrunc_indirect c ip bp js S)"

definition itrunc :: "nat \<Rightarrow> nat \<Rightarrow> ('x icached_scheme, 'z) kstate_scheme \<Rightarrow> ('x icached_scheme, 'z) kstate_scheme result" where
  "itrunc c ip S =
     bindE (itrunc_direct c ip [0..<NDIRECT] S) (\<lambda>S1.
     let x = inode_at (k_env S1) ip; ind = i_addrs x ! NDIRECT
     in bindE (if ind \<noteq> 0
          then bindE (bread c (i_dev x) ind S1) (\<lambda>(bp, S2).
               bindE (itrunc_indirect c ip bp [0..<NINDIRECT] S2) (\<lambda>S3.
               bindE (brelse c bp S3) (\<lambda>S4.
               bindE (bfree c (i_dev x) ind S4) (\<lambda>S5.
               Inr (upd_env (upd_inode ip (\<lambda>x. x\<lparr>i_addrs := (i_addrs x)[NDIRECT := 0]\<rparr>)) S5)))))
          else Inr S1) (\<lambda>S6.
        iupdate c ip (upd_env (upd_inode ip (\<lambda>x. x\<lparr>i_size := 0\<rparr>)) S6)))"

definition iput :: "nat \<Rightarrow> nat \<Rightarrow> ('x icached_scheme, 'z) kstate_scheme \<Rightarrow> ('x icached_scheme, 'z) kstate_scheme result" where
  "iput c ip S =
     bindE (locksleep (inode_lock ip) c S) (\<lambda>S1.
     bindE (if i_valid (inode_at (k_env S1) ip) \<and> i_nlink (inode_at (k_env S1) ip) = 0
            then bindE (acquire c IcacheLock S1) (\<lambda>S2.
              let r = i_ref (inode_at (k_env S2) ip)
              in bindE (release c IcacheLock S2) (\<lambda>S3.
                 if r = 1
                 then bindE (itrunc c ip S3) (\<lambda>S4.
                      bindE (iupdate c ip (upd_env (upd_inode ip (\<lambda>x. x\<lparr>i_type := 0\<rparr>)) S4)) (\<lambda>S5.
                      Inr (upd_env (upd_inode ip (\<lambda>x. x\<lparr>i_valid := False\<rparr>)) S5)))
                 else Inr S3))
            else Inr S1) (\<lambda>S6.
     bindE (releasesleep (inode_lock ip) c S6) (\<lambda>S7.
     bindE (acquire c IcacheLock S7) (\<lambda>S8.
     release c IcacheLock (upd_env (upd_inode ip (\<lambda>x. x\<lparr>i_ref := i_ref x - 1\<rparr>)) S8)))))"

definition iunlockput :: "nat \<Rightarrow> nat \<Rightarrow> ('x icached_scheme, 'z) kstate_scheme \<Rightarrow> ('x icached_scheme, 'z) kstate_scheme result" where
  "iunlockput c ip S = bindE (iunlock c (Some ip) S) (iput c ip)"

record stat_t =
  st_type :: "16 word"
  st_dev :: "32 word"
  st_ino :: "32 word"
  st_nlink :: "16 word"
  st_size :: "32 word"

definition stati :: "inode \<Rightarrow> stat_t" where
  "stati x = \<lparr>st_type = i_type x, st_dev = i_dev x, st_ino = i_inum x, st_nlink = i_nlink x, st_size = i_size x\<rparr>"

section \<open>Reading and writing\<close>

text \<open>The functions of a device in \<open>devsw\<close>: \<open>None\<close> is a null pointer.\<close>

record ('x, 'z) devsw =
  dev_read :: "(nat \<Rightarrow> 32 word \<Rightarrow> ('x icached_scheme, 'z) kstate_scheme \<Rightarrow> ((int \<times> byte list) \<times> ('x icached_scheme, 'z) kstate_scheme) result) option"
  dev_write :: "(nat \<Rightarrow> byte list \<Rightarrow> 32 word \<Rightarrow> ('x icached_scheme, 'z) kstate_scheme \<Rightarrow> (int \<times> ('x icached_scheme, 'z) kstate_scheme) result) option"

definition in_devsw :: "16 word \<Rightarrow> bool" where
  "in_devsw major \<longleftrightarrow> 0 \<le> sint major \<and> sint major < int NDEV"

fun readi_loop :: "nat \<Rightarrow> nat \<Rightarrow> nat \<Rightarrow> 32 word \<Rightarrow> 32 word \<Rightarrow> ('x icached_scheme, 'z) kstate_scheme \<Rightarrow> (byte list \<times> ('x icached_scheme, 'z) kstate_scheme) result" where
  "readi_loop 0 c ip off left S = (if left = 0 then Inr ([], S) else Inl NoReturn)"
| "readi_loop (Suc k) c ip off left S =
     (if left = 0 then Inr ([], S)
      else bindE (bmap c ip (off div 512) S) (\<lambda>(addr, S1).
        bindE (bread c (i_dev (inode_at (k_env S1) ip)) addr S1) (\<lambda>(bp, S2).
        let m = min left (512 - off mod 512); bs = take (unat m) (drop (unat (off mod 512)) (data_of bp S2))
        in bindE (brelse c bp S2) (\<lambda>S3.
           bindE (readi_loop k c ip (off + m) (left - m) S3) (\<lambda>(rest, S4). Inr (bs @ rest, S4))))))"

definition readi :: "(nat \<Rightarrow> ('x, 'z) devsw) \<Rightarrow> nat \<Rightarrow> nat \<Rightarrow> 32 word \<Rightarrow> 32 word \<Rightarrow> ('x icached_scheme, 'z) kstate_scheme \<Rightarrow>
    ((int \<times> byte list) \<times> ('x icached_scheme, 'z) kstate_scheme) result" where
  "readi dv c ip off n S =
     (let x = inode_at (k_env S) ip
      in if i_type x = T_DEV
         then if \<not> in_devsw (i_major x) then Inr ((-1, []), S)
              else case dev_read (dv (nat (sint (i_major x)))) of None \<Rightarrow> Inr ((-1, []), S) | Some f \<Rightarrow> f ip n S
         else if off > i_size x \<or> off + n < off then Inr ((-1, []), S)
         else let n1 = (if off + n > i_size x then i_size x - off else n)
           in bindE (readi_loop (unat n1) c ip off n1 S) (\<lambda>(bs, S1). Inr ((sint n1, bs), S1)))"

fun writei_loop :: "nat \<Rightarrow> nat \<Rightarrow> nat \<Rightarrow> byte list \<Rightarrow> 32 word \<Rightarrow> 32 word \<Rightarrow> ('x icached_scheme, 'z) kstate_scheme \<Rightarrow> (32 word \<times> ('x icached_scheme, 'z) kstate_scheme) result" where
  "writei_loop 0 c ip src off left S = (if left = 0 then Inr (off, S) else Inl NoReturn)"
| "writei_loop (Suc k) c ip src off left S =
     (if left = 0 then Inr (off, S)
      else bindE (bmap c ip (off div 512) S) (\<lambda>(addr, S1).
        bindE (bread c (i_dev (inode_at (k_env S1) ip)) addr S1) (\<lambda>(bp, S2).
        let m = min left (512 - off mod 512)
        in bindE (log_write c bp (edit bp (splice (unat (off mod 512)) (take (unat m) src)) S2)) (\<lambda>S3.
           bindE (brelse c bp S3) (writei_loop k c ip (drop (unat m) src) (off + m) (left - m))))))"

definition writei :: "(nat \<Rightarrow> ('x, 'z) devsw) \<Rightarrow> nat \<Rightarrow> nat \<Rightarrow> byte list \<Rightarrow> 32 word \<Rightarrow> 32 word \<Rightarrow> ('x icached_scheme, 'z) kstate_scheme \<Rightarrow>
    (int \<times> ('x icached_scheme, 'z) kstate_scheme) result" where
  "writei dv c ip src off n S =
     (let x = inode_at (k_env S) ip
      in if i_type x = T_DEV
         then if \<not> in_devsw (i_major x) then Inr (-1, S)
              else case dev_write (dv (nat (sint (i_major x)))) of None \<Rightarrow> Inr (-1, S) | Some f \<Rightarrow> f ip src n S
         else if off > i_size x \<or> off + n < off then Inr (-1, S)
         else if off + n > of_nat (MAXFILE * BSIZE) then Inr (-1, S)
         else bindE (writei_loop (unat n) c ip src off n S) (\<lambda>(off1, S1).
           if n > 0 \<and> off1 > i_size (inode_at (k_env S1) ip)
           then bindE (iupdate c ip (upd_env (upd_inode ip (\<lambda>x. x\<lparr>i_size := off1\<rparr>)) S1)) (\<lambda>S2. Inr (sint n, S2))
           else Inr (sint n, S1)))"

end
