(* ===== verification/Dir.thy ===== *)
theory Dir
  imports Fs
begin

text \<open>
  Directories and paths (\<^verbatim>\<open>fs.c\<close>). A string is the list of its bytes, without the NUL when it ends the list; \<open>byte_at0\<close> is what the code finds at the
  start. A name buffer has \<open>DIRSIZ\<close> bytes.
\<close>

unbundle bit_operations_syntax

section \<open>Names\<close>

fun byte_at0 :: "byte list \<Rightarrow> byte" where
  "byte_at0 [] = 0"
| "byte_at0 (b # bs) = b"

text \<open>\<open>strncmp\<close> and \<open>strncpy\<close> of \<^verbatim>\<open>string.c\<close> on lists.\<close>

fun ncmp :: "nat \<Rightarrow> byte list \<Rightarrow> byte list \<Rightarrow> int" where
  "ncmp 0 p q = 0"
| "ncmp (Suc n) p q =
     (if byte_at0 p \<noteq> 0 \<and> byte_at0 p = byte_at0 q then ncmp n (tl p) (tl q) else uint (byte_at0 p) - uint (byte_at0 q))"

fun ncpy :: "nat \<Rightarrow> byte list \<Rightarrow> byte list" where
  "ncpy 0 t = []"
| "ncpy (Suc n) t = (if byte_at0 t \<noteq> 0 then byte_at0 t # ncpy n (tl t) else replicate (Suc n) 0)"

definition namecmp :: "byte list \<Rightarrow> byte list \<Rightarrow> int" where
  "namecmp s t = ncmp DIRSIZ s t"

section \<open>Directories\<close>

fun dirlookup_loop :: "(nat \<Rightarrow> ('x, 'z) devsw) \<Rightarrow> nat \<Rightarrow> nat \<Rightarrow> byte list \<Rightarrow> nat list \<Rightarrow> ('x icached_scheme, 'z) kstate_scheme \<Rightarrow>
    ((nat \<times> 32 word) option \<times> ('x icached_scheme, 'z) kstate_scheme) result" where
  "dirlookup_loop dv c dp name [] S = Inr (None, S)"
| "dirlookup_loop dv c dp name (off # offs) S =
     bindE (readi dv c dp (of_nat off) 16 S) (\<lambda>((r, bs), S1).
     if r \<noteq> 16 then panic ''dirlookup read''
     else let de = dirent_of bs
       in if de_inum de = 0 then dirlookup_loop dv c dp name offs S1
          else if namecmp name (de_name de) = 0
          then bindE (iget c (i_dev (inode_at (k_env S1) dp)) (ucast (de_inum de)) S1) (\<lambda>(ip, S2). Inr (Some (ip, of_nat off), S2))
          else dirlookup_loop dv c dp name offs S1)"

definition dirlookup :: "(nat \<Rightarrow> ('x, 'z) devsw) \<Rightarrow> nat \<Rightarrow> nat \<Rightarrow> byte list \<Rightarrow> ('x icached_scheme, 'z) kstate_scheme \<Rightarrow>
    ((nat \<times> 32 word) option \<times> ('x icached_scheme, 'z) kstate_scheme) result" where
  "dirlookup dv c dp name S =
     (if i_type (inode_at (k_env S) dp) \<noteq> T_DIR then panic ''dirlookup not DIR''
      else dirlookup_loop dv c dp name (steps 16 (unat (i_size (inode_at (k_env S) dp)))) S)"

text \<open>The offset of the first empty entry; \<open>fin\<close> is the offset at which the loop ends without one.\<close>

fun dirlink_loop :: "(nat \<Rightarrow> ('x, 'z) devsw) \<Rightarrow> nat \<Rightarrow> nat \<Rightarrow> nat \<Rightarrow> nat list \<Rightarrow> ('x icached_scheme, 'z) kstate_scheme \<Rightarrow>
    (nat \<times> ('x icached_scheme, 'z) kstate_scheme) result" where
  "dirlink_loop dv c dp fin [] S = Inr (fin, S)"
| "dirlink_loop dv c dp fin (off # offs) S =
     bindE (readi dv c dp (of_nat off) 16 S) (\<lambda>((r, bs), S1).
     if r \<noteq> 16 then panic ''dirlink read''
     else if de_inum (dirent_of bs) = 0 then Inr (off, S1) else dirlink_loop dv c dp fin offs S1)"

definition dirlink :: "(nat \<Rightarrow> ('x, 'z) devsw) \<Rightarrow> nat \<Rightarrow> nat \<Rightarrow> byte list \<Rightarrow> 32 word \<Rightarrow> ('x icached_scheme, 'z) kstate_scheme \<Rightarrow>
    (int \<times> ('x icached_scheme, 'z) kstate_scheme) result" where
  "dirlink dv c dp name inum S =
     bindE (dirlookup dv c dp name S) (\<lambda>(found, S1).
     case found of Some (ip, _) \<Rightarrow> bindE (iput c ip S1) (\<lambda>S2. Inr (-1, S2))
     | None \<Rightarrow>
        let offs = steps 16 (unat (i_size (inode_at (k_env S1) dp)))
        in bindE (dirlink_loop dv c dp (16 * length offs) offs S1) (\<lambda>(off, S2).
           bindE (writei dv c dp (dirent_bytes \<lparr>de_inum = ucast inum, de_name = ncpy DIRSIZ name\<rparr>) (of_nat off) 16 S2) (\<lambda>(r, S3).
           if r \<noteq> 16 then panic ''dirlink'' else Inr (0, S3))))"

section \<open>Paths\<close>

definition slash :: byte where "slash = 0x2f"

text \<open>The rest of the path and the name buffer, or \<open>None\<close> if there is no element left.\<close>

definition skipelem :: "byte list \<Rightarrow> byte list \<Rightarrow> (byte list \<times> byte list) option" where
  "skipelem path name =
     (let p1 = dropWhile (\<lambda>b. b = slash) path
      in if byte_at0 p1 = 0 then None
         else let s = takeWhile (\<lambda>b. b \<noteq> slash \<and> b \<noteq> 0) p1; p2 = dropWhile (\<lambda>b. b \<noteq> slash \<and> b \<noteq> 0) p1; len = length s;
                  name1 = (if len \<ge> DIRSIZ then splice 0 (take DIRSIZ s) name else splice 0 (s @ [0]) name)
              in Some (dropWhile (\<lambda>b. b = slash) p2, name1))"

fun namex_loop :: "nat \<Rightarrow> (nat \<Rightarrow> ('x, 'z) devsw) \<Rightarrow> nat \<Rightarrow> byte list \<Rightarrow> bool \<Rightarrow> byte list \<Rightarrow> nat \<Rightarrow> ('x icached_scheme, 'z) kstate_scheme \<Rightarrow>
    ((nat option \<times> byte list) \<times> ('x icached_scheme, 'z) kstate_scheme) result" where
  "namex_loop 0 dv c path parent name ip S = Inl NoReturn"
| "namex_loop (Suc k) dv c path parent name ip S =
     (case skipelem path name of
        None \<Rightarrow> if parent then bindE (iput c ip S) (\<lambda>S1. Inr ((None, name), S1)) else Inr ((Some ip, name), S)
      | Some (path1, name1) \<Rightarrow>
          bindE (ilock c (Some ip) S) (\<lambda>S1.
          if i_type (inode_at (k_env S1) ip) \<noteq> T_DIR then bindE (iunlockput c ip S1) (\<lambda>S2. Inr ((None, name1), S2))
          else if parent \<and> byte_at0 path1 = 0 then bindE (iunlock c (Some ip) S1) (\<lambda>S2. Inr ((Some ip, name1), S2))
          else bindE (dirlookup dv c ip name1 S1) (\<lambda>(found, S2).
            case found of None \<Rightarrow> bindE (iunlockput c ip S2) (\<lambda>S3. Inr ((None, name1), S3))
            | Some (next_ip, _) \<Rightarrow> bindE (iunlockput c ip S2) (namex_loop k dv c path1 parent name1 next_ip))))"

definition namex :: "(nat \<Rightarrow> ('x, 'z) devsw) \<Rightarrow> nat \<Rightarrow> byte list \<Rightarrow> bool \<Rightarrow> byte list \<Rightarrow> ('x icached_scheme, 'z) kstate_scheme \<Rightarrow>
    ((nat option \<times> byte list) \<times> ('x icached_scheme, 'z) kstate_scheme) result" where
  "namex dv c path parent name S =
     bindE (if byte_at0 path = slash then iget c (of_nat ROOTDEV) ROOTINO S
            else case myproc c S of None \<Rightarrow> nullderef
              | Some p \<Rightarrow> (case p_cwd (proc_at S p) of None \<Rightarrow> nullderef | Some d \<Rightarrow> idup c d S)) (\<lambda>(ip, S1).
     namex_loop (Suc (length path)) dv c path parent name ip S1)"

text \<open>\<open>name\<close> is the uninitialised buffer on the stack of \<open>namei\<close>.\<close>

definition namei :: "(nat \<Rightarrow> ('x, 'z) devsw) \<Rightarrow> byte list \<Rightarrow> nat \<Rightarrow> byte list \<Rightarrow> ('x icached_scheme, 'z) kstate_scheme \<Rightarrow>
    (nat option \<times> ('x icached_scheme, 'z) kstate_scheme) result" where
  "namei dv name c path S = bindE (namex dv c path False name S) (\<lambda>((ip, _), S1). Inr (ip, S1))"

definition nameiparent :: "(nat \<Rightarrow> ('x, 'z) devsw) \<Rightarrow> nat \<Rightarrow> byte list \<Rightarrow> byte list \<Rightarrow> ('x icached_scheme, 'z) kstate_scheme \<Rightarrow>
    ((nat option \<times> byte list) \<times> ('x icached_scheme, 'z) kstate_scheme) result" where
  "nameiparent dv c path name S = namex dv c path True name S"

end
