(* ===== verification/Ring.thy ===== *)
theory Ring
  imports Prelude
begin

text \<open>
  Ring buffers with counters that run on and wrap at 32 bits, as in pipes and in the console: a buffer of \<open>N\<close> cells, \<open>N\<close> a divisor of \<open>2 ^ 32\<close>, and the elements between two counters, each at
  its counter modulo \<open>N\<close>.
\<close>

definition ring :: "nat \<Rightarrow> 'a list \<Rightarrow> 32 word \<Rightarrow> 32 word \<Rightarrow> 'a list" where
  "ring N buf a b = map (\<lambda>i. buf ! ((unat a + i) mod N)) [0..<unat (b - a)]"

lemma length_ring [simp]: "length (ring N buf a b) = unat (b - a)"
  by (simp add: ring_def)

lemma ring_empty [simp]: "ring N buf a a = []"
  by (simp add: ring_def)

lemma succ_distance: "unat (b - a) < 2 ^ 32 - 1 \<Longrightarrow> unat (b + 1 - a) = Suc (unat (b - a))" for a b :: "32 word"
proof -
  assume d: "unat (b - a) < 2 ^ 32 - 1"
  have e: "b + 1 - a = (b - a) + 1" by simp
  show ?thesis unfolding e using d unat_word_ariths(1) [of "b - a" 1] by simp
qed

lemma pred_distance: "b \<noteq> a \<Longrightarrow> unat (b - 1 - a) = unat (b - a) - 1" "b \<noteq> a \<Longrightarrow> 0 < unat (b - a)" "b \<noteq> a \<Longrightarrow> unat (b - (a + 1)) = unat (b - a) - 1" for a b :: "32 word"
proof -
  assume "b \<noteq> a"
  then have d: "b - a \<noteq> 0" by simp
  then show "0 < unat (b - a)" by (simp add: unat_gt_0)
  have e: "b - 1 - a = (b - a) - 1" "b - (a + 1) = (b - a) - 1" by simp_all
  show "unat (b - 1 - a) = unat (b - a) - 1" "unat (b - (a + 1)) = unat (b - a) - 1" unfolding e using unat_minus_one [OF d] by simp_all
qed

lemma add_distance: "unat (b - a) + unat (c - b) < 2 ^ 32 \<Longrightarrow> unat (c - a) = unat (b - a) + unat (c - b)" for a b c :: "32 word"
  using unat_word_ariths(1) [of "b - a" "c - b"] by simp

locale ring_buffer =
  fixes N :: nat
  assumes size_dvd: "N dvd 2 ^ 32" and size_pos: "0 < N" and size_lt: "N < 2 ^ 32"
begin

lemma index: "unat (x mod of_nat N) = unat (x :: 32 word) mod N"
  using size_lt by (simp add: unat_mod unat_of_nat)

lemma add_mod: "unat (x + of_nat k) mod N = (unat (x :: 32 word) + k) mod N"
proof -
  have "(unat x + k) mod 2 ^ 32 mod N = (unat x + k) mod N" by (rule mod_mod_cancel) (rule size_dvd)
  moreover have "unat (x + of_nat k) = (unat x + k) mod 2 ^ 32" by (simp add: unat_word_ariths unat_of_nat mod_add_right_eq)
  ultimately show ?thesis by simp
qed

lemma at_distance: "unat b mod N = (unat a + unat (b - a)) mod N" for a b :: "32 word"
  using add_mod [of a "unat (b - a)"] by simp

lemma cells_differ:
  fixes a :: "32 word"
  assumes "i < k" "k < N"
  shows "(unat a + k) mod N \<noteq> (unat a + i) mod N"
proof
  assume "(unat a + k) mod N = (unat a + i) mod N"
  then have "N dvd k - i" using assms(1) mod_eq_dvd_iff_nat [of "unat a + i" "unat a + k" N] by simp
  then show False using assms by (auto dest: dvd_imp_le)
qed

lemma ring_update:
  assumes "unat (b - a) \<le> unat (x - a)" "unat (x - a) < N"
  shows "ring N (buf[unat (x mod of_nat N) := v]) a b = ring N buf a b"
proof -
  have "unat x mod N \<noteq> (unat a + i) mod N" if "i < unat (b - a)" for i using cells_differ [of i "unat (x - a)" a] that assms at_distance [of x a] by simp
  then show ?thesis by (auto simp: ring_def index)
qed

lemma ring_snoc:
  assumes "length buf = N" "unat (b - a) < N"
  shows "ring N (buf[unat (b mod of_nat N) := v]) a (b + 1) = ring N buf a b @ [v]"
proof -
  have s: "unat (b + 1 - a) = Suc (unat (b - a))" using succ_distance [of b a] assms(2) size_lt by simp
  have l: "buf[unat (b mod of_nat N) := v] ! ((unat a + unat (b - a)) mod N) = v" using assms(1) size_pos at_distance [of b a] by (simp add: index)
  have "ring N (buf[unat (b mod of_nat N) := v]) a (b + 1) = ring N (buf[unat (b mod of_nat N) := v]) a b @ [v]" using s l by (simp add: ring_def)
  then show ?thesis using ring_update [of b a b] assms(2) by simp
qed

lemma ring_Cons:
  assumes "a \<noteq> b"
  shows "ring N buf a b = buf ! unat (a mod of_nat N) # ring N buf (a + 1) b"
proof -
  note d = pred_distance(2,3) [of b a]
  have "(unat (a + 1) + i) mod N = (unat a + Suc i) mod N" for i
    using add_mod [of a 1] mod_add_left_eq [of "unat (a + 1)" N i] mod_add_left_eq [of "unat a + 1" N i] by simp
  moreover have "[0..<unat (b - a)] = 0 # map Suc [0..<unat (b - a) - 1]" using d(1) assms by (simp add: map_Suc_upt upt_conv_Cons)
  ultimately show ?thesis using d assms by (simp add: ring_def index comp_def)
qed

lemma ring_butlast:
  assumes "a \<noteq> b"
  shows "ring N buf a b = ring N buf a (b - 1) @ [buf ! unat ((b - 1) mod of_nat N)]"
proof -
  note d = pred_distance(1,2) [of b a]
  have "[0..<unat (b - a)] = [0..<unat (b - 1 - a)] @ [unat (b - 1 - a)]" using d assms upt_Suc_append [of 0 "unat (b - a) - 1"] by simp
  then show ?thesis using at_distance [of "b - 1" a] by (simp add: ring_def index)
qed

lemma ring_append:
  assumes "unat (b - a) + unat (c - b) < 2 ^ 32"
  shows "ring N buf a c = ring N buf a b @ ring N buf b c"
proof -
  have "(unat b + i) mod N = (unat a + (unat (b - a) + i)) mod N" for i
    using at_distance [of b a] mod_add_left_eq [of "unat b" N i] mod_add_left_eq [of "unat a + unat (b - a)" N i] by (simp add: add.assoc)
  then have "ring N buf b c = map (\<lambda>i. buf ! ((unat a + i) mod N)) [unat (b - a)..<unat (c - a)]"
    unfolding ring_def add_distance [OF assms] by (simp add: list_eq_iff_nth_eq)
  then show ?thesis unfolding ring_def add_distance [OF assms] by (simp add: map_append [symmetric] upt_add_eq_append [of 0 "unat (b - a)"] del: map_append)
qed

end

end
