(* ===== verification/Pipe.thy ===== *)
theory Pipe
  imports Monitor Demo KString Ring
begin

text \<open>
  Pipes (\<^verbatim>\<open>pipe.c\<close>): a ring of 512 bytes with two counters that run on and wrap at 32 bits.

  A pipe is known by the address \<open>a\<close> of its page, which names its lock and its two channels. The data to write is the list of
  the bytes at \<open>addr\<close>, the data read a list that goes there. \<open>pipewrite\<close> and \<open>piperead\<close> are sections:
  \<open>Blocked\<close> says that the process sleeps, with the bytes that are still to be written.
\<close>

definition PIPESIZE :: nat where "PIPESIZE = 512"

record pipe =
  pi_data :: "byte list"
  pi_nread :: "32 word"
  pi_nwrite :: "32 word"
  pi_readopen :: bool
  pi_writeopen :: bool

abbreviation pipe_lock :: "addr \<Rightarrow> lockid" where "pipe_lock a \<equiv> OtherLock (unat a)"
abbreviation nread_chan :: "addr \<Rightarrow> chan option" where "nread_chan a \<equiv> Some (Chan_addr (unat a))"
abbreviation nwrite_chan :: "addr \<Rightarrow> chan option" where "nwrite_chan a \<equiv> Some (Chan_addr (unat a + 4))"

section \<open>The routines\<close>

text \<open>The assignments of \<open>pipealloc\<close> to a page with the bytes \<open>junk\<close> in the place of \<open>data\<close>.\<close>

definition pipe_init :: "byte list \<Rightarrow> pipe" where
  "pipe_init junk = \<lparr>pi_data = junk, pi_nread = 0, pi_nwrite = 0, pi_readopen = True, pi_writeopen = True\<rparr>"

definition pipe_put :: "byte \<Rightarrow> pipe \<Rightarrow> pipe" where
  "pipe_put b p = p\<lparr>pi_data := (pi_data p)[unat (pi_nwrite p mod of_nat PIPESIZE) := b], pi_nwrite := pi_nwrite p + 1\<rparr>"

definition pipe_full :: "pipe \<Rightarrow> bool" where
  "pipe_full p \<longleftrightarrow> pi_nwrite p = pi_nread p + of_nat PIPESIZE"

fun pipewrite_loop :: "nat \<Rightarrow> addr \<Rightarrow> int \<Rightarrow> byte list \<Rightarrow> pipe \<Rightarrow> ('e, 'z) kstate_scheme \<Rightarrow>
    ((int, byte list) sect \<times> pipe \<times> ('e, 'z) kstate_scheme) result" where
  "pipewrite_loop c a n [] p S =
     bindE (wakeup c (nread_chan a) S) (\<lambda>S1. bindE (release c (pipe_lock a) S1) (\<lambda>S2. Inr (Ret n, p, S2)))"
| "pipewrite_loop c a n (b # bs) p S =
     (if pipe_full p
      then case myproc c S of
          None \<Rightarrow> if \<not> pi_readopen p then bindE (release c (pipe_lock a) S) (\<lambda>S1. Inr (Ret (-1), p, S1)) else nullderef
        | Some i \<Rightarrow>
           if \<not> pi_readopen p \<or> p_killed (proc_at S i)
           then bindE (release c (pipe_lock a) S) (\<lambda>S1. Inr (Ret (-1), p, S1))
           else bindE (wakeup c (nread_chan a) S) (\<lambda>S1.
                bindE (sleep c (nwrite_chan a) (Some (pipe_lock a)) S1) (\<lambda>S2. Inr (Blocked (b # bs), p, S2)))
      else pipewrite_loop c a n bs (pipe_put b p) S)"

definition pipewrite :: "nat \<Rightarrow> addr \<Rightarrow> int \<Rightarrow> byte list \<Rightarrow> pipe \<Rightarrow> ('e, 'z) kstate_scheme \<Rightarrow>
    ((int, byte list) sect \<times> pipe \<times> ('e, 'z) kstate_scheme) result" where
  "pipewrite c a n bs p S = bindE (acquire c (pipe_lock a) S) (pipewrite_loop c a n bs p)"

fun piperead_copy :: "nat \<Rightarrow> pipe \<Rightarrow> byte list \<times> pipe" where
  "piperead_copy 0 p = ([], p)"
| "piperead_copy (Suc n) p =
     (if pi_nread p = pi_nwrite p then ([], p)
      else case piperead_copy n (p\<lparr>pi_nread := pi_nread p + 1\<rparr>) of (bs, p1) \<Rightarrow>
        (pi_data p ! unat (pi_nread p mod of_nat PIPESIZE) # bs, p1))"

definition piperead :: "nat \<Rightarrow> addr \<Rightarrow> int \<Rightarrow> pipe \<Rightarrow> ('e, 'z) kstate_scheme \<Rightarrow>
    ((int \<times> byte list, unit) sect \<times> pipe \<times> ('e, 'z) kstate_scheme) result" where
  "piperead c a n p S =
     bindE (acquire c (pipe_lock a) S) (\<lambda>S1.
     if pi_nread p = pi_nwrite p \<and> pi_writeopen p
     then case myproc c S1 of None \<Rightarrow> nullderef
       | Some i \<Rightarrow>
          if p_killed (proc_at S1 i) then bindE (release c (pipe_lock a) S1) (\<lambda>S2. Inr (Ret (-1, []), p, S2))
          else bindE (sleep c (nread_chan a) (Some (pipe_lock a)) S1) (\<lambda>S2. Inr (Blocked (), p, S2))
     else case piperead_copy (nat n) p of (bs, p1) \<Rightarrow>
       bindE (wakeup c (nwrite_chan a) S1) (\<lambda>S2.
       bindE (release c (pipe_lock a) S2) (\<lambda>S3. Inr (Ret (int (length bs), bs), p1, S3))))"

text \<open>The page goes back to the allocator when both ends are closed.\<close>

definition pipeclose :: "'e kops \<Rightarrow> nat \<Rightarrow> addr \<Rightarrow> bool \<Rightarrow> pipe \<Rightarrow> ('e, 'z) kstate_scheme \<Rightarrow> (pipe \<times> ('e, 'z) kstate_scheme) result" where
  "pipeclose ops c a writable p S =
     bindE (acquire c (pipe_lock a) S) (\<lambda>S1.
     let p1 = (if writable then p\<lparr>pi_writeopen := False\<rparr> else p\<lparr>pi_readopen := False\<rparr>)
     in bindE (wakeup c (if writable then nread_chan a else nwrite_chan a) S1) (\<lambda>S2.
        if \<not> pi_readopen p1 \<and> \<not> pi_writeopen p1
        then bindE (release c (pipe_lock a) S2) (\<lambda>S3.
             bindE (op_kfree ops a (k_env S3)) (\<lambda>e. Inr (p1, set_env e S3)))
        else bindE (release c (pipe_lock a) S2) (\<lambda>S3. Inr (p1, S3))))"

section \<open>The ring as a queue\<close>

definition pipe_wf :: "pipe \<Rightarrow> bool" where
  "pipe_wf p \<longleftrightarrow> length (pi_data p) = PIPESIZE \<and> unat (pi_nwrite p - pi_nread p) \<le> PIPESIZE"

definition pipe_queue :: "pipe \<Rightarrow> byte list" where
  "pipe_queue p = ring PIPESIZE (pi_data p) (pi_nread p) (pi_nwrite p)"

interpretation pring: ring_buffer PIPESIZE
  by unfold_locales (simp_all add: PIPESIZE_def)

lemma length_pipe_queue [simp]: "length (pipe_queue p) = unat (pi_nwrite p - pi_nread p)"
  by (simp add: pipe_queue_def)

lemma pipe_full_queue: "pipe_wf p \<Longrightarrow> pipe_full p \<longleftrightarrow> length (pipe_queue p) = PIPESIZE"
proof -
  have "pipe_full p \<longleftrightarrow> pi_nwrite p - pi_nread p = of_nat PIPESIZE" by (auto simp: pipe_full_def algebra_simps)
  also have "\<dots> \<longleftrightarrow> unat (pi_nwrite p - pi_nread p) = unat (of_nat PIPESIZE :: 32 word)" by (rule word_unat_eq_iff)
  also have "unat (of_nat PIPESIZE :: 32 word) = PIPESIZE" by (simp add: PIPESIZE_def)
  finally show ?thesis by simp
qed

lemma pipe_put_queue:
  assumes "pipe_wf p" "\<not> pipe_full p"
  shows "pipe_wf (pipe_put b p)" "pipe_queue (pipe_put b p) = pipe_queue p @ [b]"
proof -
  have k: "unat (pi_nwrite p - pi_nread p) < PIPESIZE" using assms pipe_full_queue [OF assms(1)] by (simp add: pipe_wf_def)
  then have "unat (pi_nwrite p + 1 - pi_nread p) = Suc (unat (pi_nwrite p - pi_nread p))" using succ_distance [of "pi_nwrite p" "pi_nread p"] by (simp add: PIPESIZE_def)
  then show "pipe_wf (pipe_put b p)" using assms(1) k by (simp add: pipe_wf_def pipe_put_def)
  show "pipe_queue (pipe_put b p) = pipe_queue p @ [b]" using pring.ring_snoc k assms(1) by (simp add: pipe_queue_def pipe_put_def pipe_wf_def)
qed

lemma pipe_get_queue:
  assumes "pipe_wf p" "pi_nread p \<noteq> pi_nwrite p"
  defines "p1 \<equiv> p\<lparr>pi_nread := pi_nread p + 1\<rparr>"
  shows "pipe_wf p1" "pipe_queue p = pi_data p ! unat (pi_nread p mod of_nat PIPESIZE) # pipe_queue p1"
proof -
  show "pipe_wf p1" using assms(1,2) pred_distance(3) [of "pi_nwrite p" "pi_nread p"] by (auto simp: pipe_wf_def p1_def)
  show "pipe_queue p = pi_data p ! unat (pi_nread p mod of_nat PIPESIZE) # pipe_queue p1"
    using pring.ring_Cons [OF assms(2)] by (simp add: pipe_queue_def p1_def)
qed

lemma piperead_copy_queue:
  assumes "pipe_wf p" "piperead_copy n p = (bs, p1)"
  shows "pipe_wf p1 \<and> bs = take n (pipe_queue p) \<and> pipe_queue p1 = drop n (pipe_queue p)"
  using assms
proof (induction n arbitrary: p bs)
  case (Suc n)
  show ?case
  proof (cases "pi_nread p = pi_nwrite p")
    case True
    then show ?thesis using Suc.prems by (simp add: pipe_queue_def)
  next
    case False
    note G = pipe_get_queue [OF Suc.prems(1) False]
    obtain cs where "piperead_copy n (p\<lparr>pi_nread := pi_nread p + 1\<rparr>) = (cs, p1)"
      "bs = pi_data p ! unat (pi_nread p mod of_nat PIPESIZE) # cs" using Suc.prems(2) False by (auto split: prod.splits)
    with Suc.IH [OF G(1)] G(2) show ?thesis by simp
  qed
qed (simp add: pipe_queue_def)

section \<open>The routines as sections\<close>

lemma pipe_lock_neq [simp]: "pipe_lock a \<noteq> PtableLock"
  by simp

text \<open>
  The end of a write section of process \<open>i\<close> with \<open>rest\<close> not yet written: everything is written and the readers are woken, or
  the ring is full and the call gives up, or sleeps until there is room.
\<close>

definition write_end :: "nat \<Rightarrow> addr \<Rightarrow> int \<Rightarrow> nat \<Rightarrow> nat \<Rightarrow> byte list \<Rightarrow> pipe \<Rightarrow> ('e, 'z) kstate_scheme \<Rightarrow> (int, byte list) sect \<Rightarrow> ('e, 'z) kstate_scheme \<Rightarrow> bool" where
  "write_end c a n i k rest p S r S' \<longleftrightarrow>
     (if rest = [] then r = Ret n \<and> at_ok c (Some (i, k)) S' \<and> k_procs S' = map (wake_proc (nread_chan a)) (k_procs S)
      else pipe_full p \<and>
        (if \<not> pi_readopen p \<or> p_killed (proc_at S i) then r = Ret (-1) \<and> at_ok c (Some (i, k)) S' \<and> k_procs S' = k_procs S
         else r = Blocked rest \<and> (\<exists>S''. scheduler_after c S' = Inr S'' \<and> idle_ok c S''
           \<and> p_state (proc_at S'' i) = SLEEPING \<and> p_chan (proc_at S'' i) = nwrite_chan a)))"

lemma pipewrite_loop_spec:
  assumes "held c (pipe_lock a) (Some (i, k)) S" "pipe_wf p"
  shows "\<exists>j p' r S'. pipewrite_loop c a n bs p S = Inr (r, p', S') \<and> j \<le> length bs \<and> pipe_wf p' \<and> pipe_queue p' = pipe_queue p @ take j bs
    \<and> pi_readopen p' = pi_readopen p \<and> pi_writeopen p' = pi_writeopen p \<and> write_end c a n i k (drop j bs) p' S r S'"
  using assms(2)
proof (induction bs arbitrary: p)
  case Nil
  note W = held_wakeup [OF assms(1), of "nread_chan a"] note R = held_release [OF W(2)]
  show ?case using W R Nil by (simp add: write_end_def wakeup1_def)
next
  case (Cons b bs)
  show ?case
  proof (cases "pipe_full p")
    case False
    note P = pipe_put_queue [OF Cons.prems False, of b]
    obtain j p' r S' where "pipewrite_loop c a n bs (pipe_put b p) S = Inr (r, p', S')" "j \<le> length bs" "pipe_wf p'"
      "pipe_queue p' = pipe_queue (pipe_put b p) @ take j bs" "pi_readopen p' = pi_readopen (pipe_put b p)"
      "pi_writeopen p' = pi_writeopen (pipe_put b p)" "write_end c a n i k (drop j bs) p' S r S'" using Cons.IH [OF P(1)] by blast
    then show ?thesis using False P(2) by (intro exI [of _ "Suc j"] exI [of _ p'] exI [of _ r] exI [of _ S']) (simp add: pipe_put_def)
  next
    case True
    have my: "myproc c S = Some i" using assms(1) tabD(2) [of c "Some (i, k)" S] by (simp add: held_def runs_def myproc_def)
    note R = held_release [OF assms(1)] and W = held_wakeup [OF assms(1), of "nread_chan a"]
    obtain S1 S'' where "sleep c (nwrite_chan a) (Some (pipe_lock a)) (wakeup1 (nread_chan a) S) = Inr S1" "scheduler_after c S1 = Inr S''"
      "idle_ok c S''" "p_state (proc_at S'' i) = SLEEPING" "p_chan (proc_at S'' i) = nwrite_chan a" using held_sleep [OF W(2), of "nwrite_chan a"] by blast
    then show ?thesis using True my R W Cons.prems
      by (cases "\<not> pi_readopen p \<or> p_killed (proc_at S i)") (auto intro!: exI [of _ "0 :: nat"] simp: write_end_def)
  qed
qed

lemma kinv_held:
  assumes "kinv c S" "myproc c S = Some i"
  obtains k where "acquire c (pipe_lock a) S = Inr (enter c (pipe_lock a) S)" "held c (pipe_lock a) (Some (i, k)) (enter c (pipe_lock a) S)"
    "hale S" "at_ok c (Some (i, k)) S"
proof -
  obtain k where "run_ok c i k S" using kinv_run [OF assms] by blast
  then have "at_ok c (Some (i, k)) S" by (simp add: at_ok_modes)
  from that held_acquire [OF this, of "pipe_lock a"] this show thesis using assms(1) by (simp add: kinv_def)
qed

text \<open>
  C28. A write section puts a first part of the bytes at the end of the pipe, in order, whatever the values of the two
  counters (they wrap). It returns the count when all are in and wakes the readers; otherwise the pipe is full, and the call
  returns -1 if the read end is closed or the process killed, or else sleeps on \<open>nwrite\<close> with the rest still to write.
\<close>

theorem pipe_write_result:
  assumes "kinv c S" "myproc c S = Some i" "pipe_wf p"
  shows "\<exists>j p' r S' k. pipewrite c a n bs p S = Inr (r, p', S') \<and> j \<le> length bs \<and> pipe_wf p' \<and> pipe_queue p' = pipe_queue p @ take j bs
    \<and> pi_readopen p' = pi_readopen p \<and> pi_writeopen p' = pi_writeopen p \<and> write_end c a n i k (drop j bs) p' S r S'"
proof -
  obtain k where H: "acquire c (pipe_lock a) S = Inr (enter c (pipe_lock a) S)" "held c (pipe_lock a) (Some (i, k)) (enter c (pipe_lock a) S)"
    by (rule kinv_held [OF assms(1,2)])
  have "write_end c a n i k rest p' (enter c (pipe_lock a) S) = write_end c a n i k rest p' S" for rest p'
    by (simp add: write_end_def fun_eq_iff)
  with pipewrite_loop_spec [OF H(2) assms(3), of n bs]
  obtain j p' r S' where "pipewrite c a n bs p S = Inr (r, p', S')" "j \<le> length bs" "pipe_wf p'" "pipe_queue p' = pipe_queue p @ take j bs"
    "pi_readopen p' = pi_readopen p" "pi_writeopen p' = pi_writeopen p" "write_end c a n i k (drop j bs) p' S r S'"
    unfolding pipewrite_def H(1) bindE_simps by auto
  then show ?thesis by blast
qed

theorem pipe_write_result_witness:
  "\<exists>j p' r S'. pipewrite 0 0x80000000 2 [7, 8] (pipe_init (replicate PIPESIZE 0)) demo_run = Inr (r, p', S') \<and> pipe_queue p' = take j [7, 8]"
proof -
  have "pipe_wf (pipe_init (replicate PIPESIZE 0))" "pipe_queue (pipe_init (replicate PIPESIZE 0)) = []"
    by (simp_all add: pipe_wf_def pipe_init_def pipe_queue_def)
  then show ?thesis
    using pipe_write_result [OF demo_run_facts(2) demo_run_mode(2), of "pipe_init (replicate PIPESIZE 0)" "0x80000000" 2 "[7, 8]"] by fastforce
qed

text \<open>
  C29. A read takes the first \<open>n\<close> bytes off the pipe, fewer if there are fewer, and wakes the writers. On an empty pipe it sleeps on
  \<open>nread\<close> as long as the write end is open (or returns -1 if the process is killed); when it is closed it returns 0.
\<close>

theorem pipe_read_result:
  assumes "kinv c S" "myproc c S = Some i" "pipe_wf p"
  shows "\<exists>r p' S'. piperead c a n p S = Inr (r, p', S') \<and> pipe_wf p' \<and>
    (if pipe_queue p = [] \<and> pi_writeopen p
     then p' = p \<and> (if p_killed (proc_at S i) then r = Ret (-1, []) \<and> kinv c S'
       else r = Blocked () \<and> (\<exists>S''. scheduler_after c S' = Inr S'' \<and> kinv c S'' \<and> p_state (proc_at S'' i) = SLEEPING \<and> p_chan (proc_at S'' i) = nread_chan a))
     else r = Ret (int (length (take (nat n) (pipe_queue p))), take (nat n) (pipe_queue p)) \<and> pipe_queue p' = drop (nat n) (pipe_queue p)
       \<and> kinv c S' \<and> k_procs S' = map (wake_proc (nwrite_chan a)) (k_procs S))"
proof -
  let ?S1 = "enter c (pipe_lock a) S"
  obtain k where H: "acquire c (pipe_lock a) S = Inr ?S1" "held c (pipe_lock a) (Some (i, k)) ?S1" "hale S" "at_ok c (Some (i, k)) S"
    by (rule kinv_held [OF assms(1,2)])
  have my: "myproc c ?S1 = Some i" using H(2) tabD(2) [of c "Some (i, k)" ?S1] by (simp add: held_def runs_def myproc_def)
  have e: "pi_nread p = pi_nwrite p \<longleftrightarrow> pipe_queue p = []"
    using word_unat_eq_iff [of "pi_nwrite p - pi_nread p" 0] by (auto simp: pipe_queue_def ring_def)
  show ?thesis
  proof (cases "pipe_queue p = [] \<and> pi_writeopen p")
    case True
    note R = held_release [OF H(2)]
    have "init_kept S (depart c (pipe_lock a) ?S1)" by (rule kept_cong [OF kept_refl [of "{}" S]]) simp_all
    then have "kinv c (depart c (pipe_lock a) ?S1)" using R(2) hale_kept [OF H(3)] by (auto simp: kinv_def)
    moreover obtain S2 S'' where "sleep c (nread_chan a) (Some (pipe_lock a)) ?S1 = Inr S2" "scheduler_after c S2 = Inr S''" "idle_ok c S''"
      "init_kept ?S1 S''" "p_state (proc_at S'' i) = SLEEPING" "p_chan (proc_at S'' i) = nread_chan a" using held_sleep [OF H(2), of "nread_chan a"] by blast
    moreover from this have "init_kept S S''" by (intro kept_cong [of "{}" ?S1 S'' S S'']) simp_all
    then have "hale S''" by (rule hale_kept [OF H(3)])
    with calculation have "kinv c S''" using at_ok_modes(1) [of c S''] by (auto simp: kinv_def)
    ultimately show ?thesis using True H(1) my R(1) e assms(3) by (auto simp: piperead_def)
  next
    case False
    obtain bs p1 where C: "piperead_copy (nat n) p = (bs, p1)" by (cases "piperead_copy (nat n) p")
    note Q = piperead_copy_queue [OF assms(3) C]
    note W = held_wakeup [OF H(2), of "nwrite_chan a"] note R = held_release [OF W(2)]
    let ?S3 = "depart c (pipe_lock a) (wakeup1 (nwrite_chan a) ?S1)"
    have "init_kept ?S1 (wakeup1 (nwrite_chan a) ?S1)" using H(2) tabD(3) [of c "Some (i, k)" ?S1] by (intro kept_wakeup1) (simp add: held_def)
    then have "init_kept S ?S3" by (rule kept_cong) simp_all
    then have "kinv c ?S3" using R(2) hale_kept [OF H(3)] by (auto simp: kinv_def)
    then show ?thesis using False H(1) W(1) R(1) C Q e by (auto simp: piperead_def wakeup1_def)
  qed
qed

theorem pipe_read_result_witness:
  "\<exists>p' S'. piperead 0 0x80000000 1 (pipe_put 7 (pipe_init (replicate PIPESIZE 0))) demo_run = Inr (Ret (1, [7]), p', S') \<and> pipe_queue p' = []"
proof -
  let ?p = "pipe_init (replicate PIPESIZE 0)"
  have "pipe_wf ?p" "pipe_queue ?p = []" "\<not> pipe_full ?p"
    by (simp_all add: pipe_wf_def pipe_init_def pipe_queue_def pipe_full_def PIPESIZE_def)
  note P = pipe_put_queue [OF this(1,3), of 7]
  from pipe_read_result [OF demo_run_facts(2) demo_run_mode(2) P(1), of "0x80000000" 1] P(2) \<open>pipe_queue ?p = []\<close> show ?thesis by auto
qed

end
