(* ===== verification/File.thy ===== *)
theory File
  imports Dir Pipe
begin

text \<open>
  Open files (\<^verbatim>\<open>file.c\<close>) and the creation of pipes (\<open>pipealloc\<close> of \<^verbatim>\<open>pipe.c\<close>). A file is known by its position in \<open>ftable.file\<close>, a pipe by the address of
  its page, under which \<open>f_pipe\<close> holds it. \<open>f_user\<close> records what has been stored into the memory of user
  processes, as address and bytes, in order.
\<close>

datatype fd_type = FD_NONE | FD_PIPE | FD_INODE

record ofile =
  fi_type :: fd_type
  fi_ref :: int
  fi_readable :: bool
  fi_writable :: bool
  fi_pipe :: addr
  fi_ip :: "nat option"
  fi_off :: "32 word"

record fsys = icached +
  f_file :: "ofile list"
  f_pipe :: "addr \<Rightarrow> pipe"
  f_user :: "(addr \<times> byte list) list"

type_synonym ('x, 'z) fstate = "('x fsys_scheme, 'z) kstate_scheme"
type_synonym ('x, 'z) devices = "nat \<Rightarrow> ('x fsys_ext, 'z) devsw"

definition FtableLock :: lockid where "FtableLock = OtherLock 5"

abbreviation file_at :: "'x fsys_scheme \<Rightarrow> nat \<Rightarrow> ofile" where
  "file_at e i \<equiv> f_file e ! i"

definition upd_file :: "nat \<Rightarrow> (ofile \<Rightarrow> ofile) \<Rightarrow> 'x fsys_scheme \<Rightarrow> 'x fsys_scheme" where
  "upd_file i f e = e\<lparr>f_file := (f_file e)[i := f (file_at e i)]\<rparr>"

definition set_pipe :: "addr \<Rightarrow> pipe \<Rightarrow> 'x fsys_scheme \<Rightarrow> 'x fsys_scheme" where
  "set_pipe a p e = e\<lparr>f_pipe := (f_pipe e)(a := p)\<rparr>"

definition copy_user :: "addr \<Rightarrow> byte list \<Rightarrow> ('x, 'z) fstate \<Rightarrow> ('x, 'z) fstate" where
  "copy_user a bs S = upd_env (\<lambda>e. e\<lparr>f_user := f_user e @ [(a, bs)]\<rparr>) S"

section \<open>The table\<close>

definition fileinit :: "('x, 'z) fstate \<Rightarrow> ('x, 'z) fstate" where
  "fileinit S = initlock FtableLock ''ftable'' S"

definition filealloc :: "nat \<Rightarrow> ('x, 'z) fstate \<Rightarrow> (nat option \<times> ('x, 'z) fstate) result" where
  "filealloc c S =
     bindE (acquire c FtableLock S) (\<lambda>S1.
     case find (\<lambda>i. fi_ref (file_at (k_env S1) i) = 0) [0..<NFILE] of
       Some f \<Rightarrow> bindE (release c FtableLock (upd_env (upd_file f (\<lambda>x. x\<lparr>fi_ref := 1\<rparr>)) S1)) (\<lambda>S2. Inr (Some f, S2))
     | None \<Rightarrow> bindE (release c FtableLock S1) (\<lambda>S2. Inr (None, S2)))"

definition filedup :: "nat \<Rightarrow> nat \<Rightarrow> ('x, 'z) fstate \<Rightarrow> (nat \<times> ('x, 'z) fstate) result" where
  "filedup c f S =
     bindE (acquire c FtableLock S) (\<lambda>S1.
     if fi_ref (file_at (k_env S1) f) < 1 then panic ''filedup''
     else bindE (release c FtableLock (upd_env (upd_file f (\<lambda>x. x\<lparr>fi_ref := fi_ref x + 1\<rparr>)) S1)) (\<lambda>S2. Inr (f, S2)))"

definition fileclose :: "('x fsys_scheme) kops \<Rightarrow> nat \<Rightarrow> nat \<Rightarrow> ('x, 'z) fstate \<Rightarrow> ('x, 'z) fstate result" where
  "fileclose ops c f S =
     bindE (acquire c FtableLock S) (\<lambda>S1.
     let ff = file_at (k_env S1) f
     in if fi_ref ff < 1 then panic ''fileclose''
        else if fi_ref ff - 1 > 0 then release c FtableLock (upd_env (upd_file f (\<lambda>x. x\<lparr>fi_ref := fi_ref x - 1\<rparr>)) S1)
        else bindE (release c FtableLock (upd_env (upd_file f (\<lambda>x. x\<lparr>fi_ref := 0, fi_type := FD_NONE\<rparr>)) S1)) (\<lambda>S2.
          case fi_type ff of
            FD_PIPE \<Rightarrow>
              bindE (pipeclose ops c (fi_pipe ff) (fi_writable ff) (f_pipe (k_env S2) (fi_pipe ff)) S2) (\<lambda>(p, S3).
              Inr (upd_env (set_pipe (fi_pipe ff) p) S3))
          | FD_INODE \<Rightarrow>
              (case fi_ip ff of None \<Rightarrow> nullderef
               | Some ip \<Rightarrow> bindE (start_op c S2) (\<lambda>S3. bindE (iput c ip S3) (end_op c)))
          | FD_NONE \<Rightarrow> Inr S2))"

section \<open>Reading and writing\<close>

definition filestat :: "nat \<Rightarrow> nat \<Rightarrow> ('x, 'z) fstate \<Rightarrow> (stat_t option \<times> ('x, 'z) fstate) result" where
  "filestat c f S =
     (let ff = file_at (k_env S) f
      in if fi_type ff = FD_INODE
         then bindE (ilock c (fi_ip ff) S) (\<lambda>S1.
              case fi_ip ff of None \<Rightarrow> nullderef
              | Some ip \<Rightarrow> let st = stati (inode_at (k_env S1) ip) in bindE (iunlock c (Some ip) S1) (\<lambda>S2. Inr (Some st, S2)))
         else Inr (None, S))"

definition fileread :: "('x, 'z) devices \<Rightarrow> nat \<Rightarrow> nat \<Rightarrow> int \<Rightarrow> ('x, 'z) fstate \<Rightarrow> ((int \<times> byte list, unit) sect \<times> ('x, 'z) fstate) result" where
  "fileread dv c f n S =
     (let ff = file_at (k_env S) f
      in if \<not> fi_readable ff then Inr (Ret (-1, []), S)
         else case fi_type ff of
           FD_PIPE \<Rightarrow>
             bindE (piperead c (fi_pipe ff) n (f_pipe (k_env S) (fi_pipe ff)) S) (\<lambda>(r, p, S1). Inr (r, upd_env (set_pipe (fi_pipe ff) p) S1))
         | FD_INODE \<Rightarrow>
             bindE (ilock c (fi_ip ff) S) (\<lambda>S1.
             case fi_ip ff of None \<Rightarrow> nullderef
             | Some ip \<Rightarrow>
                bindE (readi dv c ip (fi_off ff) (word_of_int n) S1) (\<lambda>((r, bs), S2).
                bindE (iunlock c (Some ip) (if r > 0 then upd_env (upd_file f (\<lambda>x. x\<lparr>fi_off := fi_off x + word_of_int r\<rparr>)) S2 else S2)) (\<lambda>S3.
                Inr (Ret (r, bs), S3))))
         | FD_NONE \<Rightarrow> panic ''fileread'')"

text \<open>The bytes of one transaction.\<close>

definition filewrite_max :: int where
  "filewrite_max = ((int MAXOPBLOCKS - 1 - 1 - 2) div 2) * 512"

fun filewrite_loop :: "nat \<Rightarrow> ('x, 'z) devices \<Rightarrow> nat \<Rightarrow> nat \<Rightarrow> nat option \<Rightarrow> byte list \<Rightarrow> int \<Rightarrow> int \<Rightarrow> ('x, 'z) fstate \<Rightarrow> (int \<times> ('x, 'z) fstate) result" where
  "filewrite_loop 0 dv c f ipo src n i S = (if i < n then Inl NoReturn else Inr (i, S))"
| "filewrite_loop (Suc k) dv c f ipo src n i S =
     (if i < n
      then let n1 = (if n - i > filewrite_max then filewrite_max else n - i)
        in bindE (start_op c S) (\<lambda>S1.
           bindE (ilock c ipo S1) (\<lambda>S2.
           case ipo of None \<Rightarrow> nullderef
           | Some ip \<Rightarrow>
              bindE (writei dv c ip (drop (nat i) src) (fi_off (file_at (k_env S2) f)) (word_of_int n1) S2) (\<lambda>(r, S3).
              bindE (iunlock c (Some ip) (if r > 0 then upd_env (upd_file f (\<lambda>x. x\<lparr>fi_off := fi_off x + word_of_int r\<rparr>)) S3 else S3)) (\<lambda>S4.
              bindE (end_op c S4) (\<lambda>S5.
              if r < 0 then Inr (i, S5) else if r \<noteq> n1 then panic ''short filewrite'' else filewrite_loop k dv c f ipo src n (i + r) S5)))))
      else Inr (i, S))"

definition filewrite :: "('x, 'z) devices \<Rightarrow> nat \<Rightarrow> nat \<Rightarrow> byte list \<Rightarrow> int \<Rightarrow> ('x, 'z) fstate \<Rightarrow> ((int, byte list) sect \<times> ('x, 'z) fstate) result" where
  "filewrite dv c f src n S =
     (let ff = file_at (k_env S) f
      in if \<not> fi_writable ff then Inr (Ret (-1), S)
         else case fi_type ff of
           FD_PIPE \<Rightarrow>
             bindE (pipewrite c (fi_pipe ff) n src (f_pipe (k_env S) (fi_pipe ff)) S) (\<lambda>(r, p, S1). Inr (r, upd_env (set_pipe (fi_pipe ff) p) S1))
         | FD_INODE \<Rightarrow>
             bindE (filewrite_loop (nat n) dv c f (fi_ip ff) src n 0 S) (\<lambda>(i, S1). Inr (Ret (if i = n then n else -1), S1))
         | FD_NONE \<Rightarrow> panic ''filewrite'')"

section \<open>Making a pipe\<close>

text \<open>\<open>junk\<close> are the bytes of the new page; at the label \<open>bad\<close> there is never a page to give back.\<close>

definition close_some :: "('x fsys_scheme) kops \<Rightarrow> nat \<Rightarrow> nat option \<Rightarrow> ('x, 'z) fstate \<Rightarrow> ('x, 'z) fstate result" where
  "close_some ops c fo S = (case fo of None \<Rightarrow> Inr S | Some f \<Rightarrow> fileclose ops c f S)"

definition pipealloc :: "('x fsys_scheme) kops \<Rightarrow> byte list \<Rightarrow> nat \<Rightarrow> ('x, 'z) fstate \<Rightarrow> ((nat \<times> nat) option \<times> ('x, 'z) fstate) result" where
  "pipealloc ops junk c S =
     (let bad = (\<lambda>f0 f1 S. bindE (close_some ops c f0 S) (\<lambda>S1. bindE (close_some ops c f1 S1) (\<lambda>S2. Inr (None, S2))))
      in bindE (filealloc c S) (\<lambda>(f0, S1).
         case f0 of None \<Rightarrow> bad None None S1
         | Some a \<Rightarrow> bindE (filealloc c S1) (\<lambda>(f1, S2).
             case f1 of None \<Rightarrow> bad f0 None S2
             | Some b \<Rightarrow>
                let (page, e) = op_kalloc ops (k_env S2); S3 = set_env e S2
                in if page = 0 then bad f0 f1 S3
                   else Inr (Some (a, b), upd_env (\<lambda>e.
                     upd_file b (\<lambda>x. x\<lparr>fi_type := FD_PIPE, fi_readable := False, fi_writable := True, fi_pipe := page\<rparr>)
                      (upd_file a (\<lambda>x. x\<lparr>fi_type := FD_PIPE, fi_readable := True, fi_writable := False, fi_pipe := page\<rparr>)
                       (set_pipe page (pipe_init junk) e))) (initlock (pipe_lock page) ''pipe'' S3)))))"

end
