(* ===== verification/Syscall.thy ===== *)
theory Syscall
  imports Monitor Demo KString
begin

text \<open>
  System calls: fetching arguments from user memory (\<^verbatim>\<open>syscall.c\<close>), the calls of
  \<^verbatim>\<open>sysproc.c\<close>, the table and the dispatcher.

  \<open>um\<close> is memory as the page table of the running process shows it. The calls of \<^verbatim>\<open>sysfile.c\<close>
  and the write to the power-off port of \<^verbatim>\<open>kshutdown.c\<close> are arguments. A call returns \<open>Ret v\<close>, or leaves the CPU in
  \<open>sched()\<close> (\<open>Blocked\<close>): for good in \<open>exit\<close>, until it is switched to again in the others.
\<close>

section \<open>Arguments\<close>

text \<open>\<open>None\<close> stands for the return value -1 of these functions.\<close>

definition fetchint :: "bmem \<Rightarrow> nat \<Rightarrow> addr \<Rightarrow> ('e, 'z) kstate_scheme \<Rightarrow> (int option) result" where
  "fetchint um c a S =
     (case myproc c S of None \<Rightarrow> nullderef
      | Some p \<Rightarrow> let sz = p_sz (proc_at S p)
          in if a \<ge> sz \<or> a + 4 > sz then Inr None else Inr (Some (sint (load32 a um))))"

text \<open>The loop of \<open>fetchstr\<close> from \<open>s\<close> with \<open>k\<close> bytes up to \<open>ep\<close>; \<open>i\<close> is \<open>s - *pp\<close>.\<close>

fun fetchstr_loop :: "bmem \<Rightarrow> addr \<Rightarrow> nat \<Rightarrow> int \<Rightarrow> int option" where
  "fetchstr_loop um s 0 i = None"
| "fetchstr_loop um s (Suc k) i = (if um s = 0 then Some i else fetchstr_loop um (s + 1) k (i + 1))"

text \<open>The string's address and length.\<close>

definition fetchstr :: "bmem \<Rightarrow> nat \<Rightarrow> addr \<Rightarrow> ('e, 'z) kstate_scheme \<Rightarrow> ((addr \<times> int) option) result" where
  "fetchstr um c a S =
     (case myproc c S of None \<Rightarrow> nullderef
      | Some p \<Rightarrow> let sz = p_sz (proc_at S p)
          in if a \<ge> sz then Inr None
             else Inr (map_option (\<lambda>i. (a, i)) (fetchstr_loop um a (unat sz - unat a) 0)))"

definition argint :: "bmem \<Rightarrow> nat \<Rightarrow> int \<Rightarrow> ('e, 'z) kstate_scheme \<Rightarrow> (int option) result" where
  "argint um c n S =
     (case myproc c S of None \<Rightarrow> nullderef
      | Some p \<Rightarrow> fetchint um c (tf_esp (p_tf (proc_at S p)) + 4 + word_of_int (4 * n)) S)"

definition argptr :: "bmem \<Rightarrow> nat \<Rightarrow> int \<Rightarrow> int \<Rightarrow> ('e, 'z) kstate_scheme \<Rightarrow> (addr option) result" where
  "argptr um c n len S =
     (case myproc c S of None \<Rightarrow> nullderef
      | Some p \<Rightarrow> bindE (argint um c n S) (\<lambda>io. case io of None \<Rightarrow> Inr None
          | Some i \<Rightarrow> let sz = p_sz (proc_at S p); a = word_of_int i :: addr
              in if len < 0 \<or> a \<ge> sz \<or> a + word_of_int len > sz then Inr None else Inr (Some a)))"

definition argstr :: "bmem \<Rightarrow> nat \<Rightarrow> int \<Rightarrow> ('e, 'z) kstate_scheme \<Rightarrow> ((addr \<times> int) option) result" where
  "argstr um c n S =
     bindE (argint um c n S) (\<lambda>io. case io of None \<Rightarrow> Inr None | Some i \<Rightarrow> fetchstr um c (word_of_int i) S)"

section \<open>The calls of sysproc.c\<close>

type_synonym ('e, 'z) syscall_fn = "nat \<Rightarrow> ('e, 'z) kstate_scheme \<Rightarrow> ((int, unit) sect \<times> ('e, 'z) kstate_scheme) result"

definition sys_fork :: "'e kops \<Rightarrow> ('e, 'z) syscall_fn" where
  "sys_fork ops c S = bindE (fork ops c S) (\<lambda>(r, S1). Inr (Ret r, S1))"

text \<open>A call with one integer argument that returns -1 when it cannot be fetched.\<close>

definition with_int :: "bmem \<Rightarrow> (int \<Rightarrow> ('e, 'z) syscall_fn) \<Rightarrow> ('e, 'z) syscall_fn" where
  "with_int um f c S = bindE (argint um c 0 S) (\<lambda>io. case io of None \<Rightarrow> Inr (Ret (-1), S) | Some n \<Rightarrow> f n c S)"

definition sys_priofork :: "'e kops \<Rightarrow> bmem \<Rightarrow> ('e, 'z) syscall_fn" where
  "sys_priofork ops um = with_int um (\<lambda>d c S. bindE (priofork ops c d S) (\<lambda>(r, S1). Inr (Ret r, S1)))"

definition sys_exit :: "'e kops \<Rightarrow> ('e, 'z) syscall_fn" where
  "sys_exit ops c S = bindE (exit ops c S) (\<lambda>S1. Inr (Blocked (), S1))"

definition sys_wait :: "'e kops \<Rightarrow> ('e, 'z) syscall_fn" where
  "sys_wait ops c S = bindE (wait ops c S) (\<lambda>(r, S1). Inr (case r of Some v \<Rightarrow> Ret v | None \<Rightarrow> Blocked (), S1))"

definition sys_kill :: "bmem \<Rightarrow> ('e, 'z) syscall_fn" where
  "sys_kill um = with_int um (\<lambda>pid c S. bindE (kill c pid S) (\<lambda>(r, S1). Inr (Ret r, S1)))"

definition sys_getpid :: "('e, 'z) syscall_fn" where
  "sys_getpid c S = (case myproc c S of None \<Rightarrow> nullderef | Some p \<Rightarrow> Inr (Ret (p_pid (proc_at S p)), S))"

definition sys_sbrk :: "'e kops \<Rightarrow> bmem \<Rightarrow> ('e, 'z) syscall_fn" where
  "sys_sbrk ops um = with_int um (\<lambda>n c S.
     case myproc c S of None \<Rightarrow> nullderef
     | Some p \<Rightarrow> let a = sint (p_sz (proc_at S p))
         in bindE (growproc ops c n S) (\<lambda>(r, S1). Inr (Ret (if r < 0 then -1 else a), S1)))"

text \<open>
  The loop of \<open>sys_sleep\<close>, with \<open>tickslock\<close> held. The comparison with \<open>n\<close> is unsigned. A process that sleeps in it goes on
  with the same \<open>n\<close> and \<open>ticks0\<close>.
\<close>

definition sys_sleep_loop :: "int \<Rightarrow> 32 word \<Rightarrow> nat \<Rightarrow> ('e, 'z) kstate_scheme \<Rightarrow> ((int, int \<times> 32 word) sect \<times> ('e, 'z) kstate_scheme) result" where
  "sys_sleep_loop n ticks0 c S =
     (if k_ticks S - ticks0 < word_of_int n
      then case myproc c S of None \<Rightarrow> nullderef
        | Some p \<Rightarrow>
           if p_killed (proc_at S p) then bindE (release c TicksLock S) (\<lambda>S1. Inr (Ret (-1), S1))
           else bindE (sleep c (Some Chan_ticks) (Some TicksLock) S) (\<lambda>S1. Inr (Blocked (n, ticks0), S1))
      else bindE (release c TicksLock S) (\<lambda>S1. Inr (Ret 0, S1)))"

definition sys_sleep :: "bmem \<Rightarrow> ('e, 'z) syscall_fn" where
  "sys_sleep um = with_int um (\<lambda>n c S.
     bindE (acquire c TicksLock S) (\<lambda>S1.
     bindE (sys_sleep_loop n (k_ticks S1) c S1) (\<lambda>(r, S2). Inr (map_sect id (\<lambda>_. ()) r, S2))))"

definition sys_uptime :: "('e, 'z) syscall_fn" where
  "sys_uptime c S =
     bindE (acquire c TicksLock S) (\<lambda>S1.
     let xticks = k_ticks S1 in bindE (release c TicksLock S1) (\<lambda>S2. Inr (Ret (sint xticks), S2)))"

definition sys_yield :: "('e, 'z) syscall_fn" where
  "sys_yield c S = bindE (yield c S) (\<lambda>S1. Inr (Blocked (), S1))"

definition sys_shutdown :: "(('e, 'z) kstate_scheme \<Rightarrow> ('e, 'z) kstate_scheme result) \<Rightarrow> ('e, 'z) syscall_fn" where
  "sys_shutdown poweroff c S = bindE (poweroff S) (\<lambda>S1. Inr (Ret 0, S1))"

definition sys_schedlog :: "bmem \<Rightarrow> ('e, 'z) syscall_fn" where
  "sys_schedlog um = with_int um (\<lambda>n c S. Inr (Ret 0, schedlog n S))"

section \<open>The table and the dispatcher\<close>

text \<open>\<open>syscalls[]\<close>, at the numbers of \<^verbatim>\<open>syscall.h\<close>; \<open>None\<close> outside the table.\<close>

definition syscalls :: "'e kops \<Rightarrow> (('e, 'z) kstate_scheme \<Rightarrow> ('e, 'z) kstate_scheme result) \<Rightarrow> (int \<Rightarrow> ('e, 'z) syscall_fn) \<Rightarrow> bmem \<Rightarrow>
    int \<Rightarrow> ('e, 'z) syscall_fn option" where
  "syscalls ops poweroff sysfile um num =
     (if num = 1 then Some (sys_fork ops) else if num = 2 then Some (sys_exit ops) else if num = 3 then Some (sys_wait ops)
      else if num = 6 then Some (sys_kill um) else if num = 11 then Some sys_getpid else if num = 12 then Some (sys_sbrk ops um)
      else if num = 13 then Some (sys_sleep um) else if num = 14 then Some sys_uptime else if num = 22 then Some sys_yield
      else if num = 23 then Some (sys_shutdown poweroff) else if num = 24 then Some (sys_schedlog um)
      else if num = 25 then Some (sys_priofork ops um)
      else if num \<in> {4, 5, 7, 8, 9, 10, 15, 16, 17, 18, 19, 20, 21} then Some (sysfile num)
      else None)"

definition set_eax :: "nat \<Rightarrow> 32 word \<Rightarrow> ('e, 'z) kstate_scheme \<Rightarrow> ('e, 'z) kstate_scheme" where
  "set_eax p v S = upd_proc p (\<lambda>x. x\<lparr>p_tf := (p_tf x)\<lparr>tf_eax := v\<rparr>\<rparr>) S"

definition syscall :: "'e kops \<Rightarrow> (('e, 'z) kstate_scheme \<Rightarrow> ('e, 'z) kstate_scheme result) \<Rightarrow> (int \<Rightarrow> ('e, 'z) syscall_fn) \<Rightarrow> bmem \<Rightarrow> nat \<Rightarrow> ('e, 'z) handler" where
  "syscall ops poweroff sysfile um c S =
     (case myproc c S of None \<Rightarrow> nullderef
      | Some p \<Rightarrow>
        let num = sint (tf_eax (p_tf (proc_at S p)))
        in case syscalls ops poweroff sysfile um num of
             Some f \<Rightarrow> bindE (f c S) (\<lambda>(r, S1).
               case r of Ret v \<Rightarrow> Inr (Flow_ret, set_eax p (word_of_int v) S1) | Blocked _ \<Rightarrow> Inr (Flow_switch, S1))
           | None \<Rightarrow>
               bindE (kprintf ''%d %s: unknown sys call %d\<newline>''
                 [PWord (word_of_int (p_pid (proc_at S p))), PStr (Some (p_name (proc_at S p))), PWord (word_of_int num)] S) (\<lambda>S1.
               Inr (Flow_ret, set_eax p (-1) S1)))"

section \<open>Pointers from user space\<close>

lemma fetchstr_loop_empty: "0 < k \<Longrightarrow> um s = 0 \<Longrightarrow> fetchstr_loop um s k i = Some i"
  by (cases k) simp_all

lemma fetchstr_loop_spec:
  assumes "fetchstr_loop um s k i = Some j"
  shows "i \<le> j \<and> j < i + int k \<and> um (s + word_of_int (j - i)) = 0 \<and> (\<forall>x. 0 \<le> x \<and> x < j - i \<longrightarrow> um (s + word_of_int x) \<noteq> 0)"
  using assms
proof (induction k arbitrary: s i)
  case (Suc k)
  show ?case
  proof (cases "um s = 0")
    case True
    then show ?thesis using Suc.prems by auto
  next
    case False
    then have j: "fetchstr_loop um (s + 1) k (i + 1) = Some j" using Suc.prems by simp
    note IH = Suc.IH [OF j]
    have "um (s + word_of_int x) \<noteq> 0" if "0 \<le> x" "x < j - i" for x
    proof (cases "x = 0")
      case True
      then show ?thesis using False by simp
    next
      case x: False
      have "\<forall>y. 0 \<le> y \<and> y < j - (i + 1) \<longrightarrow> um (s + 1 + word_of_int y) \<noteq> 0" using IH by blast
      from this [rule_format, of "x - 1"] show ?thesis using that x by (simp add: algebra_simps)
    qed
    then show ?thesis using IH by (auto simp: algebra_simps)
  qed
qed simp

text \<open>
  C30. A pointer that \<open>argptr\<close> lets through denotes a block inside the memory of the process, and a string that
  \<open>argstr\<close> lets through is terminated inside it and has the length that it returns: address arithmetic
  does not wrap, since the process's memory ends below the kernel's.
\<close>

theorem args_inside:
  assumes "myproc c S = Some p" "p_sz (proc_at S p) \<le> KERNBASE" "len < 2 ^ 31"
  shows "(\<forall>a. argptr um c n len S = Inr (Some a) \<longrightarrow> 0 \<le> len \<and> unat a + nat len \<le> unat (p_sz (proc_at S p)))
    \<and> (\<forall>a j. argstr um c n S = Inr (Some (a, j)) \<longrightarrow> 0 \<le> j \<and> unat a + nat j < unat (p_sz (proc_at S p))
         \<and> um (a + word_of_int j) = 0 \<and> (\<forall>x. 0 \<le> x \<and> x < j \<longrightarrow> um (a + word_of_int x) \<noteq> 0))"
proof -
  let ?sz = "p_sz (proc_at S p)"
  have sz: "unat ?sz \<le> 2 ^ 31" using assms(2) by (simp add: word_le_nat_alt KERNBASE_def)
  have "0 \<le> len \<and> unat a + nat len \<le> unat ?sz" if "argptr um c n len S = Inr (Some a)" for a
  proof -
    have a: "0 \<le> len" "a < ?sz" "a + word_of_int len \<le> ?sz"
      using that assms(1) by (auto simp: argptr_def Let_def bindE_eq_Inr split: option.splits if_splits)
    moreover have "unat (word_of_int len :: addr) = nat len" using a(1) assms(3) by (simp add: unat_eq_nat_uint uint_word_of_int)
    ultimately show ?thesis using sz assms(3) unat_word_ariths(1) [of a "word_of_int len"]
      by (simp add: word_le_nat_alt word_less_nat_alt)
  qed
  moreover have "0 \<le> j \<and> unat a + nat j < unat ?sz \<and> um (a + word_of_int j) = 0 \<and> (\<forall>x. 0 \<le> x \<and> x < j \<longrightarrow> um (a + word_of_int x) \<noteq> 0)"
    if "argstr um c n S = Inr (Some (a, j))" for a j
  proof -
    have "fetchstr um c a S = Inr (Some (a, j))"
      using that by (auto simp: argstr_def bindE_eq_Inr fetchstr_def Let_def split: option.splits if_splits)
    then have a: "a < ?sz" "fetchstr_loop um a (unat ?sz - unat a) 0 = Some j"
      using assms(1) by (auto simp: fetchstr_def Let_def split: if_splits)
    from fetchstr_loop_spec [OF a(2)] have "0 \<le> j" "j < int (unat ?sz - unat a)" "um (a + word_of_int j) = 0"
      "\<forall>x. 0 \<le> x \<and> x < j \<longrightarrow> um (a + word_of_int x) \<noteq> 0" by auto
    moreover from this(1,2) have "unat a + nat j < unat ?sz" by linarith
    ultimately show ?thesis by blast
  qed
  ultimately show ?thesis by blast
qed

definition demo_user :: "nat kstate" where
  "demo_user = upd_proc 0 (\<lambda>x. x\<lparr>p_sz := 4096, p_tf := tf_zero\<rparr>) demo_run"

lemma demo_user_facts: "myproc 0 demo_user = Some 0" "proc_at demo_user 0 = (proc_at demo_run 0)\<lparr>p_sz := 4096, p_tf := tf_zero\<rparr>"
  using demo_run_mode(2,3) by (simp_all add: demo_user_def myproc_def)

theorem args_inside_witness:
  "\<exists>a b j. argptr (\<lambda>_. 0) 0 0 16 demo_user = Inr (Some a) \<and> unat a + 16 \<le> 4096 \<and> argstr (\<lambda>_. 0) 0 0 demo_user = Inr (Some (b, j)) \<and> unat b + nat j < 4096"
proof -
  have "argptr (\<lambda>_. 0) 0 0 16 demo_user = Inr (Some 0)" "argstr (\<lambda>_. 0) 0 0 demo_user = Inr (Some (0, 0))"
    by (simp_all add: argptr_def argstr_def argint_def fetchint_def fetchstr_def demo_user_facts load32_def tf_zero_def fetchstr_loop_empty)
  with args_inside [OF demo_user_facts(1), of 16 "\<lambda>_. 0" 0] show ?thesis by (auto simp: demo_user_facts KERNBASE_def)
qed

section \<open>Sleeping for some ticks\<close>



section \<open>The whole path of a call\<close>

text \<open>
  C32. A system call trap runs the function that the table has for the number in \<open>eax\<close>, with the trap frame saved in the process; the value
  it returns is in \<open>eax\<close> when the process goes on. The table has a function for exactly the numbers 1 to 25.
\<close>

theorem trap_syscall:
  fixes S :: "('e, 'z) kstate_scheme"
  assumes "myproc c S = Some p" "p < length (k_procs S)" "tf_trapno tf = T_SYSCALL" "\<not> p_killed (proc_at S p)"
    and f: "syscalls ops poweroff sysfile um (sint (tf_eax tf)) = Some f" "f c (upd_proc p (\<lambda>x. x\<lparr>p_tf := tf\<rparr>) S) = Inr (Ret v, S1)"
    and "myproc c S1 = Some p" "p < length (k_procs S1)" "\<not> p_killed (proc_at S1 p)"
  shows "(\<exists>S'. trap ops devs (syscall ops poweroff sysfile um c) c tf cr2 S = Inr (Flow_ret, S')
      \<and> p_tf (proc_at S' p) = (p_tf (proc_at S1 p))\<lparr>tf_eax := word_of_int v\<rparr> \<and> (\<forall>i. i \<noteq> p \<longrightarrow> proc_at S' i = proc_at S1 i))
    \<and> (\<forall>num. syscalls ops poweroff sysfile um num = (None :: ('e, 'z) syscall_fn option) \<longleftrightarrow> num \<notin> {1..25})"
proof
  let ?S0 = "upd_proc p (\<lambda>x. x\<lparr>p_tf := tf\<rparr>) S"
  have "myproc c ?S0 = Some p" "p_tf (proc_at ?S0 p) = tf" using assms(1,2) by (simp_all add: myproc_def)
  then have "syscall ops poweroff sysfile um c ?S0 = Inr (Flow_ret, set_eax p (word_of_int v) S1)" using f by (simp add: syscall_def)
  moreover have "trap_sysret ops c (set_eax p (word_of_int v) S1) = Inr (Flow_ret, set_eax p (word_of_int v) S1)"
    using assms(7-9) by (simp add: trap_sysret_def set_eax_def myproc_def)
  ultimately show "\<exists>S'. trap ops devs (syscall ops poweroff sysfile um c) c tf cr2 S = Inr (Flow_ret, S')
      \<and> p_tf (proc_at S' p) = (p_tf (proc_at S1 p))\<lparr>tf_eax := word_of_int v\<rparr> \<and> (\<forall>i. i \<noteq> p \<longrightarrow> proc_at S' i = proc_at S1 i)"
    using assms(1,3,4,8) by (simp add: trap_def) (simp add: set_eax_def)
  show "\<forall>num. syscalls ops poweroff sysfile um num = (None :: ('e, 'z) syscall_fn option) \<longleftrightarrow> num \<notin> {1..25}"
    by (auto simp: syscalls_def) presburger
qed

theorem trap_syscall_witness:
  "\<exists>S'. trap plain_ops \<lparr>dev_ideintr = Inr, dev_kbdintr = Inr, dev_uartintr = Inr\<rparr> (syscall plain_ops Inr (\<lambda>n c S. nullderef) (\<lambda>_. 0) 0) 0
      (tf_zero\<lparr>tf_trapno := 64, tf_eax := 11\<rparr>) 0 demo_run = Inr (Flow_ret, S')
    \<and> tf_eax (p_tf (proc_at S' 0)) = word_of_int (p_pid (proc_at demo_run 0))"
proof -
  let ?tf = "tf_zero\<lparr>tf_trapno := 64, tf_eax := 11\<rparr>"
  let ?S1 = "upd_proc 0 (\<lambda>x. x\<lparr>p_tf := ?tf\<rparr>) demo_run"
  have my: "myproc 0 ?S1 = Some 0" using demo_run_mode(2) by (simp add: myproc_def)
  then have r: "sys_getpid 0 ?S1 = Inr (Ret (p_pid (proc_at demo_run 0)), ?S1)" using demo_run_mode(3) by (simp add: sys_getpid_def)
  have "syscalls plain_ops Inr (\<lambda>n c S. nullderef) (\<lambda>_. 0) (sint (tf_eax ?tf)) = Some sys_getpid" by (simp add: syscalls_def)
  from trap_syscall [OF demo_run_mode(2,3) _ demo_run_mode(4) this r my, of "\<lparr>dev_ideintr = Inr, dev_kbdintr = Inr, dev_uartintr = Inr\<rparr>" 0]
  obtain S' where "trap plain_ops \<lparr>dev_ideintr = Inr, dev_kbdintr = Inr, dev_uartintr = Inr\<rparr> (syscall plain_ops Inr (\<lambda>n c S. nullderef) (\<lambda>_. 0) 0) 0
      ?tf 0 demo_run = Inr (Flow_ret, S')" "p_tf (proc_at S' 0) = (p_tf (proc_at ?S1 0))\<lparr>tf_eax := word_of_int (p_pid (proc_at demo_run 0))\<rparr>"
    using demo_run_mode(3,4) by (auto simp: T_SYSCALL_def)
  then show ?thesis by auto
qed

end
