(* ===== verification/Sysfile.thy ===== *)
theory Sysfile
  imports File Syscall
begin

text \<open>
  The system calls on files (\<^verbatim>\<open>sysfile.c\<close>). \<open>um\<close> is the memory of the running process as in Syscall, \<open>nm\<close> an uninitialised name buffer on the
  stack, \<open>dv\<close> the devices, \<open>ops\<close> the operations of the lower parts. \<open>exec\<close> of \<^verbatim>\<open>exec.c\<close> is an argument; Exec has it.
\<close>

unbundle bit_operations_syntax

definition O_RDONLY :: "32 word" where "O_RDONLY = 0x000"
definition O_WRONLY :: "32 word" where "O_WRONLY = 0x001"
definition O_RDWR :: "32 word" where "O_RDWR = 0x002"
definition O_CREATE :: "32 word" where "O_CREATE = 0x200"

definition user_bytes :: "bmem \<Rightarrow> addr \<Rightarrow> nat \<Rightarrow> byte list" where
  "user_bytes um a n = map (\<lambda>i. um (a + of_nat i)) [0..<n]"

text \<open>The string argument \<open>n\<close> as its bytes.\<close>

definition arg_path :: "bmem \<Rightarrow> nat \<Rightarrow> int \<Rightarrow> ('e, 'z) kstate_scheme \<Rightarrow> (byte list option) result" where
  "arg_path um c n S = bindE (argstr um c n S) (\<lambda>r. Inr (map_option (\<lambda>(a, j). user_bytes um a (nat j)) r))"

section \<open>Descriptors\<close>

definition argfd :: "bmem \<Rightarrow> nat \<Rightarrow> int \<Rightarrow> ('e, 'z) kstate_scheme \<Rightarrow> ((nat \<times> nat) option) result" where
  "argfd um c n S =
     bindE (argint um c n S) (\<lambda>io. case io of None \<Rightarrow> Inr None
     | Some fd \<Rightarrow>
        if fd < 0 \<or> fd \<ge> int NOFILE then Inr None
        else case myproc c S of None \<Rightarrow> nullderef
          | Some p \<Rightarrow> Inr (map_option (\<lambda>f. (nat fd, f)) (p_ofile (proc_at S p) ! nat fd)))"

definition set_fd :: "nat \<Rightarrow> nat \<Rightarrow> nat option \<Rightarrow> ('e, 'z) kstate_scheme \<Rightarrow> ('e, 'z) kstate_scheme" where
  "set_fd p fd fo S = upd_proc p (\<lambda>x. x\<lparr>p_ofile := (p_ofile x)[fd := fo]\<rparr>) S"

definition fdalloc :: "nat \<Rightarrow> nat \<Rightarrow> ('e, 'z) kstate_scheme \<Rightarrow> (int \<times> ('e, 'z) kstate_scheme) result" where
  "fdalloc c f S =
     (case myproc c S of None \<Rightarrow> nullderef
      | Some p \<Rightarrow>
         (case find (\<lambda>fd. p_ofile (proc_at S p) ! fd = None) [0..<NOFILE] of
            Some fd \<Rightarrow> Inr (int fd, set_fd p fd (Some f) S)
          | None \<Rightarrow> Inr (-1, S)))"

section \<open>Calls on open files\<close>

type_synonym ('x, 'z) fs_call = "('x fsys_scheme, 'z) syscall_fn"

definition sys_dup :: "bmem \<Rightarrow> ('x, 'z) fs_call" where
  "sys_dup um c S =
     bindE (argfd um c 0 S) (\<lambda>r. case r of None \<Rightarrow> Inr (Ret (-1), S)
     | Some (_, f) \<Rightarrow>
        bindE (fdalloc c f S) (\<lambda>(fd, S1).
        if fd < 0 then Inr (Ret (-1), S1) else bindE (filedup c f S1) (\<lambda>(_, S2). Inr (Ret fd, S2))))"

text \<open>The arguments of \<open>read\<close> and \<open>write\<close>: the file, the address and the length.\<close>

definition arg_io :: "bmem \<Rightarrow> nat \<Rightarrow> ('e, 'z) kstate_scheme \<Rightarrow> ((nat \<times> addr \<times> int) option) result" where
  "arg_io um c S =
     bindE (argfd um c 0 S) (\<lambda>r. case r of None \<Rightarrow> Inr None
     | Some (_, f) \<Rightarrow> bindE (argint um c 2 S) (\<lambda>io. case io of None \<Rightarrow> Inr None
         | Some n \<Rightarrow> bindE (argptr um c 1 n S) (\<lambda>po. Inr (map_option (\<lambda>a. (f, a, n)) po))))"

definition sys_read :: "('x, 'z) devices \<Rightarrow> bmem \<Rightarrow> ('x, 'z) fs_call" where
  "sys_read dv um c S =
     bindE (arg_io um c S) (\<lambda>r. case r of None \<Rightarrow> Inr (Ret (-1), S)
     | Some (f, a, n) \<Rightarrow>
        bindE (fileread dv c f n S) (\<lambda>(r, S1). case r of Ret (v, bs) \<Rightarrow> Inr (Ret v, copy_user a bs S1) | Blocked _ \<Rightarrow> Inr (Blocked (), S1)))"

definition sys_write :: "('x, 'z) devices \<Rightarrow> bmem \<Rightarrow> ('x, 'z) fs_call" where
  "sys_write dv um c S =
     bindE (arg_io um c S) (\<lambda>r. case r of None \<Rightarrow> Inr (Ret (-1), S)
     | Some (f, a, n) \<Rightarrow>
        bindE (filewrite dv c f (user_bytes um a (nat n)) n S) (\<lambda>(r, S1). Inr (map_sect id (\<lambda>_. ()) r, S1)))"

definition sys_close :: "('x fsys_scheme) kops \<Rightarrow> bmem \<Rightarrow> ('x, 'z) fs_call" where
  "sys_close ops um c S =
     bindE (argfd um c 0 S) (\<lambda>r. case r of None \<Rightarrow> Inr (Ret (-1), S)
     | Some (fd, f) \<Rightarrow>
        (case myproc c S of None \<Rightarrow> nullderef
         | Some p \<Rightarrow> bindE (fileclose ops c f (set_fd p fd None S)) (\<lambda>S1. Inr (Ret 0, S1))))"

text \<open>\<open>struct stat\<close> in memory, with the two bytes of padding after \<open>type\<close> and \<open>nlink\<close> as \<open>pad\<close>.\<close>

definition stat_bytes :: "byte list \<Rightarrow> stat_t \<Rightarrow> byte list" where
  "stat_bytes pad st = put32 16 (st_size st) (put16 12 (st_nlink st) (put32 8 (st_ino st) (put32 4 (st_dev st) (put16 0 (st_type st) pad))))"

definition sys_fstat :: "bmem \<Rightarrow> ('x, 'z) fs_call" where
  "sys_fstat um c S =
     bindE (argfd um c 0 S) (\<lambda>r. case r of None \<Rightarrow> Inr (Ret (-1), S)
     | Some (_, f) \<Rightarrow> bindE (argptr um c 1 20 S) (\<lambda>po. case po of None \<Rightarrow> Inr (Ret (-1), S)
         | Some a \<Rightarrow> bindE (filestat c f S) (\<lambda>(sto, S1).
             case sto of None \<Rightarrow> Inr (Ret (-1), S1) | Some st \<Rightarrow> Inr (Ret 0, copy_user a (stat_bytes (user_bytes um a 20) st) S1))))"

section \<open>Names\<close>

text \<open>What follows the label \<open>bad\<close> in \<open>sys_link\<close>, and the change of \<open>nlink\<close>.\<close>

definition add_link :: "nat \<Rightarrow> 16 word \<Rightarrow> nat \<Rightarrow> ('x, 'z) fstate \<Rightarrow> ('x, 'z) fstate result" where
  "add_link c k ip S = iupdate c ip (upd_env (upd_inode ip (\<lambda>x. x\<lparr>i_nlink := i_nlink x + k\<rparr>)) S)"

definition link_bad :: "nat \<Rightarrow> nat \<Rightarrow> ('x, 'z) fstate \<Rightarrow> ((int, unit) sect \<times> ('x, 'z) fstate) result" where
  "link_bad c ip S =
     bindE (ilock c (Some ip) S) (\<lambda>S1. bindE (add_link c (-1) ip S1) (\<lambda>S2. bindE (iunlockput c ip S2) (\<lambda>S3.
     bindE (end_op c S3) (\<lambda>S4. Inr (Ret (-1), S4)))))"

definition sys_link :: "('x, 'z) devices \<Rightarrow> byte list \<Rightarrow> bmem \<Rightarrow> ('x, 'z) fs_call" where
  "sys_link dv nm um c S =
     bindE (arg_path um c 0 S) (\<lambda>oldo. case oldo of None \<Rightarrow> Inr (Ret (-1), S)
     | Some old \<Rightarrow> bindE (arg_path um c 1 S) (\<lambda>newo. case newo of None \<Rightarrow> Inr (Ret (-1), S)
     | Some new \<Rightarrow>
        bindE (start_op c S) (\<lambda>S1.
        bindE (namei dv nm c old S1) (\<lambda>(ipo, S2).
        case ipo of None \<Rightarrow> bindE (end_op c S2) (\<lambda>S3. Inr (Ret (-1), S3))
        | Some ip \<Rightarrow>
           bindE (ilock c (Some ip) S2) (\<lambda>S3.
           if i_type (inode_at (k_env S3) ip) = T_DIR
           then bindE (iunlockput c ip S3) (\<lambda>S4. bindE (end_op c S4) (\<lambda>S5. Inr (Ret (-1), S5)))
           else bindE (add_link c 1 ip S3) (\<lambda>S4.
             bindE (iunlock c (Some ip) S4) (\<lambda>S5.
             bindE (nameiparent dv c new nm S5) (\<lambda>((dpo, name), S6).
             case dpo of None \<Rightarrow> link_bad c ip S6
             | Some dp \<Rightarrow>
                bindE (ilock c (Some dp) S6) (\<lambda>S7.
                let unlink_dp = (\<lambda>S. bindE (iunlockput c dp S) (link_bad c ip)); x = inode_at (k_env S7) ip
                in if i_dev (inode_at (k_env S7) dp) \<noteq> i_dev x then unlink_dp S7
                   else bindE (dirlink dv c dp name (i_inum x) S7) (\<lambda>(r, S8).
                     if r < 0 then unlink_dp S8
                     else bindE (iunlockput c dp S8) (\<lambda>S9. bindE (iput c ip S9) (\<lambda>S10. bindE (end_op c S10) (\<lambda>S11. Inr (Ret 0, S11))))))))))))))"

fun isdirempty_loop :: "('x, 'z) devices \<Rightarrow> nat \<Rightarrow> nat \<Rightarrow> nat list \<Rightarrow> ('x, 'z) fstate \<Rightarrow> (bool \<times> ('x, 'z) fstate) result" where
  "isdirempty_loop dv c dp [] S = Inr (True, S)"
| "isdirempty_loop dv c dp (off # offs) S =
     bindE (readi dv c dp (of_nat off) 16 S) (\<lambda>((r, bs), S1).
     if r \<noteq> 16 then panic ''isdirempty: readi''
     else if de_inum (dirent_of bs) \<noteq> 0 then Inr (False, S1) else isdirempty_loop dv c dp offs S1)"

definition isdirempty :: "('x, 'z) devices \<Rightarrow> nat \<Rightarrow> nat \<Rightarrow> ('x, 'z) fstate \<Rightarrow> (bool \<times> ('x, 'z) fstate) result" where
  "isdirempty dv c dp S = isdirempty_loop dv c dp (drop 2 (steps 16 (unat (i_size (inode_at (k_env S) dp))))) S"

definition dot :: "byte list" where "dot = [0x2e]"
definition dotdot :: "byte list" where "dotdot = [0x2e, 0x2e]"

definition unlink_bad :: "nat \<Rightarrow> nat \<Rightarrow> ('x, 'z) fstate \<Rightarrow> ((int, unit) sect \<times> ('x, 'z) fstate) result" where
  "unlink_bad c dp S = bindE (iunlockput c dp S) (\<lambda>S1. bindE (end_op c S1) (\<lambda>S2. Inr (Ret (-1), S2)))"

text \<open>The part of \<open>sys_unlink\<close> that removes the entry of \<open>ip\<close> at \<open>off\<close> in \<open>dp\<close>, both locked.\<close>

definition unlink_entry :: "('x, 'z) devices \<Rightarrow> nat \<Rightarrow> nat \<Rightarrow> nat \<Rightarrow> 32 word \<Rightarrow> ('x, 'z) fstate \<Rightarrow> ((int, unit) sect \<times> ('x, 'z) fstate) result" where
  "unlink_entry dv c dp ip off S =
     bindE (writei dv c dp (replicate 16 0) off 16 S) (\<lambda>(r, S1).
     if r \<noteq> 16 then panic ''unlink: writei''
     else bindE (if i_type (inode_at (k_env S1) ip) = T_DIR then add_link c (-1) dp S1 else Inr S1) (\<lambda>S2.
       bindE (iunlockput c dp S2) (\<lambda>S3.
       bindE (add_link c (-1) ip S3) (\<lambda>S4.
       bindE (iunlockput c ip S4) (\<lambda>S5.
       bindE (end_op c S5) (\<lambda>S6. Inr (Ret 0, S6)))))))"

definition sys_unlink :: "('x, 'z) devices \<Rightarrow> byte list \<Rightarrow> bmem \<Rightarrow> ('x, 'z) fs_call" where
  "sys_unlink dv nm um c S =
     bindE (arg_path um c 0 S) (\<lambda>patho. case patho of None \<Rightarrow> Inr (Ret (-1), S)
     | Some path \<Rightarrow>
        bindE (start_op c S) (\<lambda>S1.
        bindE (nameiparent dv c path nm S1) (\<lambda>((dpo, name), S2).
        case dpo of None \<Rightarrow> bindE (end_op c S2) (\<lambda>S3. Inr (Ret (-1), S3))
        | Some dp \<Rightarrow>
           bindE (ilock c (Some dp) S2) (\<lambda>S3.
           if namecmp name dot = 0 \<or> namecmp name dotdot = 0 then unlink_bad c dp S3
           else bindE (dirlookup dv c dp name S3) (\<lambda>(found, S4).
             case found of None \<Rightarrow> unlink_bad c dp S4
             | Some (ip, off) \<Rightarrow>
                bindE (ilock c (Some ip) S4) (\<lambda>S5.
                if sint (i_nlink (inode_at (k_env S5) ip)) < 1 then panic ''unlink: nlink < 1''
                else if i_type (inode_at (k_env S5) ip) = T_DIR
                then bindE (isdirempty dv c ip S5) (\<lambda>(emp, S6).
                  if \<not> emp then bindE (iunlockput c ip S6) (unlink_bad c dp) else unlink_entry dv c dp ip off S6)
                else unlink_entry dv c dp ip off S5))))))"

text \<open>The new inode in \<open>create\<close>: its fields, the entries \<open>.\<close> and \<open>..\<close> of a directory, and its own entry.\<close>

definition create_new :: "('x, 'z) devices \<Rightarrow> nat \<Rightarrow> nat \<Rightarrow> byte list \<Rightarrow> 16 word \<Rightarrow> 16 word \<Rightarrow> 16 word \<Rightarrow> ('x, 'z) fstate \<Rightarrow>
    (nat option \<times> ('x, 'z) fstate) result" where
  "create_new dv c dp name ty major minor S =
     bindE (ialloc c (i_dev (inode_at (k_env S) dp)) ty S) (\<lambda>(ip, S1).
     bindE (ilock c (Some ip) S1) (\<lambda>S2.
     bindE (iupdate c ip (upd_env (upd_inode ip (\<lambda>x. x\<lparr>i_major := major, i_minor := minor, i_nlink := 1\<rparr>)) S2)) (\<lambda>S3.
     bindE (if ty = T_DIR
            then bindE (add_link c 1 dp S3) (\<lambda>S4.
                 bindE (dirlink dv c ip dot (i_inum (inode_at (k_env S4) ip)) S4) (\<lambda>(r, S5).
                 if r < 0 then panic ''create dots''
                 else bindE (dirlink dv c ip dotdot (i_inum (inode_at (k_env S5) dp)) S5) (\<lambda>(r, S6).
                   if r < 0 then panic ''create dots'' else Inr S6)))
            else Inr S3) (\<lambda>S7.
     bindE (dirlink dv c dp name (i_inum (inode_at (k_env S7) ip)) S7) (\<lambda>(r, S8).
     if r < 0 then panic ''create: dirlink''
     else bindE (iunlockput c dp S8) (\<lambda>S9. Inr (Some ip, S9)))))))"

definition create :: "('x, 'z) devices \<Rightarrow> byte list \<Rightarrow> nat \<Rightarrow> byte list \<Rightarrow> 16 word \<Rightarrow> 16 word \<Rightarrow> 16 word \<Rightarrow> ('x, 'z) fstate \<Rightarrow>
    (nat option \<times> ('x, 'z) fstate) result" where
  "create dv nm c path ty major minor S =
     bindE (nameiparent dv c path nm S) (\<lambda>((dpo, name), S1).
     case dpo of None \<Rightarrow> Inr (None, S1)
     | Some dp \<Rightarrow>
        bindE (ilock c (Some dp) S1) (\<lambda>S2.
        bindE (dirlookup dv c dp name S2) (\<lambda>(found, S3).
        case found of None \<Rightarrow> create_new dv c dp name ty major minor S3
        | Some (ip, _) \<Rightarrow>
           bindE (iunlockput c dp S3) (\<lambda>S4.
           bindE (ilock c (Some ip) S4) (\<lambda>S5.
           if ty = T_FILE \<and> i_type (inode_at (k_env S5) ip) = T_FILE then Inr (Some ip, S5)
           else bindE (iunlockput c ip S5) (\<lambda>S6. Inr (None, S6)))))))"

section \<open>Opening and making files\<close>

text \<open>The inode that \<open>sys_open\<close> opens, locked; \<open>None\<close> when it returns -1, with the transaction ended.\<close>

definition open_inode :: "('x, 'z) devices \<Rightarrow> byte list \<Rightarrow> nat \<Rightarrow> byte list \<Rightarrow> 32 word \<Rightarrow> ('x, 'z) fstate \<Rightarrow> (nat option \<times> ('x, 'z) fstate) result" where
  "open_inode dv nm c path omode S =
     (let stop = (\<lambda>S. bindE (end_op c S) (\<lambda>S1. Inr (None, S1)))
      in if omode AND O_CREATE \<noteq> 0
         then bindE (create dv nm c path T_FILE 0 0 S) (\<lambda>(ipo, S1). case ipo of None \<Rightarrow> stop S1 | Some ip \<Rightarrow> Inr (Some ip, S1))
         else bindE (namei dv nm c path S) (\<lambda>(ipo, S1).
           case ipo of None \<Rightarrow> stop S1
           | Some ip \<Rightarrow>
              bindE (ilock c (Some ip) S1) (\<lambda>S2.
              if i_type (inode_at (k_env S2) ip) = T_DIR \<and> omode \<noteq> O_RDONLY then bindE (iunlockput c ip S2) stop
              else Inr (Some ip, S2))))"

definition sys_open :: "('x fsys_scheme) kops \<Rightarrow> ('x, 'z) devices \<Rightarrow> byte list \<Rightarrow> bmem \<Rightarrow> ('x, 'z) fs_call" where
  "sys_open ops dv nm um c S =
     bindE (arg_path um c 0 S) (\<lambda>patho. case patho of None \<Rightarrow> Inr (Ret (-1), S)
     | Some path \<Rightarrow> bindE (argint um c 1 S) (\<lambda>io. case io of None \<Rightarrow> Inr (Ret (-1), S)
     | Some om \<Rightarrow>
        let omode = word_of_int om
        in bindE (start_op c S) (\<lambda>S1.
           bindE (open_inode dv nm c path omode S1) (\<lambda>(ipo, S2).
           case ipo of None \<Rightarrow> Inr (Ret (-1), S2)
           | Some ip \<Rightarrow>
              let bad = (\<lambda>S. bindE (iunlockput c ip S) (\<lambda>S1. bindE (end_op c S1) (\<lambda>S2. Inr (Ret (-1), S2))))
              in bindE (filealloc c S2) (\<lambda>(fo, S3).
                 case fo of None \<Rightarrow> bad S3
                 | Some f \<Rightarrow>
                    bindE (fdalloc c f S3) (\<lambda>(fd, S4).
                    if fd < 0 then bindE (fileclose ops c f S4) bad
                    else bindE (iunlock c (Some ip) S4) (\<lambda>S5.
                      bindE (end_op c S5) (\<lambda>S6.
                      Inr (Ret fd, upd_env (upd_file f (\<lambda>x. x\<lparr>fi_type := FD_INODE, fi_ip := Some ip, fi_off := 0,
                        fi_readable := (omode AND O_WRONLY = 0), fi_writable := (omode AND O_WRONLY \<noteq> 0 \<or> omode AND O_RDWR \<noteq> 0)\<rparr>)) S6)))))))))"

text \<open>The common end of \<open>sys_mkdir\<close> and \<open>sys_mknod\<close>.\<close>

definition made :: "nat \<Rightarrow> nat option \<Rightarrow> ('x, 'z) fstate \<Rightarrow> ((int, unit) sect \<times> ('x, 'z) fstate) result" where
  "made c ipo S =
     (case ipo of None \<Rightarrow> bindE (end_op c S) (\<lambda>S1. Inr (Ret (-1), S1))
      | Some ip \<Rightarrow> bindE (iunlockput c ip S) (\<lambda>S1. bindE (end_op c S1) (\<lambda>S2. Inr (Ret 0, S2))))"

definition sys_mkdir :: "('x, 'z) devices \<Rightarrow> byte list \<Rightarrow> bmem \<Rightarrow> ('x, 'z) fs_call" where
  "sys_mkdir dv nm um c S =
     bindE (start_op c S) (\<lambda>S1.
     bindE (arg_path um c 0 S1) (\<lambda>patho. case patho of None \<Rightarrow> made c None S1
     | Some path \<Rightarrow> bindE (create dv nm c path T_DIR 0 0 S1) (\<lambda>(ipo, S2). made c ipo S2)))"

definition sys_mknod :: "('x, 'z) devices \<Rightarrow> byte list \<Rightarrow> bmem \<Rightarrow> ('x, 'z) fs_call" where
  "sys_mknod dv nm um c S =
     bindE (start_op c S) (\<lambda>S1.
     bindE (arg_path um c 0 S1) (\<lambda>patho. case patho of None \<Rightarrow> made c None S1
     | Some path \<Rightarrow> bindE (argint um c 1 S1) (\<lambda>ma. case ma of None \<Rightarrow> made c None S1
     | Some major \<Rightarrow> bindE (argint um c 2 S1) (\<lambda>mi. case mi of None \<Rightarrow> made c None S1
     | Some minor \<Rightarrow> bindE (create dv nm c path T_DEV (word_of_int major) (word_of_int minor) S1) (\<lambda>(ipo, S2). made c ipo S2)))))"

definition sys_chdir :: "('x, 'z) devices \<Rightarrow> byte list \<Rightarrow> bmem \<Rightarrow> ('x, 'z) fs_call" where
  "sys_chdir dv nm um c S =
     (case myproc c S of None \<Rightarrow> nullderef
      | Some p \<Rightarrow>
         let stop = (\<lambda>S. bindE (end_op c S) (\<lambda>S1. Inr (Ret (-1), S1)))
         in bindE (start_op c S) (\<lambda>S1.
            bindE (arg_path um c 0 S1) (\<lambda>patho. case patho of None \<Rightarrow> stop S1
            | Some path \<Rightarrow> bindE (namei dv nm c path S1) (\<lambda>(ipo, S2). case ipo of None \<Rightarrow> stop S2
            | Some ip \<Rightarrow>
               bindE (ilock c (Some ip) S2) (\<lambda>S3.
               if i_type (inode_at (k_env S3) ip) \<noteq> T_DIR then bindE (iunlockput c ip S3) stop
               else bindE (iunlock c (Some ip) S3) (\<lambda>S4.
                 case p_cwd (proc_at S4 p) of None \<Rightarrow> nullderef
                 | Some d \<Rightarrow>
                    bindE (iput c d S4) (\<lambda>S5.
                    bindE (end_op c S5) (\<lambda>S6. Inr (Ret 0, upd_proc p (\<lambda>x. x\<lparr>p_cwd := Some ip\<rparr>) S6)))))))))"

text \<open>The loop of \<open>sys_exec\<close> from argument \<open>i\<close>, with \<open>k\<close> places of \<open>argv\<close> left.\<close>

fun exec_args :: "nat \<Rightarrow> bmem \<Rightarrow> nat \<Rightarrow> addr \<Rightarrow> nat \<Rightarrow> ('e, 'z) kstate_scheme \<Rightarrow> (byte list list option) result" where
  "exec_args 0 um c uargv i S = Inr None"
| "exec_args (Suc k) um c uargv i S =
     bindE (fetchint um c (uargv + 4 * of_nat i) S) (\<lambda>uo. case uo of None \<Rightarrow> Inr None
     | Some uarg \<Rightarrow>
        if uarg = 0 then Inr (Some [])
        else bindE (fetchstr um c (word_of_int uarg) S) (\<lambda>so. case so of None \<Rightarrow> Inr None
          | Some (a, j) \<Rightarrow> bindE (exec_args k um c uargv (Suc i) S) (\<lambda>rest. Inr (map_option (\<lambda>as. user_bytes um a (nat j) # as) rest))))"

definition sys_exec :: "(byte list \<Rightarrow> byte list list \<Rightarrow> ('x, 'z) fs_call) \<Rightarrow> bmem \<Rightarrow> ('x, 'z) fs_call" where
  "sys_exec exec um c S =
     bindE (arg_path um c 0 S) (\<lambda>patho. case patho of None \<Rightarrow> Inr (Ret (-1), S)
     | Some path \<Rightarrow> bindE (argint um c 1 S) (\<lambda>io. case io of None \<Rightarrow> Inr (Ret (-1), S)
     | Some uargv \<Rightarrow> bindE (exec_args MAXARG um c (word_of_int uargv) 0 S) (\<lambda>ao. case ao of None \<Rightarrow> Inr (Ret (-1), S)
     | Some argv \<Rightarrow> exec path argv c S)))"

text \<open>\<open>int\<close> values in memory, as \<open>sys_pipe\<close> stores them.\<close>

definition int_bytes :: "int \<Rightarrow> byte list" where
  "int_bytes i = put32 0 (word_of_int i) (replicate 4 0)"

definition sys_pipe :: "('x fsys_scheme) kops \<Rightarrow> byte list \<Rightarrow> bmem \<Rightarrow> ('x, 'z) fs_call" where
  "sys_pipe ops junk um c S =
     bindE (argptr um c 0 8 S) (\<lambda>po. case po of None \<Rightarrow> Inr (Ret (-1), S)
     | Some a \<Rightarrow>
        bindE (pipealloc ops junk c S) (\<lambda>(fo, S1). case fo of None \<Rightarrow> Inr (Ret (-1), S1)
        | Some (rf, wr) \<Rightarrow>
           let bad = (\<lambda>S. bindE (fileclose ops c rf S) (\<lambda>S1. bindE (fileclose ops c wr S1) (\<lambda>S2. Inr (Ret (-1), S2))))
           in bindE (fdalloc c rf S1) (\<lambda>(fd0, S2).
              if fd0 < 0 then bad S2
              else bindE (fdalloc c wr S2) (\<lambda>(fd1, S3).
                if fd1 < 0
                then (case myproc c S3 of None \<Rightarrow> nullderef | Some p \<Rightarrow> bad (set_fd p (nat fd0) None S3))
                else Inr (Ret 0, copy_user (a + 4) (int_bytes fd1) (copy_user a (int_bytes fd0) S3))))))"

text \<open>The calls of this file at their numbers, for the table of Syscall.\<close>

definition file_calls :: "(byte list \<Rightarrow> byte list list \<Rightarrow> ('x, 'z) fs_call) \<Rightarrow> ('x fsys_scheme) kops \<Rightarrow> ('x, 'z) devices \<Rightarrow> byte list \<Rightarrow> bmem \<Rightarrow> int \<Rightarrow> ('x, 'z) fs_call" where
  "file_calls exec ops dv junk um num =
     (let nm = take DIRSIZ junk
      in if num = 4 then sys_pipe ops (take PIPESIZE junk) um else if num = 5 then sys_read dv um else if num = 7 then sys_exec exec um
         else if num = 8 then sys_fstat um else if num = 9 then sys_chdir dv nm um else if num = 10 then sys_dup um
         else if num = 15 then sys_open ops dv nm um else if num = 16 then sys_write dv um else if num = 17 then sys_mknod dv nm um
         else if num = 18 then sys_unlink dv nm um else if num = 19 then sys_link dv nm um else if num = 20 then sys_mkdir dv nm um
         else sys_close ops um)"

end
