(* ===== verification/Ulib.thy ===== *)
theory Ulib
  imports KString
begin

text \<open>
  The user library (\<^verbatim>\<open>ulib.c\<close>; \<open>atoi\<close> is with the number formatting): string and
  memory routines on the process's memory, \<open>gets\<close> and \<open>stat\<close> over the system calls they make, which are arguments.
\<close>

section \<open>The routines\<close>

partial_function (option) strcpy :: "addr \<Rightarrow> addr \<Rightarrow> bmem \<Rightarrow> bmem option" where
  "strcpy s t m = (let m1 = m(s := m t) in if m t \<noteq> 0 then strcpy (s + 1) (t + 1) m1 else Some m1)"

partial_function (option) strcmp :: "bmem \<Rightarrow> addr \<Rightarrow> addr \<Rightarrow> int option" where
  "strcmp m p q = (if m p \<noteq> 0 \<and> m p = m q then strcmp m (p + 1) (q + 1) else Some (uint (m p) - uint (m q)))"

partial_function (option) ustrlen_loop :: "bmem \<Rightarrow> addr \<Rightarrow> nat \<Rightarrow> nat option" where
  "ustrlen_loop m s n = (if m (s + of_nat n) \<noteq> 0 then ustrlen_loop m s (n + 1) else Some n)"

definition ustrlen :: "bmem \<Rightarrow> addr \<Rightarrow> nat option" where
  "ustrlen m s = ustrlen_loop m s 0"

definition umemset :: "addr \<Rightarrow> 32 word \<Rightarrow> 32 word \<Rightarrow> bmem \<Rightarrow> bmem" where
  "umemset dst c n m = stosb dst (ucast c) (unat n) m"

text \<open>The result 0 is the NULL pointer.\<close>

partial_function (option) strchr :: "bmem \<Rightarrow> addr \<Rightarrow> byte \<Rightarrow> addr option" where
  "strchr m s c = (if m s \<noteq> 0 then if m s = c then Some s else strchr m (s + 1) c else Some 0)"

definition umemmove :: "addr \<Rightarrow> addr \<Rightarrow> int \<Rightarrow> bmem \<Rightarrow> bmem" where
  "umemmove dst src n m = copy_up (nat n) dst src m"

text \<open>
  The loop of \<open>gets\<close> with \<open>k\<close> characters to go, and the terminator after it. \<open>rd\<close> is \<open>read(0, &c, 1)\<close>:
  the count, the character it stores and the rest of the world.
\<close>

fun gets_loop :: "('w \<Rightarrow> int \<times> byte \<times> 'w) \<Rightarrow> nat \<Rightarrow> addr \<Rightarrow> bmem \<Rightarrow> 'w \<Rightarrow> bmem \<times> 'w" where
  "gets_loop rd 0 b m w = (m(b := 0), w)"
| "gets_loop rd (Suc k) b m w =
     (case rd w of (cc, c, w1) \<Rightarrow>
        if cc < 1 then (m(b := 0), w1)
        else if c = 10 \<or> c = 13 then (m(b := c, b + 1 := 0), w1)
        else gets_loop rd k (b + 1) (m(b := c)) w1)"

definition gets :: "('w \<Rightarrow> int \<times> byte \<times> 'w) \<Rightarrow> addr \<Rightarrow> int \<Rightarrow> bmem \<Rightarrow> 'w \<Rightarrow> bmem \<times> 'w" where
  "gets rd buf mx m w = gets_loop rd (nat (mx - 1)) buf m w"

definition stat :: "(string \<Rightarrow> 'w \<Rightarrow> int \<times> 'w) \<Rightarrow> (int \<Rightarrow> 'w \<Rightarrow> int \<times> 'w) \<Rightarrow> (int \<Rightarrow> 'w \<Rightarrow> 'w) \<Rightarrow> string \<Rightarrow> 'w \<Rightarrow> int \<times> 'w" where
  "stat open_rdonly fstat close n w =
     (case open_rdonly n w of (fd, w1) \<Rightarrow>
        if fd < 0 then (-1, w1) else case fstat fd w1 of (r, w2) \<Rightarrow> (r, close fd w2))"

section \<open>Strings\<close>

text \<open>The result of a comparison: the difference of the first bytes that differ, the terminator included.\<close>

fun diff_of :: "byte list \<Rightarrow> byte list \<Rightarrow> int" where
  "diff_of [] [] = 0"
| "diff_of [] (q # qs) = - uint q"
| "diff_of (p # ps) [] = uint p"
| "diff_of (p # ps) (q # qs) = (if p = q then diff_of ps qs else uint p - uint q)"

lemma diff_of_zero: "0 \<notin> set ps \<Longrightarrow> 0 \<notin> set qs \<Longrightarrow> diff_of ps qs = 0 \<longleftrightarrow> ps = qs"
  by (induction ps qs rule: diff_of.induct) (auto simp: word_uint_eq_iff [symmetric] unsigned_eq_0_iff)

lemma cstr_nonzero: "cstr m a bs \<Longrightarrow> 0 \<notin> set bs"
  by (induction bs arbitrary: a) auto

lemma strcmp_cstr: "cstr m p ps \<Longrightarrow> cstr m q qs \<Longrightarrow> strcmp m p q = Some (diff_of ps qs)"
proof (induction ps qs arbitrary: p q rule: diff_of.induct)
  case (4 a ps b qs)
  then show ?case using 4(1) [of "p + 1" "q + 1"] by (subst strcmp.simps) auto
qed (subst strcmp.simps; auto)+

lemma strcpy_cstr:
  assumes "cstr m t bs" "apart s (Suc (length bs)) t (Suc (length bs))" "length bs < 2 ^ 32 - 1"
  shows "\<exists>m'. strcpy s t m = Some m' \<and> cstr m' s bs \<and> (\<forall>x. Suc (length bs) \<le> unat (x - s) \<longrightarrow> m' x = m x)"
  using assms
proof (induction bs arbitrary: s t m)
  case Nil
  then show ?case by (subst strcpy.simps) (auto simp: Let_def)
next
  case (Cons b bs)
  let ?m = "m(s := b)"
  have m: "m t = b" "b \<noteq> 0" "cstr m (t + 1) bs" using Cons.prems(1) by simp_all
  have "t + 1 + of_nat i \<noteq> s" if "i \<le> length bs" for i
    using apart_neq [OF Cons.prems(2), of "Suc i"] that by (simp add: algebra_simps)
  then have "cstr ?m (t + 1) bs" by (rule cstr_write [OF m(3)])
  moreover have "apart (s + 1) (Suc (length bs)) (t + 1) (Suc (length bs))" using apart_Suc [OF Cons.prems(2)] by simp
  ultimately obtain m' where m': "strcpy (s + 1) (t + 1) ?m = Some m'" "cstr m' (s + 1) bs"
      "\<forall>x. Suc (length bs) \<le> unat (x - (s + 1)) \<longrightarrow> m' x = ?m x"
    using Cons.IH [of ?m "t + 1" "s + 1"] Cons.prems(3) by (auto simp del: fun_upd_apply)
  have "m' s = b" using m'(3) [rule_format, of s] unat_next [of s s] Cons.prems(3) by simp
  moreover have "m' x = m x" if "Suc (Suc (length bs)) \<le> unat (x - s)" for x
    using m'(3) [rule_format, of x] that by (cases "x = s") (simp_all add: unat_next)
  ultimately show ?case using m m'(1,2) by (subst strcpy.simps) (simp add: Let_def)
qed

text \<open>
  After \<open>strcpy(s, t)\<close> both pointers hold the same string and \<open>strcmp\<close> of them returns 0; nothing outside
  the copy has changed. \<open>strcmp\<close> of any two strings returns, and it returns 0 only if they are equal.
\<close>

theorem strcpy_strcmp:
  assumes "cstr m t bs" "apart s (Suc (length bs)) t (Suc (length bs))" "length bs < 2 ^ 31" "cstr m u us"
  shows "(\<exists>m'. strcpy s t m = Some m' \<and> cstr m' s bs \<and> cstr m' t bs \<and> strcmp m' s t = Some 0
      \<and> (\<forall>x. length bs < unat (x - s) \<longrightarrow> m' x = m x))
    \<and> (\<exists>d. strcmp m t u = Some d \<and> (d = 0 \<longleftrightarrow> bs = us))"
proof
  obtain m' where m': "strcpy s t m = Some m'" "cstr m' s bs" "\<forall>x. Suc (length bs) \<le> unat (x - s) \<longrightarrow> m' x = m x"
    using strcpy_cstr [OF assms(1,2)] assms(3) by auto
  have "m' (t + of_nat i) = m (t + of_nat i)" if "i \<le> length bs" for i
    using m'(3) apartD [OF assms(2)] that by auto
  then have t: "cstr m' t bs" using assms(1) cstr_cong [of bs m' t m] by blast
  have "strcmp m' s t = Some 0" using strcmp_cstr [OF m'(2) t] diff_of_zero [of bs bs] cstr_nonzero [OF t] by simp
  then show "\<exists>m'. strcpy s t m = Some m' \<and> cstr m' s bs \<and> cstr m' t bs \<and> strcmp m' s t = Some 0
      \<and> (\<forall>x. length bs < unat (x - s) \<longrightarrow> m' x = m x)" using m' t by auto
  show "\<exists>d. strcmp m t u = Some d \<and> (d = 0 \<longleftrightarrow> bs = us)"
    using strcmp_cstr [OF assms(1,4)] diff_of_zero [OF cstr_nonzero [OF assms(1)] cstr_nonzero [OF assms(4)]] by simp
qed

theorem strcpy_strcmp_witness:
  "\<exists>m'. strcpy 100 200 ((\<lambda>_. 0)(200 := 120)) = Some m' \<and> strcmp m' 100 200 = Some 0"
proof -
  let ?m = "(\<lambda>_. 0)(200 := 120) :: bmem"
  have "apart 100 (Suc (length [120 :: byte])) 200 (Suc (length [120 :: byte]))"
    by (simp add: apart_def All_less_Suc)
  then show ?thesis using strcpy_strcmp [of ?m 200 "[120]" 100 0 "[]"] by auto
qed

lemma ustrlen_cstr: "cstr m (s + of_nat n) bs \<Longrightarrow> ustrlen_loop m s n = Some (n + length bs)"
proof (induction bs arbitrary: n)
  case Nil
  then show ?case by (subst ustrlen_loop.simps) simp
next
  case (Cons b bs)
  then show ?case using Cons.IH [of "Suc n"] by (subst ustrlen_loop.simps) (simp add: algebra_simps)
qed

lemma strchr_cstr:
  assumes "cstr m s bs" "c \<noteq> 0"
  shows "strchr m s c = Some (if c \<in> set bs then s + of_nat (length (takeWhile (\<lambda>b. b \<noteq> c) bs)) else 0)"
  using assms(1)
proof (induction bs arbitrary: s)
  case Nil
  then show ?case by (subst strchr.simps) simp
next
  case (Cons b bs)
  then show ?case using Cons.IH [of "s + 1"] assms(2) by (subst strchr.simps) (auto simp: algebra_simps)
qed

section \<open>Memory\<close>

lemma copy_up_smear: "n < 2 ^ 32 \<Longrightarrow> copy_up n (s + 1) s m = filled (s + 1) n (m s) m"
proof (induction n arbitrary: s m)
  case (Suc n)
  have "copy_up n (s + 2) (s + 1) (m(s + 1 := m s)) = filled (s + 2) n (m s) (m(s + 1 := m s))"
    using Suc.IH [of "s + 1" "m(s + 1 := m s)"] Suc.prems by (simp add: add.assoc fun_upd_same del: fun_upd_apply)
  also have "\<dots> = filled (s + 1) (Suc n) (m s) m"
    using Suc.prems block_next [of n _ "s + 1"] by (auto simp: filled_def fun_eq_iff add.assoc)
  finally show ?case by (simp add: add.assoc)
qed (simp add: filled_def)

text \<open>
  C27. \<open>memmove\<close> of the user library copies upwards only. It does what the kernel's \<open>memmove\<close> does
  whenever the destination does not begin inside the source block; if it begins one byte
  after the source, all \<open>n\<close> bytes become the first one.
\<close>

theorem umemmove_upwards:
  assumes "0 \<le> n" "n < 2 ^ 31" "unat src + nat n < 2 ^ 32" "unat dst + nat n \<le> 2 ^ 32"
  shows "(dst \<le> src \<or> unat src + nat n \<le> unat dst \<longrightarrow> umemmove dst src n m = memmove dst src (word_of_int n) m)
    \<and> (dst = src + 1 \<longrightarrow> (\<forall>x. umemmove dst src n m x = (if unat (x - dst) < nat n then m src else m x)))"
proof -
  have n: "unat (word_of_int n :: addr) = nat n" using assms(1,2) by (simp add: unat_eq_nat_uint uint_word_of_int)
  have "umemmove dst src n m = copied dst src (nat n) m" if "dst \<le> src \<or> unat src + nat n \<le> unat dst"
  proof -
    have "dst = src \<or> nat n \<le> unat (dst - src)"
    proof (cases dst src rule: linorder_cases)
      case less
      then have "unat (dst - src) = 2 ^ 32 - (unat src - unat dst)"
        using unat_dist_rev [of dst src] unat_sub [of dst src] by (simp add: word_less_nat_alt word_le_nat_alt less_imp_neq)
      then show ?thesis using assms(3) by linarith
    next
      case greater
      then have "unat (dst - src) = unat dst - unat src" "unat src + nat n \<le> unat dst"
        using that unat_sub [of src dst] by (simp_all add: word_less_nat_alt word_le_nat_alt)
      then show ?thesis by linarith
    qed simp
    then show ?thesis using assms(2) by (simp add: umemmove_def copy_up_copied)
  qed
  then have "umemmove dst src n m = memmove dst src (word_of_int n) m" if "dst \<le> src \<or> unat src + nat n \<le> unat dst"
    using that memmove_copied [of src "word_of_int n" dst m] assms(3,4) n by simp
  moreover have "umemmove (src + 1) src n m = filled (src + 1) (nat n) (m src) m"
    using assms(2) by (simp add: umemmove_def copy_up_smear)
  ultimately show ?thesis by (auto simp: filled_def)
qed

theorem umemmove_upwards_witness:
  "umemmove 1000 1004 8 (\<lambda>a. ucast a) = memmove 1000 1004 8 (\<lambda>a. ucast a) \<and> umemmove 1001 1000 8 (\<lambda>a. ucast a) 1005 = ucast (1000 :: addr)"
  using umemmove_upwards [of 8 1004 1000 "\<lambda>a. ucast a"] umemmove_upwards [of 8 1000 1001 "\<lambda>a. ucast a"] by simp

section \<open>Reading a line\<close>

text \<open>Standard input as a list of bytes, and the line that \<open>gets\<close> takes off it.\<close>

fun rd_list :: "byte list \<Rightarrow> int \<times> byte \<times> byte list" where
  "rd_list [] = (0, 0, [])"
| "rd_list (c # cs) = (1, c, cs)"

fun line_of :: "nat \<Rightarrow> byte list \<Rightarrow> byte list" where
  "line_of (Suc k) (c # cs) = c # (if c = 10 \<or> c = 13 then [] else line_of k cs)"
| "line_of k cs = []"

lemma line_of_length: "length (line_of k cs) \<le> k"
  by (induction k cs rule: line_of.induct) auto

definition bytes_at :: "addr \<Rightarrow> byte list \<Rightarrow> bmem \<Rightarrow> bmem" where
  "bytes_at b bs m = (\<lambda>x. if unat (x - b) < length bs then bs ! unat (x - b) else m x)"

lemma bytes_at_Cons:
  assumes "length bs < 2 ^ 32 - 1"
  shows "bytes_at (b + 1) bs (m(b := c)) = bytes_at b (c # bs) m"
proof
  fix x
  show "bytes_at (b + 1) bs (m(b := c)) x = bytes_at b (c # bs) m x"
    using assms unat_dist_pos [of x b] by (cases "x = b") (auto simp: bytes_at_def unat_next nth_Cons')
qed

lemma bytes_at_Nil [simp]: "bytes_at b [] m = m"
  by (simp add: bytes_at_def)

lemma gets_loop_line:
  assumes "k < 2 ^ 32 - 1"
  shows "gets_loop rd_list k b m cs = (bytes_at b (line_of k cs @ [0]) m, drop (length (line_of k cs)) cs)"
  using assms
proof (induction k arbitrary: b m cs)
  case 0
  then show ?case by (simp add: bytes_at_Cons [symmetric] del: fun_upd_apply)
next
  case (Suc k)
  have "length (line_of k xs @ [0]) < 2 ^ 32 - 1" for xs using line_of_length [of k xs] Suc.prems by simp
  then show ?case using Suc by (cases cs) (auto simp: bytes_at_Cons [symmetric] simp del: fun_upd_apply)
qed

text \<open>
  \<open>gets(buf, max)\<close> takes one line off the input: it stops after a newline or a carriage return,
  at the end of the input, or when \<open>max - 1\<close> characters are stored; it terminates what it stored, leaves the
  rest of the input to the next read and writes at most \<open>max\<close> bytes.
\<close>

theorem gets_line:
  fixes cs :: "byte list"
  assumes "0 < mx" "mx < 2 ^ 31"
  defines "line \<equiv> line_of (nat (mx - 1)) cs"
  shows "gets rd_list buf mx m cs = (bytes_at buf (line @ [0]) m, drop (length line) cs) \<and> length (line @ [0]) \<le> nat mx"
  using assms gets_loop_line [of "nat (mx - 1)" buf m cs] line_of_length [of "nat (mx - 1)" cs] by (simp add: gets_def)

theorem gets_line_witness:
  "gets rd_list 100 4 (\<lambda>_. 0) [97, 10, 98] = (bytes_at 100 [97, 10, 0] (\<lambda>_. 0), [98])"
  using gets_line [of 4 100 "\<lambda>_. 0" "[97, 10, 98]"] by (simp add: numeral_3_eq_3)

end
