(* ===== verification/Kalloc.thy ===== *)
theory Kalloc
  imports Spinlock KString
begin

text \<open>
  The page allocator (\<^verbatim>\<open>kalloc.c\<close>): a list of free pages, linked through their first words.

  The state extends the machine of the spin locks with \<open>kmem\<close> and with kernel memory. \<open>km_end\<close> and \<open>km_data\<close> are the
  addresses \<open>end\<close> and \<open>data\<close> that the linker script defines; \<open>km_out\<close> is what the memory
  code prints. \<open>core\<close> is the state without CPUs and locks: taking and releasing \<open>kmem.lock\<close> leaves it as it is.
\<close>

unbundle bit_operations_syntax

definition PGSIZE :: "32 word" where "PGSIZE = 4096"
definition PGROUNDUP :: "32 word \<Rightarrow> 32 word" where "PGROUNDUP sz = (sz + PGSIZE - 1) AND NOT (PGSIZE - 1)"
definition PGROUNDDOWN :: "32 word \<Rightarrow> 32 word" where "PGROUNDDOWN a = a AND NOT (PGSIZE - 1)"

definition KmemLock :: lockid where "KmemLock = OtherLock 1"

record kmem = mach +
  km_use_lock :: bool
  km_freelist :: addr
  km_mem :: bmem
  km_end :: addr
  km_data :: addr
  km_out :: string

definition locking :: "(nat \<Rightarrow> lockid \<Rightarrow> 'z kmem_scheme \<Rightarrow> 'z kmem_scheme result) \<Rightarrow> nat \<Rightarrow> 'z kmem_scheme \<Rightarrow> 'z kmem_scheme result" where
  "locking f c M = (if km_use_lock M then f c KmemLock M else Inr M)"

definition kfree :: "nat \<Rightarrow> addr \<Rightarrow> 'z kmem_scheme \<Rightarrow> 'z kmem_scheme result" where
  "kfree c v M =
     (if v mod PGSIZE \<noteq> 0 \<or> v < km_end M then panic ''kfree''
      else bindE (V2P v) (\<lambda>pa.
        if pa \<ge> PHYSTOP then panic ''kfree''
        else bindE (locking acquire c (M\<lparr>km_mem := memset v 1 PGSIZE (km_mem M)\<rparr>)) (\<lambda>M1.
          locking release c (M1\<lparr>km_mem := store32 v (km_freelist M1) (km_mem M1), km_freelist := v\<rparr>))))"

definition kalloc :: "nat \<Rightarrow> 'z kmem_scheme \<Rightarrow> (addr \<times> 'z kmem_scheme) result" where
  "kalloc c M =
     bindE (locking acquire c M) (\<lambda>M1.
     let r = km_freelist M1;
         M2 = (if r \<noteq> 0 then M1\<lparr>km_freelist := load32 r (km_mem M1)\<rparr> else M1)
     in bindE (locking release c M2) (\<lambda>M3. Inr (r, M3)))"

text \<open>The loop of \<open>freerange\<close> from \<open>p\<close>; there are \<open>2^20\<close> pages, and no page can be freed twice on the way.\<close>

fun freerange_loop :: "nat \<Rightarrow> nat \<Rightarrow> addr \<Rightarrow> addr \<Rightarrow> 'z kmem_scheme \<Rightarrow> 'z kmem_scheme result" where
  "freerange_loop 0 c p vend M = (if p + PGSIZE \<le> vend then Inl NoReturn else Inr M)"
| "freerange_loop (Suc n) c p vend M =
     (if p + PGSIZE \<le> vend then bindE (kfree c p M) (freerange_loop n c (p + PGSIZE) vend) else Inr M)"

definition freerange :: "nat \<Rightarrow> addr \<Rightarrow> addr \<Rightarrow> 'z kmem_scheme \<Rightarrow> 'z kmem_scheme result" where
  "freerange c vstart vend M =
     (if vend < vstart then panic ''freerange'' else freerange_loop (2 ^ 20) c (PGROUNDUP vstart) vend M)"

definition kinit1 :: "nat \<Rightarrow> addr \<Rightarrow> addr \<Rightarrow> 'z kmem_scheme \<Rightarrow> 'z kmem_scheme result" where
  "kinit1 c vstart vend M = freerange c vstart vend ((initlock KmemLock ''kmem'' M)\<lparr>km_use_lock := False\<rparr>)"

definition kinit2 :: "nat \<Rightarrow> addr \<Rightarrow> addr \<Rightarrow> 'z kmem_scheme \<Rightarrow> 'z kmem_scheme result" where
  "kinit2 c vstart vend M = bindE (freerange c vstart vend M) (\<lambda>M1. Inr (M1\<lparr>km_use_lock := True\<rparr>))"

section \<open>The lock\<close>

definition core :: "'z kmem_scheme \<Rightarrow> 'z kmem_scheme" where
  "core M = M\<lparr>cpus := [], locks := (\<lambda>_. \<lparr>lk_locked = False, lk_name = [], lk_cpu = None\<rparr>)\<rparr>"

definition mctx :: "nat \<Rightarrow> 'z kmem_scheme \<Rightarrow> bool" where
  "mctx c M \<longleftrightarrow> cpu_ok c M \<and> lock_free KmemLock M"

lemma core_eqD:
  assumes "core M = core N"
  shows "km_use_lock M = km_use_lock N" "km_freelist M = km_freelist N" "km_mem M = km_mem N"
    "km_end M = km_end N" "km_data M = km_data N" "km_out M = km_out N"
  using arg_cong [OF assms, of km_use_lock] arg_cong [OF assms, of km_freelist] arg_cong [OF assms, of km_mem]
    arg_cong [OF assms, of km_end] arg_cong [OF assms, of km_data] arg_cong [OF assms, of km_out] by (simp_all add: core_def)

lemma core_sel [simp]:
  "km_use_lock (core M) = km_use_lock M" "km_freelist (core M) = km_freelist M" "km_mem (core M) = km_mem M"
  "km_end (core M) = km_end M" "km_data (core M) = km_data M" "km_out (core M) = km_out M"
  "core (M\<lparr>km_mem := m\<rparr>) = (core M)\<lparr>km_mem := m\<rparr>" "core (M\<lparr>km_freelist := r\<rparr>) = (core M)\<lparr>km_freelist := r\<rparr>"
  "core (M\<lparr>km_out := s\<rparr>) = (core M)\<lparr>km_out := s\<rparr>" "core (core M) = core M"
  by (simp_all add: core_def)

lemma mctx_upd [simp]:
  "mctx c (M\<lparr>km_mem := m\<rparr>) = mctx c M" "mctx c (M\<lparr>km_freelist := r\<rparr>) = mctx c M" "mctx c (M\<lparr>km_out := s\<rparr>) = mctx c M"
  by (simp_all add: mctx_def cpu_ok_def lock_free_def)

definition kheld :: "nat \<Rightarrow> 'z kmem_scheme \<Rightarrow> bool" where
  "kheld c M \<longleftrightarrow> (if km_use_lock M then cpu_ok c M \<and> 0 < c_ncli (cpus M ! c) \<and> lock_held c KmemLock M else mctx c M)"

lemma kheld_upd [simp]:
  "kheld c (M\<lparr>km_mem := m\<rparr>) = kheld c M" "kheld c (M\<lparr>km_freelist := r\<rparr>) = kheld c M"
  by (simp_all add: kheld_def cpu_ok_def lock_held_def)

lemma acquire_core:
  assumes "mctx c M"
  shows "\<exists>M1. locking acquire c M = Inr M1 \<and> core M1 = core M \<and> kheld c M1"
proof -
  have ok: "cpu_ok c M" and fr: "lock_free KmemLock M" and c: "c < length (cpus M)" using assms by (auto simp: mctx_def cpu_ok_def)
  have "0 \<le> c_ncli (cpus M ! c)" using ok by (simp add: cpu_ok_def)
  then show ?thesis using assms fr c ok
    by (auto simp: locking_def acquire_eq [OF ok] lock_free_def kheld_def lock_held_def core_def upd_lock_def pushcli_eq upd_cpu_def cpu_ok_def)
qed

lemma release_core:
  assumes "kheld c M"
  shows "\<exists>M1. locking release c M = Inr M1 \<and> core M1 = core M \<and> mctx c M1"
proof (cases "km_use_lock M")
  case True
  then have ok: "cpu_ok c M" "0 < c_ncli (cpus M ! c)" and l: "lock_held c KmemLock M" using assms by (simp_all add: kheld_def)
  then show ?thesis using True
    by (auto simp: locking_def release_eq [OF ok] lock_held_def mctx_def lock_free_def core_def upd_lock_def upd_cpu_def cpu_ok_def)
qed (use assms in \<open>simp add: locking_def kheld_def\<close>)

section \<open>One page in, one page out\<close>

definition page_ok :: "'z kmem_scheme \<Rightarrow> addr \<Rightarrow> bool" where
  "page_ok M v \<longleftrightarrow> v mod PGSIZE = 0 \<and> km_end M \<le> v \<and> KERNBASE \<le> v \<and> v - KERNBASE < PHYSTOP"

lemma page_ok_nonzero: "page_ok M v \<Longrightarrow> v \<noteq> 0"
  by (auto simp: page_ok_def KERNBASE_def)

lemma kfree_core:
  assumes "mctx c M" "page_ok M v"
  shows "\<exists>M'. kfree c v M = Inr M' \<and> mctx c M'
    \<and> core M' = (core M)\<lparr>km_mem := store32 v (km_freelist M) (filled v 4096 1 (km_mem M)), km_freelist := v\<rparr>"
proof -
  let ?M = "M\<lparr>km_mem := memset v 1 PGSIZE (km_mem M)\<rparr>"
  obtain M1 where M1: "locking acquire c ?M = Inr M1" "core M1 = core ?M" "kheld c M1" using acquire_core [of c ?M] assms(1) by auto
  let ?M1 = "M1\<lparr>km_mem := store32 v (km_freelist M1) (km_mem M1), km_freelist := v\<rparr>"
  obtain M2 where M2: "locking release c ?M1 = Inr M2" "core M2 = core ?M1" "mctx c M2" using release_core [of c ?M1] M1(3) by auto
  have "memset v 1 PGSIZE (km_mem M) = filled v 4096 1 (km_mem M)" by (simp add: memset_filled PGSIZE_def)
  then have "core M2 = (core M)\<lparr>km_mem := store32 v (km_freelist M) (filled v 4096 1 (km_mem M)), km_freelist := v\<rparr>"
    using M2(2) M1(2) core_eqD [OF M1(2)] by simp
  moreover have "kfree c v M = Inr M2" using assms(2) M1(1) M2(1) by (auto simp: kfree_def page_ok_def V2P_def not_le)
  ultimately show ?thesis using M2(3) by blast
qed

lemma kalloc_core:
  assumes "mctx c M"
  shows "\<exists>M'. kalloc c M = Inr (km_freelist M, M') \<and> mctx c M'
    \<and> core M' = (if km_freelist M \<noteq> 0 then (core M)\<lparr>km_freelist := load32 (km_freelist M) (km_mem M)\<rparr> else core M)"
proof -
  obtain M1 where M1: "locking acquire c M = Inr M1" "core M1 = core M" "kheld c M1" using acquire_core [OF assms] by auto
  note E = core_eqD [OF M1(2)]
  let ?M1 = "if km_freelist M1 \<noteq> 0 then M1\<lparr>km_freelist := load32 (km_freelist M1) (km_mem M1)\<rparr> else M1"
  have "kheld c ?M1" using M1(3) by simp
  then obtain M2 where M2: "locking release c ?M1 = Inr M2" "core M2 = core ?M1" "mctx c M2" using release_core by blast
  then show ?thesis using M1 E by (auto simp: kalloc_def Let_def)
qed

section \<open>The free list\<close>

fun chain :: "bmem \<Rightarrow> addr \<Rightarrow> addr list \<Rightarrow> bool" where
  "chain m r [] = (r = 0)"
| "chain m r (p # ps) = (r = p \<and> p \<noteq> 0 \<and> chain m (load32 p m) ps)"

definition free_inv :: "'z kmem_scheme \<Rightarrow> addr list \<Rightarrow> bool" where
  "free_inv M ps \<longleftrightarrow> chain (km_mem M) (km_freelist M) ps \<and> distinct ps \<and> (\<forall>p \<in> set ps. page_ok M p)"

text \<open>Distinct pages do not overlap.\<close>

lemma page_apart:
  fixes p v i :: addr
  assumes "p mod PGSIZE = 0" "v mod PGSIZE = 0" "p \<noteq> v" "i < PGSIZE"
  shows "4096 \<le> unat (p + i - v)"
proof -
  have "4096 dvd unat p" "4096 dvd unat v"
    using assms(1,2) unat_mod [of p PGSIZE] unat_mod [of v PGSIZE] by (simp_all add: PGSIZE_def dvd_eq_mod_eq_0)
  then obtain a b where ab: "unat p = 4096 * a" "unat v = 4096 * b" by (auto elim!: dvdE)
  have i: "unat i < 4096" using assms(4) by (simp add: word_less_nat_alt PGSIZE_def)
  have "a < 2 ^ 20" "b < 2 ^ 20" using ab unat_max [of p] unat_max [of v] by simp_all
  moreover have "a \<noteq> b" using assms(3) ab by (auto simp: word_unat_eq_iff)
  moreover have "unat (p - v) = (if b \<le> a then 4096 * a - 4096 * b else 2 ^ 32 - (4096 * b - 4096 * a))"
    using unat_dist_rev [OF assms(3)] unat_sub [of v p] unat_sub [of p v] ab by (cases "b \<le> a") (auto simp: word_le_nat_alt)
  ultimately have d: "4096 \<le> unat (p - v)" "unat (p - v) + unat i < 2 ^ 32" using i by (auto split: if_splits)
  moreover have "unat (p - v + i) = (unat (p - v) + unat i) mod 2 ^ 32" by (simp add: unat_word_ariths)
  ultimately show ?thesis by (simp add: algebra_simps)
qed


lemma load32_cong: "(\<And>i. i < 4 \<Longrightarrow> m' (a + i) = m (a + i)) \<Longrightarrow> load32 a m' = load32 a m"
proof -
  assume e: "\<And>i. i < 4 \<Longrightarrow> m' (a + i) = m (a + i)"
  from e [of 0] e [of 1] e [of 2] e [of 3] show ?thesis by (simp add: load32_def)
qed

lemma chain_cong:
  assumes "\<And>p. p \<in> set ps \<Longrightarrow> load32 p m' = load32 p m"
  shows "chain m' r ps = chain m r ps"
  using assms by (induction ps arbitrary: r) auto

text \<open>A change inside page \<open>v\<close>.\<close>

definition same_but :: "addr \<Rightarrow> bmem \<Rightarrow> bmem \<Rightarrow> bool" where
  "same_but v m m' \<longleftrightarrow> (\<forall>x. 4096 \<le> unat (x - v) \<longrightarrow> m' x = m x)"

lemma same_but_load:
  assumes "same_but v m m'" "v mod PGSIZE = 0" "p mod PGSIZE = 0" "p \<noteq> v" "i \<le> PGSIZE - 4"
  shows "load32 (p + i) m' = load32 (p + i) m"
proof (rule load32_cong)
  fix j :: addr assume "j < 4"
  then have "i + j < PGSIZE" using assms(5) by (simp add: PGSIZE_def word_less_nat_alt word_le_nat_alt unat_word_ariths)
  from page_apart [OF assms(3,2,4) this] assms(1) show "m' (p + i + j) = m (p + i + j)" by (simp add: same_but_def add.assoc)
qed

lemma same_but_free: "same_but v m (store32 v w (filled v 4096 b m))"
proof -
  have "store32 v w (filled v 4096 b m) x = m x" if "4096 \<le> unat (x - v)" for x
    using that store32_other [of x v w "filled v 4096 b m"] by (simp add: filled_def)
  then show ?thesis by (simp add: same_but_def)
qed

lemma free_inv_same:
  assumes "free_inv M ps" "same_but v (km_mem M) m" "v mod PGSIZE = 0" "v \<notin> set ps"
  shows "chain m (km_freelist M) ps"
proof -
  have "load32 p m = load32 p (km_mem M)" if "p \<in> set ps" for p
    using same_but_load [OF assms(2,3), of p 0] that assms(1,4) by (auto simp: free_inv_def page_ok_def PGSIZE_def)
  then show ?thesis using assms(1) chain_cong [of ps m "km_mem M"] by (simp add: free_inv_def)
qed

lemma free_inv_core:
  assumes "core M' = core M"
  shows "free_inv M' ps = free_inv M ps"
  using core_eqD [OF assms] by (simp add: free_inv_def page_ok_def)

lemma kfree_free:
  assumes "mctx c M" "free_inv M ps" "page_ok M v" "v \<notin> set ps"
  shows "\<exists>M'. kfree c v M = Inr M' \<and> mctx c M' \<and> free_inv M' (v # ps) \<and> km_end M' = km_end M \<and> km_use_lock M' = km_use_lock M
    \<and> same_but v (km_mem M) (km_mem M')"
proof -
  obtain M' where M': "kfree c v M = Inr M'" "mctx c M'"
    "core M' = (core M)\<lparr>km_mem := store32 v (km_freelist M) (filled v 4096 1 (km_mem M)), km_freelist := v\<rparr>"
    using kfree_core [OF assms(1,3)] by blast
  let ?m = "store32 v (km_freelist M) (filled v 4096 1 (km_mem M))"
  have f: "km_mem M' = ?m" "km_freelist M' = v" "km_end M' = km_end M" "km_use_lock M' = km_use_lock M"
    using arg_cong [OF M'(3), of km_mem] arg_cong [OF M'(3), of km_freelist] arg_cong [OF M'(3), of km_end] arg_cong [OF M'(3), of km_use_lock] by simp_all
  have "chain ?m (km_freelist M) ps" by (rule free_inv_same [OF assms(2) same_but_free _ assms(4)]) (use assms(3) in \<open>simp add: page_ok_def\<close>)
  then have "free_inv M' (v # ps)" using assms(2-4) page_ok_nonzero [OF assms(3)] f by (auto simp: free_inv_def page_ok_def load_store32)
  then show ?thesis using M' f same_but_free by auto
qed

lemma kalloc_free:
  assumes "mctx c M" "free_inv M ps"
  shows "\<exists>M'. kalloc c M = Inr (case ps of [] \<Rightarrow> 0 | p # _ \<Rightarrow> p, M') \<and> mctx c M' \<and> free_inv M' (tl ps)
    \<and> core M' = (core M)\<lparr>km_freelist := km_freelist M'\<rparr>"
proof -
  obtain M' where M': "kalloc c M = Inr (km_freelist M, M')" "mctx c M'"
    "core M' = (if km_freelist M \<noteq> 0 then (core M)\<lparr>km_freelist := load32 (km_freelist M) (km_mem M)\<rparr> else core M)" using kalloc_core [OF assms(1)] by blast
  have e: "km_freelist M = (case ps of [] \<Rightarrow> 0 | p # _ \<Rightarrow> p)" using assms(2) by (cases ps) (simp_all add: free_inv_def)
  show ?thesis
  proof (cases ps)
    case Nil
    then have "core M' = core M" using M'(3) e by simp
    then show ?thesis using M' e Nil assms(2) free_inv_core [of M' M] core_eqD(2) [of M' M] by simp
  next
    case (Cons p qs)
    then have nz: "km_freelist M = p" "p \<noteq> 0" using assms(2) by (auto simp: free_inv_def)
    then have c: "core M' = (core M)\<lparr>km_freelist := load32 p (km_mem M)\<rparr>" using M'(3) by simp
    have f: "km_mem M' = km_mem M" "km_freelist M' = load32 p (km_mem M)" "km_end M' = km_end M"
      using arg_cong [OF c, of km_mem] arg_cong [OF c, of km_freelist] arg_cong [OF c, of km_end] by simp_all
    then have "free_inv M' qs" using assms(2) Cons by (auto simp: free_inv_def page_ok_def)
    then show ?thesis using M'(1,2) c f nz Cons by auto
  qed
qed

section \<open>Start-up\<close>

text \<open>The \<open>n\<close> pages from \<open>p\<close> on.\<close>

fun pages :: "addr \<Rightarrow> nat \<Rightarrow> addr list" where
  "pages p 0 = []"
| "pages p (Suc n) = p # pages (p + PGSIZE) n"

lemma unat_page_next: "unat p + 4096 < 2 ^ 32 \<Longrightarrow> unat (p + PGSIZE) = unat p + 4096"
  by (simp add: unat_word_ariths PGSIZE_def)

lemma pages_mem:
  assumes "unat p + 4096 * n < 2 ^ 32" "x \<in> set (pages p n)" "p mod PGSIZE = 0"
  shows "unat p \<le> unat x \<and> unat x + 4096 \<le> unat p + 4096 * n \<and> x mod PGSIZE = 0"
  using assms
proof (induction n arbitrary: p)
  case (Suc n)
  have nx: "unat (p + PGSIZE) = unat p + 4096" using Suc.prems(1) by (intro unat_page_next) simp
  have al: "(p + PGSIZE) mod PGSIZE = 0" using Suc.prems(3) nx unat_mod [of "p + PGSIZE" PGSIZE] unat_mod [of p PGSIZE]
    by (simp add: PGSIZE_def word_unat_eq_iff)
  show ?case using Suc.prems Suc.IH [of "p + PGSIZE"] nx al by (cases "x = p") auto
qed simp

lemma freerange_loop_pages:
  assumes "mctx c M" "free_inv M ps" "p mod PGSIZE = 0" "set (pages p n) \<inter> set ps = {}" "\<forall>x \<in> set (pages p n). page_ok M x"
    and "unat p + 4096 * n \<le> unat vend" "unat vend < unat p + 4096 * Suc n" "unat vend + 4096 < 2 ^ 32" "n \<le> fuel"
  shows "\<exists>M'. freerange_loop fuel c p vend M = Inr M' \<and> mctx c M' \<and> free_inv M' (rev (pages p n) @ ps) \<and> km_end M' = km_end M
    \<and> km_use_lock M' = km_use_lock M"
  using assms
proof (induction n arbitrary: p M ps fuel)
  case 0
  have "unat (p + PGSIZE) = unat p + 4096" using 0(6-8) by (intro unat_page_next) simp
  then have "\<not> p + PGSIZE \<le> vend" using 0(7) by (simp add: word_le_nat_alt)
  then show ?case using 0 by (cases fuel) auto
next
  case (Suc n)
  obtain f where f: "fuel = Suc f" "n \<le> f" using Suc.prems(9) by (cases fuel) auto
  have nx: "unat (p + PGSIZE) = unat p + 4096" using Suc.prems(6,8) by (intro unat_page_next) simp
  then have go: "p + PGSIZE \<le> vend" using Suc.prems(6) by (simp add: word_le_nat_alt)
  obtain M1 where M1: "kfree c p M = Inr M1" "mctx c M1" "free_inv M1 (p # ps)" "km_end M1 = km_end M" "km_use_lock M1 = km_use_lock M"
    using kfree_free [OF Suc.prems(1,2), of p] Suc.prems(4,5) by auto
  have al: "(p + PGSIZE) mod PGSIZE = 0" using Suc.prems(3) nx unat_mod [of "p + PGSIZE" PGSIZE] unat_mod [of p PGSIZE]
    by (simp add: PGSIZE_def word_unat_eq_iff)
  have "p \<notin> set (pages (p + PGSIZE) n)"
    using pages_mem [of "p + PGSIZE" n p] al nx Suc.prems(6,8) by auto
  then have "\<exists>M'. freerange_loop f c (p + PGSIZE) vend M1 = Inr M' \<and> mctx c M' \<and> free_inv M' (rev (pages (p + PGSIZE) n) @ p # ps)
      \<and> km_end M' = km_end M1 \<and> km_use_lock M' = km_use_lock M1"
    using Suc.prems(4-8) M1 al nx f(2) by (intro Suc.IH) (auto simp: page_ok_def)
  then show ?case using f(1) go M1(1,4,5) by auto
qed

lemma page_mask: "x AND NOT (PGSIZE - 1) = x div PGSIZE * PGSIZE"
proof -
  have "x AND NOT (PGSIZE - 1) = push_bit 12 (drop_bit 12 x)"
    by (rule bit_word_eqI) (auto simp: bit_simps PGSIZE_def mask_eq_exp_minus_1 [of 12, where ?'a = "32 word", simplified, symmetric])
  then show ?thesis by (simp add: push_bit_eq_mult drop_bit_eq_div PGSIZE_def)
qed

lemma unat_page_mask: "unat (x div PGSIZE * PGSIZE) = unat x div 4096 * 4096"
proof -
  have "unat (x div PGSIZE) = unat x div 4096" by (simp add: unat_div PGSIZE_def)
  moreover have "unat x div 4096 * 4096 \<le> unat x" by simp
  ultimately show ?thesis using unat_max [of x] unat_word_ariths(2) [of "x div PGSIZE" PGSIZE] by (simp add: PGSIZE_def)
qed

lemma page_aligned: "x div PGSIZE * PGSIZE mod PGSIZE = 0"
  using unat_mod [of "x div PGSIZE * PGSIZE" PGSIZE] unat_page_mask [of x] by (simp add: PGSIZE_def word_unat_eq_iff)

lemma PGROUNDUP_props:
  assumes "unat a + 4096 < 2 ^ 32"
  shows "PGROUNDUP a mod PGSIZE = 0" "unat (PGROUNDUP a) = (unat a + 4095) div 4096 * 4096"
proof -
  have "unat (a + PGSIZE - 1) = unat a + 4095" using assms unat_word_ariths(1) [of 4095 a] by (simp add: PGSIZE_def)
  then show "unat (PGROUNDUP a) = (unat a + 4095) div 4096 * 4096" using unat_page_mask [of "a + PGSIZE - 1"] by (simp add: PGROUNDUP_def page_mask)
  show "PGROUNDUP a mod PGSIZE = 0" by (simp add: PGROUNDUP_def page_mask page_aligned)
qed

lemma KERN_facts: "unat KERNBASE = 2 ^ 31" "unat PHYSTOP = 0xE000000" "unat (KERNBASE + PHYSTOP) = 2 ^ 31 + 0xE000000"
  by (simp_all add: KERNBASE_def PHYSTOP_def)

lemma page_okI:
  assumes "x mod PGSIZE = 0" "km_end M \<le> x" "unat KERNBASE \<le> unat x" "unat x + 4096 \<le> unat (KERNBASE + PHYSTOP)"
  shows "page_ok M x"
proof -
  have "unat (x - KERNBASE) = unat x - unat KERNBASE" using assms(3) by (intro unat_sub) (simp add: word_le_nat_alt)
  then show ?thesis using assms KERN_facts by (simp add: page_ok_def word_le_nat_alt word_less_nat_alt)
qed

lemma freerange_pages:
  assumes "mctx c M" "km_freelist M = 0" "km_end M \<le> vstart" "KERNBASE \<le> vstart" "unat vstart + 4096 \<le> unat vend" "vend \<le> KERNBASE + PHYSTOP"
  shows "\<exists>M'. freerange c vstart vend M = Inr M' \<and> mctx c M' \<and> km_end M' = km_end M
    \<and> free_inv M' (rev (pages (PGROUNDUP vstart) ((unat vend - unat (PGROUNDUP vstart)) div 4096)))"
proof -
  let ?p = "PGROUNDUP vstart" let ?n = "(unat vend - unat (PGROUNDUP vstart)) div 4096"
  have v: "unat vend \<le> 2 ^ 31 + 0xE000000" "unat KERNBASE \<le> unat vstart" "unat (km_end M) \<le> unat vstart"
    using assms(3,4,6) KERN_facts(3) by (simp_all add: word_le_nat_alt)
  note P = PGROUNDUP_props [of vstart]
  have p: "?p mod PGSIZE = 0" "unat vstart \<le> unat ?p" "unat ?p \<le> unat vend" using P v assms(5) by simp_all
  have n: "unat ?p + 4096 * ?n \<le> unat vend" "unat vend < unat ?p + 4096 * Suc ?n" using p(3) div_times_less_eq_dividend [of "unat vend - unat ?p" 4096] dividend_less_div_times [of 4096 "unat vend - unat ?p"]
    by (simp_all add: less_diff_conv algebra_simps)
  have "page_ok M x" if "x \<in> set (pages ?p ?n)" for x
    using pages_mem [OF _ that p(1)] n(1) v p(2) KERN_facts by (intro page_okI) (simp_all add: word_le_nat_alt)
  moreover have "?n \<le> 2 ^ 20" using v(1) by simp
  moreover have "free_inv M []" using assms(2) by (simp add: free_inv_def)
  ultimately obtain M' where "freerange_loop (2 ^ 20) c ?p vend M = Inr M'" "mctx c M'" "free_inv M' (rev (pages ?p ?n) @ [])" "km_end M' = km_end M"
    using freerange_loop_pages [OF assms(1) _ p(1), of "[]" ?n vend "2 ^ 20"] n v(1) by auto
  moreover have "\<not> vend < vstart" using assms(5) by (simp add: word_less_nat_alt)
  ultimately show ?thesis by (simp add: freerange_def)
qed

section \<open>What the allocator guarantees\<close>

text \<open>
  C33. At start-up \<open>kinit1\<close> puts exactly the whole pages of its range on the free list, the highest first.
\<close>

theorem kinit1_pages:
  assumes "mctx c M" "km_freelist M = 0" "km_end M \<le> vstart" "KERNBASE \<le> vstart" "unat vstart + 4096 \<le> unat vend" "vend \<le> KERNBASE + PHYSTOP"
  shows "\<exists>M'. kinit1 c vstart vend M = Inr M' \<and> mctx c M'
    \<and> free_inv M' (rev (pages (PGROUNDUP vstart) ((unat vend - unat (PGROUNDUP vstart)) div 4096)))"
proof -
  let ?M = "(initlock KmemLock ''kmem'' M)\<lparr>km_use_lock := False\<rparr>"
  have "mctx c ?M" "km_freelist ?M = 0" "km_end ?M \<le> vstart"
    using assms(1-3) by (simp_all add: mctx_def cpu_ok_def lock_free_def initlock_def upd_lock_def)
  from freerange_pages [OF this assms(4-6)] show ?thesis by (auto simp: kinit1_def)
qed

definition demo_kmem :: "kmem" where
  "demo_kmem = \<lparr>cpus = cpus demo_mach, locks = locks demo_mach, km_use_lock = True, km_freelist = 0, km_mem = (\<lambda>_. 0),
     km_end = 0x80110000, km_data = 0x80108000, km_out = []\<rparr>"

lemma demo_kmem_mctx: "mctx 0 demo_kmem"
  by (simp add: demo_kmem_def demo_mach_def mctx_def cpu_ok_def lock_free_def)

theorem kinit1_pages_witness:
  "\<exists>M'. kinit1 0 0x80110000 0x80400000 demo_kmem = Inr M' \<and> mctx 0 M'"
  using kinit1_pages [OF demo_kmem_mctx, of "0x80110000" "0x80400000"] by (auto simp: demo_kmem_def layout_defs)

text \<open>
  C34. \<open>kalloc\<close> takes the first page off the free list and leaves memory as it is; with an empty list it returns 0. \<open>kfree\<close> of a page that is
  not free puts it first on the list and touches no memory outside the page, and the next \<open>kalloc\<close> returns it. So a
  page that has been handed out is handed out again only after it has been freed.
\<close>

theorem kalloc_kfree:
  assumes "mctx c M" "free_inv M ps" "page_ok M v" "v \<notin> set ps"
  shows "(\<exists>M'. kalloc c M = Inr (case ps of [] \<Rightarrow> 0 | p # _ \<Rightarrow> p, M') \<and> mctx c M' \<and> free_inv M' (tl ps) \<and> km_mem M' = km_mem M)
    \<and> (\<exists>M1 M2. kfree c v M = Inr M1 \<and> free_inv M1 (v # ps) \<and> same_but v (km_mem M) (km_mem M1) \<and> kalloc c M1 = Inr (v, M2) \<and> free_inv M2 ps)"
proof
  obtain M' where M': "kalloc c M = Inr (case ps of [] \<Rightarrow> 0 | p # _ \<Rightarrow> p, M')" "mctx c M'" "free_inv M' (tl ps)" "core M' = (core M)\<lparr>km_freelist := km_freelist M'\<rparr>"
    using kalloc_free [OF assms(1,2)] by blast
  moreover have "km_mem M' = km_mem M" using arg_cong [OF M'(4), of km_mem] by simp
  ultimately show "\<exists>M'. kalloc c M = Inr (case ps of [] \<Rightarrow> 0 | p # _ \<Rightarrow> p, M') \<and> mctx c M' \<and> free_inv M' (tl ps) \<and> km_mem M' = km_mem M" by blast
  obtain M1 where M1: "kfree c v M = Inr M1" "mctx c M1" "free_inv M1 (v # ps)" "same_but v (km_mem M) (km_mem M1)" using kfree_free [OF assms] by blast
  from kalloc_free [OF M1(2,3)] M1 show "\<exists>M1 M2. kfree c v M = Inr M1 \<and> free_inv M1 (v # ps) \<and> same_but v (km_mem M) (km_mem M1) \<and> kalloc c M1 = Inr (v, M2) \<and> free_inv M2 ps"
    by auto
qed

theorem kalloc_kfree_witness:
  "\<exists>M1 M2. kfree 0 0x80200000 demo_kmem = Inr M1 \<and> kalloc 0 M1 = Inr (0x80200000, M2)"
proof -
  have "free_inv demo_kmem []" "page_ok demo_kmem 0x80200000" by (simp_all add: free_inv_def demo_kmem_def page_ok_def PGSIZE_def layout_defs)
  then show ?thesis using kalloc_kfree [OF demo_kmem_mctx, of "[]" "0x80200000"] by auto
qed

end
