(* ===== verification/Vm.thy ===== *)
theory Vm
  imports Kalloc ProcOps
begin

text \<open>
  Page tables (\<^verbatim>\<open>vm.c\<close>, \<^verbatim>\<open>mmu.h\<close>), as the two levels of words in memory that the hardware reads.

  A pointer to a page table entry is its address, 0 for none. The kernel reaches a physical page through its address above \<open>KERNBASE\<close>.
  Loops over pages carry as fuel the number of pages they can visit; \<open>NoReturn\<close> marks fuel that has run out. What \<open>readi\<close> does for
  \<open>loaduvm\<close> is an argument.
\<close>

unbundle bit_operations_syntax

section \<open>Addresses and entries\<close>

definition PDX :: "addr \<Rightarrow> 32 word" where "PDX va = drop_bit 22 va AND 0x3FF"
definition PTX :: "addr \<Rightarrow> 32 word" where "PTX va = drop_bit 12 va AND 0x3FF"
definition PGADDR :: "32 word \<Rightarrow> 32 word \<Rightarrow> 32 word \<Rightarrow> addr" where "PGADDR d t o' = push_bit 22 d OR push_bit 12 t OR o'"
definition NPDENTRIES :: nat where "NPDENTRIES = 1024"
definition PTE_P :: "32 word" where "PTE_P = 1"
definition PTE_W :: "32 word" where "PTE_W = 2"
definition PTE_U :: "32 word" where "PTE_U = 4"
definition PTE_ADDR :: "32 word \<Rightarrow> 32 word" where "PTE_ADDR pte = pte AND NOT 0xFFF"
definition PTE_FLAGS :: "32 word \<Rightarrow> 32 word" where "PTE_FLAGS pte = pte AND 0xFFF"

definition present :: "32 word \<Rightarrow> bool" where "present e \<longleftrightarrow> e AND PTE_P \<noteq> 0"

definition set_mem :: "bmem \<Rightarrow> 'z kmem_scheme \<Rightarrow> 'z kmem_scheme" where
  "set_mem m M = M\<lparr>km_mem := m\<rparr>"

definition word_at :: "addr \<Rightarrow> 'z kmem_scheme \<Rightarrow> 32 word" where
  "word_at a M = load32 a (km_mem M)"

definition put_word :: "addr \<Rightarrow> 32 word \<Rightarrow> 'z kmem_scheme \<Rightarrow> 'z kmem_scheme" where
  "put_word a w M = set_mem (store32 a w (km_mem M)) M"

definition clear_page :: "addr \<Rightarrow> 'z kmem_scheme \<Rightarrow> 'z kmem_scheme" where
  "clear_page a M = set_mem (memset a 0 PGSIZE (km_mem M)) M"

section \<open>Walking and mapping\<close>

definition walkpgdir :: "nat \<Rightarrow> addr \<Rightarrow> addr \<Rightarrow> bool \<Rightarrow> 'z kmem_scheme \<Rightarrow> (addr \<times> 'z kmem_scheme) result" where
  "walkpgdir c pgdir va alloc M =
     (let pde = pgdir + 4 * PDX va
      in if present (word_at pde M)
         then bindE (P2V (PTE_ADDR (word_at pde M))) (\<lambda>pgtab. Inr (pgtab + 4 * PTX va, M))
         else if \<not> alloc then Inr (0, M)
         else bindE (kalloc c M) (\<lambda>(pgtab, M1).
           if pgtab = 0 then Inr (0, M1)
           else bindE (V2P pgtab) (\<lambda>pa.
             Inr (pgtab + 4 * PTX va, put_word pde (pa OR PTE_P OR PTE_W OR PTE_U) (clear_page pgtab M1)))))"

fun mappages_loop :: "nat \<Rightarrow> nat \<Rightarrow> addr \<Rightarrow> addr \<Rightarrow> addr \<Rightarrow> 32 word \<Rightarrow> 32 word \<Rightarrow> 'z kmem_scheme \<Rightarrow> (int \<times> 'z kmem_scheme) result" where
  "mappages_loop 0 c pgdir a lst pa perm M = Inl NoReturn"
| "mappages_loop (Suc n) c pgdir a lst pa perm M =
     bindE (walkpgdir c pgdir a True M) (\<lambda>(pte, M1).
     if pte = 0 then Inr (-1, M1)
     else if present (word_at pte M1) then panic ''remap''
     else let M2 = put_word pte (pa OR perm OR PTE_P) M1
       in if a = lst then Inr (0, M2) else mappages_loop n c pgdir (a + PGSIZE) lst (pa + PGSIZE) perm M2)"

definition mappages :: "nat \<Rightarrow> addr \<Rightarrow> addr \<Rightarrow> 32 word \<Rightarrow> 32 word \<Rightarrow> 32 word \<Rightarrow> 'z kmem_scheme \<Rightarrow> (int \<times> 'z kmem_scheme) result" where
  "mappages c pgdir va sz pa perm M =
     (let a = PGROUNDDOWN va; lst = PGROUNDDOWN (va + sz - 1)
      in mappages_loop (Suc (unat ((lst - a) div PGSIZE))) c pgdir a lst pa perm M)"

section \<open>Giving memory back\<close>

fun deallocuvm_loop :: "nat \<Rightarrow> nat \<Rightarrow> addr \<Rightarrow> addr \<Rightarrow> addr \<Rightarrow> 'z kmem_scheme \<Rightarrow> 'z kmem_scheme result" where
  "deallocuvm_loop 0 c pgdir a oldsz M = (if a < oldsz then Inl NoReturn else Inr M)"
| "deallocuvm_loop (Suc n) c pgdir a oldsz M =
     (if a < oldsz
      then bindE (walkpgdir c pgdir a False M) (\<lambda>(pte, M1).
        if pte = 0 then deallocuvm_loop n c pgdir (PGADDR (PDX a + 1) 0 0 - PGSIZE + PGSIZE) oldsz M1
        else if present (word_at pte M1)
        then let pa = PTE_ADDR (word_at pte M1)
          in if pa = 0 then panic ''kfree''
             else bindE (P2V pa) (\<lambda>v. bindE (kfree c v M1) (\<lambda>M2.
               deallocuvm_loop n c pgdir (a + PGSIZE) oldsz (put_word pte 0 M2)))
        else deallocuvm_loop n c pgdir (a + PGSIZE) oldsz M1)
      else Inr M)"

definition deallocuvm :: "nat \<Rightarrow> addr \<Rightarrow> 32 word \<Rightarrow> 32 word \<Rightarrow> 'z kmem_scheme \<Rightarrow> (32 word \<times> 'z kmem_scheme) result" where
  "deallocuvm c pgdir oldsz newsz M =
     (if newsz \<ge> oldsz then Inr (oldsz, M)
      else let a = PGROUNDUP newsz
        in bindE (deallocuvm_loop (Suc (unat ((oldsz - a) div PGSIZE))) c pgdir a oldsz M) (\<lambda>M1. Inr (newsz, M1)))"

fun freevm_loop :: "nat \<Rightarrow> addr \<Rightarrow> nat list \<Rightarrow> 'z kmem_scheme \<Rightarrow> 'z kmem_scheme result" where
  "freevm_loop c pgdir [] M = Inr M"
| "freevm_loop c pgdir (i # is) M =
     (let e = word_at (pgdir + 4 * of_nat i) M
      in if present e then bindE (P2V (PTE_ADDR e)) (\<lambda>v. bindE (kfree c v M) (freevm_loop c pgdir is))
         else freevm_loop c pgdir is M)"

definition freevm :: "nat \<Rightarrow> addr \<Rightarrow> 'z kmem_scheme \<Rightarrow> 'z kmem_scheme result" where
  "freevm c pgdir M =
     (if pgdir = 0 then panic ''freevm: no pgdir''
      else bindE (deallocuvm c pgdir KERNBASE 0 M) (\<lambda>(sz, M1).
           bindE (freevm_loop c pgdir [0..<NPDENTRIES] M1) (kfree c pgdir)))"

section \<open>The kernel's part\<close>

definition kmap :: "'z kmem_scheme \<Rightarrow> (addr \<times> 32 word \<times> 32 word \<times> 32 word) list" where
  "kmap M =
     [(KERNBASE, 0, EXTMEM, PTE_W),
      (KERNLINK, KERNLINK - KERNBASE, km_data M - KERNBASE, 0),
      (km_data M, km_data M - KERNBASE, PHYSTOP, PTE_W),
      (DEVSPACE, DEVSPACE, 0, PTE_W)]"

fun setupkvm_loop :: "nat \<Rightarrow> addr \<Rightarrow> (addr \<times> 32 word \<times> 32 word \<times> 32 word) list \<Rightarrow> 'z kmem_scheme \<Rightarrow> (addr \<times> 'z kmem_scheme) result" where
  "setupkvm_loop c pgdir [] M = Inr (pgdir, M)"
| "setupkvm_loop c pgdir ((virt, phys_start, phys_end, perm) # ks) M =
     bindE (mappages c pgdir virt (phys_end - phys_start) phys_start perm M) (\<lambda>(r, M1).
     if r < 0 then bindE (freevm c pgdir M1) (\<lambda>M2. Inr (0, M2)) else setupkvm_loop c pgdir ks M1)"

definition setupkvm :: "nat \<Rightarrow> 'z kmem_scheme \<Rightarrow> (addr \<times> 'z kmem_scheme) result" where
  "setupkvm c M =
     bindE (kalloc c M) (\<lambda>(pgdir, M1).
     if pgdir = 0 then Inr (0, M1)
     else bindE (P2V PHYSTOP) (\<lambda>top.
       if top > DEVSPACE then panic ''PHYSTOP too high''
       else setupkvm_loop c pgdir (kmap M1) (clear_page pgdir M1)))"

definition kvmalloc :: "nat \<Rightarrow> 'z kmem_scheme \<Rightarrow> (addr \<times> 'z kmem_scheme) result" where
  "kvmalloc c M =
     bindE (setupkvm c M) (\<lambda>(kpgdir, M1).
     bindE (V2P kpgdir) (\<lambda>pa. Inr (kpgdir, upd_cpu c (\<lambda>x. x\<lparr>c_cr3 := pa\<rparr>) M1)))"

section \<open>User memory\<close>

text \<open>\<open>init\<close> is the address of the initial program. A page at address 0 is not mapped: \<open>memset\<close> through it traps.\<close>

definition inituvm :: "nat \<Rightarrow> addr \<Rightarrow> addr \<Rightarrow> 32 word \<Rightarrow> 'z kmem_scheme \<Rightarrow> 'z kmem_scheme result" where
  "inituvm c pgdir init sz M =
     (if sz \<ge> PGSIZE then panic ''inituvm: more than a page''
      else bindE (kalloc c M) (\<lambda>(mem, M1).
        if mem = 0 then nullderef
        else bindE (V2P mem) (\<lambda>pa.
          bindE (mappages c pgdir 0 PGSIZE pa (PTE_W OR PTE_U) (clear_page mem M1)) (\<lambda>(r, M2).
          Inr (set_mem (memmove mem init sz (km_mem M2)) M2)))))"

fun loaduvm_loop :: "(addr \<Rightarrow> 32 word \<Rightarrow> 32 word \<Rightarrow> 'z kmem_scheme \<Rightarrow> (int \<times> 'z kmem_scheme) result) \<Rightarrow>
    nat \<Rightarrow> nat \<Rightarrow> addr \<Rightarrow> addr \<Rightarrow> 32 word \<Rightarrow> 32 word \<Rightarrow> 32 word \<Rightarrow> 'z kmem_scheme \<Rightarrow> (int \<times> 'z kmem_scheme) result" where
  "loaduvm_loop readi 0 c pgdir a offset sz i M = (if i < sz then Inl NoReturn else Inr (0, M))"
| "loaduvm_loop readi (Suc k) c pgdir a offset sz i M =
     (if i < sz
      then bindE (walkpgdir c pgdir (a + i) False M) (\<lambda>(pte, M1).
        if pte = 0 then panic ''loaduvm: address should exist''
        else let pa = PTE_ADDR (word_at pte M1); n = (if sz - i < PGSIZE then sz - i else PGSIZE)
          in bindE (P2V pa) (\<lambda>v. bindE (readi v (offset + i) n M1) (\<lambda>(r, M2).
             if word_of_int r \<noteq> n then Inr (-1, M2) else loaduvm_loop readi k c pgdir a offset sz (i + PGSIZE) M2)))
      else Inr (0, M))"

definition loaduvm :: "(addr \<Rightarrow> 32 word \<Rightarrow> 32 word \<Rightarrow> 'z kmem_scheme \<Rightarrow> (int \<times> 'z kmem_scheme) result) \<Rightarrow>
    nat \<Rightarrow> addr \<Rightarrow> addr \<Rightarrow> 32 word \<Rightarrow> 32 word \<Rightarrow> 'z kmem_scheme \<Rightarrow> (int \<times> 'z kmem_scheme) result" where
  "loaduvm readi c pgdir a offset sz M =
     (if a mod PGSIZE \<noteq> 0 then panic ''loaduvm: addr must be page aligned''
      else loaduvm_loop readi (Suc (unat (sz div PGSIZE))) c pgdir a offset sz 0 M)"

fun allocuvm_loop :: "nat \<Rightarrow> nat \<Rightarrow> addr \<Rightarrow> addr \<Rightarrow> 32 word \<Rightarrow> 32 word \<Rightarrow> 'z kmem_scheme \<Rightarrow> (32 word \<times> 'z kmem_scheme) result" where
  "allocuvm_loop 0 c pgdir a oldsz newsz M = (if a < newsz then Inl NoReturn else Inr (newsz, M))"
| "allocuvm_loop (Suc n) c pgdir a oldsz newsz M =
     (if a < newsz
      then bindE (kalloc c M) (\<lambda>(mem, M1).
        if mem = 0
        then bindE (deallocuvm c pgdir newsz oldsz (M1\<lparr>km_out := km_out M1 @ ''allocuvm out of memory\<newline>''\<rparr>)) (\<lambda>(r, M2). Inr (0, M2))
        else bindE (V2P mem) (\<lambda>pa.
          bindE (mappages c pgdir a PGSIZE pa (PTE_W OR PTE_U) (clear_page mem M1)) (\<lambda>(r, M2).
          if r < 0
          then bindE (deallocuvm c pgdir newsz oldsz (M2\<lparr>km_out := km_out M2 @ ''allocuvm out of memory (2)\<newline>''\<rparr>)) (\<lambda>(r, M3).
               bindE (kfree c mem M3) (\<lambda>M4. Inr (0, M4)))
          else allocuvm_loop n c pgdir (a + PGSIZE) oldsz newsz M2)))
      else Inr (newsz, M))"

definition allocuvm :: "nat \<Rightarrow> addr \<Rightarrow> 32 word \<Rightarrow> 32 word \<Rightarrow> 'z kmem_scheme \<Rightarrow> (32 word \<times> 'z kmem_scheme) result" where
  "allocuvm c pgdir oldsz newsz M =
     (if newsz \<ge> KERNBASE then Inr (0, M)
      else if newsz < oldsz then Inr (oldsz, M)
      else let a = PGROUNDUP oldsz in allocuvm_loop (Suc (unat ((newsz - a) div PGSIZE))) c pgdir a oldsz newsz M)"

definition clearpteu :: "nat \<Rightarrow> addr \<Rightarrow> addr \<Rightarrow> 'z kmem_scheme \<Rightarrow> 'z kmem_scheme result" where
  "clearpteu c pgdir uva M =
     bindE (walkpgdir c pgdir uva False M) (\<lambda>(pte, M1).
     if pte = 0 then panic ''clearpteu'' else Inr (put_word pte (word_at pte M1 AND NOT PTE_U) M1))"

fun copyuvm_loop :: "nat \<Rightarrow> nat \<Rightarrow> addr \<Rightarrow> addr \<Rightarrow> 32 word \<Rightarrow> 32 word \<Rightarrow> 'z kmem_scheme \<Rightarrow> (addr \<times> 'z kmem_scheme) result" where
  "copyuvm_loop 0 c pgdir d sz i M = (if i < sz then Inl NoReturn else Inr (d, M))"
| "copyuvm_loop (Suc n) c pgdir d sz i M =
     (if i < sz
      then bindE (walkpgdir c pgdir i False M) (\<lambda>(pte, M1).
        if pte = 0 then panic ''copyuvm: pte should exist''
        else if \<not> present (word_at pte M1) then panic ''copyuvm: page not present''
        else let pa = PTE_ADDR (word_at pte M1); flags = PTE_FLAGS (word_at pte M1)
          in bindE (kalloc c M1) (\<lambda>(mem, M2).
             if mem = 0 then bindE (freevm c d M2) (\<lambda>M3. Inr (0, M3))
             else bindE (P2V pa) (\<lambda>v. bindE (V2P mem) (\<lambda>pm.
               bindE (mappages c d i PGSIZE pm flags (set_mem (memmove mem v PGSIZE (km_mem M2)) M2)) (\<lambda>(r, M3).
               if r < 0 then bindE (kfree c mem M3) (\<lambda>M4. bindE (freevm c d M4) (\<lambda>M5. Inr (0, M5)))
               else copyuvm_loop n c pgdir d sz (i + PGSIZE) M3)))))
      else Inr (d, M))"

definition copyuvm :: "nat \<Rightarrow> addr \<Rightarrow> 32 word \<Rightarrow> 'z kmem_scheme \<Rightarrow> (addr \<times> 'z kmem_scheme) result" where
  "copyuvm c pgdir sz M =
     bindE (setupkvm c M) (\<lambda>(d, M1).
     if d = 0 then Inr (0, M1) else copyuvm_loop (Suc (unat (sz div PGSIZE))) c pgdir d sz 0 M1)"

definition uva2ka :: "nat \<Rightarrow> addr \<Rightarrow> addr \<Rightarrow> 'z kmem_scheme \<Rightarrow> (addr \<times> 'z kmem_scheme) result" where
  "uva2ka c pgdir uva M =
     bindE (walkpgdir c pgdir uva False M) (\<lambda>(pte, M1).
     if pte = 0 then nullderef
     else let e = word_at pte M1
       in if \<not> present e then Inr (0, M1)
          else if e AND PTE_U = 0 then Inr (0, M1)
          else bindE (P2V (PTE_ADDR e)) (\<lambda>v. Inr (v, M1)))"

fun copyout_loop :: "nat \<Rightarrow> nat \<Rightarrow> addr \<Rightarrow> addr \<Rightarrow> addr \<Rightarrow> 32 word \<Rightarrow> 'z kmem_scheme \<Rightarrow> (int \<times> 'z kmem_scheme) result" where
  "copyout_loop 0 c pgdir va buf len M = (if len > 0 then Inl NoReturn else Inr (0, M))"
| "copyout_loop (Suc k) c pgdir va buf len M =
     (if len > 0
      then let va0 = PGROUNDDOWN va
        in bindE (uva2ka c pgdir va0 M) (\<lambda>(pa0, M1).
           if pa0 = 0 then Inr (-1, M1)
           else let n0 = PGSIZE - (va - va0); n = (if n0 > len then len else n0)
             in copyout_loop k c pgdir (va0 + PGSIZE) (buf + n) (len - n)
                  (set_mem (memmove (pa0 + (va - va0)) buf n (km_mem M1)) M1))
      else Inr (0, M))"

definition copyout :: "nat \<Rightarrow> addr \<Rightarrow> addr \<Rightarrow> addr \<Rightarrow> 32 word \<Rightarrow> 'z kmem_scheme \<Rightarrow> (int \<times> 'z kmem_scheme) result" where
  "copyout c pgdir va p len M = copyout_loop (unat len) c pgdir va p len M"

end
