(* ===== verification/VmMap.thy ===== *)
theory VmMap
  imports Vm
begin

text \<open>
  What the page table code establishes. \<open>entry m pgdir va\<close> is the entry that the hardware finds for \<open>va\<close> (0 when there is no table).
  \<open>vm_inv M pgdir ps\<close>: the directory and its tables are distinct pages of allocatable memory, and none of them is free.
\<close>

unbundle bit_operations_syntax

section \<open>Indices and flags\<close>

lemma index_eq: "PDX va = take_bit 10 (drop_bit 22 va)" "PTX va = take_bit 10 (drop_bit 12 va)"
  by (simp_all add: PDX_def PTX_def take_bit_eq_mask mask_eq_exp_minus_1)

lemma index_less: "unat (PDX va) < 1024" "unat (PTX va) < 1024"
proof -
  have "unat (take_bit 10 x) < 1024" for x :: "32 word"
    using take_bit_nat_less_exp [of 10 "unat x"] by (simp add: unsigned_take_bit_eq)
  then show "unat (PDX va) < 1024" "unat (PTX va) < 1024" by (simp_all add: index_eq)
qed

lemma same_page_iff: "PDX a = PDX b \<and> PTX a = PTX b \<longleftrightarrow> a div PGSIZE = b div PGSIZE"
proof
  assume e: "PDX a = PDX b \<and> PTX a = PTX b"
  have "bit (drop_bit 12 a) n = bit (drop_bit 12 b) n" if "n < 32" for n
  proof (cases "n < 10")
    case True
    have "bit (PTX a) n = bit (PTX b) n" using e by simp
    then show ?thesis using True by (simp add: index_eq bit_simps)
  next
    case False
    have "bit (PDX a) (n - 10) = bit (PDX b) (n - 10)" using e by simp
    then show ?thesis using False that by (auto simp: index_eq bit_simps dest: bit_imp_le_length)
  qed
  then have "drop_bit 12 a = drop_bit 12 b" by (intro bit_word_eqI) simp
  then show "a div PGSIZE = b div PGSIZE" by (simp add: drop_bit_eq_div PGSIZE_def)
next
  assume "a div PGSIZE = b div PGSIZE"
  then have e: "drop_bit 12 a = drop_bit 12 b" by (simp add: drop_bit_eq_div PGSIZE_def)
  moreover have "drop_bit 22 x = drop_bit 10 (drop_bit 12 x)" for x :: "32 word" by (simp add: drop_bit_drop_bit)
  ultimately show "PDX a = PDX b \<and> PTX a = PTX b" by (simp only: PDX_def PTX_def)
qed

lemma aligned_bit: "x mod PGSIZE = 0 \<Longrightarrow> n < 12 \<Longrightarrow> \<not> bit x n"
proof
  assume "x mod PGSIZE = 0" "n < 12" "bit x n"
  then have "take_bit 12 x = 0" by (simp add: take_bit_eq_mod PGSIZE_def)
  moreover have "bit (take_bit 12 x) n" using \<open>n < 12\<close> \<open>bit x n\<close> by (simp add: bit_take_bit_iff)
  ultimately show False by simp
qed

lemma PTE_ADDR_flags:
  assumes "x mod PGSIZE = 0" "f AND NOT 0xFFF = 0"
  shows "PTE_ADDR (x OR f) = x"
proof (rule bit_word_eqI)
  fix n assume "n < LENGTH(32)"
  have m: "(0xFFF :: 32 word) = mask 12" by (simp add: mask_eq_exp_minus_1)
  have "\<not> bit f n" if "12 \<le> n"
  proof
    assume "bit f n"
    then have "bit (f AND NOT 0xFFF) n" using that unfolding m by (auto simp: bit_simps dest: bit_imp_le_length)
    then show False using assms(2) by simp
  qed
  then show "bit (PTE_ADDR (x OR f)) n = bit x n"
    using aligned_bit [OF assms(1), of n] \<open>n < LENGTH(32)\<close> unfolding PTE_ADDR_def m by (auto simp: bit_simps)
qed

lemma present_or: "present (x OR y OR PTE_P)" "present (x OR PTE_P OR y)"
proof -
  have "bit (x OR y OR PTE_P) 0" "bit (x OR PTE_P OR y) 0" by (simp_all add: bit_simps PTE_P_def)
  moreover have "present e \<longleftrightarrow> bit e 0" for e by (simp add: present_def PTE_P_def and_one_eq odd_iff_mod_2_eq_one bit_0)
  ultimately show "present (x OR y OR PTE_P)" "present (x OR PTE_P OR y)" by simp_all
qed

lemma present_0 [simp]: "\<not> present 0"
  by (simp add: present_def)

section \<open>Words in pages\<close>

lemma unat_slot: "i < 1024 \<Longrightarrow> unat (4 * i) = 4 * unat i" for i :: "32 word"
  by (simp add: unat_word_ariths word_less_nat_alt)

lemma same_but_store: "i < 1024 \<Longrightarrow> same_but v m (store32 (v + 4 * i) w m)"
proof -
  assume i: "i < 1024"
  have "store32 (v + 4 * i) w m x = m x" if x: "4096 \<le> unat (x - v)" for x
  proof (rule store32_other)
    have "unat (4 * i) \<le> 4092" using i unat_slot [OF i] by (simp add: word_less_nat_alt)
    then have "unat (x - v - 4 * i) = unat (x - v) - unat (4 * i)" using x by (intro unat_sub) (simp add: word_le_nat_alt)
    then show "4 \<le> unat (x - (v + 4 * i))" using x \<open>unat (4 * i) \<le> 4092\<close> by (simp add: algebra_simps)
  qed
  then show ?thesis by (simp add: same_but_def)
qed

lemma slot_less: "i < 1024 \<Longrightarrow> 4 * i \<le> PGSIZE - 4" for i :: "32 word"
  using unat_slot [of i] by (simp add: PGSIZE_def word_le_nat_alt word_less_nat_alt)

lemma load_slot:
  assumes "i < 1024" "j < 1024"
  shows "load32 (v + 4 * i) (store32 (v + 4 * j) w m) = (if i = j then w else load32 (v + 4 * i) m)"
proof (cases "i = j")
  case False
  have "load32 (v + 4 * i) (store32 (v + 4 * j) w m) = load32 (v + 4 * i) m"
  proof (rule load32_cong, rule store32_other)
    fix k :: addr assume k: "k < 4"
    have u: "unat (4 * i) = 4 * unat i" "unat (4 * j) = 4 * unat j" "unat k < 4" "unat i < 1024" "unat j < 1024" "unat i \<noteq> unat j"
      using unat_slot assms k False by (simp_all add: word_less_nat_alt word_unat_eq_iff)
    have d: "v + 4 * i + k - (v + 4 * j) = 4 * i + k - 4 * j" by simp
    have s: "unat (4 * i + k) = 4 * unat i + unat k" using u by (simp add: unat_word_ariths)
    show "4 \<le> unat (v + 4 * i + k - (v + 4 * j))"
    proof (cases "4 * j \<le> 4 * i + k")
      case True
      then have "unat (4 * i + k - 4 * j) = 4 * unat i + unat k - 4 * unat j" using u s by (simp add: unat_sub)
      moreover have "4 * unat j \<le> 4 * unat i + unat k" using True u s by (simp add: word_le_nat_alt)
      then have "4 \<le> 4 * unat i + unat k - 4 * unat j" using u by linarith
      ultimately show ?thesis unfolding d by simp
    next
      case nle: False
      have "4 * i + k \<noteq> 4 * j" using nle by auto
      then have "unat (4 * i + k - 4 * j) + unat (4 * j - (4 * i + k)) = 2 ^ 32" by (rule unat_dist_rev)
      moreover have "unat (4 * j - (4 * i + k)) \<le> 4092" using nle u s by (simp add: unat_sub)
      moreover have "X + Y = 2 ^ 32 \<Longrightarrow> Y \<le> 4092 \<Longrightarrow> 4 \<le> X" for X Y :: nat by simp
      ultimately show ?thesis unfolding d by blast
    qed
  qed
  then show ?thesis using False by simp
qed (simp add: load_store32)

lemma load_other_page:
  assumes "p mod PGSIZE = 0" "v mod PGSIZE = 0" "p \<noteq> v" "i < 1024" "same_but v m m'"
  shows "load32 (p + 4 * i) m' = load32 (p + 4 * i) m"
  using same_but_load [OF assms(5,2,1,3) slot_less [OF assms(4)]] .

section \<open>Entries\<close>

definition tab_of :: "32 word \<Rightarrow> addr" where
  "tab_of e = PTE_ADDR e + KERNBASE"

definition pde_at :: "bmem \<Rightarrow> addr \<Rightarrow> addr \<Rightarrow> 32 word" where
  "pde_at m pgdir va = load32 (pgdir + 4 * PDX va) m"

definition entry :: "bmem \<Rightarrow> addr \<Rightarrow> addr \<Rightarrow> 32 word" where
  "entry m pgdir va = (if present (pde_at m pgdir va) then load32 (tab_of (pde_at m pgdir va) + 4 * PTX va) m else 0)"

definition dir_slots :: "bmem \<Rightarrow> addr \<Rightarrow> (32 word) set" where
  "dir_slots m pgdir = {i. i < 1024 \<and> present (load32 (pgdir + 4 * i) m)}"

definition vm_inv :: "'z kmem_scheme \<Rightarrow> addr \<Rightarrow> addr list \<Rightarrow> bool" where
  "vm_inv M pgdir ps \<longleftrightarrow> free_inv M ps \<and> page_ok M pgdir \<and> pgdir \<notin> set ps
     \<and> inj_on (\<lambda>i. tab_of (load32 (pgdir + 4 * i) (km_mem M))) (dir_slots (km_mem M) pgdir)
     \<and> (\<forall>i \<in> dir_slots (km_mem M) pgdir. let t = tab_of (load32 (pgdir + 4 * i) (km_mem M)) in page_ok M t \<and> t \<notin> set ps \<and> t \<noteq> pgdir)"

lemma index_less': "PDX va < 1024" "PTX va < 1024"
  using index_less by (simp_all add: word_less_nat_alt)

lemma vm_invD:
  assumes "vm_inv M pgdir ps"
  shows "free_inv M ps" "page_ok M pgdir" "pgdir \<notin> set ps" "pgdir mod PGSIZE = 0"
  using assms by (simp_all add: vm_inv_def page_ok_def)

lemma vm_inv_tab:
  assumes "vm_inv M pgdir ps" "present (pde_at (km_mem M) pgdir va)"
  defines "t \<equiv> tab_of (pde_at (km_mem M) pgdir va)"
  shows "page_ok M t" "t \<notin> set ps" "t \<noteq> pgdir" "t mod PGSIZE = 0"
    "present (pde_at (km_mem M) pgdir va') \<Longrightarrow> PDX va' \<noteq> PDX va \<Longrightarrow> tab_of (pde_at (km_mem M) pgdir va') \<noteq> t"
proof -
  have s: "PDX va \<in> dir_slots (km_mem M) pgdir" using assms(2) index_less' by (simp add: dir_slots_def pde_at_def)
  then show "page_ok M t" "t \<notin> set ps" "t \<noteq> pgdir" using assms(1) by (auto simp: vm_inv_def Let_def t_def pde_at_def)
  then show "t mod PGSIZE = 0" by (simp add: page_ok_def)
  assume "present (pde_at (km_mem M) pgdir va')" "PDX va' \<noteq> PDX va"
  moreover have "inj_on (\<lambda>i. tab_of (load32 (pgdir + 4 * i) (km_mem M))) (dir_slots (km_mem M) pgdir)" using assms(1) by (simp add: vm_inv_def)
  ultimately show "tab_of (pde_at (km_mem M) pgdir va') \<noteq> t"
    using s index_less' by (auto simp: t_def pde_at_def dir_slots_def inj_on_def)
qed

lemma P2V_tab:
  assumes "page_ok M (tab_of e)"
  shows "P2V (PTE_ADDR e) = Inr (tab_of e)"
proof -
  have "PTE_ADDR e < PHYSTOP" using assms by (simp add: page_ok_def tab_of_def)
  then have "\<not> PTE_ADDR e > KERNBASE" using KERN_facts by (simp add: word_less_nat_alt)
  then show ?thesis by (simp add: P2V_def tab_of_def)
qed

text \<open>The three outcomes of \<open>walkpgdir\<close>.\<close>

lemma walk_present:
  assumes "vm_inv M pgdir ps" "present (pde_at (km_mem M) pgdir va)"
  shows "walkpgdir c pgdir va al M = Inr (tab_of (pde_at (km_mem M) pgdir va) + 4 * PTX va, M)"
  using P2V_tab [OF vm_inv_tab(1) [OF assms]] assms(2) by (simp add: walkpgdir_def word_at_def pde_at_def)

lemma walk_absent:
  assumes "\<not> present (pde_at (km_mem M) pgdir va)"
  shows "walkpgdir c pgdir va False M = Inr (0, M)"
  using assms by (simp add: walkpgdir_def word_at_def pde_at_def)

text \<open>A new, empty table: the entries stay as they are.\<close>

lemma new_table:
  assumes inv: "vm_inv M pgdir (p # qs)" and ab: "\<not> present (pde_at (km_mem M) pgdir va)"
    and e: "present e" "tab_of e = p"
  defines "m1 \<equiv> store32 (pgdir + 4 * PDX va) e (filled p 4096 0 (km_mem M))"
  shows "pde_at m1 pgdir va' = (if PDX va' = PDX va then e else pde_at (km_mem M) pgdir va')"
    "entry m1 pgdir va' = entry (km_mem M) pgdir va'"
    "\<And>i. i < 1024 \<Longrightarrow> load32 (pgdir + 4 * i) m1 = (if i = PDX va then e else load32 (pgdir + 4 * i) (km_mem M))"
    "same_but pgdir (filled p 4096 0 (km_mem M)) m1"
proof -
  let ?m = "filled p 4096 0 (km_mem M)"
  note V = vm_invD [OF inv]
  have p: "page_ok M p" "p mod PGSIZE = 0" "p \<noteq> pgdir" using V(1,3) by (auto simp: free_inv_def page_ok_def)
  have sp: "same_but p (km_mem M) ?m" by (simp add: same_but_def filled_def)
  show sd: "same_but pgdir ?m m1" unfolding m1_def by (rule same_but_store) (rule index_less')
  show slots: "load32 (pgdir + 4 * i) m1 = (if i = PDX va then e else load32 (pgdir + 4 * i) (km_mem M))" if "i < 1024" for i
    using load_slot [OF that index_less'(1) [of va], of pgdir e ?m] load_other_page [OF V(4) p(2) _ that sp] p(3) by (simp add: m1_def)
  then show pd: "pde_at m1 pgdir va' = (if PDX va' = PDX va then e else pde_at (km_mem M) pgdir va')" for va'
    using index_less' by (simp add: pde_at_def)
  show "entry m1 pgdir va' = entry (km_mem M) pgdir va'"
  proof (cases "PDX va' = PDX va")
    case True
    have "load32 (p + 4 * PTX va') m1 = load32 (p + 4 * PTX va') ?m" by (rule load_other_page [OF p(2) V(4) p(3) index_less'(2) sd])
    also have "\<dots> = 0"
    proof -
      have "unat (4 * PTX va' + k) < 4096" if "k < 4" for k
        using unat_slot [OF index_less'(2), of va'] index_less(2) [of va'] that by (simp add: word_less_nat_alt unat_word_ariths)
      then have "?m (p + 4 * PTX va' + k) = 0" if "k < 4" for k using that by (simp add: filled_def add.assoc)
      from this [of 0] this [of 1] this [of 2] this [of 3] show ?thesis by (simp add: load32_def)
    qed
    finally show ?thesis using True pd e ab by (simp add: entry_def pde_at_def)
  next
    case False
    show ?thesis
    proof (cases "present (pde_at (km_mem M) pgdir va')")
      case True
      note T = vm_inv_tab [OF inv True]
      have "p \<noteq> tab_of (pde_at (km_mem M) pgdir va')" using T(2) by auto
      then have "load32 (tab_of (pde_at (km_mem M) pgdir va') + 4 * PTX va') m1 = load32 (tab_of (pde_at (km_mem M) pgdir va') + 4 * PTX va') (km_mem M)"
        using load_other_page [OF T(4) V(4) T(3) index_less'(2) sd, of va'] load_other_page [OF T(4) p(2) _ index_less'(2) sp, of va'] by simp
      then show ?thesis using False True pd by (simp add: entry_def)
    next
      case absent: False
      then show ?thesis using False pd by (simp add: entry_def)
    qed
  qed
qed

section \<open>Steps on a page table\<close>

definition vm_pages :: "bmem \<Rightarrow> addr \<Rightarrow> addr set" where
  "vm_pages m pgdir = insert pgdir ((\<lambda>i. tab_of (load32 (pgdir + 4 * i) m)) ` dir_slots m pgdir)"

text \<open>
  The tables may have taken some pages from the front of the free list; memory outside the tables and the free
  pages is unchanged.
\<close>

definition grown :: "addr \<Rightarrow> 'z kmem_scheme \<Rightarrow> addr list \<Rightarrow> 'z kmem_scheme \<Rightarrow> addr list \<Rightarrow> bool" where
  "grown pgdir M ps M' qs \<longleftrightarrow> (\<exists>k. qs = drop k ps) \<and> set qs \<union> vm_pages (km_mem M') pgdir \<subseteq> set ps \<union> vm_pages (km_mem M) pgdir
     \<and> (\<forall>x. (\<forall>p \<in> set ps \<union> vm_pages (km_mem M) pgdir. 4096 \<le> unat (x - p)) \<longrightarrow> km_mem M' x = km_mem M x)
     \<and> km_end M' = km_end M \<and> km_data M' = km_data M"

lemma grown_trans: "grown pgdir M ps M' qs \<Longrightarrow> grown pgdir M' qs M'' rs \<Longrightarrow> grown pgdir M ps M'' rs"
  unfolding grown_def by (elim conjE exE, intro conjI) (auto simp: subset_iff, metis Un_iff)

lemma grown_refl: "grown pgdir M ps M ps"
  by (auto simp: grown_def intro: exI [of _ 0])

lemma free_inv_write:
  assumes "free_inv M ps" "same_but v (km_mem M) m" "v mod PGSIZE = 0" "v \<notin> set ps"
  shows "free_inv (set_mem m M) ps"
  using free_inv_same [OF assms] assms(1) by (simp add: free_inv_def set_mem_def page_ok_def)

lemma pde_flags:
  assumes "page_ok M p"
  shows "V2P p = Inr (p - KERNBASE)" "present (p - KERNBASE OR PTE_P OR PTE_W OR PTE_U)" "tab_of (p - KERNBASE OR PTE_P OR PTE_W OR PTE_U) = p"
proof -
  show "V2P p = Inr (p - KERNBASE)" using assms by (simp add: V2P_def page_ok_def not_less)
  show "present (p - KERNBASE OR PTE_P OR PTE_W OR PTE_U)" by (simp add: present_or)
  have "unat (p - KERNBASE) = unat p - unat KERNBASE" using assms by (intro unat_sub) (simp add: page_ok_def)
  moreover have "unat p mod 4096 = 0" using assms unat_mod [of p PGSIZE] by (simp add: page_ok_def PGSIZE_def)
  moreover have "unat KERNBASE \<le> unat p" using assms by (simp add: page_ok_def word_le_nat_alt)
  ultimately have "unat (p - KERNBASE) mod 4096 = 0" using KERN_facts(1) by (simp add: mod_eq_0_iff_dvd dvd_diff_nat)
  then have "(p - KERNBASE) mod PGSIZE = 0" using unat_mod [of "p - KERNBASE" PGSIZE] by (simp add: PGSIZE_def word_unat_eq_iff)
  moreover have "(PTE_P OR PTE_W OR PTE_U) AND NOT 0xFFF = 0" by (simp add: PTE_P_def PTE_W_def PTE_U_def)
  ultimately have "PTE_ADDR (p - KERNBASE OR (PTE_P OR PTE_W OR PTE_U)) = p - KERNBASE" by (rule PTE_ADDR_flags)
  then show "tab_of (p - KERNBASE OR PTE_P OR PTE_W OR PTE_U) = p" by (simp add: tab_of_def or.assoc)
qed

lemma walk_new:
  assumes ctx: "mctx c M" and inv: "vm_inv M pgdir (p # qs)" and ab: "\<not> present (pde_at (km_mem M) pgdir va)"
  shows "\<exists>M'. walkpgdir c pgdir va True M = Inr (p + 4 * PTX va, M') \<and> mctx c M' \<and> vm_inv M' pgdir qs
    \<and> present (pde_at (km_mem M') pgdir va) \<and> tab_of (pde_at (km_mem M') pgdir va) = p
    \<and> (\<forall>va'. entry (km_mem M') pgdir va' = entry (km_mem M) pgdir va') \<and> grown pgdir M (p # qs) M' qs"
proof -
  let ?e = "p - KERNBASE OR PTE_P OR PTE_W OR PTE_U" and ?m = "filled p 4096 0 (km_mem M)"
  let ?m1 = "store32 (pgdir + 4 * PDX va) ?e ?m"
  note V = vm_invD [OF inv]
  have p: "page_ok M p" "p mod PGSIZE = 0" "p \<noteq> pgdir" "p \<notin> set qs" using V(1,3) by (auto simp: free_inv_def page_ok_def)
  note F = pde_flags [OF p(1)] and N = new_table [OF inv ab pde_flags(2,3) [OF p(1)]]
  obtain M1 where M1: "kalloc c M = Inr (p, M1)" "mctx c M1" "free_inv M1 qs" "core M1 = (core M)\<lparr>km_freelist := km_freelist M1\<rparr>"
    using kalloc_free [OF ctx V(1)] by auto
  have f: "km_mem M1 = km_mem M" "km_end M1 = km_end M" "km_data M1 = km_data M"
    using arg_cong [OF M1(4), of km_mem] arg_cong [OF M1(4), of km_end] arg_cong [OF M1(4), of km_data] by simp_all
  define M' where "M' = put_word (pgdir + 4 * PDX va) ?e (clear_page p M1)"
  have m: "memset p 0 PGSIZE (km_mem M1) = ?m" by (simp add: memset_filled PGSIZE_def f)
  have M': "km_mem M' = ?m1" "km_end M' = km_end M" "km_data M' = km_data M" "M' = set_mem ?m1 (set_mem ?m M1)"
    using f m by (simp_all add: M'_def put_word_def clear_page_def set_mem_def)
  have "same_but p (km_mem M1) ?m" by (simp add: same_but_def filled_def f)
  then have "free_inv (set_mem ?m M1) qs" by (rule free_inv_write [OF M1(3) _ p(2,4)])
  then have "free_inv M' qs"
    using free_inv_write [of "set_mem ?m M1" qs pgdir ?m1] N(4) V(3,4) by (simp add: M'(4) set_mem_def)
  moreover have slots: "dir_slots ?m1 pgdir = insert (PDX va) (dir_slots (km_mem M) pgdir)"
    using N(3) F(2) index_less'(1) [of va] by (auto simp: dir_slots_def)
  moreover have notin: "PDX va \<notin> dir_slots (km_mem M) pgdir" using ab by (simp add: dir_slots_def pde_at_def)
  have tabs: "tab_of (load32 (pgdir + 4 * i) ?m1) = (if i = PDX va then p else tab_of (load32 (pgdir + 4 * i) (km_mem M)))" if "i < 1024" for i
    using N(3) [OF that] F(3) by simp
  have old: "tab_of (load32 (pgdir + 4 * i) (km_mem M)) \<notin> set (p # qs) \<and> tab_of (load32 (pgdir + 4 * i) (km_mem M)) \<noteq> pgdir
      \<and> page_ok M (tab_of (load32 (pgdir + 4 * i) (km_mem M)))" if "i \<in> dir_slots (km_mem M) pgdir" for i
    using inv that by (simp add: vm_inv_def Let_def)
  have lt: "i < 1024" if "i \<in> dir_slots (km_mem M) pgdir" for i using that by (simp add: dir_slots_def)
  have img: "(\<lambda>i. tab_of (load32 (pgdir + 4 * i) ?m1)) ` dir_slots ?m1 pgdir = insert p ((\<lambda>i. tab_of (load32 (pgdir + 4 * i) (km_mem M))) ` dir_slots (km_mem M) pgdir)"
    unfolding slots using tabs lt notin index_less'(1) [of va] by (auto simp: image_iff)
  have "inj_on (\<lambda>i. tab_of (load32 (pgdir + 4 * i) (km_mem M))) (dir_slots (km_mem M) pgdir)" using inv by (simp add: vm_inv_def)
  then have "inj_on (\<lambda>i. tab_of (load32 (pgdir + 4 * i) ?m1)) (dir_slots ?m1 pgdir)"
    unfolding slots using tabs lt old notin index_less'(1) [of va] by (auto simp: inj_on_def) (metis list.set_intros(1))+
  moreover have ok: "page_ok M' v = page_ok M v" for v by (simp add: page_ok_def M'(2))
  moreover have "page_ok M t \<and> t \<notin> set qs \<and> t \<noteq> pgdir"
    if "t \<in> (\<lambda>i. tab_of (load32 (pgdir + 4 * i) ?m1)) ` dir_slots ?m1 pgdir" for t
    using that old p unfolding img by auto
  ultimately have "vm_inv M' pgdir qs"
    using V(2,3) unfolding vm_inv_def M'(1) ok Let_def by (simp add: M'(1))
  moreover have "?m1 x = km_mem M x" if "4096 \<le> unat (x - p)" "4096 \<le> unat (x - pgdir)" for x
    using N(4) that by (auto simp: same_but_def filled_def)
  then have "grown pgdir M (p # qs) M' qs"
    unfolding grown_def vm_pages_def M'(1,2,3) img by (auto intro: exI [of _ 1])
  moreover have "walkpgdir c pgdir va True M = Inr (p + 4 * PTX va, M')"
    using ab M1(1) F(1) page_ok_nonzero [OF p(1)] by (simp add: walkpgdir_def word_at_def pde_at_def M'_def)
  moreover have "mctx c M'" using M1(2) by (simp add: M'_def put_word_def clear_page_def set_mem_def)
  ultimately show ?thesis using N(1) [of va] N(2) F M'(1) by auto
qed

lemma slot_nonzero:
  assumes "page_ok M t" "i < 1024"
  shows "t + 4 * i \<noteq> 0"
proof
  assume z: "t + 4 * i = 0"
  have "unat (4 * i) < 4096" using unat_slot [OF assms(2)] assms(2) by (simp add: word_less_nat_alt)
  moreover have "unat t < 2 ^ 31 + 0xE000000" "unat t \<ge> 2 ^ 31"
    using assms(1) KERN_facts unat_sub [of KERNBASE t] by (auto simp: page_ok_def word_less_nat_alt word_le_nat_alt)
  ultimately show False using unat_word_ariths(1) [of t "4 * i"] z by simp
qed

lemma walk_full:
  assumes ctx: "mctx c M" and inv: "vm_inv M pgdir []" and ab: "\<not> present (pde_at (km_mem M) pgdir va)"
  shows "\<exists>M'. walkpgdir c pgdir va True M = Inr (0, M') \<and> mctx c M' \<and> vm_inv M' pgdir [] \<and> km_mem M' = km_mem M \<and> grown pgdir M [] M' []"
proof -
  obtain M1 where M1: "kalloc c M = Inr (0, M1)" "mctx c M1" "free_inv M1 []" "core M1 = (core M)\<lparr>km_freelist := km_freelist M1\<rparr>"
    using kalloc_free [OF ctx vm_invD(1) [OF inv]] by auto
  have f: "km_mem M1 = km_mem M" "km_end M1 = km_end M" "km_data M1 = km_data M"
    using arg_cong [OF M1(4), of km_mem] arg_cong [OF M1(4), of km_end] arg_cong [OF M1(4), of km_data] by simp_all
  have "walkpgdir c pgdir va True M = Inr (0, M1)" using ab M1(1) by (simp add: walkpgdir_def word_at_def pde_at_def)
  moreover have "vm_inv M1 pgdir []" using inv M1(3) by (simp add: vm_inv_def f page_ok_def)
  moreover have "grown pgdir M [] M1 []" by (simp add: grown_def f)
  ultimately show ?thesis using M1(2) f(1) by auto
qed

text \<open>With \<open>alloc\<close>, \<open>walkpgdir\<close> gives the slot of the entry unless the free list is empty.\<close>

lemma walk_alloc:
  assumes ctx: "mctx c M" and inv: "vm_inv M pgdir ps"
  shows "\<exists>M' qs pte. walkpgdir c pgdir va True M = Inr (pte, M') \<and> mctx c M' \<and> vm_inv M' pgdir qs \<and> grown pgdir M ps M' qs
    \<and> (\<forall>va'. entry (km_mem M') pgdir va' = entry (km_mem M) pgdir va')
    \<and> (if pte = 0 then qs = [] else present (pde_at (km_mem M') pgdir va) \<and> pte = tab_of (pde_at (km_mem M') pgdir va) + 4 * PTX va)"
proof (cases "present (pde_at (km_mem M) pgdir va)")
  case True
  have "tab_of (pde_at (km_mem M) pgdir va) + 4 * PTX va \<noteq> 0"
    using slot_nonzero [OF vm_inv_tab(1) [OF inv True] index_less'(2)] .
  then show ?thesis using walk_present [OF inv True, of c True] True ctx inv grown_refl by fastforce
next
  case ab: False
  show ?thesis
  proof (cases ps)
    case Nil
    then show ?thesis using walk_full [OF ctx _ ab] inv by (fastforce simp: entry_def pde_at_def)
  next
    case (Cons p qs)
    obtain M' where M': "walkpgdir c pgdir va True M = Inr (p + 4 * PTX va, M')" "mctx c M'" "vm_inv M' pgdir qs"
      "present (pde_at (km_mem M') pgdir va)" "tab_of (pde_at (km_mem M') pgdir va) = p"
      "\<forall>va'. entry (km_mem M') pgdir va' = entry (km_mem M) pgdir va'" "grown pgdir M (p # qs) M' qs"
      using walk_new [OF ctx inv [unfolded Cons] ab] by blast
    moreover have "p + 4 * PTX va \<noteq> 0"
      using slot_nonzero [OF vm_inv_tab(1) [OF M'(3,4)] index_less'(2), of va] M'(5) by simp
    ultimately show ?thesis unfolding Cons by (intro exI [of _ M'] exI [of _ qs] exI [of _ "p + 4 * PTX va"]) simp
  qed
qed

lemma put_pte:
  fixes e va' :: addr
  assumes inv: "vm_inv M pgdir ps" and pr: "present (pde_at (km_mem M) pgdir va)"
  defines "M' \<equiv> put_word (tab_of (pde_at (km_mem M) pgdir va) + 4 * PTX va) e M"
  shows "vm_inv M' pgdir ps" "grown pgdir M ps M' ps"
    "entry (km_mem M') pgdir va' = (if va' div PGSIZE = va div PGSIZE then e else entry (km_mem M) pgdir va')"
proof -
  let ?t = "tab_of (pde_at (km_mem M) pgdir va)"
  let ?m = "store32 (?t + 4 * PTX va) e (km_mem M)"
  note T = vm_inv_tab [OF inv pr] and V = vm_invD [OF inv]
  have M': "M' = set_mem ?m M" "km_mem M' = ?m" "km_end M' = km_end M" "km_data M' = km_data M"
    by (simp_all add: M'_def put_word_def set_mem_def)
  have same: "same_but ?t (km_mem M) ?m" using same_but_store [OF index_less'(2)] .
  have dir: "load32 (pgdir + 4 * i) ?m = load32 (pgdir + 4 * i) (km_mem M)" if "i < 1024" for i
    using load_other_page [OF V(4) T(4) _ that same] T(3) by simp
  have slots: "dir_slots ?m pgdir = dir_slots (km_mem M) pgdir" using dir by (auto simp: dir_slots_def)
  have img: "tab_of (load32 (pgdir + 4 * i) ?m) = tab_of (load32 (pgdir + 4 * i) (km_mem M))" if "i \<in> dir_slots (km_mem M) pgdir" for i
    using that dir [of i] by (simp add: dir_slots_def)
  have "inj_on (\<lambda>i. tab_of (load32 (pgdir + 4 * i) ?m)) (dir_slots (km_mem M) pgdir)
      = inj_on (\<lambda>i. tab_of (load32 (pgdir + 4 * i) (km_mem M))) (dir_slots (km_mem M) pgdir)" using img by (intro inj_on_cong) simp
  moreover have "free_inv M' ps" unfolding M'(1) using free_inv_write [OF V(1) same T(4,2)] .
  ultimately show "vm_inv M' pgdir ps" using inv img by (simp add: vm_inv_def M'(2,3) slots page_ok_def Let_def)
  have "?t \<in> vm_pages (km_mem M) pgdir"
    using pr index_less'(1) [of va] by (auto simp: vm_pages_def dir_slots_def pde_at_def)
  moreover have "vm_pages ?m pgdir = vm_pages (km_mem M) pgdir" using img by (simp add: vm_pages_def slots)
  ultimately show "grown pgdir M ps M' ps" using same by (auto simp: grown_def M'(2,3,4) same_but_def intro: exI [of _ 0])
  have pde: "pde_at ?m pgdir va' = pde_at (km_mem M) pgdir va'" using dir [OF index_less'(1)] by (simp add: pde_at_def)
  show "entry (km_mem M') pgdir va' = (if va' div PGSIZE = va div PGSIZE then e else entry (km_mem M) pgdir va')"
  proof (cases "PDX va' = PDX va")
    case True
    then have "pde_at (km_mem M) pgdir va' = pde_at (km_mem M) pgdir va" by (simp add: pde_at_def)
    then show ?thesis using True pr pde load_slot [OF index_less'(2) index_less'(2), of ?t va' va e "km_mem M"] same_page_iff [of va' va]
      by (simp add: entry_def M'(2))
  next
    case False
    have "load32 (tab_of (pde_at (km_mem M) pgdir va') + 4 * PTX va') ?m = load32 (tab_of (pde_at (km_mem M) pgdir va') + 4 * PTX va') (km_mem M)"
      if p': "present (pde_at (km_mem M) pgdir va')"
      using load_other_page [OF vm_inv_tab(4) [OF inv p'] T(4) T(5) [OF p' False] index_less'(2) same] .
    then show ?thesis using False same_page_iff [of va' va] pde by (simp add: entry_def M'(2))
  qed
qed

section \<open>Mapping a range\<close>

lemma page_unat: "a mod PGSIZE = 0 \<Longrightarrow> unat a = 4096 * (unat a div 4096)"
proof -
  assume "a mod PGSIZE = 0"
  then have "unat a mod 4096 = 0" using unat_mod [of a PGSIZE] by (simp add: PGSIZE_def)
  then show ?thesis using mult_div_mod_eq [of 4096 "unat a"] by simp
qed

lemma same_page_off:
  assumes "a mod PGSIZE = 0"
  shows "b div PGSIZE = a div PGSIZE \<longleftrightarrow> unat (b - a) < 4096"
proof -
  have div: "b div PGSIZE = a div PGSIZE \<longleftrightarrow> unat b div 4096 = unat a div 4096"
    using unat_div [of b PGSIZE] unat_div [of a PGSIZE] by (simp add: word_unat_eq_iff PGSIZE_def)
  have a: "unat a = 4096 * (unat a div 4096)" using page_unat [OF assms] .
  have lt: "unat a div 4096 < 1048576" using unat_max [of a] by simp
  show ?thesis
  proof (cases "a \<le> b")
    case True
    have d: "unat (b - a) = unat b - unat a" using unat_sub [OF True] .
    have "unat a \<le> unat b" using True by (simp add: word_le_nat_alt)
    then show ?thesis unfolding div d using a by (auto simp: div_nat_eqI)
  next
    case False
    then have l: "unat b < unat a" by (simp add: word_le_nat_alt)
    have "unat b div 4096 \<noteq> unat a div 4096" using l a by (metis div_times_less_eq_dividend mult.commute not_le)
    moreover have "unat (b - a) = 2 ^ 32 + unat b - unat a" using l unat_sub_if' [of b a] by simp
    moreover have "unat a + 4096 \<le> 2 ^ 32" using a lt by simp
    ultimately show ?thesis unfolding div by simp
  qed
qed

lemma next_off: "4096 \<le> unat x \<Longrightarrow> unat (x - PGSIZE) = unat x - 4096"
  by (subst unat_sub) (simp_all add: PGSIZE_def word_le_nat_alt)

lemma before_off: "unat x < 4096 \<Longrightarrow> unat (x - PGSIZE) = 2 ^ 32 - 4096 + unat x"
  using unat_sub_if' [of x PGSIZE] by (simp add: PGSIZE_def)

lemma round_off:
  assumes "4096 \<le> unat x"
  shows "PGSIZE + (x - PGSIZE) div PGSIZE * PGSIZE = x div PGSIZE * PGSIZE"
proof -
  have "unat ((x - PGSIZE) div PGSIZE * PGSIZE) = unat x div 4096 * 4096 - 4096"
    using next_off [OF assms] by (simp add: unat_page_mask le_div_geq assms)
  moreover have "4096 \<le> unat x div 4096 * 4096" using assms by (simp add: le_div_geq)
  moreover have "unat x div 4096 * 4096 \<le> unat x" by simp
  ultimately have "unat (PGSIZE + (x - PGSIZE) div PGSIZE * PGSIZE) = unat x div 4096 * 4096"
    using unat_word_ariths(1) [of PGSIZE "(x - PGSIZE) div PGSIZE * PGSIZE"] unat_max [of x] by (simp add: PGSIZE_def)
  then show ?thesis by (simp add: word_unat_eq_iff unat_page_mask)
qed

definition map_end :: "addr \<Rightarrow> addr \<Rightarrow> nat \<Rightarrow> 32 word \<Rightarrow> 32 word \<Rightarrow> 'z kmem_scheme \<Rightarrow> addr list \<Rightarrow> int \<Rightarrow> 'z kmem_scheme \<Rightarrow> addr list \<Rightarrow> bool" where
  "map_end pgdir a len pa perm M ps r M' qs \<longleftrightarrow> vm_inv M' pgdir qs \<and> grown pgdir M ps M' qs
     \<and> (\<forall>va. len \<le> unat (va - a) \<longrightarrow> entry (km_mem M') pgdir va = entry (km_mem M) pgdir va)
     \<and> (r = 0 \<and> (\<forall>va. unat (va - a) < len \<longrightarrow> entry (km_mem M') pgdir va = pa + (va - a) div PGSIZE * PGSIZE OR perm OR PTE_P)
        \<or> r = -1 \<and> qs = [])"

lemma map_end_step:
  assumes a: "a mod PGSIZE = 0" and g: "grown pgdir M ps M2 rs"
    and e: "\<And>va. entry (km_mem M2) pgdir va = (if va div PGSIZE = a div PGSIZE then pa OR perm OR PTE_P else entry (km_mem M) pgdir va)"
    and m: "map_end pgdir (a + PGSIZE) (4096 * n) (pa + PGSIZE) perm M2 rs r M' qs" and n: "4096 * n + 4096 \<le> 2 ^ 32"
  shows "map_end pgdir a (4096 + 4096 * n) pa perm M ps r M' qs"
proof -
  have far: "entry (km_mem M') pgdir va = entry (km_mem M) pgdir va" if "4096 + 4096 * n \<le> unat (va - a)" for va
  proof -
    have "unat (va - (a + PGSIZE)) = unat (va - a) - 4096" using that next_off [of "va - a"] by (simp add: algebra_simps)
    then show ?thesis using that m e [of va] same_page_off [OF a, of va] by (simp add: map_end_def)
  qed
  have near: "entry (km_mem M') pgdir va = pa + (va - a) div PGSIZE * PGSIZE OR perm OR PTE_P"
    if r: "r = 0" and l: "unat (va - a) < 4096 + 4096 * n" for va
  proof (cases "unat (va - a) < 4096")
    case True
    have "(va - a) div PGSIZE = 0" using True unat_div [of "va - a" PGSIZE] by (simp add: word_unat_eq_iff PGSIZE_def)
    moreover have "unat (va - (a + PGSIZE)) = 2 ^ 32 - 4096 + unat (va - a)"
      using before_off [OF True] by (simp only: diff_diff_eq)
    moreover have "4096 * n \<le> 2 ^ 32 - 4096" using n by simp
    ultimately show ?thesis using m e [of va] same_page_off [OF a, of va] True by (simp add: map_end_def)
  next
    case False
    have o: "unat (va - (a + PGSIZE)) = unat (va - a) - 4096" using False next_off [of "va - a"] by (simp add: algebra_simps)
    then have "unat (va - (a + PGSIZE)) < 4096 * n" using l False by simp
    then have "entry (km_mem M') pgdir va = pa + PGSIZE + (va - (a + PGSIZE)) div PGSIZE * PGSIZE OR perm OR PTE_P"
      using m r by (simp add: map_end_def)
    moreover have "pa + PGSIZE + (va - (a + PGSIZE)) div PGSIZE * PGSIZE = pa + (va - a) div PGSIZE * PGSIZE"
      using round_off [of "va - a"] False by (simp add: diff_diff_eq [symmetric] add.assoc)
    ultimately show ?thesis by simp
  qed
  show ?thesis using m grown_trans [OF g] far near by (auto simp: map_end_def)
qed

lemma map_end_last:
  assumes a: "a mod PGSIZE = 0" and g: "grown pgdir M ps M' qs" "vm_inv M' pgdir qs"
    and e: "\<And>va. entry (km_mem M') pgdir va = (if va div PGSIZE = a div PGSIZE then pa OR perm OR PTE_P else entry (km_mem M) pgdir va)"
  shows "map_end pgdir a 4096 pa perm M ps 0 M' qs"
proof -
  have "(va - a) div PGSIZE = 0" if "unat (va - a) < 4096" for va
    using that unat_div [of "va - a" PGSIZE] by (simp add: word_unat_eq_iff PGSIZE_def)
  then show ?thesis using g e same_page_off [OF a] by (auto simp: map_end_def)
qed

lemma page_add: "x mod PGSIZE = 0 \<Longrightarrow> (x + PGSIZE) mod PGSIZE = 0"
proof -
  assume "x mod PGSIZE = 0"
  then have "unat x mod 4096 = 0" using unat_mod [of x PGSIZE] by (simp add: PGSIZE_def)
  then have "(unat x + 4096) mod 2 ^ 32 mod 4096 = 0" using mod_mod_cancel [of 4096 "2 ^ 32" "unat x + 4096"] by simp
  then show ?thesis using unat_mod [of "x + PGSIZE" PGSIZE] unat_word_ariths(1) [of x PGSIZE] by (simp add: PGSIZE_def word_unat_eq_iff)
qed

lemma lst_differs:
  assumes "0 < n" "4096 * n < 2 ^ 32"
  shows "a \<noteq> a + PGSIZE * of_nat n"
proof -
  have "unat (PGSIZE * of_nat n) = 4096 * n" using assms by (simp add: unat_word_ariths PGSIZE_def unat_of_nat)
  then show ?thesis using assms(1) by auto
qed

text \<open>One round of the loop: no page for a table, or the entry is written.\<close>

lemma map_one:
  assumes ctx: "mctx c M" and inv: "vm_inv M pgdir ps" and un: "\<not> present (entry (km_mem M) pgdir a)"
  shows "(\<exists>M1. walkpgdir c pgdir a True M = Inr (0, M1) \<and> mctx c M1 \<and> map_end pgdir a len pa perm M ps (-1) M1 [])
    \<or> (\<exists>pte M1 qs. walkpgdir c pgdir a True M = Inr (pte, M1) \<and> pte \<noteq> 0 \<and> \<not> present (word_at pte M1)
        \<and> mctx c (put_word pte (pa OR perm OR PTE_P) M1) \<and> vm_inv (put_word pte (pa OR perm OR PTE_P) M1) pgdir qs
        \<and> grown pgdir M ps (put_word pte (pa OR perm OR PTE_P) M1) qs
        \<and> (\<forall>va. entry (km_mem (put_word pte (pa OR perm OR PTE_P) M1)) pgdir va
               = (if va div PGSIZE = a div PGSIZE then pa OR perm OR PTE_P else entry (km_mem M) pgdir va)))"
proof -
  obtain M1 qs pte where W: "walkpgdir c pgdir a True M = Inr (pte, M1)" "mctx c M1" "vm_inv M1 pgdir qs" "grown pgdir M ps M1 qs"
    "\<And>va. entry (km_mem M1) pgdir va = entry (km_mem M) pgdir va"
    "if pte = 0 then qs = [] else present (pde_at (km_mem M1) pgdir a) \<and> pte = tab_of (pde_at (km_mem M1) pgdir a) + 4 * PTX a"
    using walk_alloc [OF ctx inv] by blast
  show ?thesis
  proof (cases "pte = 0")
    case True
    then show ?thesis using W by (intro disjI1 exI [of _ M1]) (simp add: map_end_def)
  next
    case False
    then have pr: "present (pde_at (km_mem M1) pgdir a)" and pte: "pte = tab_of (pde_at (km_mem M1) pgdir a) + 4 * PTX a" using W(6) by auto
    note P = put_pte [OF W(3) pr, of "pa OR perm OR PTE_P", folded pte]
    have "\<not> present (word_at pte M1)" using un W(5) [of a] pr pte by (simp add: entry_def word_at_def)
    moreover have "mctx c (put_word pte (pa OR perm OR PTE_P) M1)" using W(2) by (simp add: put_word_def set_mem_def)
    ultimately show ?thesis using W(1) False P(1,3) W(5) grown_trans [OF W(4) P(2)] by (intro disjI2 exI [of _ pte] exI [of _ M1] exI [of _ qs]) simp
  qed
qed

lemma mappages_loop_maps:
  fixes M :: "'z kmem_scheme"
  assumes "mctx c M" "vm_inv M pgdir ps" "a mod PGSIZE = 0" "4096 * n + 4096 \<le> 2 ^ 32" "lst = a + PGSIZE * of_nat n"
    and "\<And>va. unat (va - a) < 4096 + 4096 * n \<Longrightarrow> \<not> present (entry (km_mem M) pgdir va)"
  shows "\<exists>r M' qs. mappages_loop (Suc n) c pgdir a lst pa perm M = Inr (r, M') \<and> mctx c M'
    \<and> map_end pgdir a (4096 + 4096 * n) pa perm M ps r M' qs"
  using assms
proof (induction n arbitrary: a pa M ps)
  case (0 a pa M)
  have un: "\<not> present (entry (km_mem M) pgdir a)" using 0(6) [of a] by simp
  from map_one [OF 0(1,2) un, of 4096 pa perm] show ?case
    using 0(5) map_end_last [OF 0(3)] by (elim disjE exE conjE) (fastforce simp: Let_def)+
next
  case (Suc n)
  have un: "\<not> present (entry (km_mem M) pgdir a)" using Suc.prems(6) [of a] by simp
  from map_one [OF Suc.prems(1,2) un, of "4096 + 4096 * Suc n" pa perm] show ?case
  proof (elim disjE exE conjE)
    fix pte qs and M1 :: "'z kmem_scheme"
    define M2 where "M2 = put_word pte (pa OR perm OR PTE_P) M1"
    assume "walkpgdir c pgdir a True M = Inr (pte, M1)" "pte \<noteq> 0" "\<not> present (word_at pte M1)"
      and "mctx c (put_word pte (pa OR perm OR PTE_P) M1)" "vm_inv (put_word pte (pa OR perm OR PTE_P) M1) pgdir qs"
        "grown pgdir M ps (put_word pte (pa OR perm OR PTE_P) M1) qs"
        "\<forall>va. entry (km_mem (put_word pte (pa OR perm OR PTE_P) M1)) pgdir va
           = (if va div PGSIZE = a div PGSIZE then pa OR perm OR PTE_P else entry (km_mem M) pgdir va)"
    note W = this [folded M2_def]
    have e: "entry (km_mem M2) pgdir va = (if va div PGSIZE = a div PGSIZE then pa OR perm OR PTE_P else entry (km_mem M) pgdir va)" for va
      using W(7) by simp
    have n: "4096 * n + 4096 \<le> 2 ^ 32" using Suc.prems(4) by simp
    have un: "\<not> present (entry (km_mem M2) pgdir va)" if "unat (va - (a + PGSIZE)) < 4096 + 4096 * n" for va
    proof -
      have n: "4096 + 4096 * n \<le> 2 ^ 32 - 4096" using Suc.prems(4) by simp
      then have far: "4096 \<le> unat (va - a)" using that before_off [of "va - a"] by (cases "unat (va - a) < 4096") (simp_all add: diff_diff_eq)
      then show ?thesis using that next_off [OF far] Suc.prems(6) [of va] e [of va] same_page_off [OF Suc.prems(3), of va] by (simp add: diff_diff_eq)
    qed
    have lst: "lst = (a + PGSIZE) + PGSIZE * of_nat n" using Suc.prems(5) by (simp add: algebra_simps)
    obtain r M' rs where R: "mappages_loop (Suc n) c pgdir (a + PGSIZE) lst (pa + PGSIZE) perm M2 = Inr (r, M')" "mctx c M'"
      "map_end pgdir (a + PGSIZE) (4096 + 4096 * n) (pa + PGSIZE) perm M2 qs r M' rs"
      using Suc.IH [OF W(4,5) page_add [OF Suc.prems(3)] n lst un] by blast
    have "a \<noteq> lst" using lst_differs [of "Suc n" a] Suc.prems(4,5) by simp
    then have "mappages_loop (Suc (Suc n)) c pgdir a lst pa perm M = Inr (r, M')"
      using W(1-3) R(1) M2_def by (simp add: Let_def)
    moreover have "map_end pgdir a (4096 + 4096 * Suc n) pa perm M ps r M' rs"
      using map_end_step [OF Suc.prems(3) W(6) e, of "Suc n" r M' rs] R(3) Suc.prems(4) by simp
    ultimately show ?thesis using R(2) by auto
  qed auto
qed

lemma mappages_pages:
  fixes va sz :: addr
  defines "a \<equiv> PGROUNDDOWN va" and "lst \<equiv> PGROUNDDOWN (va + sz - 1)"
  defines "n \<equiv> unat ((lst - a) div PGSIZE)"
  shows "a mod PGSIZE = 0" "4096 * n + 4096 \<le> 2 ^ 32" "lst = a + PGSIZE * of_nat n" "4096 * n = unat (lst - a)"
proof -
  have al: "a mod PGSIZE = 0" "lst mod PGSIZE = 0" by (simp_all add: a_def lst_def PGROUNDDOWN_def page_mask page_aligned)
  show "a mod PGSIZE = 0" by (rule al)
  have n: "n = unat (lst - a) div 4096" using unat_div [of "lst - a" PGSIZE] by (simp add: n_def PGSIZE_def)
  have "4096 dvd unat a" "4096 dvd unat lst" using page_unat [OF al(1)] page_unat [OF al(2)] by (metis dvd_triv_left)+
  then have "4096 dvd unat (lst - a)" by (simp add: unat_sub_if' dvd_diff_nat dvd_add)
  then show e: "4096 * n = unat (lst - a)" by (simp add: n)
  have "unat (lst - a) < 4096 * 1048576" using unat_max [of "lst - a"] by simp
  then have "n < 1048576" by (simp add: e [symmetric])
  then show "4096 * n + 4096 \<le> 2 ^ 32" by simp
  have "unat (PGSIZE * of_nat n) = 4096 * n" using e unat_max [of "lst - a"] by (simp add: unat_word_ariths PGSIZE_def unat_of_nat)
  then have "PGSIZE * of_nat n = lst - a" using e by (simp add: word_unat_eq_iff)
  then show "lst = a + PGSIZE * of_nat n" by simp
qed

text \<open>
  C39. \<open>mappages\<close> on a well-formed page table whose range is unmapped returns: 0, and then the page of every address in the range leads to the page of
  physical memory at the same distance from \<open>pa\<close>, with the permissions asked for, or -1, and then the free list ran empty. In both cases the entries outside
  the range are as before, the table is well formed, its new pages come from the front of the free list, and no memory
  outside the table and the free pages has changed. When the first page is mapped already, it panics.
\<close>

theorem mappages_maps:
  fixes va sz :: addr and M :: "'z kmem_scheme"
  assumes "mctx c M" "vm_inv M pgdir ps"
  defines "a \<equiv> PGROUNDDOWN va" and "len \<equiv> unat (PGROUNDDOWN (va + sz - 1) - PGROUNDDOWN va) + 4096"
  shows "((\<forall>va'. unat (va' - a) < len \<longrightarrow> \<not> present (entry (km_mem M) pgdir va')) \<longrightarrow>
      (\<exists>r M' qs. mappages c pgdir va sz pa perm M = Inr (r, M') \<and> mctx c M' \<and> vm_inv M' pgdir qs \<and> grown pgdir M ps M' qs
        \<and> (\<forall>va'. len \<le> unat (va' - a) \<longrightarrow> entry (km_mem M') pgdir va' = entry (km_mem M) pgdir va')
        \<and> (r = 0 \<and> (\<forall>va'. unat (va' - a) < len \<longrightarrow> entry (km_mem M') pgdir va' = pa + (va' - a) div PGSIZE * PGSIZE OR perm OR PTE_P)
           \<or> r = -1 \<and> qs = [])))
    \<and> (present (entry (km_mem M) pgdir a) \<longrightarrow> mappages c pgdir va sz pa perm M = panic ''remap'')"
proof (intro conjI)
  note P = mappages_pages(1) [of va] mappages_pages(2-4) [where va = va and sz = sz]
  have len: "len = 4096 + 4096 * unat ((PGROUNDDOWN (va + sz - 1) - PGROUNDDOWN va) div PGSIZE)" using P(4) by (simp add: len_def)
  show "(\<forall>va'. unat (va' - a) < len \<longrightarrow> \<not> present (entry (km_mem M) pgdir va')) \<longrightarrow>
      (\<exists>r M' qs. mappages c pgdir va sz pa perm M = Inr (r, M') \<and> mctx c M' \<and> vm_inv M' pgdir qs \<and> grown pgdir M ps M' qs
        \<and> (\<forall>va'. len \<le> unat (va' - a) \<longrightarrow> entry (km_mem M') pgdir va' = entry (km_mem M) pgdir va')
        \<and> (r = 0 \<and> (\<forall>va'. unat (va' - a) < len \<longrightarrow> entry (km_mem M') pgdir va' = pa + (va' - a) div PGSIZE * PGSIZE OR perm OR PTE_P)
           \<or> r = -1 \<and> qs = []))"
    using mappages_loop_maps [OF assms(1,2) P(1-3), of pa perm, folded len a_def]
    unfolding mappages_def Let_def map_end_def a_def [symmetric] by fastforce
  show "present (entry (km_mem M) pgdir a) \<longrightarrow> mappages c pgdir va sz pa perm M = panic ''remap''"
    using walk_present [OF assms(2), of a c True] slot_nonzero [OF vm_inv_tab(1) [OF assms(2)] index_less'(2), of a a]
    by (auto simp: entry_def mappages_def a_def word_at_def present_0 split: if_splits)
qed

definition demo_vm :: kmem where
  "demo_vm = demo_kmem\<lparr>km_freelist := 0x80200000\<rparr>"

lemma demo_vm_inv: "vm_inv demo_vm 0x80300000 [0x80200000]"
  by (simp add: vm_inv_def free_inv_def demo_vm_def demo_kmem_def page_ok_def PGSIZE_def layout_defs dir_slots_def load32_def present_0)

theorem mappages_maps_witness:
  "\<exists>r M' qs. mappages 0 0x80300000 0x1000 0x2000 0x400000 PTE_W demo_vm = Inr (r, M') \<and> (r = 0 \<or> qs = []) \<and> vm_inv M' 0x80300000 qs"
proof -
  have "mctx 0 demo_vm" using demo_kmem_mctx by (simp add: demo_vm_def)
  moreover have "entry (km_mem demo_vm) 0x80300000 va = 0" for va
    by (simp add: entry_def pde_at_def demo_vm_def demo_kmem_def load32_def present_0)
  ultimately show ?thesis
    using mappages_maps [OF _ demo_vm_inv, of 0 "0x1000" "0x2000" "0x400000" PTE_W] by (auto simp: present_0)
qed

section \<open>The size of a process\<close>

text \<open>The process code on the page-table code: \<open>ops\<close> with the operations that change the size.\<close>

definition vm_ops :: "nat \<Rightarrow> ('z kmem_scheme) kops \<Rightarrow> ('z kmem_scheme) kops" where
  "vm_ops c ops = ops\<lparr>op_allocuvm := allocuvm c, op_deallocuvm := deallocuvm c\<rparr>"

lemma allocuvm_loop_size: "allocuvm_loop n c pgdir a oldsz newsz M = Inr (s, M') \<Longrightarrow> s = 0 \<or> s = newsz"
  by (induction n c pgdir a oldsz newsz M rule: allocuvm_loop.induct) (auto simp: bindE_eq_Inr split: if_splits)

lemma allocuvm_size: "allocuvm c pgdir oldsz newsz M = Inr (s, M') \<Longrightarrow> s = 0 \<or> newsz < KERNBASE \<and> s = max oldsz newsz"
  by (auto simp: allocuvm_def Let_def max_def dest!: allocuvm_loop_size simp del: allocuvm_loop.simps split: if_splits)

lemma deallocuvm_size: "deallocuvm c pgdir oldsz newsz M = Inr (s, M') \<Longrightarrow> s = min oldsz newsz"
  by (auto simp: deallocuvm_def Let_def bindE_eq_Inr min_def simp del: deallocuvm_loop.simps split: if_splits)

lemma popcli_procs: "popcli c S = Inr S' \<Longrightarrow> k_procs S' = k_procs S"
  by (auto simp: popcli_def Let_def upd_cpu_def split: if_splits)

lemma switchuvm_procs: "switchuvm c (Some p) S = Inr S' \<Longrightarrow> k_procs S' = k_procs S"
  by (auto simp: switchuvm_def Let_def bindE_eq_Inr pushcli_def upd_cpu_def dest!: popcli_procs split: if_splits)

lemma switchuvm_proc:
  "switchuvm c (Some p) (upd_proc p f (set_env e S)) = Inr S' \<Longrightarrow> p < length (k_procs S) \<Longrightarrow> proc_at S' p = f (proc_at S p)"
  using switchuvm_procs by (fastforce simp: upd_proc_def set_env_def)


definition demo_grow :: "kmem kstate" where
  "demo_grow = \<lparr>cpus = [(cpus demo_mach ! 0)\<lparr>c_proc := Some 0\<rparr>], locks = locks demo_mach,
     k_procs = [proc_zero\<lparr>p_sz := 0x3000, p_pgdir := 0x80300000, p_kstack := 0x80301000, p_state := RUNNING\<rparr>],
     k_active = 0, k_expired = 1, k_levels = [], k_initproc = Some 0, k_nextpid = 2, k_ticks = 0, k_schedlog_active = False, k_schedlog_lasttick = 0,
     k_out = [], k_first = False, k_kpgdir = 0x80302000, k_env = demo_vm\<rparr>"

text \<open>Taking away more than there is succeeds and changes nothing; growing past \<open>KERNBASE\<close> fails.\<close>

lemma demo_grow_facts:
  "myproc 0 demo_grow = Some 0" "length (k_procs demo_grow) = 1" "p_sz (proc_at demo_grow 0) = 0x3000"
  by (simp_all add: demo_grow_def demo_mach_def myproc_def)

lemma demo_grow_runs:
  "\<exists>S'. growproc (vm_ops 0 ops) 0 (-0x4000) demo_grow = Inr (0, S')" "\<exists>S'. growproc (vm_ops 0 ops) 0 0x7fffffff demo_grow = Inr (-1, S')"
  by (simp_all add: growproc_def demo_grow_facts vm_ops_def allocuvm_def deallocuvm_def KERNBASE_def word_le_def)
    (simp add: demo_grow_def demo_mach_def switchuvm_def upd_proc_def set_env_def V2P_def KERNBASE_def word_less_def pushcli_def popcli_def upd_cpu_def Let_def)


end
