(* ===== verification/BioFacts.thy ===== *)
theory BioFacts
  imports Bio
begin

text \<open>
  The buffer cache is transparent. \<open>cache_ok pid H e\<close>: the process \<open>pid\<close> holds the buffers \<open>H\<close> and no process holds another one; no block is in two buffers; a clean buffer that nobody
  holds has the contents of its block on the disk.

  A client sees \<open>content e b\<close>, what is in block \<open>b\<close>, and \<open>pinned e b\<close>, whether this still has to go to the disk;
  \<open>like e e'\<close> says that neither these nor the disk have changed.
\<close>

unbundle bit_operations_syntax

abbreviation cached :: "'x bcache_scheme \<Rightarrow> nat \<Rightarrow> bool" where
  "cached e i \<equiv> b_dev (buf_at e i) = 1"

abbreviation blk :: "'x bcache_scheme \<Rightarrow> nat \<Rightarrow> nat" where
  "blk e i \<equiv> unat (b_blockno (buf_at e i))"

definition b_dirty :: "buf \<Rightarrow> bool" where
  "b_dirty b \<longleftrightarrow> b_flags b AND B_DIRTY \<noteq> 0"

definition buf_ok :: "int \<Rightarrow> bool \<Rightarrow> block list \<Rightarrow> buf \<Rightarrow> bool" where
  "buf_ok pid h d b \<longleftrightarrow>
     (b_dev b = 0 \<and> b_flags b = 0 \<and> \<not> h
      \<or> b_dev b = 1 \<and> (b_flags b = B_VALID \<or> b_flags b = B_VALID OR B_DIRTY) \<and> unat (b_blockno b) < length d \<and> length (b_data b) = BSIZE
        \<and> (\<not> h \<and> \<not> b_dirty b \<longrightarrow> b_data b = d ! unat (b_blockno b)))
     \<and> (if h then sl_locked (b_lock b) \<and> sl_pid (b_lock b) = pid \<and> b_refcnt b = 1 else \<not> sl_locked (b_lock b) \<and> b_refcnt b = 0)"

definition cache_ok :: "int \<Rightarrow> nat set \<Rightarrow> 'x bcache_scheme \<Rightarrow> bool" where
  "cache_ok pid H e \<longleftrightarrow> length (f_buf e) = NBUF \<and> distinct (f_lru e) \<and> set (f_lru e) = {..<NBUF} \<and> H \<subseteq> {..<NBUF}
     \<and> (\<forall>i < NBUF. buf_ok pid (i \<in> H) (f_disk e) (buf_at e i))
     \<and> (\<forall>i < NBUF. \<forall>j < NBUF. cached e i \<and> cached e j \<and> blk e i = blk e j \<longrightarrow> i = j)
     \<and> (\<forall>b < length (f_disk e). length (f_disk e ! b) = BSIZE) \<and> length (f_disk e) \<le> 2 ^ 31"

definition slot :: "'x bcache_scheme \<Rightarrow> nat \<Rightarrow> nat option" where
  "slot e b = find (\<lambda>i. cached e i \<and> blk e i = b) [0..<NBUF]"

definition content :: "'x bcache_scheme \<Rightarrow> nat \<Rightarrow> block" where
  "content e b = (case slot e b of Some i \<Rightarrow> b_data (buf_at e i) | None \<Rightarrow> f_disk e ! b)"

definition pinned :: "'x bcache_scheme \<Rightarrow> nat \<Rightarrow> bool" where
  "pinned e b \<longleftrightarrow> (case slot e b of Some i \<Rightarrow> b_dirty (buf_at e i) | None \<Rightarrow> False)"

definition like :: "'x bcache_scheme \<Rightarrow> 'x bcache_scheme \<Rightarrow> bool" where
  "like e e' \<longleftrightarrow> f_disk e' = f_disk e \<and> f_writes e' = f_writes e \<and> bcache.more e' = bcache.more e
     \<and> (\<forall>b. content e' b = content e b) \<and> (\<forall>b. pinned e' b = pinned e b)"

section \<open>Slots\<close>

lemma find_unique:
  assumes "\<And>i j. i \<in> set xs \<Longrightarrow> j \<in> set xs \<Longrightarrow> P i \<Longrightarrow> P j \<Longrightarrow> i = j" "i \<in> set xs" "P i"
  shows "find P xs = Some i"
proof -
  obtain j where j: "find P xs = Some j" using assms(2,3) by (cases "find P xs") (auto simp: find_None_iff)
  then have "j \<in> set xs" "P j" by (auto simp: find_Some_iff)
  then show ?thesis using j assms by simp
qed

lemma cache_okD:
  assumes "cache_ok pid H e"
  shows "length (f_buf e) = NBUF" "set (f_lru e) = {..<NBUF}" "distinct (f_lru e)" "H \<subseteq> {..<NBUF}" "length (f_disk e) \<le> 2 ^ 31"
    "\<And>i. i < NBUF \<Longrightarrow> buf_ok pid (i \<in> H) (f_disk e) (buf_at e i)"
    "\<And>i j. i < NBUF \<Longrightarrow> j < NBUF \<Longrightarrow> cached e i \<Longrightarrow> cached e j \<Longrightarrow> blk e i = blk e j \<Longrightarrow> i = j"
    "\<And>b. b < length (f_disk e) \<Longrightarrow> length (f_disk e ! b) = BSIZE"
  using assms by (auto simp: cache_ok_def)

lemma slot_Some:
  assumes "cache_ok pid H e"
  shows "slot e b = Some i \<longleftrightarrow> i < NBUF \<and> cached e i \<and> blk e i = b"
proof
  assume "slot e b = Some i"
  then show "i < NBUF \<and> cached e i \<and> blk e i = b" by (auto simp: slot_def find_Some_iff)
next
  assume i: "i < NBUF \<and> cached e i \<and> blk e i = b"
  show "slot e b = Some i" unfolding slot_def
    by (rule find_unique) (use i cache_okD(7) [OF assms] in auto)
qed

lemma slot_None: "slot e b = None \<longleftrightarrow> (\<forall>i < NBUF. \<not> (cached e i \<and> blk e i = b))"
  by (auto simp: slot_def find_None_iff)

lemma content_buf:
  assumes "cache_ok pid H e" "i < NBUF" "cached e i"
  shows "content e (blk e i) = b_data (buf_at e i)" "pinned e (blk e i) = b_dirty (buf_at e i)"
proof -
  have "slot e (blk e i) = Some i" using slot_Some [OF assms(1)] assms(2,3) by simp
  then show "content e (blk e i) = b_data (buf_at e i)" "pinned e (blk e i) = b_dirty (buf_at e i)" by (simp_all add: content_def pinned_def)
qed

text \<open>A change of one buffer that may also change the disk and the list, seen from outside.\<close>

lemma cache_ok_upd:
  assumes ok: "cache_ok pid H e" and i: "i < NBUF" and f: "f_buf e' = (f_buf e)[i := nb]"
    and l: "distinct (f_lru e')" "set (f_lru e') = {..<NBUF}" and H': "H' - {i} = H - {i}" "H' \<subseteq> {..<NBUF}"
    and nb: "buf_ok pid (i \<in> H') (f_disk e') nb" and uniq: "\<And>j. j < NBUF \<Longrightarrow> j \<noteq> i \<Longrightarrow> cached e j \<Longrightarrow> b_dev nb = 1 \<Longrightarrow> blk e j \<noteq> unat (b_blockno nb)"
    and d: "length (f_disk e') = length (f_disk e)" "\<And>b. b < length (f_disk e) \<Longrightarrow> length (f_disk e' ! b) = BSIZE"
      "\<And>j. j < NBUF \<Longrightarrow> j \<noteq> i \<Longrightarrow> cached e j \<Longrightarrow> f_disk e' ! blk e j = f_disk e ! blk e j"
  shows "cache_ok pid H' e'"
proof -
  note C = cache_okD [OF ok]
  have at: "buf_at e' j = (if j = i then nb else buf_at e j)" if "j < NBUF" for j using that i C(1) by (simp add: f)
  have "buf_ok pid (j \<in> H') (f_disk e') (buf_at e' j)" if j: "j < NBUF" for j
  proof (cases "j = i")
    case True
    then show ?thesis using nb at [OF j] by simp
  next
    case False
    then have "(j \<in> H') = (j \<in> H)" using H'(1) by blast
    then show ?thesis using C(6) [OF j] at [OF j] False d(1) d(3) [OF j False] by (auto simp: buf_ok_def)
  qed
  moreover have "j = k" if "j < NBUF" "k < NBUF" "cached e' j" "cached e' k" "blk e' j = blk e' k" for j k
    using that C(7) [of j k] uniq [of j] uniq [of k] at by (auto split: if_splits)
  ultimately show ?thesis using C l H'(2) d by (auto simp: cache_ok_def f)
qed

lemma view_upd:
  assumes ok: "cache_ok pid H e" and ok': "cache_ok pid' H' e'" and i: "i < NBUF" and f: "f_buf e' = (f_buf e)[i := nb]"
  shows "content e' b = (if b_dev nb = 1 \<and> unat (b_blockno nb) = b then b_data nb
      else if cached e i \<and> blk e i = b then f_disk e' ! b else case slot e b of Some j \<Rightarrow> b_data (buf_at e j) | None \<Rightarrow> f_disk e' ! b)"
    "pinned e' b = (if b_dev nb = 1 \<and> unat (b_blockno nb) = b then b_dirty nb else pinned e b \<and> \<not> (cached e i \<and> blk e i = b))"
proof -
  have at: "buf_at e' j = (if j = i then nb else buf_at e j)" if "j < NBUF" for j using that i cache_okD(1) [OF ok] by (simp add: f)
  consider (new) "b_dev nb = 1" "unat (b_blockno nb) = b" | (old) "\<not> (b_dev nb = 1 \<and> unat (b_blockno nb) = b)" "cached e i" "blk e i = b"
    | (none) "\<not> (b_dev nb = 1 \<and> unat (b_blockno nb) = b)" "\<not> (cached e i \<and> blk e i = b)" "slot e b = None"
    | (other) j where "\<not> (b_dev nb = 1 \<and> unat (b_blockno nb) = b)" "\<not> (cached e i \<and> blk e i = b)" "slot e b = Some j" by fastforce
  then have "content e' b = (if b_dev nb = 1 \<and> unat (b_blockno nb) = b then b_data nb
      else if cached e i \<and> blk e i = b then f_disk e' ! b else case slot e b of Some j \<Rightarrow> b_data (buf_at e j) | None \<Rightarrow> f_disk e' ! b)
    \<and> pinned e' b = (if b_dev nb = 1 \<and> unat (b_blockno nb) = b then b_dirty nb else pinned e b \<and> \<not> (cached e i \<and> blk e i = b))"
  proof cases
    case new
    then have "slot e' b = Some i" using slot_Some [OF ok'] i at by simp
    then show ?thesis using new i at by (simp add: content_def pinned_def)
  next
    case old
    have "\<not> (cached e' j \<and> blk e' j = b)" if "j < NBUF" for j
      using old at [OF that] cache_okD(7) [OF ok that i] by (cases "j = i") auto
    then have "slot e' b = None" by (simp add: slot_None)
    then show ?thesis using old by (auto simp: content_def pinned_def)
  next
    case none
    then have "slot e' b = None" using at by (auto simp: slot_None)
    then show ?thesis using none by (auto simp: content_def pinned_def)
  next
    case other
    then have "slot e' b = Some j" "j \<noteq> i" "j < NBUF" using slot_Some [OF ok] slot_Some [OF ok'] at by auto
    then show ?thesis using other at by (auto simp: content_def pinned_def)
  qed
  then show "content e' b = (if b_dev nb = 1 \<and> unat (b_blockno nb) = b then b_data nb
      else if cached e i \<and> blk e i = b then f_disk e' ! b else case slot e b of Some j \<Rightarrow> b_data (buf_at e j) | None \<Rightarrow> f_disk e' ! b)"
    "pinned e' b = (if b_dev nb = 1 \<and> unat (b_blockno nb) = b then b_dirty nb else pinned e b \<and> \<not> (cached e i \<and> blk e i = b))" by blast+
qed

section \<open>Getting a buffer\<close>

abbreviation take_lock :: "int \<Rightarrow> buf \<Rightarrow> buf" where
  "take_lock pid b \<equiv> b\<lparr>b_lock := (b_lock b)\<lparr>sl_locked := True, sl_pid := pid\<rparr>\<rparr>"

lemma upd_buf_upd: "upd_buf i f (upd_buf i g e) = upd_buf i (\<lambda>b. f (g b)) e"
  by (cases "i < length (f_buf e)") (simp_all add: upd_buf_def list_update_beyond)

lemma buf_lock_sel [simp]:
  "sr_get (buf_lock i) e = b_lock (buf_at e i)" "sr_upd (buf_lock i) f e = upd_buf i (\<lambda>b. b\<lparr>b_lock := f (b_lock b)\<rparr>) e"
  by (simp_all add: buf_lock_def)

lemma bcache_lock [simp]: "BcacheLock \<noteq> PtableLock"
  by (simp add: BcacheLock_def)

text \<open>The end of \<open>bget\<close> on either path.\<close>

lemma bget_end:
  assumes "held c BcacheLock (Some m) S" "proc_at S (fst m) = pr" "i < length (f_buf (k_env S))" "\<not> sl_locked (b_lock (g (buf_at (k_env S) i)))"
  shows "gives c m pr i (upd_buf i (\<lambda>b. take_lock (p_pid pr) (g b)) (k_env S))
    (bindE (release c BcacheLock (upd_env (upd_buf i g) S)) (\<lambda>S2. bindE (locksleep (buf_lock i) c S2) (\<lambda>S3. Inr (i, S3))))"
proof -
  have r: "ends c m pr (upd_buf i g (k_env S)) (release c BcacheLock (upd_env (upd_buf i g) S))"
    using fctx_release [of c BcacheLock m "upd_env (upd_buf i g) S" pr] assms(1,2) by simp
  show ?thesis
  proof (rule ends_bind [OF r])
    fix S2 assume S2: "fctx c m pr S2" "k_env S2 = upd_buf i g (k_env S)"
    have "ends c m pr (upd_buf i (\<lambda>b. take_lock (p_pid pr) (g b)) (k_env S)) (locksleep (buf_lock i) c S2)"
      using bufl.lock_gives [OF S2(1), of i] S2(2) assms(3,4) by (simp add: buf_at_upd upd_buf_upd)
    then show "gives c m pr i (upd_buf i (\<lambda>b. take_lock (p_pid pr) (g b)) (k_env S)) (bindE (locksleep (buf_lock i) c S2) (\<lambda>S3. Inr (i, S3)))"
      by (auto simp: ends_def gives_def)
  qed
qed

lemma bget_hit:
  assumes ctx: "fctx c m pr S" and ok: "cache_ok (p_pid pr) H (k_env S)" and s: "slot (k_env S) b = Some i" and i: "i \<notin> H"
  shows "gives c m pr i (upd_buf i (\<lambda>x. take_lock (p_pid pr) (x\<lparr>b_refcnt := b_refcnt x + 1\<rparr>)) (k_env S)) (bget c 1 (of_nat b) S)"
proof -
  note C = cache_okD [OF ok]
  have I: "i < NBUF" "cached (k_env S) i" "blk (k_env S) i = b" using s slot_Some [OF ok] by auto
  have no: "b_blockno (buf_at (k_env S) i) = of_nat b" using I(3) by (simp flip: I(3))
  have "find (\<lambda>i. b_dev (buf_at (k_env S) i) = 1 \<and> b_blockno (buf_at (k_env S) i) = of_nat b) (f_lru (k_env S)) = Some i"
    by (rule find_unique) (use I(1,2) no C(2) C(7) in auto)
  moreover obtain S1 where S1: "acquire c BcacheLock S = Inr S1" "held c BcacheLock (Some m) S1" "proc_at S1 (fst m) = pr" "k_env S1 = k_env S"
    using fctx_acquire [OF ctx bcache_lock] by blast
  moreover have "\<not> sl_locked (b_lock (buf_at (k_env S) i))" using C(6) [OF I(1)] i by (simp add: buf_ok_def)
  ultimately show ?thesis using bget_end [OF S1(2,3), of i "\<lambda>x. x\<lparr>b_refcnt := b_refcnt x + 1\<rparr>"] C(1) I(1) by (simp add: bget_def)
qed

lemma bget_miss:
  assumes ctx: "fctx c m pr S" and ok: "cache_ok (p_pid pr) H (k_env S)" and s: "slot (k_env S) b = None" and b: "b < length (f_disk (k_env S))"
    and room: "\<exists>i < NBUF. i \<notin> H \<and> \<not> b_dirty (buf_at (k_env S) i)"
  shows "\<exists>i < NBUF. i \<notin> H \<and> \<not> b_dirty (buf_at (k_env S) i) \<and> gives c m pr i
    (upd_buf i (\<lambda>x. take_lock (p_pid pr) (x\<lparr>b_dev := 1, b_blockno := of_nat b, b_flags := 0, b_refcnt := 1\<rparr>)) (k_env S)) (bget c 1 (of_nat b) S)"
proof -
  note C = cache_okD [OF ok]
  let ?e = "k_env S"
  have "unat (of_nat b :: 32 word) = b" using b C(5) by (simp add: unat_of_nat)
  then have n: "find (\<lambda>i. b_dev (buf_at ?e i) = 1 \<and> b_blockno (buf_at ?e i) = of_nat b) (f_lru ?e) = None"
    using s C(2) by (auto simp: find_None_iff slot_None)
  have free: "b_refcnt (buf_at ?e i) = 0 \<longleftrightarrow> i \<notin> H" if "i < NBUF" for i using C(6) [OF that] by (auto simp: buf_ok_def)
  obtain i where f: "find (\<lambda>i. b_refcnt (buf_at ?e i) = 0 \<and> b_flags (buf_at ?e i) AND B_DIRTY = 0) (rev (f_lru ?e)) = Some i"
    using room C(2) free by (cases "find (\<lambda>i. b_refcnt (buf_at ?e i) = 0 \<and> b_flags (buf_at ?e i) AND B_DIRTY = 0) (rev (f_lru ?e))")
      (auto simp: find_None_iff b_dirty_def)
  then have "i \<in> set (rev (f_lru ?e))" "b_refcnt (buf_at ?e i) = 0" "b_flags (buf_at ?e i) AND B_DIRTY = 0"
    by (auto simp: find_Some_iff) (metis nth_mem length_rev set_rev)
  then have I: "i < NBUF" "i \<notin> H" "\<not> b_dirty (buf_at ?e i)" using C(2) free by (auto simp: b_dirty_def)
  obtain S1 where S1: "acquire c BcacheLock S = Inr S1" "held c BcacheLock (Some m) S1" "proc_at S1 (fst m) = pr" "k_env S1 = k_env S"
    using fctx_acquire [OF ctx bcache_lock] by blast
  have "\<not> sl_locked (b_lock (buf_at (k_env S) i))" using C(6) [OF I(1)] I(2) by (simp add: buf_ok_def)
  then have "gives c m pr i (upd_buf i (\<lambda>x. take_lock (p_pid pr) (x\<lparr>b_dev := 1, b_blockno := of_nat b, b_flags := 0, b_refcnt := 1\<rparr>)) ?e) (bget c 1 (of_nat b) S)"
    using bget_end [OF S1(2,3), of i "\<lambda>x. x\<lparr>b_dev := 1, b_blockno := of_nat b, b_flags := 0, b_refcnt := 1\<rparr>"] C(1) I(1) n f S1(1,4)
    by (simp add: bget_def)
  with I show ?thesis by blast
qed

text \<open>The disk answers a holder of the buffer.\<close>

lemma iderw_ends:
  assumes ctx: "fctx c m pr S" and b: "buf_at (k_env S) i = b" "sl_locked (b_lock b)" "sl_pid (b_lock b) = p_pid pr"
    and d: "b_dev b = 1" "unat (b_blockno b) < length (f_disk (k_env S))"
  shows "b_flags b = 0 \<Longrightarrow> ends c m pr (upd_buf i (\<lambda>b. b\<lparr>b_data := f_disk (k_env S) ! unat (b_blockno b), b_flags := B_VALID\<rparr>) (k_env S)) (iderw c i S)"
    "b_flags b = B_VALID OR B_DIRTY \<Longrightarrow> ends c m pr (upd_buf i (\<lambda>b. b\<lparr>b_flags := B_VALID\<rparr>)
       ((k_env S)\<lparr>f_disk := (f_disk (k_env S))[unat (b_blockno b) := b_data b], f_writes := f_writes (k_env S) @ [(unat (b_blockno b), b_data b)]\<rparr>)) (iderw c i S)"
proof -
  obtain S1 where S1: "holdingsleep (buf_lock i) c S = Inr (True, S1)" "fctx c m pr S1" "k_env S1 = k_env S"
    using bufl.holding_gives [OF ctx, of i] b by (auto simp: gives_def)
  show "b_flags b = 0 \<Longrightarrow> ends c m pr (upd_buf i (\<lambda>b. b\<lparr>b_data := f_disk (k_env S) ! unat (b_blockno b), b_flags := B_VALID\<rparr>) (k_env S)) (iderw c i S)"
    using S1 b d by (simp add: iderw_def Let_def ends_def B_VALID_def B_DIRTY_def upd_buf_def)
  show "b_flags b = B_VALID OR B_DIRTY \<Longrightarrow> ends c m pr (upd_buf i (\<lambda>b. b\<lparr>b_flags := B_VALID\<rparr>)
       ((k_env S)\<lparr>f_disk := (f_disk (k_env S))[unat (b_blockno b) := b_data b], f_writes := f_writes (k_env S) @ [(unat (b_blockno b), b_data b)]\<rparr>)) (iderw c i S)"
    using S1 b d by (simp add: iderw_def Let_def ends_def B_VALID_def B_DIRTY_def upd_buf_def)
qed

section \<open>The operations\<close>

text \<open>What holds after \<open>bread\<close> of block \<open>b\<close> into buffer \<open>i\<close>.\<close>

definition got :: "int \<Rightarrow> nat set \<Rightarrow> nat \<Rightarrow> 'x bcache_scheme \<Rightarrow> nat \<Rightarrow> 'x bcache_scheme \<Rightarrow> bool" where
  "got pid H b e i e' \<longleftrightarrow> i < NBUF \<and> i \<notin> H \<and> cache_ok pid (insert i H) e' \<and> cached e' i \<and> blk e' i = b
     \<and> b_data (buf_at e' i) = content e b \<and> like e e' \<and> (\<forall>j < NBUF. j \<noteq> i \<longrightarrow> buf_at e' j = buf_at e j)"

lemma got_upd:
  assumes ok: "cache_ok pid H e" and i: "i < NBUF" "i \<notin> H" and f: "e' = upd_buf i g e"
    and nb: "buf_ok pid True (f_disk e) (g (buf_at e i))" "b_dev (g (buf_at e i)) = 1" "unat (b_blockno (g (buf_at e i))) = b"
    and new: "slot e b = None \<and> \<not> b_dirty (buf_at e i) \<and> \<not> b_dirty (g (buf_at e i)) \<and> b_data (g (buf_at e i)) = f_disk e ! b
      \<or> slot e b = Some i \<and> b_data (g (buf_at e i)) = b_data (buf_at e i) \<and> b_dirty (g (buf_at e i)) = b_dirty (buf_at e i)"
  shows "got pid H b e i e'"
proof -
  note C = cache_okD [OF ok]
  have F: "f_buf e' = (f_buf e)[i := g (buf_at e i)]" "f_disk e' = f_disk e" "f_writes e' = f_writes e" "bcache.more e' = bcache.more e" "f_lru e' = f_lru e"
    by (simp_all add: f upd_buf_def)
  have "blk e j \<noteq> b" if "j < NBUF" "j \<noteq> i" "cached e j" for j
    using new that slot_None [of e b] slot_Some [OF ok, of b i] C(7) [of j i] i by auto
  then have ok': "cache_ok pid (insert i H) e'"
    using cache_ok_upd [OF ok i(1) F(1), of "insert i H"] nb C i F by auto
  note V = view_upd [OF ok ok' i(1) F(1)]
  have at: "buf_at e' i = g (buf_at e i)" using C(1) i by (simp add: F)
  have cb: "content e b = b_data (g (buf_at e i))" using new i nb by (auto simp: content_def)
  have old: "content e x = f_disk e ! x \<and> \<not> pinned e x" if "x \<noteq> b" "cached e i" "blk e i = x" for x
    using that new C(6) [OF i(1)] i slot_Some [OF ok, of b i] content_buf [OF ok i(1)] by (auto simp: buf_ok_def)
  have "content e' x = content e x" for x
  proof (cases "x = b")
    case True
    then show ?thesis using V(1) [of x] nb cb by simp
  next
    case False
    then show ?thesis using V(1) [of x] nb old [of x] F(2) by (auto simp: content_def split: option.splits)
  qed
  moreover have "pinned e' x = pinned e x" for x
  proof (cases "x = b")
    case True
    then show ?thesis using V(2) [of x] nb new by (auto simp: pinned_def)
  next
    case False
    then show ?thesis using V(2) [of x] nb old [of x] by auto
  qed
  ultimately show ?thesis using i ok' at nb cb F C(1) by (auto simp: got_def like_def)
qed

lemma bread_gives:
  assumes ctx: "fctx c m pr S" and ok: "cache_ok (p_pid pr) H (k_env S)" and b: "b < length (f_disk (k_env S))"
    and free: "\<And>i. i \<in> H \<Longrightarrow> blk (k_env S) i \<noteq> b" and room: "slot (k_env S) b = None \<Longrightarrow> \<exists>i < NBUF. i \<notin> H \<and> \<not> b_dirty (buf_at (k_env S) i)"
  shows "\<exists>i e'. gives c m pr i e' (bread c 1 (of_nat b) S) \<and> got (p_pid pr) H b (k_env S) i e'"
proof -
  let ?e = "k_env S"
  note C = cache_okD [OF ok]
  have nb: "unat (of_nat b :: 32 word) = b" using b C(5) by (simp add: unat_of_nat)
  show ?thesis
  proof (cases "slot ?e b")
    case (Some i)
    then have I: "i < NBUF" "cached ?e i" "blk ?e i = b" using slot_Some [OF ok] by auto
    then have H: "i \<notin> H" using free by blast
    let ?g = "\<lambda>x. take_lock (p_pid pr) (x\<lparr>b_refcnt := b_refcnt x + 1\<rparr>)"
    note B = C(6) [OF I(1)]
    have fl: "b_flags (buf_at ?e i) AND B_VALID \<noteq> 0" using B I(2) by (auto simp: buf_ok_def B_VALID_def B_DIRTY_def)
    obtain S1 where S1: "bget c 1 (of_nat b) S = Inr (i, S1)" "fctx c m pr S1" "k_env S1 = upd_buf i ?g ?e"
      using bget_hit [OF ctx ok Some H] by (auto simp: gives_def)
    then have "gives c m pr i (upd_buf i ?g ?e) (bread c 1 (of_nat b) S)"
      using fl C(1) I(1) by (simp add: bread_def gives_def buf_at_upd)
    moreover have "got (p_pid pr) H b ?e i (upd_buf i ?g ?e)"
      using B H I Some by (intro got_upd [OF ok I(1) H refl]) (auto simp: buf_ok_def b_dirty_def)
    ultimately show ?thesis by blast
  next
    case None
    let ?g = "\<lambda>x. take_lock (p_pid pr) (x\<lparr>b_dev := 1, b_blockno := of_nat b, b_flags := 0, b_refcnt := 1\<rparr>)"
    obtain i where I: "i < NBUF" "i \<notin> H" "\<not> b_dirty (buf_at ?e i)" and g: "gives c m pr i (upd_buf i ?g ?e) (bget c 1 (of_nat b) S)"
      using bget_miss [OF ctx ok None b room [OF None]] by blast
    let ?h = "\<lambda>x. (?g x)\<lparr>b_data := f_disk ?e ! b, b_flags := B_VALID\<rparr>"
    obtain S1 where S1: "bget c 1 (of_nat b) S = Inr (i, S1)" "fctx c m pr S1" "k_env S1 = upd_buf i ?g ?e" using g by (auto simp: gives_def)
    have at: "buf_at (k_env S1) i = ?g (buf_at ?e i)" using C(1) I(1) S1(3) by (simp add: buf_at_upd)
    have "ends c m pr (upd_buf i (\<lambda>b. b\<lparr>b_data := f_disk (k_env S1) ! unat (b_blockno b), b_flags := B_VALID\<rparr>) (k_env S1)) (iderw c i S1)"
      by (rule iderw_ends(1) [OF S1(2) at]) (use nb b S1(3) in simp_all)
    then have "ends c m pr (upd_buf i ?h ?e) (iderw c i S1)" using S1(3) nb by (simp add: upd_buf_upd)
    then have "gives c m pr i (upd_buf i ?h ?e) (bread c 1 (of_nat b) S)" using S1(1) at by (auto simp: bread_def ends_def gives_def)
    moreover have "got (p_pid pr) H b ?e i (upd_buf i ?h ?e)"
      using C(8) [OF b] I b nb None
      by (intro got_upd [OF ok I(1,2) refl]) (auto simp: buf_ok_def b_dirty_def B_VALID_def B_DIRTY_def)
    ultimately show ?thesis by blast
  qed
qed

text \<open>A change of the data or the flags of a held buffer.\<close>

lemma heldD:
  assumes "cache_ok pid H e" "i \<in> H"
  shows "i < NBUF" "i < length (f_buf e)" "cached e i" "blk e i < length (f_disk e)" "sl_locked (b_lock (buf_at e i))" "sl_pid (b_lock (buf_at e i)) = pid"
    "b_refcnt (buf_at e i) = 1" "b_flags (buf_at e i) = B_VALID \<or> b_flags (buf_at e i) = B_VALID OR B_DIRTY" "length (b_data (buf_at e i)) = BSIZE"
proof -
  note C = cache_okD [OF assms(1)]
  show i: "i < NBUF" using assms(2) C(4) by auto
  then show "i < length (f_buf e)" using C(1) by simp
  show "cached e i" "blk e i < length (f_disk e)" "sl_locked (b_lock (buf_at e i))" "sl_pid (b_lock (buf_at e i)) = pid"
    "b_refcnt (buf_at e i) = 1" "b_flags (buf_at e i) = B_VALID \<or> b_flags (buf_at e i) = B_VALID OR B_DIRTY" "length (b_data (buf_at e i)) = BSIZE"
    using C(6) [OF i] assms(2) by (auto simp: buf_ok_def)
qed

lemma held_upd:
  assumes ok: "cache_ok pid H e" and i: "i \<in> H" and f: "f_buf e' = (f_buf e)[i := (buf_at e i)\<lparr>b_data := xs, b_flags := fl\<rparr>]" "f_lru e' = f_lru e"
    and x: "length xs = BSIZE" "fl = B_VALID \<or> fl = B_VALID OR B_DIRTY"
    and d: "f_disk e' = f_disk e \<or> f_disk e' = (f_disk e)[blk e i := xs]"
  shows "cache_ok pid H e'" "content e' b = (if b = blk e i then xs else content e b)"
    "pinned e' b = (if b = blk e i then fl AND B_DIRTY \<noteq> 0 else pinned e b)"
proof -
  note C = cache_okD [OF ok] and D = heldD [OF ok i]
  let ?nb = "(buf_at e i)\<lparr>b_data := xs, b_flags := fl\<rparr>"
  have nb: "buf_ok pid (i \<in> H) (f_disk e') ?nb" using D x d i by (auto simp: buf_ok_def)
  have uniq: "blk e j \<noteq> blk e i" if "j < NBUF" "j \<noteq> i" "cached e j" for j using C(7) [of j i] that D by auto
  have dl: "length (f_disk e') = length (f_disk e)" using d by auto
  have db: "length (f_disk e' ! b) = BSIZE" if "b < length (f_disk e)" for b using d x(1) C(8) [OF that] that D(4) by (auto simp: nth_list_update)
  have do: "f_disk e' ! blk e j = f_disk e ! blk e j" if "j < NBUF" "j \<noteq> i" "cached e j" for j using d uniq [OF that] by auto
  show ok': "cache_ok pid H e'"
    by (rule cache_ok_upd [OF ok D(1) f(1) _ _ refl C(4) nb _ dl db do]) (use uniq C(2,3) f(2) in simp_all)
  note V = view_upd [OF ok ok' D(1) f(1), of b]
  show "content e' b = (if b = blk e i then xs else content e b)" using V(1) D d by (auto simp: content_def split: option.splits)
  show "pinned e' b = (if b = blk e i then fl AND B_DIRTY \<noteq> 0 else pinned e b)" using V(2) D by (auto simp: b_dirty_def)
qed

lemma edit_ok:
  assumes ok: "cache_ok pid H e" and i: "i \<in> H" and x: "length xs = BSIZE"
  shows "cache_ok pid H (upd_buf i (\<lambda>b. b\<lparr>b_data := xs\<rparr>) e)"
    "content (upd_buf i (\<lambda>b. b\<lparr>b_data := xs\<rparr>) e) b = (if b = blk e i then xs else content e b)"
    "pinned (upd_buf i (\<lambda>b. b\<lparr>b_data := xs\<rparr>) e) b = pinned e b"
proof -
  note D = heldD [OF ok i]
  have f: "f_buf (upd_buf i (\<lambda>b. b\<lparr>b_data := xs\<rparr>) e) = (f_buf e)[i := (buf_at e i)\<lparr>b_data := xs, b_flags := b_flags (buf_at e i)\<rparr>]"
    by (simp add: upd_buf_def)
  note U = held_upd [OF ok i f _ x D(8)]
  show "cache_ok pid H (upd_buf i (\<lambda>b. b\<lparr>b_data := xs\<rparr>) e)"
    "content (upd_buf i (\<lambda>b. b\<lparr>b_data := xs\<rparr>) e) b = (if b = blk e i then xs else content e b)" using U by simp_all
  show "pinned (upd_buf i (\<lambda>b. b\<lparr>b_data := xs\<rparr>) e) b = pinned e b"
    using U(3) [of b] content_buf(2) [OF ok D(1,3)] by (simp add: b_dirty_def)
qed

text \<open>\<open>bwrite\<close> writes the data to the disk.\<close>

definition written :: "int \<Rightarrow> nat set \<Rightarrow> nat \<Rightarrow> 'x bcache_scheme \<Rightarrow> 'x bcache_scheme \<Rightarrow> bool" where
  "written pid H i e e' \<longleftrightarrow> cache_ok pid H e' \<and> f_disk e' = (f_disk e)[blk e i := b_data (buf_at e i)]
     \<and> f_writes e' = f_writes e @ [(blk e i, b_data (buf_at e i))] \<and> bcache.more e' = bcache.more e
     \<and> (\<forall>b. content e' b = content e b) \<and> (\<forall>b. pinned e' b = (b \<noteq> blk e i \<and> pinned e b))
     \<and> (\<forall>j < NBUF. b_data (buf_at e' j) = b_data (buf_at e j) \<and> blk e' j = blk e j)"

lemma bwrite_ends:
  assumes ctx: "fctx c m pr S" and ok: "cache_ok (p_pid pr) H (k_env S)" and i: "i \<in> H"
  shows "\<exists>e'. ends c m pr e' (bwrite c i S) \<and> written (p_pid pr) H i (k_env S) e'"
proof -
  let ?e = "k_env S" and ?fl = "\<lambda>b. b\<lparr>b_flags := b_flags b OR B_DIRTY\<rparr>"
  note D = heldD [OF ok i]
  obtain S1 where S1: "holdingsleep (buf_lock i) c S = Inr (True, S1)" "fctx c m pr S1" "k_env S1 = ?e"
    using bufl.holding_gives [OF ctx, of i] D by (auto simp: gives_def)
  define S2 where "S2 = upd_env (upd_buf i ?fl) S1"
  define e' where "e' = upd_buf i (\<lambda>b. b\<lparr>b_flags := B_VALID\<rparr>)
    ((k_env S2)\<lparr>f_disk := (f_disk ?e)[blk ?e i := b_data (buf_at ?e i)], f_writes := f_writes ?e @ [(blk ?e i, b_data (buf_at ?e i))]\<rparr>)"
  have at: "buf_at (k_env S2) i = ?fl (buf_at ?e i)" using D(2) S1(3) by (simp add: S2_def buf_at_upd)
  have "b_flags (buf_at ?e i) OR B_DIRTY = B_VALID OR B_DIRTY" using D(8) by (auto simp: B_VALID_def B_DIRTY_def)
  then have "ends c m pr e' (iderw c i S2)"
    using iderw_ends(2) [of c m pr S2, OF _ at] S1(2,3) D by (simp add: S2_def e'_def)
  then have "ends c m pr e' (bwrite c i S)" using S1(1) by (simp add: bwrite_def S2_def)
  moreover have "written (p_pid pr) H i ?e e'"
  proof -
    have f: "f_buf e' = (f_buf ?e)[i := (buf_at ?e i)\<lparr>b_data := b_data (buf_at ?e i), b_flags := B_VALID\<rparr>]" "f_lru e' = f_lru ?e"
      "f_disk e' = (f_disk ?e)[blk ?e i := b_data (buf_at ?e i)]" "f_writes e' = f_writes ?e @ [(blk ?e i, b_data (buf_at ?e i))]"
      "bcache.more e' = bcache.more ?e"
      using D(2) S1(3) by (simp_all add: e'_def S2_def upd_buf_def)
    note U = held_upd [OF ok i f(1,2) D(9) disjI1 [OF refl] disjI2 [OF f(3)]]
    have "B_VALID AND B_DIRTY = 0" by (simp add: B_VALID_def B_DIRTY_def)
    then show ?thesis using U content_buf(1) [OF ok D(1,3)] D(2) cache_okD(1) [OF ok] f by (auto simp: written_def nth_list_update)
  qed
  ultimately show ?thesis by blast
qed

text \<open>\<open>brelse\<close> gives the buffer back; what it holds is on the disk or pinned.\<close>

lemma brelse_ends:
  assumes ctx: "fctx c m pr S" and ok: "cache_ok (p_pid pr) H (k_env S)" and i: "i \<in> H"
    and safe: "pinned (k_env S) (blk (k_env S) i) \<or> content (k_env S) (blk (k_env S) i) = f_disk (k_env S) ! blk (k_env S) i"
  shows "\<exists>e'. ends c m pr e' (brelse c i S) \<and> cache_ok (p_pid pr) (H - {i}) e' \<and> like (k_env S) e'
    \<and> (\<forall>j < NBUF. b_data (buf_at e' j) = b_data (buf_at (k_env S) j) \<and> blk e' j = blk (k_env S) j)"
proof -
  let ?e = "k_env S"
  note D = heldD [OF ok i] and C = cache_okD [OF ok]
  let ?g = "\<lambda>b. b\<lparr>b_lock := (b_lock b)\<lparr>sl_locked := False, sl_pid := 0\<rparr>\<rparr>" and ?h = "\<lambda>b. b\<lparr>b_refcnt := b_refcnt b - 1\<rparr>"
  obtain S1 where S1: "holdingsleep (buf_lock i) c S = Inr (True, S1)" "fctx c m pr S1" "k_env S1 = ?e"
    using bufl.holding_gives [OF ctx, of i] D by (auto simp: gives_def)
  obtain S2 where S2: "releasesleep (buf_lock i) c S1 = Inr S2" "fctx c m pr S2" "k_env S2 = upd_buf i ?g ?e"
    using bufl.unlock_ends [OF S1(2), of i] S1(3) by (auto simp: ends_def)
  obtain S3 where S3: "acquire c BcacheLock S2 = Inr S3" "held c BcacheLock (Some m) S3" "proc_at S3 (fst m) = pr" "k_env S3 = k_env S2"
    using fctx_acquire [OF S2(2) bcache_lock] by blast
  define e' where "e' = (upd_buf i (\<lambda>b. ?h (?g b)) ?e)\<lparr>f_lru := i # remove1 i (f_lru ?e)\<rparr>"
  have "k_env S3 = upd_buf i ?g ?e" using S3(4) S2(3) by simp
  then have "ends c m pr e' (release c BcacheLock (upd_env (\<lambda>e. e\<lparr>f_lru := i # remove1 i (f_lru e)\<rparr>) (upd_env (upd_buf i ?h) S3)))"
    using fctx_release [of c BcacheLock m "upd_env (\<lambda>e. e\<lparr>f_lru := i # remove1 i (f_lru e)\<rparr>) (upd_env (upd_buf i ?h) S3)" pr] S3(2,3)
    by (simp add: e'_def upd_buf_upd)
  moreover have "b_refcnt (buf_at (k_env (upd_env (upd_buf i ?h) S3)) i) = 0" using S3(4) S2(3) D(2,7) by (simp add: buf_at_upd)
  ultimately have "ends c m pr e' (brelse c i S)" using S1(1) S2(1) S3(1) by (simp add: brelse_def Let_def)
  moreover have f: "f_buf e' = (f_buf ?e)[i := ?h (?g (buf_at ?e i))]" "f_disk e' = f_disk ?e" "f_writes e' = f_writes ?e" "bcache.more e' = bcache.more ?e"
    by (simp_all add: e'_def upd_buf_def)
  have l: "distinct (f_lru e')" "set (f_lru e') = {..<NBUF}" using C(2,3) D(1) by (auto simp: e'_def)
  have s: "b_dirty (buf_at ?e i) \<or> b_data (buf_at ?e i) = f_disk ?e ! blk ?e i" using safe content_buf [OF ok D(1,3)] by simp
  have ok': "cache_ok (p_pid pr) (H - {i}) e'"
  proof (rule cache_ok_upd [OF ok D(1) f(1) l])
    show "H - {i} - {i} = H - {i}" "H - {i} \<subseteq> {..<NBUF}" using C(4) by auto
    show "buf_ok (p_pid pr) (i \<in> H - {i}) (f_disk e') (?h (?g (buf_at ?e i)))" using D s by (auto simp: f buf_ok_def b_dirty_def)
    show "blk ?e j \<noteq> unat (b_blockno (?h (?g (buf_at ?e i))))" if "j < NBUF" "j \<noteq> i" "cached ?e j" for j
      using C(7) [of j i] that D(1,3) by auto
  qed (use C(8) in \<open>simp_all add: f\<close>)
  note V = view_upd [OF ok ok' D(1) f(1)]
  have "like ?e e'"
    using V D(3) content_buf [OF ok D(1,3)] f by (auto simp: like_def content_def b_dirty_def split: option.splits)
  ultimately show ?thesis using ok' D(2) C(1) by (auto simp: e'_def buf_at_upd)
qed

end
