(* ===== verification/LogFacts.thy ===== *)
theory LogFacts
  imports Log BioFacts
begin

text \<open>
  The log makes transactions atomic. \<open>eff pid e W e'\<close>: the disk has carried out the writes \<open>W\<close>, the cache shows their data, and the blocks written are no longer
  pinned. With it the routines of the log are sequences of block writes, and a crash is a prefix of such a sequence.
\<close>

section \<open>Sequences of block writes\<close>

definition disk_after :: "(nat \<times> block) list \<Rightarrow> block list \<Rightarrow> block list" where
  "disk_after W d = foldl (\<lambda>d (b, x). d[b := x]) d W"

definition after :: "(nat \<times> block) list \<Rightarrow> (nat \<Rightarrow> block) \<Rightarrow> nat \<Rightarrow> block" where
  "after W f = foldl (\<lambda>f (b, x). f(b := x)) f W"

lemma disk_after_simps [simp]: "disk_after [] d = d" "disk_after ((b, x) # W) d = disk_after W (d[b := x])"
  "disk_after (W @ V) d = disk_after V (disk_after W d)"
  by (simp_all add: disk_after_def)

lemma after_simps [simp]: "after [] f = f" "after ((b, x) # W) f = after W (f(b := x))" "after (W @ V) f = after V (after W f)"
  by (simp_all add: after_def)

lemma length_disk_after [simp]: "length (disk_after W d) = length d"
  by (induction W arbitrary: d) auto

lemma disk_after_nth: "b < length d \<Longrightarrow> disk_after W d ! b = after W (\<lambda>b. d ! b) b"
proof (induction W rule: rev_induct)
  case (snoc w W)
  then show ?case by (cases w) (auto simp: nth_list_update)
qed simp

lemma after_notin: "b \<notin> fst ` set W \<Longrightarrow> after W f b = f b"
  by (induction W arbitrary: f) auto

lemma after_in: "distinct (map fst W) \<Longrightarrow> (b, x) \<in> set W \<Longrightarrow> after W f b = x"
proof (induction W arbitrary: f)
  case (Cons w W)
  show ?case
  proof (cases "(b, x) = w")
    case True
    then show ?thesis using Cons.prems(1) after_notin [of b W] by auto
  next
    case False
    then show ?thesis using Cons by (cases w) auto
  qed
qed simp

definition eff :: "int \<Rightarrow> 'x bcache_scheme \<Rightarrow> (nat \<times> block) list \<Rightarrow> 'x bcache_scheme \<Rightarrow> bool" where
  "eff pid e W e' \<longleftrightarrow> cache_ok pid {} e' \<and> f_disk e' = disk_after W (f_disk e) \<and> f_writes e' = f_writes e @ W \<and> bcache.more e' = bcache.more e
     \<and> content e' = after W (content e) \<and> (\<forall>b. pinned e' b = (pinned e b \<and> b \<notin> fst ` set W))"

lemma eff_trans: "eff pid e W e1 \<Longrightarrow> eff pid e1 V e2 \<Longrightarrow> eff pid e (W @ V) e2"
  by (auto simp: eff_def)

lemma eff_refl: "cache_ok pid {} e \<Longrightarrow> eff pid e [] e"
  by (simp add: eff_def)

lemma calm_content: "cache_ok pid {} e \<Longrightarrow> \<not> pinned e b \<Longrightarrow> content e b = f_disk e ! b"
proof (cases "slot e b")
  case (Some i)
  assume ok: "cache_ok pid {} e" and p: "\<not> pinned e b"
  have "i < NBUF" "cached e i" "blk e i = b" using Some slot_Some [OF ok] by auto
  then show ?thesis using cache_okD(6) [OF ok, of i] Some p by (auto simp: content_def pinned_def buf_ok_def)
qed (simp add: content_def)

section \<open>Free buffers\<close>

lemma pinned_image: "cache_ok pid H e \<Longrightarrow> {b. pinned e b} = blk e ` {i. i < NBUF \<and> cached e i \<and> b_dirty (buf_at e i)}"
proof -
  assume ok: "cache_ok pid H e"
  have "pinned e b \<longleftrightarrow> b \<in> blk e ` {i. i < NBUF \<and> cached e i \<and> b_dirty (buf_at e i)}" for b
  proof
    assume "pinned e b"
    then obtain i where "slot e b = Some i" "b_dirty (buf_at e i)" by (auto simp: pinned_def split: option.splits)
    then show "b \<in> blk e ` {i. i < NBUF \<and> cached e i \<and> b_dirty (buf_at e i)}" using slot_Some [OF ok, of b i] by auto
  next
    assume "b \<in> blk e ` {i. i < NBUF \<and> cached e i \<and> b_dirty (buf_at e i)}"
    then obtain i where "i < NBUF" "cached e i" "b_dirty (buf_at e i)" "b = blk e i" by blast
    then show "pinned e b" using content_buf(2) [OF ok, of i] by simp
  qed
  then show ?thesis by blast
qed

lemma room_card:
  assumes ok: "cache_ok pid H e" and c: "card H + card {b. pinned e b} < NBUF"
  shows "\<exists>i < NBUF. i \<notin> H \<and> \<not> b_dirty (buf_at e i)"
proof (rule ccontr)
  let ?D = "{i. i < NBUF \<and> cached e i \<and> b_dirty (buf_at e i)}"
  assume no: "\<not> (\<exists>i < NBUF. i \<notin> H \<and> \<not> b_dirty (buf_at e i))"
  have "cached e i" if "i < NBUF" "b_dirty (buf_at e i)" for i using cache_okD(6) [OF ok that(1)] that(2) by (auto simp: buf_ok_def b_dirty_def)
  then have "{..<NBUF} \<subseteq> H \<union> ?D" using no by auto
  moreover have "finite H" using cache_okD(4) [OF ok] finite_subset by blast
  ultimately have "NBUF \<le> card (H \<union> ?D)" using card_mono [of "H \<union> ?D" "{..<NBUF}"] by simp
  also have "\<dots> \<le> card H + card ?D" by (rule card_Un_le)
  also have "card ?D = card {b. pinned e b}"
    unfolding pinned_image [OF ok] by (rule card_image [symmetric]) (use cache_okD(7) [OF ok] in \<open>auto simp: inj_on_def\<close>)
  finally show False using c by simp
qed

lemma pinned_slot: "pinned e b \<Longrightarrow> slot e b \<noteq> None"
  by (auto simp: pinned_def split: option.splits)

section \<open>Copying a block\<close>

text \<open>Buffer \<open>i\<close> holds the source, \<open>j\<close> the destination.\<close>

lemma copy_tail:
  assumes ctx: "fctx c m pr S" and ok: "cache_ok (p_pid pr) {i, j} (k_env S)" and ij: "i \<noteq> j"
    and safe: "pinned (k_env S) (blk (k_env S) i) \<or> content (k_env S) (blk (k_env S) i) = f_disk (k_env S) ! blk (k_env S) i"
  shows "\<exists>e'. ends c m pr e' (bindE (bwrite c j (upd_env (\<lambda>e. upd_buf j (\<lambda>b. b\<lparr>b_data := b_data (buf_at e i)\<rparr>) e) S)) (\<lambda>S3. bindE (brelse c i S3) (brelse c j)))
    \<and> eff (p_pid pr) (k_env S) [(blk (k_env S) j, content (k_env S) (blk (k_env S) i))] e'"
proof -
  let ?e = "k_env S" and ?pid = "p_pid pr"
  define x where "x = content ?e (blk ?e i)"
  note D = heldD [OF ok, of i, simplified] and DJ = heldD [OF ok, of j, simplified]
  have x: "b_data (buf_at ?e i) = x" "length x = BSIZE" using content_buf(1) [OF ok D(1,3)] D(9) by (simp_all add: x_def)
  have ne: "blk ?e i \<noteq> blk ?e j" using cache_okD(7) [OF ok D(1) DJ(1) D(3) DJ(3)] ij by blast
  define e1 where "e1 = upd_buf j (\<lambda>b. b\<lparr>b_data := x\<rparr>) ?e"
  define S1 where "S1 = upd_env (\<lambda>e. upd_buf j (\<lambda>b. b\<lparr>b_data := b_data (buf_at e i)\<rparr>) e) S"
  have S1: "fctx c m pr S1" "k_env S1 = e1" using ctx x by (simp_all add: S1_def e1_def)
  note E = edit_ok [OF ok, of j x, simplified, OF x(2), folded e1_def]
  have at1: "blk e1 k = blk ?e k" "k \<noteq> j \<Longrightarrow> buf_at e1 k = buf_at ?e k" "b_data (buf_at e1 j) = x" for k
    using DJ(2) by (simp_all add: e1_def buf_at_upd)
  obtain e2 where e2: "ends c m pr e2 (bwrite c j S1)" "written ?pid {i, j} j e1 e2"
    using bwrite_ends [OF S1(1), of "{i, j}" j] S1(2) E(1) by auto
  note W = e2(2) [unfolded written_def at1]
  have w2: "cache_ok ?pid {i, j} e2" "blk e2 i = blk ?e i" "blk e2 j = blk ?e j" using W D(1) DJ(1) by auto
  have safe2: "pinned e2 (blk e2 i) \<or> content e2 (blk e2 i) = f_disk e2 ! blk e2 i"
    using W safe ne E(2,3) D(1) DJ(1) by (auto simp: e1_def)
  obtain S2 where S2: "bwrite c j S1 = Inr S2" "fctx c m pr S2" "k_env S2 = e2" using e2(1) by (auto simp: ends_def)
  obtain e3 where e3: "ends c m pr e3 (brelse c i S2)" "cache_ok ?pid ({i, j} - {i}) e3" "like e2 e3"
      "\<forall>k < NBUF. b_data (buf_at e3 k) = b_data (buf_at e2 k) \<and> blk e3 k = blk e2 k"
    using brelse_ends [OF S2(2), of "{i, j}" i] S2(3) w2 safe2 by auto
  have ok3: "cache_ok ?pid {j} e3" using e3(2) ij by (simp add: insert_Diff_if)
  obtain S3 where S3: "brelse c i S2 = Inr S3" "fctx c m pr S3" "k_env S3 = e3" using e3(1) by (auto simp: ends_def)
  have "content e3 (blk e3 j) = f_disk e3 ! blk e3 j"
    using e3(3,4) W DJ(1,4) w2 E(2) x by (simp add: like_def e1_def)
  then obtain e4 where e4: "ends c m pr e4 (brelse c j S3)" "cache_ok ?pid ({j} - {j}) e4" "like e3 e4"
    using brelse_ends [OF S3(2), of "{j}" j] S3(3) ok3 by auto
  have "eff ?pid ?e [(blk ?e j, x)] e4"
    using e4 e3(3) W E(2,3) by (auto simp: eff_def like_def e1_def fun_eq_iff)
  then show ?thesis using e4(1) S2(1) S3(1) by (auto simp: S1_def x_def)
qed

lemma like_trans: "like e e1 \<Longrightarrow> like e1 e2 \<Longrightarrow> like e e2"
  by (simp add: like_def)

lemma eff_like: "like e e1 \<Longrightarrow> eff pid e1 W e2 \<Longrightarrow> eff pid e W e2"
  by (auto simp: eff_def like_def) (metis ext)

lemma two_reads:
  assumes ctx: "fctx c m pr S" and ok: "cache_ok (p_pid pr) {} (k_env S)" and ab: "a \<noteq> b" "a < length (f_disk (k_env S))" "b < length (f_disk (k_env S))"
    and room: "card {b. pinned (k_env S) b} < NBUF" "pinned (k_env S) b \<or> Suc (card {b. pinned (k_env S) b}) < NBUF"
  shows "\<exists>i S1 j S2. bread c 1 (of_nat a) S = Inr (i, S1) \<and> bread c 1 (of_nat b) S1 = Inr (j, S2) \<and> fctx c m pr S2 \<and> i \<noteq> j
    \<and> cache_ok (p_pid pr) {i, j} (k_env S2) \<and> like (k_env S) (k_env S2) \<and> blk (k_env S2) i = a \<and> blk (k_env S2) j = b
    \<and> bcache.more (k_env S1) = bcache.more (k_env S)"
proof -
  let ?e = "k_env S" and ?pid = "p_pid pr"
  obtain i e1 where i: "gives c m pr i e1 (bread c 1 (of_nat a) S)" "got ?pid {} a ?e i e1"
    using bread_gives [OF ctx ok ab(2)] room_card [OF ok] room(1) by auto
  note I = i(2) [unfolded got_def]
  obtain S1 where S1: "bread c 1 (of_nat a) S = Inr (i, S1)" "fctx c m pr S1" "k_env S1 = e1" using i(1) by (auto simp: gives_def)
  have l: "like ?e e1" "cache_ok ?pid {i} e1" using I by auto
  have p: "pinned e1 x = pinned ?e x" for x using l(1) by (simp add: like_def)
  have "\<exists>k < NBUF. k \<notin> {i} \<and> \<not> b_dirty (buf_at e1 k)" if "slot e1 b = None"
    using that room(2) pinned_slot [of e1 b] room_card [OF l(2)] by (auto simp: p)
  then obtain j e2 where j: "gives c m pr j e2 (bread c 1 (of_nat b) S1)" "got ?pid {i} b e1 j e2"
    using bread_gives [of c m pr S1 "{i}" b] S1 l ab I by (auto simp: like_def)
  note J = j(2) [unfolded got_def]
  obtain S2 where S2: "bread c 1 (of_nat b) S1 = Inr (j, S2)" "fctx c m pr S2" "k_env S2 = e2" using j(1) by (auto simp: gives_def)
  have "blk e2 i = a" "cache_ok ?pid {i, j} e2" "i \<noteq> j" using I J by (auto simp: insert_commute)
  moreover have "like ?e e2" using l(1) J like_trans by blast
  ultimately show ?thesis using S1 S2 J l(1) by (auto simp: like_def)
qed

text \<open>What the routines of the log rely on: the log lies on the disk, with \<open>n\<close> blocks \<open>bs\<close> noted in the header.\<close>

definition log_at :: "nat \<Rightarrow> nat \<Rightarrow> nat list \<Rightarrow> log \<Rightarrow> bool" where
  "log_at L sz bs l \<longleftrightarrow> l_dev l = 1 \<and> l_start l = int L \<and> l_size l = int sz \<and> l_n l = int (length bs) \<and> length (l_block l) = LOGSIZE
     \<and> take (length bs) (l_block l) = map int bs \<and> length bs \<le> LOGSIZE \<and> length bs < sz"

definition bs_ok :: "nat \<Rightarrow> nat \<Rightarrow> nat list \<Rightarrow> nat \<Rightarrow> bool" where
  "bs_ok L sz bs d \<longleftrightarrow> distinct bs \<and> L + sz \<le> d \<and> (\<forall>b \<in> set bs. b < d \<and> (b < L \<or> L + sz \<le> b))"

lemma log_at_block:
  assumes "log_at L sz bs l" "t < length bs"
  shows "log_block l t = Inr (int (bs ! t))" "t < LOGSIZE"
proof -
  have "take (length bs) (l_block l) ! t = int (bs ! t)" using assms by (simp add: log_at_def)
  then show "log_block l t = Inr (int (bs ! t))" "t < LOGSIZE" using assms by (auto simp: log_at_def log_block_def)
qed

lemma log_blocks:
  assumes "log_at L sz bs l" "bs_ok L sz bs d" "t < length bs"
  shows "bs ! t < d" "L + 1 + t \<noteq> bs ! t" "L + 1 + t < d"
proof -
  have "bs ! t < d \<and> (bs ! t < L \<or> L + sz \<le> bs ! t)" using assms(2) nth_mem [OF assms(3)] unfolding bs_ok_def by blast
  moreover have "t < sz" "L + sz \<le> d" "length bs < sz" using assms by (auto simp: bs_ok_def log_at_def)
  ultimately show "bs ! t < d" "L + 1 + t \<noteq> bs ! t" "L + 1 + t < d" using assms(3) by auto
qed

lemma install_one_ends:
  assumes ctx: "fctx c m pr S" and ok: "cache_ok (p_pid pr) {} (k_env S)" and l: "log_at L sz bs (f_log (k_env S))" "bs_ok L sz bs (length (f_disk (k_env S)))"
    and t: "t < length bs" and room: "card {b. pinned (k_env S) b} < NBUF" "pinned (k_env S) (bs ! t) \<or> Suc (card {b. pinned (k_env S) b}) < NBUF"
  shows "\<exists>e'. ends c m pr e' (install_one c t S) \<and> eff (p_pid pr) (k_env S) [(bs ! t, content (k_env S) (L + 1 + t))] e'"
proof -
  let ?e = "k_env S"
  have b: "bs ! t < length (f_disk ?e)" "L + 1 + t \<noteq> bs ! t" "L + 1 + t < length (f_disk ?e)"
    using log_blocks [OF l t] by auto
  have w: "word_of_int (l_dev (f_log ?e)) = (1 :: 32 word)" "word_of_int (l_start (f_log ?e) + int t + 1) = (of_nat (L + 1 + t) :: 32 word)"
    using l(1) by (simp_all add: log_at_def algebra_simps)
  obtain i S1 j S2 where R: "bread c 1 (of_nat (L + 1 + t)) S = Inr (i, S1)" "bread c 1 (of_nat (bs ! t)) S1 = Inr (j, S2)" "fctx c m pr S2" "i \<noteq> j"
    "cache_ok (p_pid pr) {i, j} (k_env S2)" "like ?e (k_env S2)" "blk (k_env S2) i = L + 1 + t" "blk (k_env S2) j = bs ! t"
    using two_reads [OF ctx ok b(2,3,1) room] by blast
  have "pinned (k_env S2) (L + 1 + t) \<or> content (k_env S2) (L + 1 + t) = f_disk (k_env S2) ! (L + 1 + t)"
    using R(6) calm_content [OF ok, of "L + 1 + t"] by (auto simp: like_def)
  then obtain e' where e': "ends c m pr e' (bindE (bwrite c j (upd_env (\<lambda>e. upd_buf j (\<lambda>b. b\<lparr>b_data := b_data (buf_at e i)\<rparr>) e) S2)) (\<lambda>S3. bindE (brelse c i S3) (brelse c j)))"
    "eff (p_pid pr) (k_env S2) [(bs ! t, content (k_env S2) (L + 1 + t))] e'"
    using copy_tail [OF R(3,5,4)] R(7,8) by auto
  have "content (k_env S2) (L + 1 + t) = content ?e (L + 1 + t)" using R(6) by (simp add: like_def)
  then have "eff (p_pid pr) ?e [(bs ! t, content ?e (L + 1 + t))] e'" using eff_like [OF R(6) e'(2)] by simp
  moreover have "ends c m pr e' (install_one c t S)"
    unfolding install_one_def Let_def w using e'(1) R(1,2) log_at_block [OF l(1) t] by simp
  ultimately show ?thesis by blast
qed

lemma write_one_ends:
  assumes ctx: "fctx c m pr S" and ok: "cache_ok (p_pid pr) {} (k_env S)" and l: "log_at L sz bs (f_log (k_env S))" "bs_ok L sz bs (length (f_disk (k_env S)))"
    and t: "t < length bs" and room: "card {b. pinned (k_env S) b} < NBUF" "pinned (k_env S) (bs ! t)"
  shows "\<exists>e'. ends c m pr e' (write_one c t S) \<and> eff (p_pid pr) (k_env S) [(L + 1 + t, content (k_env S) (bs ! t))] e'"
proof -
  let ?e = "k_env S"
  have b: "bs ! t < length (f_disk ?e)" "L + 1 + t \<noteq> bs ! t" "L + 1 + t < length (f_disk ?e)"
    using log_blocks [OF l t] by auto
  have w: "word_of_int (l_dev (f_log ?e)) = (1 :: 32 word)" "word_of_int (l_start (f_log ?e) + int t + 1) = (of_nat (L + 1 + t) :: 32 word)"
    using l(1) by (simp_all add: log_at_def algebra_simps)
  obtain i S1 j S2 where R: "bread c 1 (of_nat (L + 1 + t)) S = Inr (i, S1)" "bread c 1 (of_nat (bs ! t)) S1 = Inr (j, S2)" "fctx c m pr S2" "i \<noteq> j"
    "cache_ok (p_pid pr) {i, j} (k_env S2)" "like ?e (k_env S2)" "blk (k_env S2) i = L + 1 + t" "blk (k_env S2) j = bs ! t"
    using two_reads [OF ctx ok b(2,3,1) room(1)] room(2) by blast
  have "pinned (k_env S2) (bs ! t)" using R(6) room(2) by (auto simp: like_def)
  then obtain e' where e': "ends c m pr e' (bindE (bwrite c i (upd_env (\<lambda>e. upd_buf i (\<lambda>b. b\<lparr>b_data := b_data (buf_at e j)\<rparr>) e) S2)) (\<lambda>S3. bindE (brelse c j S3) (brelse c i)))"
    "eff (p_pid pr) (k_env S2) [(L + 1 + t, content (k_env S2) (bs ! t))] e'"
    using copy_tail [OF R(3), of j i] R(4,5,7,8) by (auto simp: insert_commute)
  have "content (k_env S2) (bs ! t) = content ?e (bs ! t)" using R(6) by (simp add: like_def)
  then have "eff (p_pid pr) ?e [(L + 1 + t, content ?e (bs ! t))] e'" using eff_like [OF R(6) e'(2)] by simp
  moreover have "ends c m pr e' (write_one c t S)"
    unfolding write_one_def Let_def w using e'(1) R(1,2) log_at_block [OF l(1) t] by simp
  ultimately show ?thesis by blast
qed

section \<open>The loops\<close>

definition log_writes :: "nat \<Rightarrow> nat list \<Rightarrow> (nat \<Rightarrow> block) \<Rightarrow> nat list \<Rightarrow> (nat \<times> block) list" where
  "log_writes L bs f ts = map (\<lambda>t. (L + 1 + t, f (bs ! t))) ts"

definition home_writes :: "nat \<Rightarrow> nat list \<Rightarrow> (nat \<Rightarrow> block) \<Rightarrow> nat list \<Rightarrow> (nat \<times> block) list" where
  "home_writes L bs f ts = map (\<lambda>t. (bs ! t, f (L + 1 + t))) ts"

text \<open>The log itself is not in the cache.\<close>

lemma eff_log: "eff pid e W e' \<Longrightarrow> f_log e' = f_log e" for e :: "'x logged_scheme"
  by (cases e, cases e') (simp add: eff_def logged.defs)

lemma fewer_pins:
  assumes "cache_ok pid H e" "\<And>b. pinned e' b \<Longrightarrow> pinned e b"
  shows "card {b. pinned e' b} \<le> card {b. pinned e b}"
proof -
  have "finite {b. pinned e b}" unfolding pinned_image [OF assms(1)] by simp
  then show ?thesis using assms(2) by (intro card_mono) auto
qed

lemma write_loop_ends:
  assumes "fctx c m pr S" "cache_ok (p_pid pr) {} (k_env S)" "log_at L sz bs (f_log (k_env S))" "bs_ok L sz bs (length (f_disk (k_env S)))"
    and "card {b. pinned (k_env S) b} < NBUF" "\<forall>b \<in> set bs. pinned (k_env S) b" "set ts \<subseteq> {..<length bs}"
  shows "\<exists>e'. ends c m pr e' (write_loop c ts S) \<and> eff (p_pid pr) (k_env S) (log_writes L bs (content (k_env S)) ts) e'"
  using assms
proof (induction ts arbitrary: S)
  case Nil
  then show ?case using eff_refl by (fastforce simp: ends_def log_writes_def)
next
  case (Cons t ts)
  have t: "t < length bs" using Cons.prems(7) by simp
  have p: "pinned (k_env S) (bs ! t)" using Cons.prems(6) t by simp
  obtain e1 where e1: "ends c m pr e1 (write_one c t S)" "eff (p_pid pr) (k_env S) [(L + 1 + t, content (k_env S) (bs ! t))] e1"
    using write_one_ends [OF Cons.prems(1-4) t Cons.prems(5) p] by blast
  obtain S1 where S1: "write_one c t S = Inr S1" "fctx c m pr S1" "k_env S1 = e1" using e1(1) by (auto simp: ends_def)
  have out: "L + 1 + t \<notin> set bs" using Cons.prems(3,4) t by (fastforce simp: bs_ok_def log_at_def)
  have "\<exists>e'. ends c m pr e' (write_loop c ts S1) \<and> eff (p_pid pr) e1 (log_writes L bs (content e1) ts) e'"
  proof (rule Cons.IH [OF S1(2), unfolded S1(3)])
    show "card {b. pinned e1 b} < NBUF"
      using Cons.prems(5) fewer_pins [OF Cons.prems(2), of e1] e1(2) by (auto simp: eff_def)
  qed (use Cons.prems e1(2) out eff_log [OF e1(2)] in \<open>auto simp: eff_def\<close>)
  then obtain e' where e': "ends c m pr e' (write_loop c ts S1)" "eff (p_pid pr) e1 (log_writes L bs (content e1) ts) e'" by blast
  have "content e1 (bs ! u) = content (k_env S) (bs ! u)" if "u \<in> set ts" for u
  proof -
    have "bs ! u \<in> set bs" using that Cons.prems(7) by auto
    then have "bs ! u \<noteq> L + 1 + t" using out by metis
    then show ?thesis using e1(2) by (simp add: eff_def)
  qed
  then have w: "log_writes L bs (content e1) ts = log_writes L bs (content (k_env S)) ts" by (simp add: log_writes_def)
  have "eff (p_pid pr) (k_env S) (log_writes L bs (content (k_env S)) (t # ts)) e'"
    using eff_trans [OF e1(2) e'(2) [unfolded w]] by (simp add: log_writes_def)
  then show ?case using e'(1) S1(1) by auto
qed

lemma fewer_pins_strict:
  assumes "cache_ok pid H e" "\<And>b. pinned e' b \<Longrightarrow> pinned e b" "pinned e b" "\<not> pinned e' b"
  shows "card {b. pinned e' b} < card {b. pinned e b}"
proof -
  have "finite {b. pinned e b}" unfolding pinned_image [OF assms(1)] by simp
  moreover have "{b. pinned e' b} \<subset> {b. pinned e b}" using assms(2-4) by blast
  ultimately show ?thesis by (rule psubset_card_mono)
qed

lemma install_loop_ends:
  assumes "fctx c m pr S" "cache_ok (p_pid pr) {} (k_env S)" "log_at L sz bs (f_log (k_env S))" "bs_ok L sz bs (length (f_disk (k_env S)))"
    and "card {b. pinned (k_env S) b} < NBUF" "Suc (card {b. pinned (k_env S) b}) < NBUF \<or> (\<forall>t \<in> set ts. pinned (k_env S) (bs ! t))"
    and "set ts \<subseteq> {..<length bs}"
  shows "\<exists>e'. ends c m pr e' (install_loop c ts S) \<and> eff (p_pid pr) (k_env S) (home_writes L bs (content (k_env S)) ts) e'"
  using assms
proof (induction ts arbitrary: S)
  case Nil
  then show ?case using eff_refl by (fastforce simp: ends_def home_writes_def)
next
  case (Cons t ts)
  have t: "t < length bs" using Cons.prems(7) by simp
  have p: "pinned (k_env S) (bs ! t) \<or> Suc (card {b. pinned (k_env S) b}) < NBUF" using Cons.prems(6) by auto
  obtain e1 where e1: "ends c m pr e1 (install_one c t S)" "eff (p_pid pr) (k_env S) [(bs ! t, content (k_env S) (L + 1 + t))] e1"
    using install_one_ends [OF Cons.prems(1-4) t Cons.prems(5) p] by blast
  obtain S1 where S1: "install_one c t S = Inr S1" "fctx c m pr S1" "k_env S1 = e1" using e1(1) by (auto simp: ends_def)
  have pin: "pinned e1 b \<Longrightarrow> pinned (k_env S) b" "\<not> pinned e1 (bs ! t)" for b using e1(2) by (auto simp: eff_def)
  have "card {b. pinned e1 b} \<le> card {b. pinned (k_env S) b}" by (rule fewer_pins [OF Cons.prems(2)]) (rule pin(1))
  moreover have "card {b. pinned e1 b} < card {b. pinned (k_env S) b}" if "pinned (k_env S) (bs ! t)"
    by (rule fewer_pins_strict [OF Cons.prems(2) _ that pin(2)]) (rule pin(1))
  ultimately have less: "Suc (card {b. pinned e1 b}) < NBUF" using p Cons.prems(5) by linarith
  have "\<exists>e'. ends c m pr e' (install_loop c ts S1) \<and> eff (p_pid pr) e1 (home_writes L bs (content e1) ts) e'"
    by (rule Cons.IH [OF S1(2), unfolded S1(3)]) (use Cons.prems e1(2) less eff_log [OF e1(2)] in \<open>auto simp: eff_def\<close>)
  then obtain e' where e': "ends c m pr e' (install_loop c ts S1)" "eff (p_pid pr) e1 (home_writes L bs (content e1) ts) e'" by blast
  have "content e1 (L + 1 + u) = content (k_env S) (L + 1 + u)" if "u \<in> set ts" for u
  proof -
    have "u < length bs" using that Cons.prems(7) by auto
    moreover have "bs ! t < L \<or> L + sz \<le> bs ! t" using Cons.prems(4) nth_mem [OF t] unfolding bs_ok_def by blast
    ultimately have "L + 1 + u \<noteq> bs ! t" using Cons.prems(3) by (auto simp: log_at_def)
    then show ?thesis using e1(2) by (simp add: eff_def)
  qed
  then have w: "home_writes L bs (content e1) ts = home_writes L bs (content (k_env S)) ts" by (simp add: home_writes_def)
  have "eff (p_pid pr) (k_env S) (home_writes L bs (content (k_env S)) (t # ts)) e'"
    using eff_trans [OF e1(2) e'(2) [unfolded w]] by (simp add: home_writes_def)
  then show ?case using e'(1) S1(1) by auto
qed

section \<open>The header\<close>

lemma splice_nth: "i + length ys \<le> length xs \<Longrightarrow> splice i ys xs ! j = (if i \<le> j \<and> j < i + length ys then ys ! (j - i) else xs ! j)"
  by (auto simp: splice_def nth_append nth_drop)

lemma length_splice: "i + length ys \<le> length xs \<Longrightarrow> length (splice i ys xs) = length xs"
  by (simp add: splice_def)

unbundle bit_operations_syntax

lemma bytes32: "push_bit 24 (ucast (ucast (drop_bit 24 w) :: byte)) OR push_bit 16 (ucast (ucast (drop_bit 16 w) :: byte))
    OR push_bit 8 (ucast (ucast (drop_bit 8 w) :: byte)) OR ucast (ucast w :: byte) = (w :: 32 word)"
proof -
  have "load32 0 (store32 0 w (\<lambda>_. 0)) = w" by (rule load_store32)
  then show ?thesis by (simp add: load32_def store32_def)
qed

lemma get_put32:
  assumes "j + 4 \<le> length xs"
  shows "get32 j (put32 j w xs) = w" "i + 4 \<le> j \<or> j + 4 \<le> i \<Longrightarrow> get32 i (put32 j w xs) = get32 i xs" "length (put32 j w xs) = length xs"
  using assms bytes32 [of w] by (auto simp: get32_def put32_def splice_nth length_splice)

definition head_is :: "nat list \<Rightarrow> block \<Rightarrow> bool" where
  "head_is bs xs \<longleftrightarrow> length xs = BSIZE \<and> get32 0 xs = of_nat (length bs) \<and> (\<forall>i < length bs. get32 (4 + 4 * i) xs = of_nat (bs ! i))"

lemma put_blocks_spec:
  assumes "log_at L sz bs l" "set ts \<subseteq> {..<length bs}" "length xs = BSIZE"
  shows "\<exists>ys. put_blocks ts l xs = Inr ys \<and> length ys = BSIZE \<and> get32 0 ys = get32 0 xs
    \<and> (\<forall>i. get32 (4 + 4 * i) ys = (if i \<in> set ts then of_nat (bs ! i) else get32 (4 + 4 * i) xs))"
  using assms(2,3)
proof (induction ts arbitrary: xs)
  case (Cons t ts)
  have t: "t < length bs" using Cons.prems(1) by simp
  then have l: "log_block l t = Inr (int (bs ! t))" "t < LOGSIZE" using log_at_block [OF assms(1) t] by auto
  then have s: "4 + 4 * t + 4 \<le> length xs" using Cons.prems(2) by (simp add: LOGSIZE_def MAXOPBLOCKS_def BSIZE_def)
  note P = get_put32 [OF s]
  obtain ys where ys: "put_blocks ts l (put32 (4 + 4 * t) (of_nat (bs ! t)) xs) = Inr ys" "length ys = BSIZE"
    "get32 0 ys = get32 0 (put32 (4 + 4 * t) (of_nat (bs ! t)) xs)"
    "\<forall>i. get32 (4 + 4 * i) ys = (if i \<in> set ts then of_nat (bs ! i) else get32 (4 + 4 * i) (put32 (4 + 4 * t) (of_nat (bs ! t)) xs))"
    using Cons.IH [of "put32 (4 + 4 * t) (of_nat (bs ! t)) xs"] Cons.prems P(3) by auto
  have "get32 (4 + 4 * i) (put32 (4 + 4 * t) (of_nat (bs ! t)) xs) = get32 (4 + 4 * i) xs" if "i \<noteq> t" for i
    using P(2) [of "4 + 4 * i"] that by (cases "i < t") auto
  then show ?case using ys l P(1) P(2) [of 0] by auto
qed simp

lemma head_blocks_spec:
  assumes "set ts \<subseteq> {..<length (l_block l)}"
  shows "\<exists>ws. head_blocks ts xs l = Inr (l\<lparr>l_block := ws\<rparr>) \<and> length ws = length (l_block l)
    \<and> (\<forall>i < length ws. ws ! i = (if i \<in> set ts then sint (get32 (4 + 4 * i) xs) else l_block l ! i))"
  using assms
proof (induction ts arbitrary: l)
  case Nil
  then show ?case by (intro exI [of _ "l_block l"]) simp
next
  case (Cons t ts)
  obtain ws where "head_blocks ts xs (l\<lparr>l_block := (l_block l)[t := sint (get32 (4 + 4 * t) xs)]\<rparr>) = Inr (l\<lparr>l_block := ws\<rparr>)"
    "length ws = length (l_block l)"
    "\<forall>i < length ws. ws ! i = (if i \<in> set ts then sint (get32 (4 + 4 * i) xs) else (l_block l)[t := sint (get32 (4 + 4 * t) xs)] ! i)"
    using Cons.IH [of "l\<lparr>l_block := (l_block l)[t := sint (get32 (4 + 4 * t) xs)]\<rparr>"] Cons.prems by auto
  then show ?case using Cons.prems by (intro exI [of _ ws]) (auto simp: nth_list_update)
qed

text \<open>Reading a block and giving it back; reading, changing and writing one.\<close>

lemma read_block:
  assumes ctx: "fctx c m pr S" and ok: "cache_ok (p_pid pr) {} (k_env S)" and b: "b < length (f_disk (k_env S))"
    and room: "card {b. pinned (k_env S) b} < NBUF"
  shows "\<exists>i S1. bread c 1 (of_nat b) S = Inr (i, S1) \<and> fctx c m pr S1 \<and> like (k_env S) (k_env S1) \<and> cache_ok (p_pid pr) {i} (k_env S1)
    \<and> blk (k_env S1) i = b \<and> b_data (buf_at (k_env S1) i) = content (k_env S) b"
  using bread_gives [OF ctx ok b] room_card [OF ok] room by (auto simp: gives_def got_def)

lemma release_block:
  assumes ctx: "fctx c m pr S" and ok: "cache_ok (p_pid pr) {i} (k_env S)"
    and safe: "pinned (k_env S) (blk (k_env S) i) \<or> content (k_env S) (blk (k_env S) i) = f_disk (k_env S) ! blk (k_env S) i"
  shows "\<exists>e'. ends c m pr e' (brelse c i S) \<and> cache_ok (p_pid pr) {} e' \<and> like (k_env S) e'"
  using brelse_ends [OF ctx ok _ safe] by auto

lemma write_block:
  assumes ctx: "fctx c m pr S" and ok: "cache_ok (p_pid pr) {i} (k_env S)" and x: "length xs = BSIZE"
  shows "\<exists>e'. ends c m pr e' (bindE (bwrite c i (upd_env (upd_buf i (\<lambda>b. b\<lparr>b_data := xs\<rparr>)) S)) (brelse c i))
    \<and> eff (p_pid pr) (k_env S) [(blk (k_env S) i, xs)] e'"
proof -
  let ?e = "k_env S"
  define e1 where "e1 = upd_buf i (\<lambda>b. b\<lparr>b_data := xs\<rparr>) ?e"
  define S1 where "S1 = upd_env (upd_buf i (\<lambda>b. b\<lparr>b_data := xs\<rparr>)) S"
  have S1: "fctx c m pr S1" "k_env S1 = e1" using ctx by (simp_all add: S1_def e1_def)
  note E = edit_ok [OF ok, of i xs, simplified, OF x, folded e1_def] and D = heldD [OF ok, of i, simplified]
  have at: "b_data (buf_at e1 i) = xs" "blk e1 i = blk ?e i" using D(2) by (simp_all add: e1_def buf_at_upd)
  obtain e2 where e2: "ends c m pr e2 (bwrite c i S1)" "written (p_pid pr) {i} i e1 e2" using bwrite_ends [OF S1(1)] S1(2) E(1) by auto
  note W = e2(2) [unfolded written_def at]
  obtain S2 where S2: "bwrite c i S1 = Inr S2" "fctx c m pr S2" "k_env S2 = e2" using e2(1) by (auto simp: ends_def)
  have "content e2 (blk e2 i) = f_disk e2 ! blk e2 i" using W D(1,4) E(2) at by (simp add: e1_def)
  then obtain e3 where e3: "ends c m pr e3 (brelse c i S2)" "cache_ok (p_pid pr) {} e3" "like e2 e3"
    using release_block [OF S2(2), of i] S2(3) W by auto
  have "eff (p_pid pr) ?e [(blk ?e i, xs)] e3" using e3 W E(2,3) by (auto simp: eff_def like_def e1_def fun_eq_iff)
  then show ?thesis using e3(1) S2(1) by (auto simp: S1_def)
qed

lemma write_head_ends:
  assumes ctx: "fctx c m pr S" and ok: "cache_ok (p_pid pr) {} (k_env S)" and l: "log_at L sz bs (f_log (k_env S))" and L: "L < length (f_disk (k_env S))"
    and room: "card {b. pinned (k_env S) b} < NBUF"
  shows "\<exists>e' h. ends c m pr e' (write_head c S) \<and> eff (p_pid pr) (k_env S) [(L, h)] e' \<and> head_is bs h"
proof -
  let ?l = "f_log (k_env S)"
  have w: "word_of_int (l_dev ?l) = (1 :: 32 word)" "word_of_int (l_start ?l) = (of_nat L :: 32 word)" "nat (l_n ?l) = length bs"
    using l by (simp_all add: log_at_def)
  obtain i S1 where R: "bread c 1 (of_nat L) S = Inr (i, S1)" "fctx c m pr S1" "like (k_env S) (k_env S1)" "cache_ok (p_pid pr) {i} (k_env S1)"
    "blk (k_env S1) i = L" using read_block [OF ctx ok L room] by blast
  have x: "length (b_data (buf_at (k_env S1) i)) = BSIZE" using heldD(9) [OF R(4)] by simp
  then have s: "0 + 4 \<le> length (b_data (buf_at (k_env S1) i))" by (simp add: BSIZE_def)
  note P = get_put32 [OF s]
  have ts: "set [0..<length bs] \<subseteq> {..<length bs}" by auto
  have n: "(word_of_int (l_n ?l) :: 32 word) = of_nat (length bs)" using l by (simp add: log_at_def)
  obtain ys where ys: "put_blocks [0..<length bs] ?l (put32 0 (of_nat (length bs)) (b_data (buf_at (k_env S1) i))) = Inr ys" "length ys = BSIZE"
    "get32 0 ys = of_nat (length bs)" "\<forall>i < length bs. get32 (4 + 4 * i) ys = of_nat (bs ! i)"
    using put_blocks_spec [OF l ts, of "put32 0 (of_nat (length bs)) (b_data (buf_at (k_env S1) i))"] P(1,3) x by auto
  obtain e' where e': "ends c m pr e' (bindE (bwrite c i (upd_env (upd_buf i (\<lambda>b. b\<lparr>b_data := ys\<rparr>)) S1)) (brelse c i))"
    "eff (p_pid pr) (k_env S1) [(L, ys)] e'" using write_block [OF R(2,4) ys(2)] R(5) by auto
  have "ends c m pr e' (write_head c S)" unfolding write_head_def Let_def w n using R(1) ys(1) e'(1) by simp
  then show ?thesis using eff_like [OF R(3) e'(2)] ys by (auto simp: head_is_def)
qed

end
