(* ===== verification/Crash.thy ===== *)
theory Crash
  imports LogFacts
begin

text \<open>
  Commit and recovery as sequences of block writes, and what a crash in the middle leaves: after recovery the disk holds, outside
  the log, either none or all of the blocks of the transaction.
\<close>

section \<open>The in-memory log\<close>

lemma upd_log_view [simp]:
  "cache_ok pid H (upd_log f e) = cache_ok pid H e" "content (upd_log f e) = content e" "pinned (upd_log f e) = pinned e"
  "f_disk (upd_log f e) = f_disk e" "f_writes (upd_log f e) = f_writes e" "f_buf (upd_log f e) = f_buf e" "f_log (upd_log f e) = f (f_log e)"
proof -
  show "f_disk (upd_log f e) = f_disk e" "f_writes (upd_log f e) = f_writes e" "f_log (upd_log f e) = f (f_log e)" by (simp_all add: upd_log_def)
  have b: "f_buf (upd_log f e) = f_buf e" "f_lru (upd_log f e) = f_lru e" "f_disk (upd_log f e) = f_disk e" by (simp_all add: upd_log_def)
  show "f_buf (upd_log f e) = f_buf e" by (rule b(1))
  show "cache_ok pid H (upd_log f e) = cache_ok pid H e" by (simp add: cache_ok_def b)
  show "content (upd_log f e) = content e" "pinned (upd_log f e) = pinned e" 
    by (simp_all add: content_def pinned_def slot_def b fun_eq_iff split: option.split)
qed

lemma like_log: "like e e' \<Longrightarrow> f_log e' = f_log e" for e :: "'x logged_scheme"
  by (cases e, cases e') (simp add: like_def logged.defs)

section \<open>Commit\<close>

definition new_writes :: "nat list \<Rightarrow> (nat \<Rightarrow> block) \<Rightarrow> (nat \<times> block) list" where
  "new_writes bs f = map (\<lambda>b. (b, f b)) bs"

definition trans_writes :: "nat \<Rightarrow> nat list \<Rightarrow> (nat \<Rightarrow> block) \<Rightarrow> block \<Rightarrow> block \<Rightarrow> (nat \<times> block) list" where
  "trans_writes L bs f h1 h0 = log_writes L bs f [0..<length bs] @ [(L, h1)] @ new_writes bs f @ [(L, h0)]"

lemma log_writes_keys: "fst ` set (log_writes L bs f ts) = (\<lambda>t. L + 1 + t) ` set ts" "distinct ts \<Longrightarrow> distinct (map fst (log_writes L bs f ts))"
  by (auto simp: log_writes_def distinct_map inj_on_def image_image)

lemma logged_content:
  assumes "t < length bs"
  shows "after (log_writes L bs f [0..<length bs]) g (L + 1 + t) = f (bs ! t)"
proof (rule after_in)
  show "distinct (map fst (log_writes L bs f [0..<length bs]))" using log_writes_keys(2) by simp
  show "(L + 1 + t, f (bs ! t)) \<in> set (log_writes L bs f [0..<length bs])" using assms by (auto simp: log_writes_def)
qed

lemma home_new:
  assumes "\<And>t. t < length bs \<Longrightarrow> g (L + 1 + t) = f (bs ! t)"
  shows "home_writes L bs g [0..<length bs] = new_writes bs f"
proof -
  have "home_writes L bs g [0..<length bs] = map (\<lambda>t. (bs ! t, f (bs ! t))) [0..<length bs]" using assms by (simp add: home_writes_def)
  also have "\<dots> = new_writes bs f" by (rule nth_equalityI) (simp_all add: new_writes_def)
  finally show ?thesis .
qed

definition no_pins :: "'x bcache_scheme \<Rightarrow> bool" where
  "no_pins e \<longleftrightarrow> (\<forall>b. \<not> pinned e b)"

lemma no_pins_card: "no_pins e \<Longrightarrow> card {b. pinned e b} = 0"
  by (simp add: no_pins_def)

lemma commit_ends:
  assumes ctx: "fctx c m pr S" and ok: "cache_ok (p_pid pr) {} (k_env S)" and l: "log_at L sz bs (f_log (k_env S))"
    and b: "bs_ok L sz bs (length (f_disk (k_env S)))" "bs \<noteq> []" "length bs < NBUF" and pins: "\<And>b. pinned (k_env S) b \<longleftrightarrow> b \<in> set bs"
  shows "\<exists>e' h1 h0. ends c m pr e' (commit c S) \<and> head_is bs h1 \<and> head_is [] h0 \<and> cache_ok (p_pid pr) {} e' \<and> no_pins e' \<and> log_at L sz [] (f_log e')
    \<and> f_disk e' = disk_after (trans_writes L bs (content (k_env S)) h1 h0) (f_disk (k_env S))
    \<and> f_writes e' = f_writes (k_env S) @ trans_writes L bs (content (k_env S)) h1 h0"
proof -
  let ?e = "k_env S" and ?pid = "p_pid pr" and ?n = "length bs"
  have ts: "set [0..<?n] \<subseteq> {..<?n}" by auto
  have n: "nat (l_n (f_log ?e)) = ?n" "0 < l_n (f_log ?e)" "L < length (f_disk ?e)" using l b(1,2) by (auto simp: log_at_def bs_ok_def)
  have card: "card {b. pinned ?e b} < NBUF" using b(1,3) distinct_card [of bs] by (simp add: pins bs_ok_def)
  obtain e1 where e1: "ends c m pr e1 (write_loop c [0..<?n] S)" "eff ?pid ?e (log_writes L bs (content ?e) [0..<?n]) e1"
    using write_loop_ends [OF ctx ok l b(1) card _ ts] pins by blast
  obtain S1 where S1: "write_log c S = Inr S1" "fctx c m pr S1" "k_env S1 = e1" using e1(1) n(1) by (auto simp: ends_def write_log_def)
  have out: "b \<notin> fst ` set (log_writes L bs (content ?e) [0..<?n])" if "b \<in> set bs" for b
  proof -
    have "b < L \<or> L + sz \<le> b" "?n < sz" using that b(1) l by (auto simp: bs_ok_def log_at_def)
    then show ?thesis unfolding log_writes_keys by auto
  qed
  have E1: "cache_ok ?pid {} e1" "f_log e1 = f_log ?e" "length (f_disk e1) = length (f_disk ?e)" "\<And>b. pinned e1 b = pinned ?e b"
    using e1(2) eff_log [OF e1(2)] out pins by (auto simp: eff_def)
  obtain e2 h1 where e2: "ends c m pr e2 (write_head c S1)" "eff ?pid e1 [(L, h1)] e2" "head_is bs h1"
    using write_head_ends [OF S1(2), of L sz bs] S1(3) E1 l n(3) card by auto
  obtain S2 where S2: "write_head c S1 = Inr S2" "fctx c m pr S2" "k_env S2 = e2" using e2(1) by (auto simp: ends_def)
  have L: "L \<notin> set bs" using b(1) l by (auto simp: bs_ok_def log_at_def)
  have E2: "cache_ok ?pid {} e2" "f_log e2 = f_log ?e" "length (f_disk e2) = length (f_disk ?e)" "\<And>b. pinned e2 b = pinned ?e b"
    using e2(2) eff_log [OF e2(2)] E1 pins L by (auto simp: eff_def)
  have c2: "content e2 (L + 1 + t) = content ?e (bs ! t)" if "t < ?n" for t
    using e1(2) e2(2) logged_content [OF that, of L "content ?e"] by (auto simp: eff_def)
  have "\<exists>e'. ends c m pr e' (install_loop c [0..<?n] S2) \<and> eff ?pid e2 (home_writes L bs (content e2) [0..<?n]) e'"
    using install_loop_ends [OF S2(2), of L sz bs "[0..<?n]"] ts S2(3) E2 l b(1) card pins by auto
  then obtain e3 where e3: "ends c m pr e3 (install_loop c [0..<?n] S2)" "eff ?pid e2 (new_writes bs (content ?e)) e3"
    using home_new [of bs "content e2" L "content ?e"] c2 by auto
  obtain S3 where S3: "install_trans c S2 = Inr S3" "fctx c m pr S3" "k_env S3 = e3"
    using e3(1) S2(3) E2(2) n(1) by (auto simp: ends_def install_trans_def)
  have E3: "cache_ok ?pid {} e3" "f_log e3 = f_log ?e" "length (f_disk e3) = length (f_disk ?e)" "no_pins e3"
    using e3(2) eff_log [OF e3(2)] E2 pins by (auto simp: eff_def no_pins_def new_writes_def image_image)
  define S4 where "S4 = upd_env (upd_log (\<lambda>l. l\<lparr>l_n := 0\<rparr>)) S3"
  have S4: "fctx c m pr S4" "k_env S4 = upd_log (\<lambda>l. l\<lparr>l_n := 0\<rparr>) e3" using S3(2,3) by (simp_all add: S4_def)
  have l0: "log_at L sz [] (f_log (k_env S4))" using l E3(2) S4(2) by (auto simp: log_at_def)
  obtain e4 h0 where e4: "ends c m pr e4 (write_head c S4)" "eff ?pid (k_env S4) [(L, h0)] e4" "head_is [] h0"
    using write_head_ends [OF S4(1) _ l0] E3 n(3) no_pins_card [OF E3(4)] S4(2) by (auto simp: NBUF_def MAXOPBLOCKS_def)
  have "eff ?pid ?e (log_writes L bs (content ?e) [0..<?n] @ [(L, h1)] @ new_writes bs (content ?e)) e3"
    using eff_trans [OF e1(2) eff_trans [OF e2(2) e3(2)]] .
  then have "f_disk e4 = disk_after (trans_writes L bs (content ?e) h1 h0) (f_disk ?e)"
    "f_writes e4 = f_writes ?e @ trans_writes L bs (content ?e) h1 h0"
    using e4(2) S4(2) by (simp_all add: eff_def trans_writes_def)
  moreover have "ends c m pr e4 (commit c S)" using e4(1) S1(1) S2(1) S3(1) n(2) by (simp add: commit_def S4_def)
  moreover have "no_pins e4" "log_at L sz [] (f_log e4)" "cache_ok ?pid {} e4"
    using e4(2) E3(4) S4(2) eff_log [OF e4(2)] l0 by (auto simp: eff_def no_pins_def)
  ultimately show ?thesis using e2(3) e4(3) by blast
qed

section \<open>Recovery\<close>

definition log_base :: "nat \<Rightarrow> nat \<Rightarrow> log \<Rightarrow> bool" where
  "log_base L sz l \<longleftrightarrow> l_dev l = 1 \<and> l_start l = int L \<and> l_size l = int sz \<and> length (l_block l) = LOGSIZE"

lemma sint_small: "k < 2 ^ 31 \<Longrightarrow> sint (of_nat k :: 32 word) = int k"
  by (simp add: signed_of_nat signed_take_bit_int_eq_self)

lemma head_log_at:
  assumes "log_base L sz l" "head_is bs xs" "length bs \<le> LOGSIZE" "length bs < sz" "\<forall>b \<in> set bs. b < 2 ^ 31"
  shows "sint (get32 0 xs) = int (length bs)"
    "\<exists>l1. head_blocks [0..<length bs] xs (l\<lparr>l_n := int (length bs)\<rparr>) = Inr l1 \<and> log_at L sz bs l1"
proof -
  have n: "length bs < 2 ^ 31" using assms(3) by (simp add: LOGSIZE_def MAXOPBLOCKS_def)
  then show "sint (get32 0 xs) = int (length bs)" using assms(2) sint_small by (simp add: head_is_def)
  let ?l = "l\<lparr>l_n := int (length bs)\<rparr>"
  have "set [0..<length bs] \<subseteq> {..<length (l_block ?l)}" using assms(1,3) by (auto simp: log_base_def)
  from head_blocks_spec [OF this, of xs] obtain ws where ws: "head_blocks [0..<length bs] xs ?l = Inr (?l\<lparr>l_block := ws\<rparr>)"
    "length ws = LOGSIZE" "\<forall>i < length ws. ws ! i = (if i < length bs then sint (get32 (4 + 4 * i) xs) else l_block l ! i)"
    using assms(1) by (auto simp: log_base_def)
  have "take (length bs) ws = map int bs"
  proof (rule nth_equalityI)
    show "take (length bs) ws ! i = map int bs ! i" if "i < length (take (length bs) ws)" for i
      using that ws(2,3) assms(2,5) sint_small [of "bs ! i"] by (simp add: head_is_def)
  qed (use ws(2) assms(3) in simp)
  then have "log_at L sz bs (?l\<lparr>l_block := ws\<rparr>)" using assms ws(2) by (simp add: log_at_def log_base_def)
  then show "\<exists>l1. head_blocks [0..<length bs] xs ?l = Inr l1 \<and> log_at L sz bs l1" using ws(1) by blast
qed

lemma read_head_ends:
  assumes ctx: "fctx c m pr S" and ok: "cache_ok (p_pid pr) {} (k_env S)" "no_pins (k_env S)" and l: "log_base L sz (f_log (k_env S))"
    and h: "head_is bs (f_disk (k_env S) ! L)" "length bs \<le> LOGSIZE" "length bs < sz" "\<forall>b \<in> set bs. b < 2 ^ 31" "L < length (f_disk (k_env S))"
  shows "\<exists>e'. ends c m pr e' (read_head c S) \<and> cache_ok (p_pid pr) {} e' \<and> log_at L sz bs (f_log e')
    \<and> content e' = content (k_env S) \<and> no_pins e' \<and> f_disk e' = f_disk (k_env S)"
proof -
  let ?e = "k_env S" and ?pid = "p_pid pr"
  have w: "word_of_int (l_dev (f_log ?e)) = (1 :: 32 word)" "word_of_int (l_start (f_log ?e)) = (of_nat L :: 32 word)" using l by (simp_all add: log_base_def)
  obtain i S1 where R: "bread c 1 (of_nat L) S = Inr (i, S1)" "fctx c m pr S1" "like ?e (k_env S1)" "cache_ok ?pid {i} (k_env S1)"
    "blk (k_env S1) i = L" "b_data (buf_at (k_env S1) i) = content ?e L"
    using read_block [OF ctx ok(1) h(5)] no_pins_card [OF ok(2)] by (auto simp: NBUF_def MAXOPBLOCKS_def)
  have "content ?e L = f_disk ?e ! L" using calm_content [OF ok(1)] ok(2) by (simp add: no_pins_def)
  then have x: "b_data (buf_at (k_env S1) i) = f_disk ?e ! L" using R(6) by simp
  have lg: "f_log (k_env S1) = f_log ?e" using like_log [OF R(3)] .
  note H = head_log_at [OF l h(1-4)]
  obtain l1 where l1: "head_blocks [0..<length bs] (f_disk ?e ! L) ((f_log ?e)\<lparr>l_n := int (length bs)\<rparr>) = Inr l1" "log_at L sz bs l1" using H(2) by blast
  define S2 where "S2 = upd_env (upd_log (\<lambda>_. l1)) S1"
  have S2: "fctx c m pr S2" "cache_ok ?pid {i} (k_env S2)" using R(2,4) by (simp_all add: S2_def)
  have v: "content (k_env S2) = content ?e" "f_disk (k_env S2) = f_disk ?e" "pinned (k_env S2) = pinned ?e" "f_log (k_env S2) = l1" "blk (k_env S2) i = L"
    using R(3,5) by (auto simp: S2_def like_def)
  obtain e3 where e3: "ends c m pr e3 (brelse c i S2)" "cache_ok ?pid {} e3" "like (k_env S2) e3"
    using release_block [OF S2] v calm_content [OF ok(1), of L] ok(2) by (auto simp: no_pins_def)
  have "ends c m pr e3 (read_head c S)"
    unfolding read_head_def Let_def w using R(1) e3(1) l1(1) lg x H(1) by (simp add: S2_def)
  moreover have "content e3 = content ?e" "no_pins e3" "f_disk e3 = f_disk ?e" "log_at L sz bs (f_log e3)"
    using e3(3) v ok(2) l1(2) like_log [OF e3(3)] by (auto simp: like_def no_pins_def)
  ultimately show ?thesis using e3(2) by blast
qed

lemma recover_ends:
  assumes ctx: "fctx c m pr S" and ok: "cache_ok (p_pid pr) {} (k_env S)" "no_pins (k_env S)" and l: "log_base L sz (f_log (k_env S))"
    and h: "head_is bs (f_disk (k_env S) ! L)" "length bs \<le> LOGSIZE" "length bs < sz" "bs_ok L sz bs (length (f_disk (k_env S)))"
  shows "\<exists>e' h0. ends c m pr e' (recover_from_log c S) \<and> cache_ok (p_pid pr) {} e' \<and> no_pins e' \<and> log_at L sz [] (f_log e') \<and> head_is [] h0
    \<and> f_disk e' = disk_after (home_writes L bs ((!) (f_disk (k_env S))) [0..<length bs] @ [(L, h0)]) (f_disk (k_env S))"
proof -
  let ?e = "k_env S" and ?pid = "p_pid pr" and ?n = "length bs"
  have L: "L < length (f_disk ?e)" "\<forall>b \<in> set bs. b < 2 ^ 31" using h(3,4) cache_okD(5) [OF ok(1)] by (fastforce simp: bs_ok_def)+
  obtain e1 where e1: "ends c m pr e1 (read_head c S)" "cache_ok ?pid {} e1" "log_at L sz bs (f_log e1)" "content e1 = content ?e" "no_pins e1" "f_disk e1 = f_disk ?e"
    using read_head_ends [OF ctx ok l h(1-3) L(2,1)] by blast
  obtain S1 where S1: "read_head c S = Inr S1" "fctx c m pr S1" "k_env S1 = e1" using e1(1) by (auto simp: ends_def)
  have ts: "set [0..<?n] \<subseteq> {..<?n}" by auto
  have "\<exists>e'. ends c m pr e' (install_loop c [0..<?n] S1) \<and> eff ?pid e1 (home_writes L bs (content e1) [0..<?n]) e'"
    using install_loop_ends [OF S1(2), of L sz bs "[0..<?n]"] ts S1(3) e1 h(4) no_pins_card [OF e1(5)] by (auto simp: NBUF_def MAXOPBLOCKS_def)
  then obtain e2 where e2: "ends c m pr e2 (install_loop c [0..<?n] S1)" "eff ?pid e1 (home_writes L bs (content e1) [0..<?n]) e2" by blast
  obtain S2 where S2: "install_trans c S1 = Inr S2" "fctx c m pr S2" "k_env S2 = e2"
    using e2(1) S1(3) e1(3) by (auto simp: ends_def install_trans_def log_at_def)
  have "content e1 (L + 1 + t) = f_disk ?e ! (L + 1 + t)" for t using e1(4) calm_content [OF ok(1)] ok(2) by (simp add: no_pins_def)
  then have w: "home_writes L bs (content e1) [0..<?n] = home_writes L bs ((!) (f_disk ?e)) [0..<?n]" by (simp add: home_writes_def)
  define S3 where "S3 = upd_env (upd_log (\<lambda>l. l\<lparr>l_n := 0\<rparr>)) S2"
  have S3: "fctx c m pr S3" "k_env S3 = upd_log (\<lambda>l. l\<lparr>l_n := 0\<rparr>) e2" using S2(2,3) by (simp_all add: S3_def)
  have E2: "cache_ok ?pid {} e2" "no_pins e2" "f_disk e2 = disk_after (home_writes L bs ((!) (f_disk ?e)) [0..<?n]) (f_disk ?e)"
    using e2(2) e1(5,6) w by (auto simp: eff_def no_pins_def)
  have l0: "log_at L sz [] (f_log (k_env S3))" using e1(3) eff_log [OF e2(2)] S3(2) by (auto simp: log_at_def)
  obtain e4 h0 where e4: "ends c m pr e4 (write_head c S3)" "eff ?pid (k_env S3) [(L, h0)] e4" "head_is [] h0"
    using write_head_ends [OF S3(1) _ l0] E2 L(1) no_pins_card [OF E2(2)] S3(2) by (auto simp: NBUF_def MAXOPBLOCKS_def)
  have "ends c m pr e4 (recover_from_log c S)" using e4(1) S1(1) S2(1) by (simp add: recover_from_log_def S3_def)
  moreover have "no_pins e4" "log_at L sz [] (f_log e4)" "cache_ok ?pid {} e4"
    "f_disk e4 = disk_after (home_writes L bs ((!) (f_disk ?e)) [0..<?n] @ [(L, h0)]) (f_disk ?e)"
    using e4(2) E2 S3(2) eff_log [OF e4(2)] l0 by (auto simp: eff_def no_pins_def)
  ultimately show ?thesis using e4(3) by blast
qed

lemma fctx_initlock: "fctx c m pr S \<Longrightarrow> fctx c m pr (initlock lk nm S)"
proof -
  assume f: "fctx c m pr S"
  have "quiet c (initlock lk nm S)" using f by (auto simp: fctx_def at_ok_def quiet_def cpu_ok_def lock_free_def initlock_def upd_lock_def)
  moreover have "tab c (Some m) (initlock lk nm S)"
    using f tab_cong [of "initlock lk nm S" S c "Some m"] by (simp add: fctx_def at_ok_def initlock_def upd_lock_def cur_def)
  ultimately show ?thesis using f by (simp add: fctx_def at_ok_def initlock_def upd_lock_def)
qed

definition log_super :: "nat \<Rightarrow> nat \<Rightarrow> block \<Rightarrow> bool" where
  "log_super L sz x \<longleftrightarrow> sb_logstart (superblock_of x) = of_nat L \<and> sb_nlog (superblock_of x) = of_nat sz"

lemma initlog_ends:
  assumes ctx: "fctx c m pr S" and ok: "cache_ok (p_pid pr) {} (k_env S)" "no_pins (k_env S)" and l: "length (l_block (f_log (k_env S))) = LOGSIZE"
    and s: "log_super L sz (f_disk (k_env S) ! 1)" "1 < length (f_disk (k_env S))"
    and h: "head_is bs (f_disk (k_env S) ! L)" "length bs \<le> LOGSIZE" "length bs < sz" "bs_ok L sz bs (length (f_disk (k_env S)))"
    and L: "0 < L"
  shows "\<exists>e' h0. ends c m pr e' (initlog c 1 S) \<and> cache_ok (p_pid pr) {} e' \<and> no_pins e' \<and> log_at L sz [] (f_log e') \<and> head_is [] h0
    \<and> f_disk e' = disk_after (home_writes L bs ((!) (f_disk (k_env S))) [0..<length bs] @ [(L, h0)]) (f_disk (k_env S))"
proof -
  let ?e = "k_env S" and ?pid = "p_pid pr"
  define S0 where "S0 = initlock LogLock ''log'' S"
  have S0: "fctx c m pr S0" "k_env S0 = ?e" using fctx_initlock [OF ctx] by (simp_all add: S0_def initlock_def upd_lock_def)
  have one: "(of_nat 1 :: 32 word) = 1" by simp
  obtain i S1 where R: "bread c 1 1 S0 = Inr (i, S1)" "fctx c m pr S1" "like ?e (k_env S1)" "cache_ok ?pid {i} (k_env S1)"
    "blk (k_env S1) i = 1" "b_data (buf_at (k_env S1) i) = content ?e 1"
    using read_block [OF S0(1), of 1] S0(2) ok s(2) no_pins_card [OF ok(2)] unfolding one by (auto simp: NBUF_def MAXOPBLOCKS_def)
  have c1: "content ?e b = f_disk ?e ! b" for b using calm_content [OF ok(1)] ok(2) by (simp add: no_pins_def)
  obtain e2 where e2: "ends c m pr e2 (brelse c i S1)" "cache_ok ?pid {} e2" "like (k_env S1) e2"
    using release_block [OF R(2,4)] R(3,5) c1 by (auto simp: like_def)
  obtain S2 where S2: "brelse c i S1 = Inr S2" "fctx c m pr S2" "k_env S2 = e2" using e2(1) by (auto simp: ends_def)
  have li: "like ?e e2" using like_trans [OF R(3) e2(3)] .
  have rs: "readsb c 1 S0 = Inr (superblock_of (f_disk ?e ! 1), S2)" using R(1,6) S2(1) c1 by (simp add: readsb_def Let_def)
  have small: "L < 2 ^ 31" "sz < 2 ^ 31" using h(3,4) L cache_okD(5) [OF ok(1)] by (auto simp: bs_ok_def)
  define S3 where "S3 = upd_env (upd_log (\<lambda>l. l\<lparr>l_start := int L, l_size := int sz, l_dev := 1\<rparr>)) S2"
  have "log_base L sz (f_log (k_env S3))" using l like_log [OF li] S2(3) by (simp add: S3_def log_base_def)
  moreover have "fctx c m pr S3" "cache_ok ?pid {} (k_env S3)" "no_pins (k_env S3)" "f_disk (k_env S3) = f_disk ?e"
    using S2(2,3) e2(2) li ok(2) by (auto simp: S3_def like_def no_pins_def)
  ultimately have "\<exists>e' h0. ends c m pr e' (recover_from_log c S3) \<and> cache_ok ?pid {} e' \<and> no_pins e' \<and> log_at L sz [] (f_log e') \<and> head_is [] h0
      \<and> f_disk e' = disk_after (home_writes L bs ((!) (f_disk ?e)) [0..<length bs] @ [(L, h0)]) (f_disk ?e)"
    using recover_ends [of c m pr S3 L sz bs] h by simp
  moreover have "initlog c 1 S = recover_from_log c S3"
    using rs s(1) sint_small [of L] sint_small [of sz] small
    by (simp add: initlog_def S3_def log_super_def LOGSIZE_def MAXOPBLOCKS_def BSIZE_def flip: S0_def)
  ultimately show ?thesis by simp
qed

section \<open>Crashes\<close>

lemma after_new: "distinct bs \<Longrightarrow> after (new_writes bs f) g b = (if b \<in> set bs then f b else g b)"
  using after_in [of "new_writes bs f" b "f b" g] after_notin [of b "new_writes bs f" g] by (auto simp: new_writes_def comp_def image_image)

lemma after_prefix: "distinct bs \<Longrightarrow> b \<notin> set bs \<Longrightarrow> after (take j (new_writes bs f)) g b = g b"
proof -
  assume b: "b \<notin> set bs"
  have "set (take j (new_writes bs f)) \<subseteq> set (new_writes bs f)" by (rule set_take_subset)
  then show ?thesis using b by (intro after_notin) (auto simp: new_writes_def)
qed

lemma after_log_prefix: "b < L \<or> L + length bs < b \<or> b = L \<Longrightarrow> after (take j (log_writes L bs f [0..<length bs])) g b = g b"
proof -
  assume b: "b < L \<or> L + length bs < b \<or> b = L"
  have "set (take j (log_writes L bs f [0..<length bs])) \<subseteq> set (log_writes L bs f [0..<length bs])" by (rule set_take_subset)
  then show ?thesis using b by (intro after_notin) (auto simp: log_writes_def)
qed

text \<open>What recovery finds after the first \<open>k\<close> writes: an empty header or the whole transaction.\<close>

definition recovered :: "nat \<Rightarrow> nat list \<Rightarrow> block \<Rightarrow> block list \<Rightarrow> block list" where
  "recovered L cs h d = disk_after (home_writes L cs ((!) d) [0..<length cs] @ [(L, h)]) d"

lemma crash_cases:
  assumes b: "bs_ok L sz bs (length d)" "length bs < sz" and h: "head_is bs h1" "head_is [] h0" "head_is [] (d ! L)" and k: "k \<le> length (trans_writes L bs f h1 h0)"
  defines "d' \<equiv> disk_after (take k (trans_writes L bs f h1 h0)) d"
  shows "\<exists>cs. (cs = [] \<or> cs = bs) \<and> head_is cs (d' ! L)
    \<and> (\<forall>x b. b < length d \<and> (b < L \<or> L + sz \<le> b) \<longrightarrow> recovered L cs x d' ! b = (if length bs < k \<and> b \<in> set bs then f b else d ! b))"
proof -
  let ?n = "length bs" and ?W = "trans_writes L bs f h1 h0" and ?LW = "log_writes L bs f [0..<length bs]" and ?NW = "new_writes bs f"
  have L: "L < length d" "L \<notin> set bs" "distinct bs" using b by (auto simp: bs_ok_def)
  have at: "d' ! x = after (take k ?W) ((!) d) x" if "x < length d" for x using that by (simp add: d'_def disk_after_nth)
  have len: "length d' = length d" by (simp add: d'_def)
  have rec0: "recovered L [] x d' ! b = d' ! b" if "b < length d" "b \<noteq> L" for x b
    using that len by (simp add: recovered_def home_writes_def)
  consider (before) "k \<le> ?n" | (mid) "?n < k" "k \<le> 2 * ?n + 1" | (full) "k = 2 * ?n + 2"
    using k by (force simp: trans_writes_def log_writes_def new_writes_def)
  then show ?thesis
  proof cases
    case before
    then have t: "take k ?W = take k ?LW" by (simp add: trans_writes_def log_writes_def)
    have "d' ! x = d ! x" if "x < length d" "x \<le> L \<or> L + sz \<le> x" for x
    proof -
      have "x < L \<or> L + ?n < x \<or> x = L" using that b(2) by linarith
      then show ?thesis using at [OF that(1)] t after_log_prefix [of x L bs k f "(!) d"] by simp
    qed
    then show ?thesis using h(3) L(1) rec0 before b(2) by (intro exI [of _ "[]"]) auto
  next
    case mid
    define j where "j = k - ?n - 1"
    have j: "k = ?n + Suc j" "j \<le> ?n" using mid by (simp_all add: j_def)
    have t: "take k ?W = ?LW @ [(L, h1)] @ take j ?NW" using j(2) by (simp add: j(1) trans_writes_def log_writes_def new_writes_def)
    let ?g = "after (?LW @ [(L, h1)]) ((!) d)"
    have g: "after (take k ?W) ((!) d) = after (take j ?NW) ?g" by (simp add: t)
    have hd: "d' ! L = h1" using at [OF L(1)] after_prefix [OF L(3,2)] g by simp
    have lb: "d' ! (L + 1 + t) = f (bs ! t)" if "t < ?n" for t
    proof -
      have "L + 1 + t < length d" "L + 1 + t \<notin> set bs" using that b by (fastforce simp: bs_ok_def)+
      then show ?thesis using at after_prefix [OF L(3)] g logged_content [OF that, of L f "(!) d"] by simp
    qed
    have "recovered L bs x d' ! b = (if b \<in> set bs then f b else d ! b)" if "b < length d" "b < L \<or> L + sz \<le> b" for x b
    proof -
      have "recovered L bs x d' ! b = after ?NW ((!) d') b"
        using that b(2) len home_new [of bs "(!) d'" L f] lb by (auto simp: recovered_def disk_after_nth)
      moreover have "d' ! b = d ! b" if "b \<notin> set bs"
        using at \<open>b < length d\<close> \<open>b < L \<or> L + sz \<le> b\<close> b(2) after_prefix [OF L(3) that] g after_log_prefix [of b L bs ?n f "(!) d"] by (auto simp: log_writes_def)
      ultimately show ?thesis using after_new [OF L(3)] by simp
    qed
    then show ?thesis using hd h(1) mid by (intro exI [of _ bs]) auto
  next
    case full
    then have t: "take k ?W = ?W" by (simp add: trans_writes_def log_writes_def new_writes_def)
    note full_at = at [unfolded t]
    have hd: "d' ! L = h0" using full_at [OF L(1)] by (simp add: trans_writes_def)
    have "d' ! b = (if b \<in> set bs then f b else d ! b)" if "b < length d" "b < L \<or> L + sz \<le> b" for b
      using full_at [OF that(1)] that b(2) after_new [OF L(3)] after_log_prefix [of b L bs ?n f "(!) d"] by (auto simp: trans_writes_def log_writes_def)
    then show ?thesis using hd h(2) full rec0 b(2) by (intro exI [of _ "[]"]) auto
  qed
qed

lemma end_op_ends:
  assumes ctx: "fctx c m pr S" and ok: "cache_ok (p_pid pr) {} (k_env S)" and l: "log_at L sz bs (f_log (k_env S))"
    and b: "bs_ok L sz bs (length (f_disk (k_env S)))" "bs \<noteq> []" "length bs < NBUF" and pins: "\<And>b. pinned (k_env S) b \<longleftrightarrow> b \<in> set bs"
    and one: "l_outstanding (f_log (k_env S)) = 1" "\<not> l_committing (f_log (k_env S))"
  shows "\<exists>e' h1 h0. ends c m pr e' (end_op c S) \<and> head_is bs h1 \<and> head_is [] h0 \<and> cache_ok (p_pid pr) {} e' \<and> no_pins e' \<and> log_at L sz [] (f_log e')
    \<and> \<not> l_committing (f_log e')
    \<and> f_disk e' = disk_after (trans_writes L bs (content (k_env S)) h1 h0) (f_disk (k_env S))
    \<and> f_writes e' = f_writes (k_env S) @ trans_writes L bs (content (k_env S)) h1 h0"
proof -
  let ?e = "k_env S" and ?f = "\<lambda>l. l\<lparr>l_outstanding := l_outstanding l - 1\<rparr>" and ?g = "\<lambda>l. l\<lparr>l_committing := True\<rparr>"
  have lk: "LogLock \<noteq> PtableLock" by (simp add: LogLock_def)
  obtain S1 where S1: "acquire c LogLock S = Inr S1" "held c LogLock (Some m) S1" "proc_at S1 (fst m) = pr" "k_env S1 = ?e"
    using fctx_acquire [OF ctx lk] by blast
  define e1 where "e1 = upd_log ?g (upd_log ?f ?e)"
  have "ends c m pr e1 (release c LogLock (upd_env (upd_log ?g) (upd_env (upd_log ?f) S1)))"
    using fctx_release [of c LogLock m "upd_env (upd_log ?g) (upd_env (upd_log ?f) S1)" pr] S1 by (simp add: e1_def)
  then obtain S2 where S2: "release c LogLock (upd_env (upd_log ?g) (upd_env (upd_log ?f) S1)) = Inr S2" "fctx c m pr S2" "k_env S2 = e1"
    by (auto simp: ends_def)
  have l1: "log_at L sz bs (f_log e1)" using l by (simp add: e1_def log_at_def)
  obtain e3 h1 h0 where C: "ends c m pr e3 (commit c S2)" "head_is bs h1" "head_is [] h0" "cache_ok (p_pid pr) {} e3" "no_pins e3" "log_at L sz [] (f_log e3)"
    "f_disk e3 = disk_after (trans_writes L bs (content ?e) h1 h0) (f_disk ?e)" "f_writes e3 = f_writes ?e @ trans_writes L bs (content ?e) h1 h0"
    using commit_ends [OF S2(2), of L sz bs] S2(3) ok l1 b pins by (auto simp: e1_def)
  obtain S3 where S3: "commit c S2 = Inr S3" "fctx c m pr S3" "k_env S3 = e3" using C(1) by (auto simp: ends_def)
  obtain S4 where S4: "acquire c LogLock S3 = Inr S4" "held c LogLock (Some m) S4" "proc_at S4 (fst m) = pr" "k_env S4 = e3"
    using fctx_acquire [OF S3(2) lk] S3(3) by blast
  let ?h = "\<lambda>l. l\<lparr>l_committing := False\<rparr>"
  obtain S5 where S5: "wakeup c log_chan (upd_env (upd_log ?h) S4) = Inr S5" "held c LogLock (Some m) S5" "proc_at S5 (fst m) = pr" "k_env S5 = upd_log ?h e3"
    using fctx_wakeup [of c LogLock m "upd_env (upd_log ?h) S4" pr log_chan] S4 by auto
  have "ends c m pr (upd_log ?h e3) (release c LogLock S5)" using fctx_release [OF S5(2,3)] S5(4) by simp
  then have "ends c m pr (upd_log ?h e3) (end_op c S)"
    using S1(1,4) S2(1) S3(1) S4(1) S5(1) one by (simp add: end_op_def Let_def)
  moreover have "no_pins (upd_log ?h e3)" "log_at L sz [] (f_log (upd_log ?h e3))" using C(5,6) by (auto simp: no_pins_def log_at_def)
  ultimately show ?thesis using C by (intro exI [of _ "upd_log ?h e3"] exI [of _ h1] exI [of _ h0]) simp
qed

text \<open>
  C10. The log makes a transaction atomic. When the last system call of a transaction with the blocks \<open>bs\<close> ends, \<open>end_op\<close> returns, having made a sequence of
  disk writes. If the machine stops after any number \<open>k\<close> of them and \<open>initlog\<close> runs on what the disk holds then, with an empty
  cache, it returns, and every block outside the log has the contents it had before the transaction (\<open>k\<close> at most the number of blocks) or
  the contents that the transaction gave it, the same for all blocks. The cache must have room for one more buffer than the
  transaction pins; \<open>LOGSIZE\<close> alone allows it to pin all \<open>NBUF\<close>.
\<close>

theorem crash_atomic:
  fixes S :: "('x logged_scheme, 'z) kstate_scheme"
  assumes "fctx c m pr S" "cache_ok (p_pid pr) {} (k_env S)" "log_at L sz bs (f_log (k_env S))" "bs_ok L sz bs (length (f_disk (k_env S)))"
    and "bs \<noteq> []" "length bs < NBUF" "\<And>b. pinned (k_env S) b \<longleftrightarrow> b \<in> set bs" "l_outstanding (f_log (k_env S)) = 1" "\<not> l_committing (f_log (k_env S))"
    and "head_is [] (f_disk (k_env S) ! L)" "log_super L sz (f_disk (k_env S) ! 1)" "1 < L" "1 \<notin> set bs"
  shows "\<exists>S' W. end_op c S = Inr S' \<and> f_writes (k_env S') = f_writes (k_env S) @ W \<and> f_disk (k_env S') = disk_after W (f_disk (k_env S))
    \<and> (\<forall>k c' m' pr'. \<forall>T :: ('x logged_scheme, 'z) kstate_scheme. k \<le> length W \<and> fctx c' m' pr' T \<and> cache_ok (p_pid pr') {} (k_env T) \<and> no_pins (k_env T)
        \<and> f_disk (k_env T) = disk_after (take k W) (f_disk (k_env S)) \<and> length (l_block (f_log (k_env T))) = LOGSIZE
        \<longrightarrow> (\<exists>T'. initlog c' 1 T = Inr T' \<and> (\<forall>b < length (f_disk (k_env S)). b < L \<or> L + sz \<le> b
               \<longrightarrow> f_disk (k_env T') ! b = (if k \<le> length bs then f_disk (k_env S) ! b else content (k_env S) b))))"
proof -
  let ?e = "k_env S"
  obtain e' h1 h0 where E: "ends c m pr e' (end_op c S)" "head_is bs h1" "head_is [] h0"
    "f_disk e' = disk_after (trans_writes L bs (content ?e) h1 h0) (f_disk ?e)" "f_writes e' = f_writes ?e @ trans_writes L bs (content ?e) h1 h0"
    using end_op_ends [OF assms(1-9)] by blast
  let ?W = "trans_writes L bs (content ?e) h1 h0" and ?d = "f_disk ?e"
  have n: "length bs < sz" "length bs \<le> LOGSIZE" using assms(3) by (auto simp: log_at_def)
  have rec: "\<exists>T'. initlog c' 1 T = Inr T' \<and> (\<forall>b < length ?d. b < L \<or> L + sz \<le> b \<longrightarrow> f_disk (k_env T') ! b = (if k \<le> length bs then ?d ! b else content ?e b))"
    if k: "k \<le> length ?W" and T: "fctx c' m' pr' T" "cache_ok (p_pid pr') {} (k_env T)" "no_pins (k_env T)" "f_disk (k_env T) = disk_after (take k ?W) ?d"
      "length (l_block (f_log (k_env T))) = LOGSIZE" for k c' m' pr' and T :: "('x logged_scheme, 'z) kstate_scheme"
  proof -
    obtain cs where cs: "cs = [] \<or> cs = bs" "head_is cs (f_disk (k_env T) ! L)"
      "\<forall>x b. b < length ?d \<and> (b < L \<or> L + sz \<le> b) \<longrightarrow> recovered L cs x (f_disk (k_env T)) ! b = (if length bs < k \<and> b \<in> set bs then content ?e b else ?d ! b)"
      using crash_cases [OF assms(4) n(1) E(2,3) assms(10) k] T(4) by auto
    have "after (take k ?W) ((!) ?d) 1 = ?d ! 1"
    proof (rule after_notin)
      have "set (take k ?W) \<subseteq> set ?W" by (rule set_take_subset)
      then show "1 \<notin> fst ` set (take k ?W)" using assms(12,13) by (auto simp: trans_writes_def log_writes_def new_writes_def)
    qed
    moreover have d1: "1 < length ?d" using assms(4,12) by (auto simp: bs_ok_def)
    ultimately have "f_disk (k_env T) ! 1 = ?d ! 1" using T(4) by (simp add: disk_after_nth)
    moreover have "bs_ok L sz cs (length (f_disk (k_env T)))" using cs(1) assms(4) T(4) by (auto simp: bs_ok_def)
    moreover have "length cs < sz" "length cs \<le> LOGSIZE" using cs(1) n by auto
    ultimately obtain e2 h where "ends c' m' pr' e2 (initlog c' 1 T)" "f_disk e2 = recovered L cs h (f_disk (k_env T))"
      using initlog_ends [OF T(1-3,5), of L sz cs] T(4) assms(11,12) d1 cs(2) by (auto simp: recovered_def)
    moreover have "content ?e b = ?d ! b" if "b \<notin> set bs" for b using calm_content [OF assms(2)] assms(7) that by simp
    ultimately show ?thesis using cs(3) by (auto simp: ends_def)
  qed
  obtain S' where S': "end_op c S = Inr S'" "k_env S' = e'" using E(1) by (auto simp: ends_def)
  show ?thesis
  proof (rule exI [of _ S'], rule exI [of _ ?W], intro conjI allI impI, goal_cases)
    case (4 k c' m' pr' T)
    then show ?case using rec [of k c' m' pr' T] by blast
  qed (use S' E(4,5) in simp_all)
qed

end
