(* ===== verification/FsDemo.thy ===== *)
theory FsDemo
  imports Crash
begin

text \<open>
  A kernel state with a small disk below it: \<open>init\<close> runs as in Demo, on a disk of 40 blocks with a log of 10 blocks from block 2, and buffer 0 holds block 20, changed
  but not yet written.
\<close>

section \<open>Another state below the process table\<close>

definition with_env :: "'b \<Rightarrow> 'a kstate \<Rightarrow> 'b kstate" where
  "with_env e S = \<lparr>cpus = cpus S, locks = locks S, k_procs = k_procs S, k_active = k_active S, k_expired = k_expired S, k_levels = k_levels S,
     k_initproc = k_initproc S, k_nextpid = k_nextpid S, k_ticks = k_ticks S, k_schedlog_active = k_schedlog_active S,
     k_schedlog_lasttick = k_schedlog_lasttick S, k_out = k_out S, k_first = k_first S, k_kpgdir = k_kpgdir S, k_env = e\<rparr>"

lemma with_env_sel [simp]:
  "k_env (with_env e S) = e" "k_procs (with_env e S) = k_procs S" "cpus (with_env e S) = cpus S" "locks (with_env e S) = locks S"
  "k_active (with_env e S) = k_active S" "k_expired (with_env e S) = k_expired S" "k_levels (with_env e S) = k_levels S" "k_kpgdir (with_env e S) = k_kpgdir S"
  by (simp_all add: with_env_def)

lemma with_env_run: "run_ok c p k (with_env e S) = run_ok c p k S"
  by (simp add: run_ok_def quiet_def cpu_ok_def lock_free_def placed_def cur_def procs_of_def tinv_def lv_inv_def table_wf_def queued_def expired_fresh_def
      is_active_set_def is_expired_set_def)

definition demo_fs :: "'e \<Rightarrow> 'e kstate" where
  "demo_fs e = with_env e demo_run"

lemma demo_fs_ctx: "fctx 0 (0, 0) (proc_at demo_run 0) (demo_fs e)" "k_env (demo_fs e) = e"
  using demo_run_facts(3) with_env_run [of 0 0 0 e demo_run] by (simp_all add: fctx_def at_ok_modes demo_fs_def)

section \<open>A disk with a transaction\<close>

definition demo_disk :: "block list" where
  "demo_disk = (replicate 40 (replicate 512 0))[1 := put32 16 2 (put32 12 10 (replicate 512 0))]"

definition sl_zero :: sleeplock where
  "sl_zero = \<lparr>sl_locked = False, sl_name = ''buffer'', sl_pid = 0\<rparr>"

definition buf_zero :: buf where
  "buf_zero = \<lparr>b_flags = 0, b_dev = 0, b_blockno = 0, b_lock = sl_zero, b_refcnt = 0, b_data = []\<rparr>"

definition demo_log :: logged where
  "demo_log = \<lparr>f_disk = demo_disk, f_writes = [],
     f_buf = \<lparr>b_flags = B_VALID OR B_DIRTY, b_dev = 1, b_blockno = 20, b_lock = sl_zero, b_refcnt = 0, b_data = replicate 512 1\<rparr> # replicate 29 buf_zero,
     f_lru = [0..<NBUF],
     f_log = \<lparr>l_start = 2, l_size = 10, l_outstanding = 1, l_committing = False, l_dev = 1, l_n = 1, l_block = 20 # replicate 29 0\<rparr>\<rparr>"

lemma demo_disk_facts:
  "length demo_disk = 40" "b < 40 \<Longrightarrow> length (demo_disk ! b) = BSIZE" "head_is [] (demo_disk ! 2)" "log_super 2 10 (demo_disk ! 1)"
proof -
  have b: "length (replicate 512 0 :: byte list) = 512" by simp
  have p: "length (put32 12 10 (replicate 512 0)) = 512" using get_put32(3) [of 12 "replicate 512 0" 10] by simp
  have q: "length (put32 16 2 (put32 12 10 (replicate 512 0))) = 512" using get_put32(3) [of 16 "put32 12 10 (replicate 512 0)" 2] p by simp
  show "length demo_disk = 40" by (simp add: demo_disk_def)
  show "b < 40 \<Longrightarrow> length (demo_disk ! b) = BSIZE" using q by (simp add: demo_disk_def nth_list_update BSIZE_def)
  show "head_is [] (demo_disk ! 2)" by (simp add: demo_disk_def head_is_def BSIZE_def get32_def)
  show "log_super 2 10 (demo_disk ! 1)"
    using get_put32(1) [of 16 "put32 12 10 (replicate 512 0)" 2] get_put32(2) [of 16 "put32 12 10 (replicate 512 0)" 12 2] get_put32(1) [of 12 "replicate 512 0" 10] p
    by (simp add: demo_disk_def log_super_def superblock_of_def)
qed

lemma demo_log_buf: "i < 30 \<Longrightarrow> buf_at demo_log i = (if i = 0 then buf_at demo_log 0 else buf_zero)"
  by (cases i) (simp_all add: demo_log_def)

lemma demo_log_ok: "cache_ok pid {} demo_log" "pinned demo_log b \<longleftrightarrow> b \<in> set [20]" "log_at 2 10 [20] (f_log demo_log)" "bs_ok 2 10 [20] (length (f_disk demo_log))"
proof -
  have z: "b_dev buf_zero = 0" "b_flags buf_zero = 0" "\<not> sl_locked (b_lock buf_zero)" "b_refcnt buf_zero = 0" by (simp_all add: buf_zero_def sl_zero_def)
  have f: "b_dev (buf_at demo_log 0) = 1" "b_blockno (buf_at demo_log 0) = 20" "b_flags (buf_at demo_log 0) = B_VALID OR B_DIRTY"
    "\<not> sl_locked (b_lock (buf_at demo_log 0))" "b_refcnt (buf_at demo_log 0) = 0" "length (b_data (buf_at demo_log 0)) = BSIZE"
    by (simp_all add: demo_log_def sl_zero_def BSIZE_def)
  have d: "f_disk demo_log = demo_disk" "length (f_buf demo_log) = NBUF" "f_lru demo_log = [0..<NBUF]" "NBUF = 30"
    by (simp_all add: demo_log_def NBUF_def MAXOPBLOCKS_def)
  have b0: "blk demo_log 0 = 20" "0 < NBUF" using f(2) by (simp_all add: NBUF_def MAXOPBLOCKS_def)
  have dirty: "b_dirty (buf_at demo_log 0)" using f by (simp add: b_dirty_def B_VALID_def B_DIRTY_def)
  have ok: "buf_ok pid (i \<in> {}) demo_disk (buf_at demo_log i)" if "i < 30" for i
    using demo_log_buf [OF that] z f dirty demo_disk_facts(1) by (cases "i = 0") (simp_all add: buf_ok_def)
  have cc: "i = 0" if "i < 30" "cached demo_log i" for i using demo_log_buf [OF that(1)] that(2) z(1) by (cases "i = 0") auto
  have "i = j" if "i < NBUF" "j < NBUF" "cached demo_log i" "cached demo_log j" for i j using that cc [of i] cc [of j] d(4) by simp
  then show c: "cache_ok pid {} demo_log"
    using d ok demo_disk_facts(1,2) unfolding cache_ok_def by (simp add: atLeast0LessThan)
  show "pinned demo_log b \<longleftrightarrow> b \<in> set [20]"
  proof (cases "b = 20")
    case True
    then have "slot demo_log b = Some 0" using slot_Some [OF c, of b 0] b0 f(1) by simp
    then show ?thesis using dirty True by (simp add: pinned_def)
  next
    case False
    have "\<not> (cached demo_log i \<and> blk demo_log i = b)" if "i < NBUF" for i using cc [of i] that d(4) b0(1) False by auto
    then have "slot demo_log b = None" by (simp add: slot_None)
    then show ?thesis using False by (simp add: pinned_def)
  qed
  show "log_at 2 10 [20] (f_log demo_log)" "bs_ok 2 10 [20] (length (f_disk demo_log))"
    using demo_disk_facts(1) by (simp_all add: demo_log_def log_at_def bs_ok_def LOGSIZE_def MAXOPBLOCKS_def)
qed

text \<open>The same machine after a crash before the first write: an empty cache, and nothing known of the log.\<close>

definition demo_boot :: logged where
  "demo_boot = demo_log\<lparr>f_buf := replicate 30 buf_zero, f_log := f_log demo_log\<lparr>l_start := 0, l_size := 0, l_outstanding := 0, l_n := 0\<rparr>\<rparr>"

lemma demo_boot_ok: "cache_ok pid {} demo_boot" "no_pins demo_boot"
proof -
  have z: "b_dev buf_zero = 0" "b_flags buf_zero = 0" "\<not> sl_locked (b_lock buf_zero)" "b_refcnt buf_zero = 0" by (simp_all add: buf_zero_def sl_zero_def)
  have d: "f_disk demo_boot = demo_disk" "length (f_buf demo_boot) = NBUF" "f_lru demo_boot = [0..<NBUF]"
    by (simp_all add: demo_boot_def demo_log_def NBUF_def MAXOPBLOCKS_def)
  have b: "buf_at demo_boot i = buf_zero" if "i < NBUF" for i using that by (simp add: demo_boot_def NBUF_def MAXOPBLOCKS_def)
  have n: "\<not> cached demo_boot i" if "i < NBUF" for i using b [OF that] z(1) by simp
  have ok: "buf_ok pid (i \<in> {}) demo_disk (buf_at demo_boot i)" if "i < NBUF" for i using b [OF that] z by (simp add: buf_ok_def)
  show "cache_ok pid {} demo_boot" using d ok n demo_disk_facts(1,2) unfolding cache_ok_def by (simp add: atLeast0LessThan)
  have "slot demo_boot a = None" for a using n by (simp add: slot_None)
  then show "no_pins demo_boot" by (simp add: no_pins_def pinned_def)
qed

theorem crash_atomic_witness:
  "(\<exists>S' W. end_op 0 (demo_fs demo_log) = Inr S' \<and> f_writes (k_env S') = W \<and> f_disk (k_env S') = disk_after W demo_disk)
   \<and> (\<exists>T. initlog 0 1 (demo_fs demo_boot) = Inr T \<and> f_disk (k_env T) ! 20 = demo_disk ! 20)"
proof -
  let ?S = "demo_fs demo_log"
  have e: "k_env (demo_fs x) = x" for x by (rule demo_fs_ctx(2))
  have d: "f_disk demo_log = demo_disk" "f_writes demo_log = []" "l_outstanding (f_log demo_log) = 1" "\<not> l_committing (f_log demo_log)" by (simp_all add: demo_log_def)
  have t: "f_disk demo_boot = demo_disk" "length (l_block (f_log demo_boot)) = LOGSIZE" by (simp_all add: demo_boot_def demo_log_def LOGSIZE_def MAXOPBLOCKS_def)
  obtain S' W where c: "end_op 0 ?S = Inr S'" "f_writes (k_env S') = W" "f_disk (k_env S') = disk_after W demo_disk"
    "\<forall>k c' m' pr'. \<forall>T :: logged kstate. k \<le> length W \<and> fctx c' m' pr' T \<and> cache_ok (p_pid pr') {} (k_env T) \<and> no_pins (k_env T)
        \<and> f_disk (k_env T) = disk_after (take k W) demo_disk \<and> length (l_block (f_log (k_env T))) = LOGSIZE
        \<longrightarrow> (\<exists>T'. initlog c' 1 T = Inr T' \<and> (\<forall>b < 40. b < 2 \<or> 12 \<le> b
               \<longrightarrow> f_disk (k_env T') ! b = (if k \<le> 1 then demo_disk ! b else content demo_log b)))"
    using crash_atomic [OF demo_fs_ctx(1), of demo_log 2 10 "[20]"] demo_log_ok demo_disk_facts(1,3,4) d(3,4) unfolding e d(1,2)
    by (auto simp: NBUF_def MAXOPBLOCKS_def)
  have "\<exists>T. initlog 0 1 (demo_fs demo_boot) = Inr T \<and> (\<forall>b < 40. b < 2 \<or> 12 \<le> b \<longrightarrow> f_disk (k_env T) ! b = (if 0 \<le> (1::nat) then demo_disk ! b else content demo_log b))"
    using c(4) [rule_format, of 0 0 "(0, 0)" "proc_at demo_run 0" "demo_fs demo_boot"] demo_fs_ctx(1) [of demo_boot] demo_boot_ok t
    by (simp add: e disk_after_def)
  then show ?thesis using c(1-3) by auto
qed

section \<open>The cache\<close>

text \<open>
  C36. The buffer cache is transparent. While no buffer is held and not all are pinned, \<open>bread\<close> returns a buffer with the contents of the block, and \<open>brelse\<close> of it leaves the
  contents of all blocks, the disk and the pins as they were. Data that is put into the buffer and written with \<open>bwrite\<close> is then on the
  disk and in the cache, in that block alone. None of these calls panics or waits.
\<close>

theorem cache_transparent:
  assumes "fctx c m pr S" "cache_ok (p_pid pr) {} (k_env S)" "b < length (f_disk (k_env S))" "card {b. pinned (k_env S) b} < NBUF" "length x = BSIZE"
  shows "\<exists>i S1. bread c 1 (of_nat b) S = Inr (i, S1) \<and> b_data (buf_at (k_env S1) i) = content (k_env S) b
    \<and> (\<exists>S2. brelse c i S1 = Inr S2 \<and> cache_ok (p_pid pr) {} (k_env S2) \<and> like (k_env S) (k_env S2))
    \<and> (\<exists>S2. bindE (bwrite c i (upd_env (upd_buf i (\<lambda>y. y\<lparr>b_data := x\<rparr>)) S1)) (brelse c i) = Inr S2 \<and> cache_ok (p_pid pr) {} (k_env S2)
        \<and> f_disk (k_env S2) = (f_disk (k_env S))[b := x] \<and> content (k_env S2) = (content (k_env S))(b := x)
        \<and> (\<forall>a. pinned (k_env S2) a = (a \<noteq> b \<and> pinned (k_env S) a)))"
proof -
  obtain i S1 where R: "bread c 1 (of_nat b) S = Inr (i, S1)" "fctx c m pr S1" "like (k_env S) (k_env S1)" "cache_ok (p_pid pr) {i} (k_env S1)"
    "blk (k_env S1) i = b" "b_data (buf_at (k_env S1) i) = content (k_env S) b" using read_block [OF assms(1-4)] by blast
  have "pinned (k_env S1) b \<or> content (k_env S1) b = f_disk (k_env S1) ! b" using R(3) calm_content [OF assms(2), of b] by (auto simp: like_def)
  then obtain e2 where e2: "ends c m pr e2 (brelse c i S1)" "cache_ok (p_pid pr) {} e2" "like (k_env S1) e2"
    using release_block [OF R(2,4)] R(5) by auto
  obtain e3 where e3: "ends c m pr e3 (bindE (bwrite c i (upd_env (upd_buf i (\<lambda>y. y\<lparr>b_data := x\<rparr>)) S1)) (brelse c i))"
    "eff (p_pid pr) (k_env S) [(b, x)] e3" using write_block [OF R(2,4) assms(5)] R(5) eff_like [OF R(3)] by auto
  show ?thesis
    using R(1,6) e2 e3 like_trans [OF R(3) e2(3)] by (intro exI [of _ i] exI [of _ S1]) (auto simp: ends_def eff_def)
qed

theorem cache_transparent_witness:
  "\<exists>i S1. bread 0 1 20 (demo_fs demo_log) = Inr (i, S1) \<and> b_data (buf_at (k_env S1) i) = content demo_log 20"
proof -
  have "{b. pinned demo_log b} = {20}" using demo_log_ok(2) by auto
  then show ?thesis
    using cache_transparent [OF demo_fs_ctx(1), of demo_log 20 "replicate 512 0"] demo_log_ok(1) demo_disk_facts(1)
    by (auto simp: demo_fs_ctx(2) demo_log_def NBUF_def MAXOPBLOCKS_def BSIZE_def)
qed

end
