(* ===== verification/DirFacts.thy ===== *)
theory DirFacts
  imports File
begin

text \<open>
  Paths and names: \<open>elems\<close> is the list of the elements of a path, what \<open>skipelem\<close> takes off one by one, and names agree when their first \<open>DIRSIZ\<close> bytes do. The
  loops of \<^verbatim>\<open>fs.c\<close> over paths and file contents end: more fuel than the model gives them makes no difference.
\<close>

section \<open>Names\<close>

abbreviation upto0 :: "byte list \<Rightarrow> byte list" where
  "upto0 \<equiv> takeWhile (\<lambda>b. b \<noteq> 0)"

lemma ncmp_zero: "ncmp n p q = 0 \<longleftrightarrow> take n (upto0 p) = take n (upto0 q)"
proof (induction n arbitrary: p q)
  case (Suc n)
  have u: "upto0 p = (if byte_at0 p = 0 then [] else byte_at0 p # upto0 (tl p))" for p by (cases p) auto
  show ?case
  proof (cases "byte_at0 p \<noteq> 0 \<and> byte_at0 p = byte_at0 q")
    case True
    then show ?thesis using Suc.IH u [of p] u [of q] by simp
  next
    case False
    have "uint (byte_at0 p) - uint (byte_at0 q) = 0 \<longleftrightarrow> byte_at0 p = byte_at0 q" by (simp add: word_uint_eq_iff)
    then show ?thesis using False u [of p] u [of q] by (auto split: if_splits)
  qed
qed simp

lemma ncpy_spec: "0 \<notin> set z \<Longrightarrow> upto0 (ncpy n z) = take n z" "length (ncpy n z) = n"
proof -
  show "length (ncpy n z) = n" by (induction n z rule: ncpy.induct) auto
  show "0 \<notin> set z \<Longrightarrow> upto0 (ncpy n z) = take n z"
  proof (induction n arbitrary: z)
    case (Suc n)
    then show ?case by (cases z) auto
  qed simp
qed

section \<open>Paths\<close>

function elems :: "byte list \<Rightarrow> byte list list" where
  "elems path =
     (let p = dropWhile (\<lambda>b. b = slash) path
      in if p = [] then [] else takeWhile (\<lambda>b. b \<noteq> slash) p # elems (dropWhile (\<lambda>b. b \<noteq> slash) p))"
  by pat_completeness auto

lemma elems_shorter:
  assumes "dropWhile (\<lambda>b. b = slash) path \<noteq> []"
  shows "length (dropWhile (\<lambda>b. b \<noteq> slash) (dropWhile (\<lambda>b. b = slash) path)) < length path"
proof -
  let ?p = "dropWhile (\<lambda>b. b = slash) path"
  have "hd ?p \<noteq> slash" using hd_dropWhile [OF assms] by simp
  then have "dropWhile (\<lambda>b. b \<noteq> slash) ?p = dropWhile (\<lambda>b. b \<noteq> slash) (tl ?p)" using assms by (cases ?p) auto
  also have "length \<dots> \<le> length (tl ?p)" by (rule length_dropWhile_le)
  also have "\<dots> < length ?p" using assms by (cases ?p) auto
  also have "\<dots> \<le> length path" by (rule length_dropWhile_le)
  finally show ?thesis .
qed

termination elems
  by (relation "measure length") (auto simp: elems_shorter)

declare elems.simps [simp del]

lemma elems_skip: "elems (dropWhile (\<lambda>b. b = slash) path) = elems path"
proof -
  have "dropWhile (\<lambda>b. b = slash) (dropWhile (\<lambda>b. b = slash) path) = dropWhile (\<lambda>b. b = slash) path" by (rule dropWhile_idem)
  then show ?thesis using elems.simps [of path] elems.simps [of "dropWhile (\<lambda>b. b = slash) path"] by simp
qed

lemma skipelem_shorter: "skipelem path name = Some (rest, nm) \<Longrightarrow> length rest < length path"
proof -
  assume s: "skipelem path name = Some (rest, nm)"
  let ?p = "dropWhile (\<lambda>b. b = slash) path" and ?P = "\<lambda>b. b \<noteq> slash \<and> b \<noteq> 0"
  have r: "rest = dropWhile (\<lambda>b. b = slash) (dropWhile ?P ?p)" "byte_at0 ?p \<noteq> 0" using s by (auto simp: skipelem_def Let_def split: if_splits)
  have ne: "?p \<noteq> []"
  proof
    assume h: "?p = []"
    show False using r(2) unfolding h by simp
  qed
  have "hd ?p \<noteq> slash" using hd_dropWhile [OF ne] by simp
  then have "dropWhile ?P ?p = dropWhile ?P (tl ?p)" using r(2) ne by (cases ?p) auto
  moreover have "length (dropWhile ?P (tl ?p)) < length ?p" using length_dropWhile_le [of ?P "tl ?p"] ne by (cases ?p) auto
  moreover have "length rest \<le> length (dropWhile ?P ?p)" unfolding r(1) by (rule length_dropWhile_le)
  moreover have "length ?p \<le> length path" by (rule length_dropWhile_le)
  ultimately show ?thesis by simp
qed

text \<open>
  C38. \<open>skipelem\<close> takes the first element off a path, or returns 0 when there is none, and leaves a path without leading slashes with the other elements. The name buffer then agrees in
  \<open>namecmp\<close> with the entry that \<open>dirlink\<close> makes for \<open>z\<close> just when the element and \<open>z\<close> have the same first \<open>DIRSIZ\<close> bytes.
\<close>

theorem skipelem_elems:
  assumes "0 \<notin> set path" "length name = DIRSIZ"
  shows "case skipelem path name of None \<Rightarrow> elems path = []
    | Some (rest, nm) \<Rightarrow> \<exists>x. elems path = x # elems rest \<and> x \<noteq> [] \<and> slash \<notin> set x \<and> byte_at0 rest \<noteq> slash \<and> length nm = DIRSIZ
        \<and> (\<forall>z. 0 \<notin> set z \<longrightarrow> (namecmp nm (ncpy DIRSIZ z) = 0 \<longleftrightarrow> take DIRSIZ x = take DIRSIZ z))"
proof -
  let ?p = "dropWhile (\<lambda>b. b = slash) path"
  have z: "0 \<notin> set ?p" using assms(1) set_dropWhileD by fastforce
  have e: "takeWhile (\<lambda>b. b \<noteq> slash \<and> b \<noteq> 0) ?p = takeWhile (\<lambda>b. b \<noteq> slash) ?p" "dropWhile (\<lambda>b. b \<noteq> slash \<and> b \<noteq> 0) ?p = dropWhile (\<lambda>b. b \<noteq> slash) ?p"
    using z by (auto intro!: takeWhile_cong dropWhile_cong)
  show ?thesis
  proof (cases "?p = []")
    case True
    have "skipelem path name = None" unfolding skipelem_def True by simp
    moreover have "elems path = []" unfolding elems.simps [of path] True by simp
    ultimately show ?thesis by simp
  next
    case False
    define x where "x = takeWhile (\<lambda>b. b \<noteq> slash) ?p"
    define rest where "rest = dropWhile (\<lambda>b. b = slash) (dropWhile (\<lambda>b. b \<noteq> slash) ?p)"
    define nm where "nm = (if length x \<ge> DIRSIZ then splice 0 (take DIRSIZ x) name else splice 0 (x @ [0]) name)"
    have b0: "byte_at0 ?p \<noteq> 0" using False z by (cases ?p) auto
    have s: "skipelem path name = Some (rest, nm)" using b0 by (simp add: skipelem_def Let_def e x_def rest_def nm_def)
    have el: "elems path = x # elems rest" using elems.simps [of path] False elems_skip by (simp add: x_def rest_def Let_def)
    have h: "hd ?p \<noteq> slash" by (rule hd_dropWhile [OF False])
    have x: "x \<noteq> []" "slash \<notin> set x" "0 \<notin> set x"
    proof -
      show "x \<noteq> []" unfolding x_def takeWhile_eq_Nil_iff using False h by blast
      show "slash \<notin> set x" unfolding x_def by (blast dest: set_takeWhileD)
      show "0 \<notin> set x" unfolding x_def using z by (blast dest: set_takeWhileD)
    qed
    have r: "byte_at0 rest \<noteq> slash"
    proof (cases "rest = []")
      case True
      then show ?thesis by (simp add: slash_def)
    next
      case False
      have "hd rest \<noteq> slash" unfolding rest_def by (rule hd_dropWhile [OF False [unfolded rest_def]])
      then show ?thesis using False by (cases rest) auto
    qed
    have l: "length nm = DIRSIZ" using assms(2) by (auto simp: nm_def splice_def)
    have u: "take DIRSIZ (upto0 nm) = take DIRSIZ x"
    proof (cases "length x \<ge> DIRSIZ")
      case True
      have "0 \<notin> set (take DIRSIZ x)" using x(3) set_take_subset by fastforce
      then have t: "upto0 (take DIRSIZ x) = take DIRSIZ x" by (auto simp: takeWhile_eq_all_conv)
      have n: "nm = take DIRSIZ x" using True assms(2) by (simp add: nm_def splice_def)
      show ?thesis unfolding n t by simp
    next
      case False
      have "upto0 (x @ 0 # ys) = x" for ys using x(3) by (induction x) auto
      then show ?thesis using False by (simp add: nm_def splice_def)
    qed
    have "namecmp nm (ncpy DIRSIZ z) = 0 \<longleftrightarrow> take DIRSIZ x = take DIRSIZ z" if "0 \<notin> set z" for z
      using u ncpy_spec(1) [OF that] by (simp add: namecmp_def ncmp_zero)
    then show ?thesis using s el x r l by auto
  qed
qed

definition demo_path :: "byte list" where "demo_path = [slash, 0x61, slash, slash, 0x62]"

theorem skipelem_elems_witness:
  "\<exists>rest nm x. skipelem demo_path (replicate DIRSIZ 0) = Some (rest, nm) \<and> elems demo_path = x # elems rest \<and> x \<noteq> []"
proof -
  have "skipelem demo_path (replicate DIRSIZ 0) \<noteq> None" by (simp add: demo_path_def skipelem_def slash_def Let_def)
  then show ?thesis using skipelem_elems [of demo_path "replicate DIRSIZ 0"] by (auto simp: demo_path_def slash_def split: option.splits)
qed

section \<open>The loops end\<close>

lemma namex_fuel:
  fixes S :: "('x icached_scheme, 'z) kstate_scheme"
  shows "length path < k \<Longrightarrow> length path < k' \<Longrightarrow> namex_loop k dv c path parent name ip S = namex_loop k' dv c path parent name ip S"
proof (induction k arbitrary: k' path name ip S)
  case (Suc k)
  obtain j where j: "k' = Suc j" using Suc.prems(2) by (cases k') auto
  have "namex_loop k dv c p1 parent n1 ip S = namex_loop j dv c p1 parent n1 ip S" if "skipelem path name = Some (p1, n1)" for p1 n1 ip and S :: "('x icached_scheme, 'z) kstate_scheme"
    using Suc.IH [of p1 j n1 ip S] skipelem_shorter [OF that] Suc.prems by (simp add: j)
  then show ?case unfolding j by (auto split: option.split intro!: bindE_cong)
qed simp

lemma chunk_bound:
  fixes left off :: "32 word"
  assumes "left \<noteq> 0" "unat left \<le> Suc k"
  shows "unat (left - min left (512 - off mod 512)) \<le> k"
proof -
  have o: "unat (off mod 512) < 512" by (simp add: unat_mod)
  then have "off mod 512 \<le> 512" by (simp add: word_le_nat_alt)
  then have "unat (512 - off mod 512) = 512 - unat (off mod 512)" by (simp add: unat_sub)
  then have "0 < unat (min left (512 - off mod 512))" using o assms(1) by (auto simp: min_def unat_gt_0)
  moreover have "min left (512 - off mod 512) \<le> left" by simp
  ultimately show ?thesis using assms(2) by (simp add: unat_sub)
qed

lemma loop_over [simp]:
  "readi_loop k c ip off 0 S = Inr ([], S)" "writei_loop k c ip src off 0 S = Inr (off, S)" "n \<le> i \<Longrightarrow> filewrite_loop k dv c f ipo src n i T = Inr (i, T)"
  by (cases k; simp)+

lemma readi_fuel:
  fixes S :: "('x icached_scheme, 'z) kstate_scheme"
  shows "unat left \<le> k \<Longrightarrow> unat left \<le> k' \<Longrightarrow> readi_loop k c ip off left S = readi_loop k' c ip off left S"
proof (induction k arbitrary: k' off left S)
  case (Suc k)
  show ?case
  proof (cases "left = 0")
    case False
    then obtain j where j: "k' = Suc j" using Suc.prems(2) by (cases k') (auto simp: unat_eq_0)
    have "readi_loop k c ip (off + min left (512 - off mod 512)) (left - min left (512 - off mod 512)) T
        = readi_loop j c ip (off + min left (512 - off mod 512)) (left - min left (512 - off mod 512)) T" for T :: "('x icached_scheme, 'z) kstate_scheme"
      by (rule Suc.IH) (use chunk_bound [OF False] Suc.prems in \<open>simp_all only: j\<close>)
    then show ?thesis unfolding j by (simp only: readi_loop.simps Let_def)
  qed simp
qed (simp add: unat_eq_0)

lemma writei_fuel:
  fixes S :: "('x icached_scheme, 'z) kstate_scheme"
  shows "unat left \<le> k \<Longrightarrow> unat left \<le> k' \<Longrightarrow> writei_loop k c ip src off left S = writei_loop k' c ip src off left S"
proof (induction k arbitrary: k' src off left S)
  case (Suc k)
  show ?case
  proof (cases "left = 0")
    case False
    then obtain j where j: "k' = Suc j" using Suc.prems(2) by (cases k') (auto simp: unat_eq_0)
    have "(writei_loop k c ip src' (off + min left (512 - off mod 512)) (left - min left (512 - off mod 512)) :: ('x icached_scheme, 'z) kstate_scheme \<Rightarrow> _)
        = writei_loop j c ip src' (off + min left (512 - off mod 512)) (left - min left (512 - off mod 512))" for src'
      by (rule ext, rule Suc.IH) (use chunk_bound [OF False] Suc.prems in \<open>simp_all only: j\<close>)
    then show ?thesis unfolding j by (simp only: writei_loop.simps Let_def)
  qed simp
qed (simp add: unat_eq_0)

lemma filewrite_fuel:
  fixes S :: "('x, 'z) fstate"
  shows "nat (n - i) \<le> k \<Longrightarrow> nat (n - i) \<le> k' \<Longrightarrow> filewrite_loop k dv c f ipo src n i S = filewrite_loop k' dv c f ipo src n i S"
proof (induction k arbitrary: k' i S)
  case (Suc k)
  show ?case
  proof (cases "i < n")
    case True
    then obtain j where j: "k' = Suc j" using Suc.prems(2) by (cases k') auto
    define n1 where "n1 = (if n - i > filewrite_max then filewrite_max else n - i)"
    have "0 < n1" using True by (auto simp: n1_def filewrite_max_def MAXOPBLOCKS_def)
    then have "filewrite_loop k dv c f ipo src n (i + n1) T = filewrite_loop j dv c f ipo src n (i + n1) T" for T :: "('x, 'z) fstate"
      using Suc.IH Suc.prems True unfolding j by simp
    then show ?thesis using True unfolding j filewrite_loop.simps n1_def [symmetric] Let_def
      by (auto split: option.split intro!: bindE_cong)
  qed simp
qed simp


end
