(* ===== verification/User.thy ===== *)
theory User
  imports Sysfile Printf "HOL-Library.Monad_Syntax"
begin

text \<open>
  The user programs (\<^verbatim>\<open>cat.c\<close>, \<^verbatim>\<open>echo.c\<close>, \<^verbatim>\<open>init.c\<close>, \<^verbatim>\<open>kill.c\<close>, \<^verbatim>\<open>ln.c\<close>, \<^verbatim>\<open>ls.c\<close>, \<^verbatim>\<open>mkdir.c\<close>, \<^verbatim>\<open>rm.c\<close>, \<^verbatim>\<open>wc.c\<close>,
  \<^verbatim>\<open>zombie.c\<close>) over the system calls they make (\<^verbatim>\<open>user.h\<close>). The kernel, as a process sees it, is a record of functions on
  a state \<open>'w\<close>: what a call returns, and the state after it. \<open>read\<close> returns the bytes it stores, or \<open>None\<close> for -1; a string is a list of characters
  without the final NUL. A program ends with \<open>Ended\<close> (by \<open>exit\<close>, or by an \<open>exec\<close> that succeeds), or returns from a function with \<open>Go\<close>; \<open>None\<close> means that it runs for ever, and
  \<open>Fault\<close> that C does not define what it does.
\<close>

section \<open>System calls\<close>

record 'w usys =
  u_open :: "string \<Rightarrow> 32 word \<Rightarrow> 'w \<Rightarrow> int \<times> 'w"
  u_close :: "int \<Rightarrow> 'w \<Rightarrow> int \<times> 'w"
  u_read :: "int \<Rightarrow> nat \<Rightarrow> 'w \<Rightarrow> string option \<times> 'w"
  u_write :: "int \<Rightarrow> string \<Rightarrow> 'w \<Rightarrow> int \<times> 'w"
  u_fstat :: "int \<Rightarrow> 'w \<Rightarrow> stat_t option \<times> 'w"
  u_unlink :: "string \<Rightarrow> 'w \<Rightarrow> int \<times> 'w"
  u_mkdir :: "string \<Rightarrow> 'w \<Rightarrow> int \<times> 'w"
  u_chdir :: "string \<Rightarrow> 'w \<Rightarrow> int \<times> 'w"
  u_link :: "string \<Rightarrow> string \<Rightarrow> 'w \<Rightarrow> int \<times> 'w"
  u_mknod :: "string \<Rightarrow> int \<Rightarrow> int \<Rightarrow> 'w \<Rightarrow> int \<times> 'w"
  u_dup :: "int \<Rightarrow> 'w \<Rightarrow> int \<times> 'w"
  u_pipe :: "'w \<Rightarrow> (int \<times> int) option \<times> 'w"
  u_fork :: "'w \<Rightarrow> int \<times> 'w"
  u_wait :: "'w \<Rightarrow> int \<times> 'w"
  u_kill :: "int \<Rightarrow> 'w \<Rightarrow> int \<times> 'w"
  u_sleep :: "int \<Rightarrow> 'w \<Rightarrow> int \<times> 'w"
  u_exec :: "string \<Rightarrow> string list \<Rightarrow> 'w \<Rightarrow> bool \<times> 'w"

datatype ('a, 'w) ures = Ended 'w | Go 'a 'w | Fault

type_synonym ('a, 'w) run = "('a, 'w) ures option"

definition ubind :: "('a, 'w) run \<Rightarrow> ('a \<Rightarrow> 'w \<Rightarrow> ('b, 'w) run) \<Rightarrow> ('b, 'w) run" where
  "ubind m f = m \<bind> (\<lambda>r. case r of Ended w \<Rightarrow> Some (Ended w) | Go a w \<Rightarrow> f a w | Fault \<Rightarrow> Some Fault)"

lemma ubind_simps [simp]: "ubind (Some (Go a w)) f = f a w" "ubind (Some (Ended w)) f = Some (Ended w)" "ubind (Some Fault) f = Some Fault" "ubind None f = None"
  by (simp_all add: ubind_def)

lemma ubind_mono [partial_function_mono]:
  assumes "mono_option B" "\<And>a w. mono_option (\<lambda>f. C a w f)"
  shows "mono_option (\<lambda>f. ubind (B f) (\<lambda>a w. C a w f))"
  unfolding ubind_def
proof (rule bind_mono [OF assms(1)])
  fix r
  show "mono_option (\<lambda>f. case r of Ended w \<Rightarrow> Some (Ended w) | Go a w \<Rightarrow> C a w f | Fault \<Rightarrow> Some Fault)"
    using assms(2) by (cases r) (auto intro: option.const_mono)
qed

definition uexit :: "'w \<Rightarrow> ('a, 'w) run" where
  "uexit w = Some (Ended w)"

text \<open>\<open>printf\<close> writes its characters one at a time and does not look at the results.\<close>

definition uputs :: "'w usys \<Rightarrow> int \<Rightarrow> string \<Rightarrow> 'w \<Rightarrow> 'w" where
  "uputs sys fd out w = foldl (\<lambda>w c. snd (u_write sys fd [c] w)) w out"

definition uprintf :: "'w usys \<Rightarrow> int \<Rightarrow> string \<Rightarrow> parg list \<Rightarrow> 'w \<Rightarrow> (unit, 'w) run" where
  "uprintf sys fd fmt args w = (case printf fmt args of Inl _ \<Rightarrow> Some Fault | Inr out \<Rightarrow> Some (Go () (uputs sys fd out w)))"

abbreviation newline :: char where "newline \<equiv> CHR 0x0A"

text \<open>A program over the files named by its arguments.\<close>

fun each_arg :: "(string \<Rightarrow> 'w \<Rightarrow> (unit, 'w) run) \<Rightarrow> string list \<Rightarrow> 'w \<Rightarrow> (unit, 'w) run" where
  "each_arg f [] w = uexit w"
| "each_arg f (a # as) w = ubind (f a w) (\<lambda>_. each_arg f as)"

section \<open>echo, cat and wc\<close>

fun echo_main :: "'w usys \<Rightarrow> string list \<Rightarrow> 'w \<Rightarrow> (unit, 'w) run" where
  "echo_main sys [] w = uexit w"
| "echo_main sys (a # as) w =
     ubind (uprintf sys 1 ''%s%s'' [PStr (Some a), PStr (Some (if as = [] then [newline] else '' ''))] w) (\<lambda>_. echo_main sys as)"

partial_function (option) cat :: "'w usys \<Rightarrow> int \<Rightarrow> 'w \<Rightarrow> (unit, 'w) run" where
  "cat sys fd w =
     (case u_read sys fd 512 w of (r, w1) \<Rightarrow>
        case r of
          None \<Rightarrow> ubind (uprintf sys 1 (''cat: read error'' @ [newline]) [] w1) (\<lambda>_. uexit)
        | Some bs \<Rightarrow>
            if bs = [] then Some (Go () w1)
            else case u_write sys 1 bs w1 of (n, w2) \<Rightarrow>
              if n \<noteq> int (length bs) then ubind (uprintf sys 1 (''cat: write error'' @ [newline]) [] w2) (\<lambda>_. uexit) else cat sys fd w2)"

definition cat_file :: "'w usys \<Rightarrow> string \<Rightarrow> 'w \<Rightarrow> (unit, 'w) run" where
  "cat_file sys f w =
     (case u_open sys f 0 w of (fd, w1) \<Rightarrow>
        if fd < 0 then ubind (uprintf sys 1 (''cat: cannot open %s'' @ [newline]) [PStr (Some f)] w1) (\<lambda>_. uexit)
        else ubind (cat sys fd w1) (\<lambda>_ w2. Some (Go () (snd (u_close sys fd w2)))))"

definition cat_main :: "'w usys \<Rightarrow> string list \<Rightarrow> 'w \<Rightarrow> (unit, 'w) run" where
  "cat_main sys as w = (if as = [] then ubind (cat sys 0 w) (\<lambda>_. uexit) else each_arg (cat_file sys) as w)"

record wcount =
  wc_l :: "32 word"
  wc_w :: "32 word"
  wc_c :: "32 word"
  wc_inword :: bool

definition wc_space :: "char \<Rightarrow> bool" where
  "wc_space c \<longleftrightarrow> c \<in> set [CHR '' '', CHR 0x0D, CHR 0x09, CHR 0x0A, CHR 0x0B]"

definition wc_char :: "char \<Rightarrow> wcount \<Rightarrow> wcount" where
  "wc_char c x =
     (let x1 = x\<lparr>wc_c := wc_c x + 1\<rparr>;
          x2 = (if c = newline then x1\<lparr>wc_l := wc_l x1 + 1\<rparr> else x1)
      in if wc_space c then x2\<lparr>wc_inword := False\<rparr>
         else if \<not> wc_inword x2 then x2\<lparr>wc_w := wc_w x2 + 1, wc_inword := True\<rparr> else x2)"

partial_function (option) wc_loop :: "'w usys \<Rightarrow> int \<Rightarrow> wcount \<Rightarrow> 'w \<Rightarrow> (wcount, 'w) run" where
  "wc_loop sys fd x w =
     (case u_read sys fd 512 w of (r, w1) \<Rightarrow>
        case r of
          None \<Rightarrow> ubind (uprintf sys 1 (''wc: read error'' @ [newline]) [] w1) (\<lambda>_. uexit)
        | Some bs \<Rightarrow> if bs = [] then Some (Go x w1) else wc_loop sys fd (fold wc_char bs x) w1)"

definition wc :: "'w usys \<Rightarrow> int \<Rightarrow> string \<Rightarrow> 'w \<Rightarrow> (unit, 'w) run" where
  "wc sys fd name w =
     ubind (wc_loop sys fd \<lparr>wc_l = 0, wc_w = 0, wc_c = 0, wc_inword = False\<rparr> w) (\<lambda>x.
     uprintf sys 1 (''%d %d %d %s'' @ [newline]) [PWord (wc_l x), PWord (wc_w x), PWord (wc_c x), PStr (Some name)])"

definition wc_file :: "'w usys \<Rightarrow> string \<Rightarrow> 'w \<Rightarrow> (unit, 'w) run" where
  "wc_file sys f w =
     (case u_open sys f 0 w of (fd, w1) \<Rightarrow>
        if fd < 0 then ubind (uprintf sys 1 (''wc: cannot open %s'' @ [newline]) [PStr (Some f)] w1) (\<lambda>_. uexit)
        else ubind (wc sys fd f w1) (\<lambda>_ w2. Some (Go () (snd (u_close sys fd w2)))))"

definition wc_main :: "'w usys \<Rightarrow> string list \<Rightarrow> 'w \<Rightarrow> (unit, 'w) run" where
  "wc_main sys as w = (if as = [] then ubind (wc sys 0 [] w) (\<lambda>_. uexit) else each_arg (wc_file sys) as w)"

section \<open>ls\<close>

definition fmtname :: "string \<Rightarrow> string" where
  "fmtname path =
     (let p = rev (takeWhile (\<lambda>c. c \<noteq> CHR ''/'') (rev path))
      in if length p \<ge> DIRSIZ then p else p @ replicate (DIRSIZ - length p) (CHR '' ''))"

definition ustat :: "'w usys \<Rightarrow> string \<Rightarrow> 'w \<Rightarrow> stat_t option \<times> 'w" where
  "ustat sys n w =
     (case u_open sys n 0 w of (fd, w1) \<Rightarrow>
        if fd < 0 then (None, w1) else case u_fstat sys fd w1 of (r, w2) \<Rightarrow> (r, snd (u_close sys fd w2)))"

definition ls_line :: "'w usys \<Rightarrow> string \<Rightarrow> stat_t \<Rightarrow> 'w \<Rightarrow> (unit, 'w) run" where
  "ls_line sys path st w =
     uprintf sys 1 (''%s %d %d %d'' @ [newline]) [PStr (Some (fmtname path)), PWord (scast (st_type st)), PWord (st_ino st), PWord (st_size st)] w"

partial_function (option) ls_dir :: "'w usys \<Rightarrow> int \<Rightarrow> string \<Rightarrow> 'w \<Rightarrow> (unit, 'w) run" where
  "ls_dir sys fd path w =
     (case u_read sys fd 16 w of (r, w1) \<Rightarrow>
        case r of None \<Rightarrow> Some (Go () w1)
        | Some bs \<Rightarrow>
            if length bs \<noteq> 16 then Some (Go () w1)
            else if de_inum (dirent_of (map of_char bs)) = 0 then ls_dir sys fd path w1
            else let buf = path @ ''/'' @ takeWhile (\<lambda>c. c \<noteq> CHR 0x00) (take DIRSIZ (drop 2 bs))
              in case ustat sys buf w1 of (st, w2) \<Rightarrow>
                 ubind (case st of None \<Rightarrow> uprintf sys 1 (''ls: cannot stat %s'' @ [newline]) [PStr (Some buf)] w2
                        | Some x \<Rightarrow> ls_line sys buf x w2) (\<lambda>_ w3. ls_dir sys fd path w3))"

definition ls :: "'w usys \<Rightarrow> string \<Rightarrow> 'w \<Rightarrow> (unit, 'w) run" where
  "ls sys path w =
     (case u_open sys path 0 w of (fd, w1) \<Rightarrow>
        if fd < 0 then uprintf sys 2 (''ls: cannot open %s'' @ [newline]) [PStr (Some path)] w1
        else case u_fstat sys fd w1 of (st, w2) \<Rightarrow>
          case st of None \<Rightarrow> ubind (uprintf sys 2 (''ls: cannot stat %s'' @ [newline]) [PStr (Some path)] w2) (\<lambda>_ w3. Some (Go () (snd (u_close sys fd w3))))
          | Some x \<Rightarrow>
              ubind (if st_type x = T_FILE then ls_line sys path x w2
                     else if st_type x = T_DIR
                     then if length path + 1 + DIRSIZ + 1 > 512 then uprintf sys 1 (''ls: path too long'' @ [newline]) [] w2
                          else ls_dir sys fd path w2
                     else Some (Go () w2))
                (\<lambda>_ w3. Some (Go () (snd (u_close sys fd w3)))))"

definition ls_main :: "'w usys \<Rightarrow> string list \<Rightarrow> 'w \<Rightarrow> (unit, 'w) run" where
  "ls_main sys as w = (if as = [] then ubind (ls sys ''.'' w) (\<lambda>_. uexit) else each_arg (ls sys) as w)"

section \<open>rm, mkdir, ln, kill and zombie\<close>

fun until_failure :: "'w usys \<Rightarrow> (string \<Rightarrow> 'w \<Rightarrow> int \<times> 'w) \<Rightarrow> string \<Rightarrow> string list \<Rightarrow> 'w \<Rightarrow> (unit, 'w) run" where
  "until_failure sys f msg [] w = uexit w"
| "until_failure sys f msg (a # as) w =
     (case f a w of (r, w1) \<Rightarrow>
        if r < 0 then ubind (uprintf sys 2 msg [PStr (Some a)] w1) (\<lambda>_. uexit) else until_failure sys f msg as w1)"

definition rm_main :: "'w usys \<Rightarrow> string list \<Rightarrow> 'w \<Rightarrow> (unit, 'w) run" where
  "rm_main sys as w =
     (if as = [] then ubind (uprintf sys 2 (''Usage: rm files...'' @ [newline]) [] w) (\<lambda>_. uexit)
      else until_failure sys (u_unlink sys) (''rm: %s failed to delete'' @ [newline]) as w)"

definition mkdir_main :: "'w usys \<Rightarrow> string list \<Rightarrow> 'w \<Rightarrow> (unit, 'w) run" where
  "mkdir_main sys as w =
     (if as = [] then ubind (uprintf sys 2 (''Usage: mkdir files...'' @ [newline]) [] w) (\<lambda>_. uexit)
      else until_failure sys (u_mkdir sys) (''mkdir: %s failed to create'' @ [newline]) as w)"

definition ln_main :: "'w usys \<Rightarrow> string list \<Rightarrow> 'w \<Rightarrow> (unit, 'w) run" where
  "ln_main sys as w =
     (case as of
        [old, new] \<Rightarrow>
          (case u_link sys old new w of (r, w1) \<Rightarrow>
             if r < 0 then ubind (uprintf sys 2 (''link %s %s: failed'' @ [newline]) [PStr (Some old), PStr (Some new)] w1) (\<lambda>_. uexit) else uexit w1)
      | _ \<Rightarrow> ubind (uprintf sys 2 (''Usage: ln old new'' @ [newline]) [] w) (\<lambda>_. uexit))"

definition kill_main :: "'w usys \<Rightarrow> string list \<Rightarrow> 'w \<Rightarrow> (unit, 'w) run" where
  "kill_main sys as w =
     (if as = [] then ubind (uprintf sys 2 (''usage: kill pid...'' @ [newline]) [] w) (\<lambda>_. uexit)
      else uexit (foldl (\<lambda>w a. snd (u_kill sys (atoi a) w)) w as))"

definition zombie_main :: "'w usys \<Rightarrow> 'w \<Rightarrow> (unit, 'w) run" where
  "zombie_main sys w = (case u_fork sys w of (pid, w1) \<Rightarrow> uexit (if pid > 0 then snd (u_sleep sys 5 w1) else w1))"

section \<open>init\<close>

partial_function (option) init_wait :: "'w usys \<Rightarrow> int \<Rightarrow> 'w \<Rightarrow> (unit, 'w) run" where
  "init_wait sys pid w =
     (case u_wait sys w of (wpid, w1) \<Rightarrow>
        if wpid \<ge> 0 \<and> wpid \<noteq> pid then ubind (uprintf sys 1 (''zombie!'' @ [newline]) [] w1) (\<lambda>_ w2. init_wait sys pid w2) else Some (Go () w1))"

partial_function (option) init_loop :: "'w usys \<Rightarrow> 'w \<Rightarrow> (unit, 'w) run" where
  "init_loop sys w =
     ubind (uprintf sys 1 (''init: starting sh'' @ [newline]) [] w) (\<lambda>_ w1.
     case u_fork sys w1 of (pid, w2) \<Rightarrow>
       if pid < 0 then ubind (uprintf sys 1 (''init: fork failed'' @ [newline]) [] w2) (\<lambda>_. uexit)
       else if pid = 0
       then case u_exec sys ''sh'' [''sh''] w2 of (replaced, w3) \<Rightarrow>
              if replaced then Some (Ended w3) else ubind (uprintf sys 1 (''init: exec sh failed'' @ [newline]) [] w3) (\<lambda>_. uexit)
       else ubind (init_wait sys pid w2) (\<lambda>_ w3. init_loop sys w3))"

definition init_main :: "'w usys \<Rightarrow> 'w \<Rightarrow> (unit, 'w) run" where
  "init_main sys w =
     (case u_open sys ''console'' O_RDWR w of (fd, w1) \<Rightarrow>
      let w2 = (if fd < 0 then snd (u_open sys ''console'' O_RDWR (snd (u_mknod sys ''console'' 1 1 w1))) else w1)
      in init_loop sys (snd (u_dup sys 0 (snd (u_dup sys 0 w2)))))"

end
