(* ===== verification/Grep.thy ===== *)
theory Grep
  imports User
begin

text \<open>
  \<^verbatim>\<open>grep.c\<close>: the matcher for patterns with \<open>^\<close>, \<open>.\<close>, \<open>*\<close> and \<open>$\<close>, and the program around it. \<open>occurs\<close> is the meaning of a pattern, without an
  order of search; the matcher finds a match just when there is one, and \<open>grep\<close> prints the lines with a match as long as every read brings the end of a line.
\<close>

section \<open>The matcher\<close>

fun matchhere :: "string \<Rightarrow> string \<Rightarrow> bool"
and matchstar :: "char \<Rightarrow> string \<Rightarrow> string \<Rightarrow> bool" where
  "matchhere [] text = True"
| "matchhere (c # re) text =
     (if re \<noteq> [] \<and> hd re = CHR ''*'' then matchstar c (tl re) text
      else if c = CHR ''$'' \<and> re = [] then text = []
      else case text of [] \<Rightarrow> False | t # text' \<Rightarrow> (c = CHR ''.'' \<or> c = t) \<and> matchhere re text')"
| "matchstar c re text =
     (matchhere re text \<or> (case text of [] \<Rightarrow> False | t # text' \<Rightarrow> (t = c \<or> c = CHR ''.'') \<and> matchstar c re text'))"

fun match_from :: "string \<Rightarrow> string \<Rightarrow> bool" where
  "match_from re [] = matchhere re []"
| "match_from re (t # text) = (matchhere re (t # text) \<or> match_from re text)"

definition match :: "string \<Rightarrow> string \<Rightarrow> bool" where
  "match re text = (if re \<noteq> [] \<and> hd re = CHR ''^'' then matchhere (tl re) text else match_from re text)"

section \<open>The program\<close>

text \<open>
  The lines of the buffer from \<open>p\<close> on; the search for the end of a line stops at a NUL. The result is where \<open>p\<close> stands after the last of them. The buffer holds 1024 characters, the
  first \<open>m\<close> of them, here the string \<open>pend\<close>, from the last read.
\<close>

function grep_lines :: "'w usys \<Rightarrow> string \<Rightarrow> string \<Rightarrow> 'w \<Rightarrow> string \<times> 'w" where
  "grep_lines sys pattern p w =
     (if newline \<in> set (takeWhile (\<lambda>c. c \<noteq> CHR 0x00) p)
      then let l = takeWhile (\<lambda>c. c \<noteq> newline) p
        in grep_lines sys pattern (drop (length l + 1) p) (if match pattern l then snd (u_write sys 1 (l @ [newline]) w) else w)
      else (p, w))"
  by pat_completeness auto
termination
proof (relation "measure (\<lambda>(sys, pattern, p, w). length p)", goal_cases)
  case (2 sys pattern p w l)
  then have "newline \<in> set p" by (auto dest: set_takeWhileD)
  then have "p \<noteq> []" by auto
  then show ?case by simp
qed simp

partial_function (option) grep_loop :: "'w usys \<Rightarrow> string \<Rightarrow> int \<Rightarrow> string \<Rightarrow> 'w \<Rightarrow> (unit, 'w) run" where
  "grep_loop sys pattern fd pend w =
     (case u_read sys fd (1024 - length pend - 1) w of (r, w1) \<Rightarrow>
        case r of None \<Rightarrow> Some (Go () w1)
        | Some bs \<Rightarrow>
            if bs = [] then Some (Go () w1)
            else case grep_lines sys pattern (pend @ bs) w1 of (p, w2) \<Rightarrow>
              grep_loop sys pattern fd (if length p = length (pend @ bs) then [] else p) w2)"

definition grep :: "'w usys \<Rightarrow> string \<Rightarrow> int \<Rightarrow> 'w \<Rightarrow> (unit, 'w) run" where
  "grep sys pattern fd w = grep_loop sys pattern fd [] w"

definition grep_file :: "'w usys \<Rightarrow> string \<Rightarrow> string \<Rightarrow> 'w \<Rightarrow> (unit, 'w) run" where
  "grep_file sys pattern f w =
     (case u_open sys f 0 w of (fd, w1) \<Rightarrow>
        if fd < 0 then ubind (uprintf sys 1 (''grep: cannot open %s'' @ [newline]) [PStr (Some f)] w1) (\<lambda>_. uexit)
        else ubind (grep sys pattern fd w1) (\<lambda>_ w2. Some (Go () (snd (u_close sys fd w2)))))"

definition grep_main :: "'w usys \<Rightarrow> string list \<Rightarrow> 'w \<Rightarrow> (unit, 'w) run" where
  "grep_main sys as w =
     (case as of [] \<Rightarrow> ubind (uprintf sys 2 (''usage: grep pattern [file ...]'' @ [newline]) [] w) (\<lambda>_. uexit)
      | pattern # fs \<Rightarrow> if fs = [] then ubind (grep sys pattern 0 w) (\<lambda>_. uexit) else each_arg (grep_file sys pattern) fs w)"

section \<open>The meaning of a pattern\<close>

text \<open>
  The words that a pattern without \<open>^\<close> stands for, and whether it ends with the \<open>$\<close> that asks for the end of the text. A \<open>*\<close> repeats the character before it, whichever it is; at the beginning of
  a pattern it stands for itself.
\<close>

definition fits :: "char \<Rightarrow> char \<Rightarrow> bool" where
  "fits c x \<longleftrightarrow> c = CHR ''.'' \<or> c = x"

fun language :: "string \<Rightarrow> string set" where
  "language [] = {[]}"
| "language (c # re) =
     (if re \<noteq> [] \<and> hd re = CHR ''*'' then {u @ v | u v. (\<forall>x \<in> set u. fits c x) \<and> v \<in> language (tl re)}
      else if c = CHR ''$'' \<and> re = [] then {[]}
      else {x # v | x v. fits c x \<and> v \<in> language re})"

fun at_end :: "string \<Rightarrow> bool" where
  "at_end [] = False"
| "at_end (c # re) = (if re \<noteq> [] \<and> hd re = CHR ''*'' then at_end (tl re) else if c = CHR ''$'' \<and> re = [] then True else at_end re)"

definition occurs :: "string \<Rightarrow> string \<Rightarrow> bool" where
  "occurs re text \<longleftrightarrow>
     (let start = (re \<noteq> [] \<and> hd re = CHR ''^''); body = (if start then tl re else re)
      in \<exists>before u after. text = before @ u @ after \<and> u \<in> language body \<and> (start \<longrightarrow> before = []) \<and> (at_end body \<longrightarrow> after = []))"

lemma matchstar_iff: "matchstar c re s \<longleftrightarrow> (\<exists>u v. s = u @ v \<and> (\<forall>x \<in> set u. fits c x) \<and> matchhere re v)"
proof (induction s)
  case (Cons t s)
  show ?case
  proof
    assume "matchstar c re (t # s)"
    then consider "matchhere re (t # s)" | "fits c t" "matchstar c re s" by (auto simp: fits_def)
    then show "\<exists>u v. t # s = u @ v \<and> (\<forall>x \<in> set u. fits c x) \<and> matchhere re v"
    proof cases
      case 2
      then obtain u v where "s = u @ v" "\<forall>x \<in> set u. fits c x" "matchhere re v" using Cons.IH by auto
      then show ?thesis using 2(1) by (intro exI [of _ "t # u"] exI [of _ v]) simp
    qed (intro exI [of _ "[]"] exI [of _ "t # s"], simp)
  next
    assume "\<exists>u v. t # s = u @ v \<and> (\<forall>x \<in> set u. fits c x) \<and> matchhere re v"
    then obtain u v where uv: "t # s = u @ v" "\<forall>x \<in> set u. fits c x" "matchhere re v" by auto
    show "matchstar c re (t # s)"
    proof (cases u)
      case (Cons x u')
      then show ?thesis using uv Cons.IH by (auto simp: fits_def)
    qed (use uv in auto)
  qed
qed simp

text \<open>A split of the text and then of the rest, as a split of the text and then of its first part.\<close>

lemma split_append:
  "(\<exists>u r. s = u @ r \<and> P u \<and> (\<exists>u' v. r = u' @ v \<and> Q u' \<and> R v)) \<longleftrightarrow> (\<exists>w v. s = w @ v \<and> (\<exists>u u'. w = u @ u' \<and> P u \<and> Q u') \<and> R v)"
proof (intro iffI; elim exE conjE)
  fix u r u' v
  assume "s = u @ r" "P u" "r = u' @ v" "Q u'" "R v"
  then show "\<exists>w v. s = w @ v \<and> (\<exists>u u'. w = u @ u' \<and> P u \<and> Q u') \<and> R v" by (intro exI [of _ "u @ u'"] exI [of _ v]) auto
qed auto

lemma split_Cons:
  "(\<exists>t r. s = t # r \<and> P t \<and> (\<exists>u v. r = u @ v \<and> Q u \<and> R v)) \<longleftrightarrow> (\<exists>w v. s = w @ v \<and> (\<exists>t u. w = t # u \<and> P t \<and> Q u) \<and> R v)"
proof (intro iffI; elim exE conjE)
  fix t r u v
  assume "s = t # r" "P t" "r = u @ v" "Q u" "R v"
  then show "\<exists>w v. s = w @ v \<and> (\<exists>t u. w = t # u \<and> P t \<and> Q u) \<and> R v" by (intro exI [of _ "t # u"] exI [of _ v]) auto
qed auto

lemma matchhere_iff: "matchhere re s \<longleftrightarrow> (\<exists>u v. s = u @ v \<and> u \<in> language re \<and> (at_end re \<longrightarrow> v = []))"
proof (induction re arbitrary: s rule: language.induct)
  case (2 c re)
  consider (star) "re \<noteq> [] \<and> hd re = CHR ''*''" | (dollar) "\<not> (re \<noteq> [] \<and> hd re = CHR ''*'')" "c = CHR ''$'' \<and> re = []"
    | (one) "\<not> (re \<noteq> [] \<and> hd re = CHR ''*'')" "\<not> (c = CHR ''$'' \<and> re = [])" by blast
  then show ?case
  proof cases
    case star
    have "matchhere (c # re) s \<longleftrightarrow> (\<exists>u v. s = u @ v \<and> (\<forall>x \<in> set u. fits c x) \<and> matchhere (tl re) v)" using star matchstar_iff by simp
    then show ?thesis unfolding 2(1) [OF star] split_append using star by simp
  next
    case one
    have m: "matchhere (c # re) s \<longleftrightarrow> (\<exists>t r. s = t # r \<and> fits c t \<and> matchhere re r)" using one by (cases s) (auto simp: fits_def)
    have l: "language (c # re) = {x # v | x v. fits c x \<and> v \<in> language re}" "at_end (c # re) = at_end re"
      unfolding language.simps at_end.simps if_not_P [OF one(1)] if_not_P [OF one(2)] by (rule refl)+
    show ?thesis unfolding m 2(2) [OF one] split_Cons l by simp
  qed auto
qed simp

lemma match_from_iff: "match_from re s \<longleftrightarrow> (\<exists>before v. s = before @ v \<and> matchhere re v)"
proof (induction s)
  case (Cons t s)
  show ?case unfolding match_from.simps Cons.IH by (auto simp: Cons_eq_append_conv)
qed simp

lemma match_occurs: "match re s = occurs re s"
  by (cases "re \<noteq> [] \<and> hd re = CHR ''^''") (auto simp: match_def occurs_def Let_def matchhere_iff match_from_iff)

section \<open>What grep prints\<close>

text \<open>
  A system in which reading \<open>fd\<close> gives the pieces \<open>inp w\<close> of a file one by one, as long as the caller has room for the next piece, and then nothing, and in which what is written to the standard output is
  added to \<open>out w\<close>.
\<close>

definition streams :: "'w usys \<Rightarrow> int \<Rightarrow> ('w \<Rightarrow> string list) \<Rightarrow> ('w \<Rightarrow> string) \<Rightarrow> bool" where
  "streams sys fd inp out \<longleftrightarrow>
     (\<forall>w n. case inp w of
        [] \<Rightarrow> fst (u_read sys fd n w) = Some [] \<and> out (snd (u_read sys fd n w)) = out w
      | c # cs \<Rightarrow> length c \<le> n \<longrightarrow> fst (u_read sys fd n w) = Some c \<and> inp (snd (u_read sys fd n w)) = cs \<and> out (snd (u_read sys fd n w)) = out w)
     \<and> (\<forall>w s. inp (snd (u_write sys 1 s w)) = inp w \<and> out (snd (u_write sys 1 s w)) = out w @ s)"

text \<open>The lines of a text that end with a newline, and what is after the last one.\<close>

function lines_of :: "string \<Rightarrow> string list" where
  "lines_of s = (if newline \<in> set s then takeWhile (\<lambda>c. c \<noteq> newline) s # lines_of (drop (length (takeWhile (\<lambda>c. c \<noteq> newline) s) + 1) s) else [])"
  by pat_completeness auto
termination
proof (relation "measure length", goal_cases)
  case (2 s)
  then have "s \<noteq> []" by auto
  then show ?case by simp
qed simp

declare lines_of.simps [simp del] grep_lines.simps [simp del]

definition last_line :: "string \<Rightarrow> string" where
  "last_line s = rev (takeWhile (\<lambda>c. c \<noteq> newline) (rev s))"

lemma lines_simps: "newline \<notin> set s \<Longrightarrow> lines_of s = []" "newline \<notin> set l \<Longrightarrow> lines_of (l @ newline # s) = l # lines_of s"
  by (subst lines_of.simps; simp add: takeWhile_append)+

lemma split_newline:
  assumes "newline \<in> set s"
  obtains l r where "s = l @ newline # r" "newline \<notin> set l"
  using split_list_first [OF assms] by blast

lemma last_line_simps: "newline \<notin> set s \<Longrightarrow> last_line s = s" "last_line (l @ newline # s) = last_line s"
proof -
  have t: "newline \<notin> set u \<Longrightarrow> takeWhile (\<lambda>c. c \<noteq> newline) (u @ newline # v) = u" "newline \<notin> set u \<Longrightarrow> takeWhile (\<lambda>c. c \<noteq> newline) u = u"
    "newline \<in> set u \<Longrightarrow> takeWhile (\<lambda>c. c \<noteq> newline) (u @ v) = takeWhile (\<lambda>c. c \<noteq> newline) u" for u v :: string by (induction u) auto
  show "newline \<notin> set s \<Longrightarrow> last_line s = s" by (simp add: last_line_def t)
  show "last_line (l @ newline # s) = last_line s" by (cases "newline \<in> set s") (simp_all add: last_line_def t)
qed

lemma last_line_free: "newline \<notin> set (last_line s)"
  by (auto simp: last_line_def dest: set_takeWhileD)

lemma lines_append: "lines_of (s @ t) = lines_of s @ lines_of (last_line s @ t)"
proof (induction s rule: lines_of.induct)
  case (1 s)
  show ?case
  proof (cases "newline \<in> set s")
    case True
    then obtain l r where s: "s = l @ newline # r" "newline \<notin> set l" by (rule split_newline)
    then have "drop (length (takeWhile (\<lambda>c. c \<noteq> newline) s) + 1) s = r" by (simp add: takeWhile_append)
    then have "lines_of (r @ t) = lines_of r @ lines_of (last_line r @ t)" using 1 [OF True] by simp
    then show ?thesis using s by (simp add: lines_simps last_line_simps)
  qed (simp add: lines_simps last_line_simps)
qed

definition printed :: "string \<Rightarrow> string \<Rightarrow> string" where
  "printed pattern s = concat (map (\<lambda>l. l @ [newline]) (filter (occurs pattern) (lines_of s)))"

lemma grep_lines_spec:
  assumes "streams sys fd inp out" "CHR 0x00 \<notin> set s"
  shows "\<exists>w'. grep_lines sys pattern s w = (last_line s, w') \<and> inp w' = inp w \<and> out w' = out w @ printed pattern s"
  using assms(2)
proof (induction s arbitrary: w rule: lines_of.induct)
  case (1 s)
  have nul: "takeWhile (\<lambda>c. c \<noteq> CHR 0x00) s = s" using 1(2) by (auto simp: takeWhile_eq_all_conv)
  show ?case
  proof (cases "newline \<in> set s")
    case True
    then obtain l r where s: "s = l @ newline # r" "newline \<notin> set l" by (rule split_newline)
    have l: "takeWhile (\<lambda>c. c \<noteq> newline) s = l" "drop (length l + 1) s = r" using s by (simp_all add: takeWhile_append)
    define w1 where "w1 = (if match pattern l then snd (u_write sys 1 (l @ [newline]) w) else w)"
    have w1: "inp w1 = inp w" "out w1 = out w @ (if occurs pattern l then l @ [newline] else [])"
      using assms(1) by (auto simp: w1_def streams_def match_occurs)
    have "CHR 0x00 \<notin> set r" using 1(2) s(1) by auto
    then obtain w' where w': "grep_lines sys pattern r w1 = (last_line r, w')" "inp w' = inp w1" "out w' = out w1 @ printed pattern r"
      using 1(1) [OF True, of w1] l by auto
    have "grep_lines sys pattern s w = grep_lines sys pattern r w1"
      using True by (subst grep_lines.simps) (simp only: nul l Let_def w1_def if_True)
    then show ?thesis using w' w1 s by (auto simp: printed_def lines_simps last_line_simps)
  next
    case False
    then show ?thesis by (subst grep_lines.simps) (simp add: nul printed_def lines_simps last_line_simps)
  qed
qed

lemma last_line_length: "length (last_line s) \<le> length s" "newline \<in> set s \<Longrightarrow> length (last_line s) < length s"
proof -
  show le: "length (last_line s) \<le> length s" for s by (simp add: last_line_def length_takeWhile_le [THEN order_trans])
  assume "newline \<in> set s"
  then obtain l r where "s = l @ newline # r" by (rule split_newline)
  then show "length (last_line s) < length s" using le [of r] by (simp add: last_line_simps)
qed

lemma last_line_append: "newline \<in> set t \<Longrightarrow> last_line (s @ t) = last_line t"
proof -
  assume "newline \<in> set t"
  then obtain l r where "t = l @ newline # r" by (rule split_newline)
  then show ?thesis using last_line_simps(2) [of "s @ l" r] last_line_simps(2) [of l r] by simp
qed

lemma printed_append: "printed pattern (s @ t) = printed pattern s @ printed pattern (last_line s @ t)"
  using lines_append [of s t] by (simp add: printed_def)

definition whole_lines :: "string \<Rightarrow> bool" where
  "whole_lines c \<longleftrightarrow> newline \<in> set c \<and> CHR 0x00 \<notin> set c \<and> length c \<le> 512"

lemma grep_loop_spec:
  assumes "streams sys fd inp out"
  shows "\<forall>c \<in> set (inp w). whole_lines c \<Longrightarrow> newline \<notin> set pend \<Longrightarrow> CHR 0x00 \<notin> set pend \<Longrightarrow> length pend < 512 \<Longrightarrow>
    \<exists>w'. grep_loop sys pattern fd pend w = Some (Go () w') \<and> out w' = out w @ printed pattern (pend @ concat (inp w))"
proof (induction "inp w" arbitrary: w pend)
  case Nil
  then have "fst (u_read sys fd n w) = Some []" "out (snd (u_read sys fd n w)) = out w" for n using assms by (auto simp: streams_def split: list.splits)
  then show ?case using Nil by (subst grep_loop.simps) (simp add: split_beta printed_def lines_simps flip: Nil(1))
next
  case (Cons c cs)
  have c: "whole_lines c" using Cons(3) by (simp flip: Cons(2))
  let ?n = "1024 - length pend - 1" and ?buf = "pend @ c"
  define w1 where "w1 = snd (u_read sys fd ?n w)"
  have "length c \<le> ?n" using c Cons(6) unfolding whole_lines_def by linarith
  then have r: "u_read sys fd ?n w = (Some c, w1)" "inp w1 = cs" "out w1 = out w"
    using assms unfolding streams_def w1_def by (auto simp: prod_eq_iff dest!: spec [of _ w] simp flip: Cons(2))
  obtain w2 where w2: "grep_lines sys pattern ?buf w1 = (last_line ?buf, w2)" "inp w2 = cs" "out w2 = out w @ printed pattern ?buf"
    using grep_lines_spec [OF assms, of ?buf pattern w1] c Cons(5) r by (auto simp: whole_lines_def)
  have ll: "last_line ?buf = last_line c" "length (last_line c) < length c" "c \<noteq> []" using c by (auto simp: whole_lines_def last_line_append last_line_length)
  have step: "grep_loop sys pattern fd pend w = grep_loop sys pattern fd (last_line ?buf) w2"
    using r(1) w2(1) ll by (subst grep_loop.simps) simp
  have n0: "CHR 0x00 \<notin> set (last_line c)" using c by (auto simp: whole_lines_def last_line_def dest: set_takeWhileD)
  have sub: "\<forall>x \<in> set (inp w2). whole_lines x" using Cons(3) w2(2) by (simp flip: Cons(2))
  have l5: "length (last_line c) < 512" using ll(2) c unfolding whole_lines_def by linarith
  have "\<exists>w'. grep_loop sys pattern fd (last_line ?buf) w2 = Some (Go () w') \<and> out w' = out w2 @ printed pattern (last_line ?buf @ concat (inp w2))"
    using Cons(1) [of w2 "last_line ?buf"] w2(2) sub ll(1) l5 n0 last_line_free by simp
  then show ?case using step w2 printed_append [of pattern ?buf "concat cs"] by (auto simp flip: Cons(2))
qed

text \<open>
  C22. \<open>grep\<close> ends and prints exactly the lines in which the pattern occurs, in order, when every piece that \<open>read\<close> brings has the end of a line in it and at most 512 characters. A piece without the
  end of a line, with nothing kept from before, is forgotten: the line that it begins is not searched.
\<close>

theorem grep_prints:
  assumes "streams sys fd inp out"
  shows "((\<forall>c \<in> set (inp w). whole_lines c) \<longrightarrow> (\<exists>w'. grep sys pattern fd w = Some (Go () w') \<and> out w' = out w @ printed pattern (concat (inp w))))
    \<and> (\<forall>c cs. inp w = c # cs \<and> newline \<notin> set c \<and> c \<noteq> [] \<and> length c \<le> 512 \<longrightarrow> grep sys pattern fd w = grep sys pattern fd (snd (u_read sys fd 1023 w)))"
proof (intro conjI allI impI)
  assume "\<forall>c \<in> set (inp w). whole_lines c"
  then show "\<exists>w'. grep sys pattern fd w = Some (Go () w') \<and> out w' = out w @ printed pattern (concat (inp w))"
    using grep_loop_spec [OF assms, of w "[]"] by (simp add: grep_def)
next
  fix c cs
  assume c: "inp w = c # cs \<and> newline \<notin> set c \<and> c \<noteq> [] \<and> length c \<le> 512"
  then have "fst (u_read sys fd 1023 w) = Some c" using assms by (auto simp: streams_def dest!: spec [of _ w])
  moreover have "grep_lines sys pattern c w1 = (c, w1)" for w1 using c by (subst grep_lines.simps) (auto dest: set_takeWhileD)
  ultimately show "grep sys pattern fd w = grep sys pattern fd (snd (u_read sys fd 1023 w))"
    unfolding grep_def using c by (subst grep_loop.simps) (simp add: split_beta)
qed

text \<open>A process that reads the pieces of its first component and whose output goes to the second.\<close>

definition demo_sys :: "(string list \<times> string) usys" where
  "demo_sys = \<lparr>u_open = (\<lambda>_ _ w. (-1, w)), u_close = (\<lambda>_ w. (-1, w)),
     u_read = (\<lambda>_ n (cs, out). case cs of [] \<Rightarrow> (Some [], ([], out))
       | c # cs' \<Rightarrow> if length c \<le> n then (Some c, (cs', out)) else (Some (take n c), (drop n c # cs', out))),
     u_write = (\<lambda>_ s (cs, out). (int (length s), (cs, out @ s))), u_fstat = (\<lambda>_ w. (None, w)),
     u_unlink = (\<lambda>_ w. (-1, w)), u_mkdir = (\<lambda>_ w. (-1, w)), u_chdir = (\<lambda>_ w. (-1, w)), u_link = (\<lambda>_ _ w. (-1, w)), u_mknod = (\<lambda>_ _ _ w. (-1, w)),
     u_dup = (\<lambda>_ w. (-1, w)), u_pipe = (\<lambda>w. (None, w)), u_fork = (\<lambda>w. (-1, w)), u_wait = (\<lambda>w. (-1, w)), u_kill = (\<lambda>_ w. (-1, w)), u_sleep = (\<lambda>_ w. (0, w)),
     u_exec = (\<lambda>_ _ w. (False, w))\<rparr>"

lemma demo_streams: "streams demo_sys fd fst snd"
  by (auto simp: streams_def demo_sys_def split: list.split)

theorem grep_prints_witness:
  "(\<exists>w. grep demo_sys ''^a.*c'' 0 ([''abc'' @ [newline, CHR ''b''], ''a'' @ [newline]], []) = Some (Go () w) \<and> snd w = ''abc'' @ [newline])
   \<and> grep demo_sys ''a'' 0 ([''ab'', ''c'' @ [newline]], []) = grep demo_sys ''a'' 0 ([''c'' @ [newline]], [])"
proof -
  have p: "printed ''^a.*c'' (concat [''abc'' @ [newline, CHR ''b''], ''a'' @ [newline]]) = ''abc'' @ [newline]"
    by (simp add: printed_def lines_of.simps match_occurs [symmetric] match_def)
  show ?thesis
    using grep_prints [OF demo_streams, of "([''abc'' @ [newline, CHR ''b''], ''a'' @ [newline]], [])" "''^a.*c''" 0]
      grep_prints [OF demo_streams, of "([''ab'', ''c'' @ [newline]], [])" "''a''" 0] p
    by (auto simp: whole_lines_def demo_sys_def)
qed

end
