(* ===== verification/Shell.thy ===== *)
theory Shell
  imports User
begin

text \<open>
  The shell (\<^verbatim>\<open>sh.c\<close>): its parser, on the characters of the line from \<open>*ps\<close> up to \<open>es\<close>, and what it does with a command over the system calls. A pointer into the line is
  its distance from \<open>es\<close>, so that a token is a pair of numbers; a parser returns the command and the rest of the line, or the text that \<open>panic\<close> prints before it exits. \<open>malloc\<close> is taken to succeed. The
  parsers call each other with a bound \<open>k\<close> on the depth of the calls, which \<open>parsecmd\<close> chooses so large that it is never reached.
\<close>

section \<open>Commands\<close>

type_synonym token = "nat \<times> nat"

datatype 't tree =
    EXEC "'t list"
  | REDIR "'t tree" 't "32 word" int
  | PIPE "'t tree" "'t tree"
  | LIST "'t tree" "'t tree"
  | BACK "'t tree"

type_synonym cmd = "token tree"

definition MAXARGS :: nat where "MAXARGS = 20"

text \<open>The functions that allocate and fill in the structures.\<close>

abbreviation execcmd :: cmd where "execcmd \<equiv> EXEC []"
abbreviation redircmd :: "cmd \<Rightarrow> token \<Rightarrow> 32 word \<Rightarrow> int \<Rightarrow> cmd" where "redircmd subcmd f mode fd \<equiv> REDIR subcmd f mode fd"
abbreviation pipecmd :: "cmd \<Rightarrow> cmd \<Rightarrow> cmd" where "pipecmd left right \<equiv> PIPE left right"
abbreviation listcmd :: "cmd \<Rightarrow> cmd \<Rightarrow> cmd" where "listcmd left right \<equiv> LIST left right"
abbreviation backcmd :: "cmd \<Rightarrow> cmd" where "backcmd subcmd \<equiv> BACK subcmd"

section \<open>Tokens\<close>

definition whitespace :: "char \<Rightarrow> bool" where
  "whitespace c \<longleftrightarrow> c \<in> set [CHR '' '', CHR 0x09, CHR 0x0D, CHR 0x0A, CHR 0x0B]"

definition symbols :: "char \<Rightarrow> bool" where
  "symbols c \<longleftrightarrow> c \<in> set ''<|>&;()''"

definition gettoken :: "string \<Rightarrow> char \<times> token \<times> string" where
  "gettoken ps =
     (let s = dropWhile whitespace ps;
          (ret, s1) =
            (case s of [] \<Rightarrow> (CHR 0x00, s)
             | c # s' \<Rightarrow>
                 if c \<in> set ''|();&<'' then (c, s')
                 else if c = CHR ''>'' then if s' \<noteq> [] \<and> hd s' = CHR ''>'' then (CHR ''+'', tl s') else (c, s')
                 else (CHR ''a'', dropWhile (\<lambda>c. \<not> whitespace c \<and> \<not> symbols c) s))
      in (ret, (length s, length s1), dropWhile whitespace s1))"

definition peek :: "string \<Rightarrow> string \<Rightarrow> bool \<times> string" where
  "peek ps toks = (let s = dropWhile whitespace ps in (s \<noteq> [] \<and> hd s \<in> set toks, s))"

declare dropWhile_eq_Nil_conv [simp del]

lemma gettoken_shorter: "peek ps toks = (True, s) \<Longrightarrow> gettoken s = (t, q, r) \<Longrightarrow> length r < length ps"
proof -
  assume p: "peek ps toks = (True, s)" and g: "gettoken s = (t, q, r)"
  have s: "s = dropWhile whitespace ps" "s \<noteq> []" using p by (auto simp: peek_def Let_def)
  obtain c s' where c: "s = c # s'" using s(2) by (meson list.exhaust)
  have d: "dropWhile whitespace s = s" using s(1) by (simp add: dropWhile_idem)
  have w: "\<not> whitespace c" using hd_dropWhile [OF s(2) [unfolded s(1)]] unfolding s(1) [symmetric] c by simp
  have l: "length (dropWhile whitespace u) \<le> length u" for u by (rule length_dropWhile_le)
  have "length r \<le> length s'"
  proof (cases "c \<in> set ''|();&<>''")
    case True
    then show ?thesis using g d c l [of s'] l [of "tl s'"] by (auto simp: gettoken_def Let_def split: if_splits)
  next
    case False
    then have "\<not> symbols c" by (auto simp: symbols_def)
    then have "dropWhile (\<lambda>c. \<not> whitespace c \<and> \<not> symbols c) s = dropWhile (\<lambda>c. \<not> whitespace c \<and> \<not> symbols c) s'" using c w by simp
    moreover have "length (dropWhile whitespace (dropWhile (\<lambda>c. \<not> whitespace c \<and> \<not> symbols c) s')) \<le> length s'" using l length_dropWhile_le order_trans by blast
    ultimately show ?thesis using g d c False by (auto simp: gettoken_def Let_def split: if_splits)
  qed
  then show ?thesis using c s(1) l [of ps] by simp
qed

section \<open>The parser\<close>

type_synonym 'a parse = "string + 'a \<times> string"

function parseredirs :: "cmd \<Rightarrow> string \<Rightarrow> cmd parse" where
  "parseredirs cmd ps =
     (case peek ps ''<>'' of (there, s) \<Rightarrow>
        if \<not> there then Inr (cmd, s)
        else case gettoken s of (tok, _, s1) \<Rightarrow>
          case gettoken s1 of (t, file, s2) \<Rightarrow>
            if t \<noteq> CHR ''a'' then Inl (''missing file for redirection'' @ [newline])
            else parseredirs (if tok = CHR ''<'' then redircmd cmd file O_RDONLY 0
                              else if tok = CHR ''>'' then redircmd cmd file (O_WRONLY OR O_CREATE) 1
                              else if tok = CHR ''+'' then redircmd cmd file (O_WRONLY OR O_CREATE) 1 else cmd) s2)"
  by pat_completeness auto

lemma gettoken_le: "gettoken ps = (t, q, r) \<Longrightarrow> length r \<le> length ps"
proof (cases "dropWhile whitespace ps = []")
  case True
  assume "gettoken ps = (t, q, r)"
  then show ?thesis unfolding gettoken_def True by (auto simp: Let_def)
next
  case False
  let ?s = "dropWhile whitespace ps"
  assume "gettoken ps = (t, q, r)"
  then have "gettoken ?s = (t, q, r)" by (simp add: gettoken_def dropWhile_idem)
  moreover have "peek ps [hd ?s] = (True, ?s)" unfolding peek_def Let_def using False by simp
  ultimately have "length r < length ps" by (rule gettoken_shorter [rotated])
  then show ?thesis by simp
qed

termination parseredirs
proof (relation "measure (\<lambda>(cmd, ps). length ps)", goal_cases)
  case (2 cmd ps there s tok u q s1 t v f s2)
  then have "peek ps ''<>'' = (True, s)" "gettoken s = (tok, q, s1)" "gettoken s1 = (t, f, s2)" by auto
  then have "length s1 < length ps" "length s2 \<le> length s1" using gettoken_shorter gettoken_le by blast+
  then show ?case by simp
qed simp

text \<open>\<open>cmd\<close> in \<open>parseexec\<close> points to the \<open>EXEC\<close> inside the redirections.\<close>

fun add_arg :: "token \<Rightarrow> cmd \<Rightarrow> cmd" where
  "add_arg t (EXEC argv) = EXEC (argv @ [t])"
| "add_arg t (REDIR c f m d) = REDIR (add_arg t c) f m d"
| "add_arg t c = c"

function parseargs :: "cmd \<Rightarrow> nat \<Rightarrow> string \<Rightarrow> cmd parse" where
  "parseargs ret argc ps =
     (case peek ps ''|)&;'' of (there, s) \<Rightarrow>
        if there then Inr (ret, s)
        else case gettoken s of (tok, t, s1) \<Rightarrow>
          if tok = CHR 0x00 then Inr (ret, s1)
          else if tok \<noteq> CHR ''a'' then Inl (''syntax'' @ [newline])
          else if argc + 1 \<ge> MAXARGS then Inl (''too many args'' @ [newline])
          else case parseredirs (add_arg t ret) s1 of Inl e \<Rightarrow> Inl e | Inr (ret1, s2) \<Rightarrow> parseargs ret1 (argc + 1) s2)"
  by pat_completeness auto
termination
  by (relation "measure (\<lambda>(ret, argc, ps). MAXARGS - argc)") auto

function parsebacks :: "cmd \<Rightarrow> string \<Rightarrow> cmd \<times> string" where
  "parsebacks cmd ps =
     (case peek ps ''&'' of (there, s) \<Rightarrow> if there then case gettoken s of (_, _, s1) \<Rightarrow> parsebacks (backcmd cmd) s1 else (cmd, s))"
  by pat_completeness auto
termination
proof (relation "measure (\<lambda>(cmd, ps). length ps)", goal_cases)
  case (2 cmd ps there s t u q s1)
  then have "peek ps ''&'' = (True, s)" "gettoken s = (t, q, s1)" by auto
  then show ?case using gettoken_shorter by simp
qed simp

declare parseredirs.simps [simp del] parseargs.simps [simp del] parsebacks.simps [simp del]

definition out_of_calls :: "'a parse" where
  "out_of_calls = Inl ''depth''"

fun parseline :: "nat \<Rightarrow> string \<Rightarrow> cmd parse"
and parsepipe :: "nat \<Rightarrow> string \<Rightarrow> cmd parse"
and parseexec :: "nat \<Rightarrow> string \<Rightarrow> cmd parse"
and parseblock :: "nat \<Rightarrow> string \<Rightarrow> cmd parse" where
  "parseline 0 ps = out_of_calls"
| "parseline (Suc k) ps =
     (case parsepipe k ps of Inl e \<Rightarrow> Inl e
      | Inr (cmd, s) \<Rightarrow>
          case parsebacks cmd s of (cmd1, s1) \<Rightarrow>
          case peek s1 '';'' of (there, s2) \<Rightarrow>
            if there
            then case gettoken s2 of (_, _, s3) \<Rightarrow>
                   (case parseline k s3 of Inl e \<Rightarrow> Inl e | Inr (right, s4) \<Rightarrow> Inr (listcmd cmd1 right, s4))
            else Inr (cmd1, s2))"
| "parsepipe 0 ps = out_of_calls"
| "parsepipe (Suc k) ps =
     (case parseexec k ps of Inl e \<Rightarrow> Inl e
      | Inr (cmd, s) \<Rightarrow>
          case peek s ''|'' of (there, s1) \<Rightarrow>
            if there
            then case gettoken s1 of (_, _, s2) \<Rightarrow>
                   (case parsepipe k s2 of Inl e \<Rightarrow> Inl e | Inr (right, s3) \<Rightarrow> Inr (pipecmd cmd right, s3))
            else Inr (cmd, s1))"
| "parseexec 0 ps = out_of_calls"
| "parseexec (Suc k) ps =
     (case peek ps ''('' of (there, s) \<Rightarrow>
        if there then parseblock k s
        else case parseredirs execcmd s of Inl e \<Rightarrow> Inl e | Inr (ret, s1) \<Rightarrow> parseargs ret 0 s1)"
| "parseblock 0 ps = out_of_calls"
| "parseblock (Suc k) ps =
     (case peek ps ''('' of (there, s) \<Rightarrow>
        if \<not> there then Inl (''parseblock'' @ [newline])
        else case gettoken s of (_, _, s1) \<Rightarrow>
          case parseline k s1 of Inl e \<Rightarrow> Inl e
          | Inr (cmd, s2) \<Rightarrow>
              case peek s2 '')'' of (there2, s3) \<Rightarrow>
                if \<not> there2 then Inl (''syntax - missing )'' @ [newline])
                else case gettoken s3 of (_, _, s4) \<Rightarrow> parseredirs cmd s4)"

text \<open>The line with a NUL after it, and the store of a NUL at a pointer into it.\<close>

definition put_nul :: "nat \<Rightarrow> string \<Rightarrow> string" where
  "put_nul p buf = buf[length buf - 1 - p := CHR 0x00]"

fun nulterminate :: "cmd \<Rightarrow> string \<Rightarrow> string" where
  "nulterminate (EXEC argv) buf = foldl (\<lambda>b (q, eq). put_nul eq b) buf argv"
| "nulterminate (REDIR c f m d) buf = put_nul (snd f) (nulterminate c buf)"
| "nulterminate (PIPE l r) buf = nulterminate r (nulterminate l buf)"
| "nulterminate (LIST l r) buf = nulterminate r (nulterminate l buf)"
| "nulterminate (BACK c) buf = nulterminate c buf"

definition parsecmd :: "string \<Rightarrow> string + cmd \<times> string" where
  "parsecmd s =
     (case parseline (4 * length s + 4) s of Inl e \<Rightarrow> Inl e
      | Inr (cmd, r) \<Rightarrow>
          case peek r [] of (_, r1) \<Rightarrow>
            if r1 \<noteq> [] then Inl (''leftovers: '' @ r1 @ [newline] @ ''syntax'' @ [newline])
            else Inr (cmd, nulterminate cmd (s @ [CHR 0x00])))"

section \<open>Running a command\<close>

text \<open>The string that begins at a pointer into the line.\<close>

definition str_at :: "string \<Rightarrow> token \<Rightarrow> string" where
  "str_at buf t = takeWhile (\<lambda>c. c \<noteq> CHR 0x00) (drop (length buf - 1 - fst t) buf)"

definition sh_panic :: "'w usys \<Rightarrow> string \<Rightarrow> 'w \<Rightarrow> ('a, 'w) run" where
  "sh_panic sys msg w = ubind (uprintf sys 2 (''%s'' @ [newline]) [PStr (Some msg)] w) (\<lambda>_. uexit)"

definition fork1 :: "'w usys \<Rightarrow> 'w \<Rightarrow> (int, 'w) run" where
  "fork1 sys w = (case u_fork sys w of (pid, w1) \<Rightarrow> if pid = -1 then sh_panic sys ''fork'' w1 else Some (Go pid w1))"

definition close2 :: "'w usys \<Rightarrow> int \<Rightarrow> int \<Rightarrow> 'w \<Rightarrow> 'w" where
  "close2 sys a b w = snd (u_close sys b (snd (u_close sys a w)))"

fun runcmd :: "'w usys \<Rightarrow> string \<Rightarrow> cmd \<Rightarrow> 'w \<Rightarrow> (unit, 'w) run" where
  "runcmd sys buf (EXEC argv) w =
     (case argv of [] \<Rightarrow> uexit w
      | a # _ \<Rightarrow>
          case u_exec sys (str_at buf a) (map (str_at buf) argv) w of (replaced, w1) \<Rightarrow>
            if replaced then Some (Ended w1)
            else ubind (uprintf sys 2 (''exec %s failed'' @ [newline]) [PStr (Some (str_at buf a))] w1) (\<lambda>_. uexit))"
| "runcmd sys buf (REDIR c f m d) w =
     (case u_open sys (str_at buf f) m (snd (u_close sys d w)) of (fd, w1) \<Rightarrow>
        if fd < 0 then ubind (uprintf sys 2 (''open %s failed'' @ [newline]) [PStr (Some (str_at buf f))] w1) (\<lambda>_. uexit)
        else ubind (runcmd sys buf c w1) (\<lambda>_. uexit))"
| "runcmd sys buf (LIST l r) w =
     ubind (fork1 sys w) (\<lambda>pid w1.
     ubind (if pid = 0 then runcmd sys buf l w1 else Some (Go () w1)) (\<lambda>_ w2.
     ubind (runcmd sys buf r (snd (u_wait sys w2))) (\<lambda>_. uexit)))"
| "runcmd sys buf (PIPE l r) w =
     (case u_pipe sys w of (p, w1) \<Rightarrow>
        case p of None \<Rightarrow> sh_panic sys ''pipe'' w1
        | Some (p0, p1) \<Rightarrow>
            ubind (fork1 sys w1) (\<lambda>pid w2.
            ubind (if pid = 0 then runcmd sys buf l (close2 sys p0 p1 (snd (u_dup sys p1 (snd (u_close sys 1 w2))))) else Some (Go () w2)) (\<lambda>_ w3.
            ubind (fork1 sys w3) (\<lambda>pid w4.
            ubind (if pid = 0 then runcmd sys buf r (close2 sys p0 p1 (snd (u_dup sys p0 (snd (u_close sys 0 w4))))) else Some (Go () w4)) (\<lambda>_ w5.
            uexit (snd (u_wait sys (snd (u_wait sys (close2 sys p0 p1 w5))))))))))"
| "runcmd sys buf (BACK c) w =
     ubind (fork1 sys w) (\<lambda>pid w1.
     ubind (if pid = 0 then runcmd sys buf c w1 else Some (Go () w1)) (\<lambda>_. uexit))"

section \<open>The main loop\<close>

text \<open>\<open>gets\<close> with a buffer of \<open>k + 1\<close> characters, on a cleared buffer: the string in it.\<close>

fun sh_gets :: "'w usys \<Rightarrow> nat \<Rightarrow> 'w \<Rightarrow> string \<times> 'w" where
  "sh_gets sys 0 w = ([], w)"
| "sh_gets sys (Suc k) w =
     (case u_read sys 0 1 w of (r, w1) \<Rightarrow>
        case r of None \<Rightarrow> ([], w1)
        | Some [] \<Rightarrow> ([], w1)
        | Some (c # _) \<Rightarrow> if c = newline \<or> c = CHR 0x0D then ([c], w1) else (case sh_gets sys k w1 of (l, w2) \<Rightarrow> (c # l, w2)))"

definition getcmd :: "'w usys \<Rightarrow> nat \<Rightarrow> 'w \<Rightarrow> (string option, 'w) run" where
  "getcmd sys nbuf w =
     ubind (uprintf sys 2 ''$ '' [] w) (\<lambda>_ w1.
     case sh_gets sys (nbuf - 1) w1 of (l, w2) \<Rightarrow>
       let buf = takeWhile (\<lambda>c. c \<noteq> CHR 0x00) l in Some (Go (if buf = [] then None else Some buf) w2))"

partial_function (option) sh_loop :: "'w usys \<Rightarrow> 'w \<Rightarrow> (unit, 'w) run" where
  "sh_loop sys w =
     ubind (getcmd sys 200 w) (\<lambda>r w1.
     case r of None \<Rightarrow> uexit w1
     | Some buf \<Rightarrow>
         if take 3 buf = ''cd ''
         then let dir = drop 3 (butlast buf)
              in case u_chdir sys dir w1 of (x, w2) \<Rightarrow>
                 ubind (if x < 0 then uprintf sys 2 (''cannot cd %s'' @ [newline]) [PStr (Some dir)] w2 else Some (Go () w2)) (\<lambda>_ w3. sh_loop sys w3)
         else ubind (fork1 sys w1) (\<lambda>pid w2.
              if pid = 0
              then case parsecmd buf of Inl e \<Rightarrow> uexit (uputs sys 2 e w2) | Inr (cmd, buf1) \<Rightarrow> runcmd sys buf1 cmd w2
              else sh_loop sys (snd (u_wait sys w2))))"

partial_function (option) sh_console :: "'w usys \<Rightarrow> 'w \<Rightarrow> (unit, 'w) run" where
  "sh_console sys w =
     (case u_open sys ''console'' O_RDWR w of (fd, w1) \<Rightarrow>
        if fd < 0 then Some (Go () w1) else if fd \<ge> 3 then Some (Go () (snd (u_close sys fd w1))) else sh_console sys w1)"

definition sh_main :: "'w usys \<Rightarrow> 'w \<Rightarrow> (unit, 'w) run" where
  "sh_main sys w = ubind (sh_console sys w) (\<lambda>_ w1. sh_loop sys w1)"

end
