(* ===== verification/ShellFacts.thy ===== *)
theory ShellFacts
  imports Shell
begin

text \<open>
  How far the shell's parsers move along the line, and that the bound on the depth of their calls is never reached, whatever the line.
\<close>

section \<open>The bound on the calls\<close>

lemma skip_skip [simp]: "dropWhile whitespace (dropWhile whitespace s) = dropWhile whitespace s"
  by (rule dropWhile_idem)

lemma peek_skip [simp]: "peek (dropWhile whitespace s) toks = peek s toks" "gettoken (dropWhile whitespace s) = gettoken s"
  by (simp_all add: peek_def gettoken_def)

lemma peek_le: "peek ps toks = (b, s) \<Longrightarrow> length s \<le> length ps"
  by (auto simp: peek_def Let_def length_dropWhile_le)

lemma parseredirs_le: "parseredirs c ps = Inr (c', r) \<Longrightarrow> length r \<le> length ps"
proof (induction c ps rule: parseredirs.induct)
  case (1 c ps)
  obtain b s where p: "peek ps ''<>'' = (b, s)" by fastforce
  obtain t q s1 where g: "gettoken s = (t, q, s1)" by (cases "gettoken s")
  obtain t2 f s2 where g2: "gettoken s1 = (t2, f, s2)" by (cases "gettoken s1")
  show ?case
  proof (cases b)
    case True
    have "length r \<le> length s2" using 1(2) p g g2 True by (subst (asm) parseredirs.simps) (auto split: if_splits intro!: 1(1) [OF p [symmetric]])
    then show ?thesis using gettoken_le [OF g] gettoken_le [OF g2] peek_le [OF p] by simp
  next
    case False
    then show ?thesis using 1(2) p peek_le [OF p] by (subst (asm) parseredirs.simps) auto
  qed
qed

lemma parseargs_le: "parseargs c n ps = Inr (c', r) \<Longrightarrow> length r \<le> length ps"
proof (induction c n ps rule: parseargs.induct)
  case (1 c n ps)
  obtain b s where p: "peek ps ''|)&;'' = (b, s)" by fastforce
  obtain t q s1 where g: "gettoken s = (t, q, s1)" by (cases "gettoken s")
  note le = peek_le [OF p] gettoken_le [OF g]
  show ?case
  proof (cases "b \<or> t = CHR 0x00")
    case True
    then show ?thesis using 1(2) p g le by (subst (asm) parseargs.simps) (auto split: if_splits)
  next
    case False
    then obtain c1 s2 where r: "parseredirs (add_arg q c) s1 = Inr (c1, s2)" "parseargs c1 (n + 1) s2 = Inr (c', r)" "t = CHR ''a''" "\<not> MAXARGS \<le> n + 1"
      using 1(2) p g by (subst (asm) parseargs.simps) (auto split: if_splits sum.splits)
    have "length r \<le> length s2" using 1(1) [OF p [symmetric] _ g [symmetric] refl _ _ r(4) r(1)] r(2,3) False by auto
    then show ?thesis using parseredirs_le [OF r(1)] le by simp
  qed
qed

lemma parsebacks_le: "parsebacks c ps = (c', r) \<Longrightarrow> length r \<le> length ps"
proof (induction c ps rule: parsebacks.induct)
  case (1 c ps)
  obtain b s where p: "peek ps ''&'' = (b, s)" by fastforce
  obtain t q s1 where g: "gettoken s = (t, q, s1)" by (cases "gettoken s")
  show ?case
  proof (cases b)
    case True
    have "parsebacks (BACK c) s1 = (c', r)" using 1(2) p g True by (subst (asm) parsebacks.simps) simp
    then have "length r \<le> length s1" using 1(1) [OF p [symmetric] True g [symmetric] refl] by simp
    then show ?thesis using gettoken_le [OF g] peek_le [OF p] by simp
  next
    case False
    then show ?thesis using 1(2) p peek_le [OF p] by (subst (asm) parsebacks.simps) simp
  qed
qed

lemma parse_le:
  "parseline k ps = Inr (c, r) \<Longrightarrow> length r \<le> length ps"
  "parsepipe k ps = Inr (c, r) \<Longrightarrow> length r \<le> length ps"
  "parseexec k ps = Inr (c, r) \<Longrightarrow> length r \<le> length ps"
  "parseblock k ps = Inr (c, r) \<Longrightarrow> length r \<le> length ps"
proof (induction k ps and k ps and k ps and k ps arbitrary: c r and c r and c r and c r rule: parseline_parsepipe_parseexec_parseblock.induct)
  case (2 k ps)
  obtain cmd s where p: "parsepipe k ps = Inr (cmd, s)" using 2(3) by (cases "parsepipe k ps") auto
  obtain cmd1 s1 where b: "parsebacks cmd s = (cmd1, s1)" by fastforce
  obtain there s2 where k: "peek s1 '';'' = (there, s2)" by fastforce
  obtain t q s3 where g: "gettoken s2 = (t, q, s3)" by (cases "gettoken s2")
  have "length s2 \<le> length ps" using 2(1) [OF p] parsebacks_le [OF b] peek_le [OF k] by simp
  moreover have "length r \<le> length s2"
  proof (cases there)
    case True
    then obtain right where "parseline k s3 = Inr (right, r)" using 2(3) p b k g by (auto split: sum.splits)
    then show ?thesis using 2(2) [OF p refl b [symmetric] k [symmetric] True g [symmetric] refl] gettoken_le [OF g] by fastforce
  qed (use 2(3) p b k in auto)
  ultimately show ?case by simp
next
  case (4 k ps)
  obtain cmd s where p: "parseexec k ps = Inr (cmd, s)" using 4(3) by (cases "parseexec k ps") auto
  obtain there s1 where k: "peek s ''|'' = (there, s1)" by fastforce
  obtain t q s2 where g: "gettoken s1 = (t, q, s2)" by (cases "gettoken s1")
  have "length s1 \<le> length ps" using 4(1) [OF p] peek_le [OF k] by simp
  moreover have "length r \<le> length s1"
  proof (cases there)
    case True
    then obtain right where "parsepipe k s2 = Inr (right, r)" using 4(3) p k g by (auto split: sum.splits)
    then show ?thesis using 4(2) [OF p refl k [symmetric] True g [symmetric] refl] gettoken_le [OF g] by fastforce
  qed (use 4(3) p k in auto)
  ultimately show ?case by simp
next
  case (6 k ps)
  obtain there s where k: "peek ps ''('' = (there, s)" by fastforce
  show ?case
  proof (cases there)
    case True
    then have "parseblock k s = Inr (c, r)" using 6(2) k by simp
    then show ?thesis using 6(1) [OF k [symmetric] True] peek_le [OF k] by fastforce
  next
    case False
    then show ?thesis using 6(2) k peek_le [OF k] by (auto split: sum.splits dest!: parseredirs_le parseargs_le)
  qed
next
  case (8 k ps)
  obtain there s where k: "peek ps ''('' = (there, s)" by fastforce
  obtain t q s1 where g: "gettoken s = (t, q, s1)" by (cases "gettoken s")
  have t: there using 8(2) k by (cases there) auto
  obtain cmd s2 where p: "parseline k s1 = Inr (cmd, s2)" using 8(2) k t g by (cases "parseline k s1") auto
  obtain there2 s3 where k2: "peek s2 '')'' = (there2, s3)" by fastforce
  obtain t2 q2 s4 where g2: "gettoken s3 = (t2, q2, s4)" by (cases "gettoken s3")
  have "parseredirs cmd s4 = Inr (c, r)" using 8(2) k t g p k2 g2 by (auto split: if_splits)
  then show ?case using 8(1) [OF k [symmetric] _ g [symmetric] refl p] t parseredirs_le gettoken_le [OF g] gettoken_le [OF g2] peek_le [OF k] peek_le [OF k2] by fastforce
qed (simp_all add: out_of_calls_def)

text \<open>One more call makes no difference when the bound is large enough.\<close>

lemma parse_bound_step:
  "(\<forall>ps. 4 * length ps + 4 \<le> k \<longrightarrow> parseline (Suc k) ps = parseline k ps) \<and>
   (\<forall>ps. 4 * length ps + 3 \<le> k \<longrightarrow> parsepipe (Suc k) ps = parsepipe k ps) \<and>
   (\<forall>ps. 4 * length ps + 2 \<le> k \<longrightarrow> parseexec (Suc k) ps = parseexec k ps) \<and>
   (\<forall>ps. 4 * length ps + 1 \<le> k \<longrightarrow> parseblock (Suc k) ps = parseblock k ps)"
proof (induction k)
  case (Suc j)
  have "parseline (Suc (Suc j)) ps = parseline (Suc j) ps" if "4 * length ps + 4 \<le> Suc j" for ps
  proof -
    have e: "parsepipe (Suc j) ps = parsepipe j ps" using Suc that by auto
    have "parseline (Suc j) s3 = parseline j s3" if "parsepipe j ps = Inr (cmd, s)" "parsebacks cmd s = (c1, s1)" "peek s1 '';'' = (True, s2)" "gettoken s2 = (t, q, s3)"
      for cmd s c1 s1 s2 t q s3
    proof -
      have "length s3 < length ps" using parse_le(2) [OF that(1)] parsebacks_le [OF that(2)] gettoken_shorter [OF that(3,4)] by simp
      then show ?thesis using Suc \<open>4 * length ps + 4 \<le> Suc j\<close> by auto
    qed
    then show ?thesis unfolding parseline.simps(2) [of "Suc j"] parseline.simps(2) [of j] e
      by (auto split: sum.split prod.split simp del: parseline.simps)
  qed
  moreover have "parsepipe (Suc (Suc j)) ps = parsepipe (Suc j) ps" if "4 * length ps + 3 \<le> Suc j" for ps
  proof -
    have e: "parseexec (Suc j) ps = parseexec j ps" using Suc that by auto
    have "parsepipe (Suc j) s2 = parsepipe j s2" if "parseexec j ps = Inr (cmd, s)" "peek s ''|'' = (True, s1)" "gettoken s1 = (t, q, s2)" for cmd s s1 t q s2
    proof -
      have "length s2 < length ps" using parse_le(3) [OF that(1)] gettoken_shorter [OF that(2,3)] by simp
      then show ?thesis using Suc \<open>4 * length ps + 3 \<le> Suc j\<close> by auto
    qed
    then show ?thesis unfolding parsepipe.simps(2) [of "Suc j"] parsepipe.simps(2) [of j] e
      by (auto split: sum.split prod.split simp del: parsepipe.simps)
  qed
  moreover have "parseexec (Suc (Suc j)) ps = parseexec (Suc j) ps" if "4 * length ps + 2 \<le> Suc j" for ps
  proof -
    have "parseblock (Suc j) s = parseblock j s" if "peek ps ''('' = (b, s)" for b s using Suc peek_le [OF that] \<open>4 * length ps + 2 \<le> Suc j\<close> by auto
    then show ?thesis unfolding parseexec.simps(2) [of "Suc j"] parseexec.simps(2) [of j] by (auto split: prod.split simp del: parseblock.simps)
  qed
  moreover have "parseblock (Suc (Suc j)) ps = parseblock (Suc j) ps" if "4 * length ps + 1 \<le> Suc j" for ps
  proof -
    have "parseline (Suc j) s1 = parseline j s1" if "peek ps ''('' = (True, s)" "gettoken s = (t, q, s1)" for s t q s1
      using Suc gettoken_shorter [OF that] \<open>4 * length ps + 1 \<le> Suc j\<close> by auto
    then show ?thesis unfolding parseblock.simps(2) [of "Suc j"] parseblock.simps(2) [of j] by (auto split: prod.split simp del: parseline.simps)
  qed
  ultimately show ?case by blast
qed simp

lemma parseline_bound: "4 * length ps + 4 \<le> k \<Longrightarrow> parseline (k + m) ps = parseline k ps"
  by (induction m) (use parse_bound_step in auto)

end
