(* ===== verification/ShellPrint.thy ===== *)
theory ShellPrint
  imports ShellFacts
begin

text \<open>
  Commands as trees of words, their printed form, and that the shell's parser reads the printed form back.
\<close>

section \<open>Words and their printed form\<close>

definition word_char :: "char \<Rightarrow> bool" where
  "word_char c \<longleftrightarrow> \<not> whitespace c \<and> \<not> symbols c \<and> c \<noteq> CHR 0x00"

definition word :: "string \<Rightarrow> bool" where
  "word w \<longleftrightarrow> w \<noteq> [] \<and> (\<forall>c \<in> set w. word_char c)"

text \<open>What the parser can produce: at most 19 arguments, and files opened for reading as 0 or for writing as 1.\<close>

definition mode_ok :: "32 word \<Rightarrow> int \<Rightarrow> bool" where
  "mode_ok m d \<longleftrightarrow> m = O_RDONLY \<and> d = 0 \<or> m = O_WRONLY OR O_CREATE \<and> d = 1"

fun cmd_ok :: "string tree \<Rightarrow> bool" where
  "cmd_ok (EXEC ws) = (length ws < MAXARGS \<and> (\<forall>w \<in> set ws. word w))"
| "cmd_ok (REDIR c f m d) = (cmd_ok c \<and> word f \<and> mode_ok m d)"
| "cmd_ok (PIPE l r) = (cmd_ok l \<and> cmd_ok r)"
| "cmd_ok (LIST l r) = (cmd_ok l \<and> cmd_ok r)"
| "cmd_ok (BACK c) = cmd_ok c"

definition show_words :: "string list \<Rightarrow> string" where
  "show_words ws = concat (map (\<lambda>w. '' '' @ w) ws)"

definition show_redir :: "string \<Rightarrow> int \<Rightarrow> string" where
  "show_redir f d = (if d = 0 then CHR ''<'' else CHR ''>'') # '' '' @ f"

fun level :: "string tree \<Rightarrow> nat" where
  "level (LIST l r) = 0"
| "level (BACK c) = 1"
| "level (PIPE l r) = 2"
| "level c = 3"

definition paren :: "nat \<Rightarrow> string tree \<Rightarrow> string \<Rightarrow> string" where
  "paren n c s = (if level c < n then ''('' @ s @ '')'' else s)"

fun show_cmd :: "string tree \<Rightarrow> string" where
  "show_cmd (EXEC ws) = show_words ws"
| "show_cmd (REDIR c f m d) = paren 3 c (show_cmd c) @ show_redir f d"
| "show_cmd (PIPE l r) = paren 3 l (show_cmd l) @ ''|'' @ paren 2 r (show_cmd r)"
| "show_cmd (BACK c) = paren 1 c (show_cmd c) @ ''&''"
| "show_cmd (LIST l r) = paren 1 l (show_cmd l) @ '';'' @ show_cmd r"

section \<open>Tokens of a line\<close>

definition text_of :: "string \<Rightarrow> token \<Rightarrow> string" where
  "text_of s t = take (fst t - snd t) (drop (length s - fst t) s)"

text \<open>A token is a word of the line with a character after it that belongs to no word.\<close>

definition token_ok :: "string \<Rightarrow> token \<Rightarrow> bool" where
  "token_ok s t \<longleftrightarrow> snd t \<le> fst t \<and> fst t \<le> length s \<and> word (text_of s t) \<and> (snd t = 0 \<or> \<not> word_char (s ! (length s - snd t)))"

definition reads :: "string \<Rightarrow> cmd \<Rightarrow> string tree \<Rightarrow> bool" where
  "reads s c' c \<longleftrightarrow> map_tree (text_of s) c' = c \<and> (\<forall>t \<in> set_tree c'. token_ok s t)"

lemma text_of_append: "fst t \<le> length u \<Longrightarrow> text_of (pre @ u) t = text_of u t"
  by (simp add: text_of_def)

lemma token_ok_append: "token_ok u t \<Longrightarrow> token_ok (pre @ u) t"
proof -
  assume t: "token_ok u t"
  then have "(pre @ u) ! (length (pre @ u) - snd t) = u ! (length u - snd t)" if "snd t \<noteq> 0"
    by (auto simp: token_ok_def nth_append)
  then show ?thesis using t by (auto simp: token_ok_def text_of_append)
qed

lemma reads_append: "reads u c' c \<Longrightarrow> reads (pre @ u) c' c"
  unfolding reads_def using token_ok_append text_of_append by (auto simp: token_ok_def intro!: tree.map_cong0)

lemma token_word:
  assumes "word w" "rest = [] \<or> \<not> word_char (hd rest)"
  shows "token_ok (w @ rest) (length (w @ rest), length rest)" "text_of (w @ rest) (length (w @ rest), length rest) = w"
proof -
  show "text_of (w @ rest) (length (w @ rest), length rest) = w" by (simp add: text_of_def)
  then show "token_ok (w @ rest) (length (w @ rest), length rest)" using assms by (cases rest) (auto simp: token_ok_def)
qed

section \<open>What the scanner sees\<close>

definition ahead :: "string \<Rightarrow> string \<Rightarrow> bool" where
  "ahead toks s \<longleftrightarrow> s = [] \<or> hd s \<in> set toks"

lemma sym_facts: "\<not> whitespace c" "symbols c" "\<not> word_char c" if "c \<in> set ''<|>&;()''" for c
  using that by (auto simp: whitespace_def symbols_def word_char_def)

lemma ahead_skip: "ahead ''<|>&;()'' s \<Longrightarrow> dropWhile whitespace s = s"
  using sym_facts(1) by (cases s) (auto simp: ahead_def)

lemma peek_word: "word w \<Longrightarrow> peek (w @ r) toks = (hd w \<in> set toks, w @ r)" "word w \<Longrightarrow> peek (CHR '' '' # w @ r) toks = (hd w \<in> set toks, w @ r)"
proof -
  have "dropWhile whitespace (w @ r) = w @ r" "whitespace (CHR '' '')" if "word w" using that by (cases w) (auto simp: word_def word_char_def whitespace_def)
  then show "word w \<Longrightarrow> peek (w @ r) toks = (hd w \<in> set toks, w @ r)" "word w \<Longrightarrow> peek (CHR '' '' # w @ r) toks = (hd w \<in> set toks, w @ r)"
    by (auto simp: peek_def Let_def word_def)
qed

lemma peek_snd: "peek ps toks = (b, s) \<Longrightarrow> s = dropWhile whitespace ps"
  by (simp add: peek_def Let_def)

lemma word_hd: "word w \<Longrightarrow> hd w \<notin> set ''<|>&;()''"
  by (cases w) (auto simp: word_def word_char_def symbols_def)

lemma peek_ahead: "ahead ''<|>&;()'' s \<Longrightarrow> peek s toks = (s \<noteq> [] \<and> hd s \<in> set toks, s)"
  by (simp add: peek_def ahead_skip Let_def)

lemma gettoken_word:
  assumes "word w" "r = [] \<or> whitespace (hd r) \<or> symbols (hd r)"
  shows "gettoken (w @ r) = (CHR ''a'', (length (w @ r), length r), dropWhile whitespace r)"
proof -
  obtain c w' where w: "w = c # w'" using assms(1) by (cases w) (auto simp: word_def)
  have s: "dropWhile whitespace (w @ r) = w @ r" using assms(1) w by (auto simp: word_def word_char_def)
  have "dropWhile (\<lambda>c. \<not> whitespace c \<and> \<not> symbols c) (w @ r) = dropWhile (\<lambda>c. \<not> whitespace c \<and> \<not> symbols c) r"
    using assms(1) by (intro dropWhile_append2) (auto simp: word_def word_char_def)
  also have "\<dots> = r" using assms(2) by (cases r) auto
  finally have d: "dropWhile (\<lambda>c. \<not> whitespace c \<and> \<not> symbols c) (c # w' @ r) = r" using w by simp
  have "c \<notin> set ''<|>&;()''" using word_hd [OF assms(1)] w by simp
  then show ?thesis using s d w by (simp add: gettoken_def Let_def)
qed

lemma gettoken_symbol: "c \<in> set ''|();&<'' \<Longrightarrow> gettoken (c # r) = (c, (Suc (length r), length r), dropWhile whitespace r)"
  "gettoken (CHR ''>'' # CHR '' '' # r) = (CHR ''>'', (Suc (Suc (length r)), Suc (length r)), dropWhile whitespace r)"
  using sym_facts(1) [of c] sym_facts(1) [of "CHR ''>''"] by (auto simp: gettoken_def Let_def whitespace_def)

section \<open>Redirections and arguments\<close>

type_synonym redir = "string \<times> 32 word \<times> int"

definition redir_ok :: "redir \<Rightarrow> bool" where
  "redir_ok x = (case x of (f, m, d) \<Rightarrow> word f \<and> mode_ok m d)"

definition show_redirs :: "redir list \<Rightarrow> string" where
  "show_redirs rs = concat (map (\<lambda>(f, m, d). show_redir f d) rs)"

definition redirect :: "string tree \<Rightarrow> redir list \<Rightarrow> string tree" where
  "redirect c rs = foldl (\<lambda>c (f, m, d). REDIR c f m d) c rs"

lemma show_redirs_simps [simp]: "show_redirs [] = []" "show_redirs ((f, m, d) # rs) = show_redir f d @ show_redirs rs" "redirect c [] = c"
  "redirect c ((f, m, d) # rs) = redirect (REDIR c f m d) rs"
  by (simp_all add: show_redirs_def redirect_def)

lemma ahead_redirs: "ahead ''|)&;'' rest \<Longrightarrow> ahead ''<|>&;()'' (show_redirs rs @ rest)" "ahead ''|)&;'' rest \<Longrightarrow> hd (show_redirs rs @ rest) = CHR ''('' \<Longrightarrow> show_redirs rs @ rest = []"
proof -
  assume a: "ahead ''|)&;'' rest"
  then show "ahead ''<|>&;()'' (show_redirs rs @ rest)" by (cases rs) (auto simp: ahead_def show_redir_def split: if_splits)
  show "hd (show_redirs rs @ rest) = CHR ''('' \<Longrightarrow> show_redirs rs @ rest = []" using a by (cases rs; cases rest) (auto simp: ahead_def show_redir_def split: if_splits)
qed

lemma ahead_more: "ahead a s \<Longrightarrow> set a \<subseteq> set b \<Longrightarrow> ahead b s"
  by (auto simp: ahead_def)

lemma parse_skip: "parseredirs c (dropWhile whitespace ps) = parseredirs c ps" "parseargs c n (dropWhile whitespace ps) = parseargs c n ps"
  "parseexec k (dropWhile whitespace ps) = parseexec k ps" "parsepipe k (dropWhile whitespace ps) = parsepipe k ps" "parseline k (dropWhile whitespace ps) = parseline k ps"
proof -
  show "parseredirs c (dropWhile whitespace ps) = parseredirs c ps" by (subst (1 2) parseredirs.simps) simp
  show "parseargs c n (dropWhile whitespace ps) = parseargs c n ps" by (subst (1 2) parseargs.simps) simp
  show e: "parseexec k (dropWhile whitespace ps) = parseexec k ps" for k by (cases k) simp_all
  show p: "parsepipe k (dropWhile whitespace ps) = parsepipe k ps" for k by (cases k) (simp_all add: e)
  show "parseline k (dropWhile whitespace ps) = parseline k ps" by (cases k) (simp_all add: p)
qed

lemma parseredirs_stop: "peek ps ''<>'' = (False, s) \<Longrightarrow> parseredirs c ps = Inr (c, s)"
  by (subst parseredirs.simps) simp

lemma parseargs_stop: "ahead ''|)&;'' rest \<Longrightarrow> parseargs c n rest = Inr (c, rest)"
proof -
  assume a: "ahead ''|)&;'' rest"
  have "gettoken [] = (CHR 0x00, (0, 0), [])" by (simp add: gettoken_def)
  then show ?thesis using a peek_ahead [OF ahead_more [OF a], of "''|)&;''"] by (subst parseargs.simps) (auto simp: ahead_def)
qed

lemma reads_redir:
  assumes "reads u c0 c" "u = pre @ f @ r" "word f" "r = [] \<or> \<not> word_char (hd r)"
  shows "reads u (REDIR c0 (length (f @ r), length r) m d) (REDIR c f m d)"
  using assms token_ok_append [OF token_word(1) [OF assms(3,4)], of pre] text_of_append [of "(length (f @ r), length r)" "f @ r" pre] token_word(2) [OF assms(3,4)]
  by (simp add: reads_def)

lemma not_word_ahead: "ahead ''<|>&;()'' r \<Longrightarrow> r = [] \<or> \<not> word_char (hd r)" "ahead ''<|>&;()'' r \<Longrightarrow> r = [] \<or> whitespace (hd r) \<or> symbols (hd r)"
  unfolding ahead_def using sym_facts(2,3) [of "hd r"] by blast+

lemma parseredirs_show:
  assumes "\<forall>x \<in> set rs. redir_ok x" "ahead ''|)&;'' rest" "reads u c0 c" "u = pre @ show_redirs rs @ rest"
  shows "\<exists>c'. parseredirs c0 (show_redirs rs @ rest) = Inr (c', rest) \<and> reads u c' (redirect c rs)"
  using assms
proof (induction rs arbitrary: c0 c pre)
  case Nil
  have "peek rest ''<>'' = (False, rest)" using peek_ahead [OF ahead_more [OF assms(2)], of "''<>''"] assms(2) by (auto simp: ahead_def)
  then show ?case using Nil parseredirs_stop by simp
next
  case (Cons x rs)
  obtain f m d where x: "x = (f, m, d)" by (cases x)
  let ?r = "show_redirs rs @ rest"
  have f: "word f" "mode_ok m d" using Cons(2) x by (auto simp: redir_ok_def)
  have r: "ahead ''<|>&;()'' ?r" by (rule ahead_redirs(1) [OF assms(2)])
  define t where "t = (length (f @ ?r), length ?r)"
  have g: "gettoken (f @ ?r) = (CHR ''a'', t, ?r)" using gettoken_word [OF f(1) not_word_ahead(2) [OF r]] ahead_skip [OF r] by (simp add: t_def)
  have sk: "dropWhile whitespace (CHR '' '' # f @ ?r) = f @ ?r" "dropWhile whitespace (f @ ?r) = f @ ?r" using peek_word [OF f(1), of ?r] by (auto simp: peek_def Let_def)
  define b where "b = (if d = 0 then CHR ''<'' else CHR ''>'')"
  have u: "u = (pre @ [b, CHR '' '']) @ f @ ?r" using Cons(5) x by (simp add: show_redir_def b_def)
  have "reads u (REDIR c0 t m d) (REDIR c f m d)" unfolding t_def by (rule reads_redir [OF Cons(4) u f(1) not_word_ahead(1) [OF r]])
  then obtain c' where c': "parseredirs (REDIR c0 t m d) ?r = Inr (c', rest)" "reads u c' (redirect (REDIR c f m d) rs)"
    using Cons(1) [OF _ assms(2) _, of "REDIR c0 t m d" "REDIR c f m d" "pre @ b # '' '' @ f"] Cons(2) u by auto
  have "parseredirs c0 (b # CHR '' '' # f @ ?r) = parseredirs (REDIR c0 t m d) ?r"
  proof -
    have "ahead ''<|>&;()'' (b # CHR '' '' # f @ ?r)" by (simp add: ahead_def b_def)
    then have p: "peek (b # CHR '' '' # f @ ?r) ''<>'' = (True, b # CHR '' '' # f @ ?r)" using peek_ahead [of _ "''<>''"] by (simp add: b_def)
    have q: "\<exists>q. gettoken (b # CHR '' '' # f @ ?r) = (b, q, f @ ?r)" using sk gettoken_symbol(1) [of b "CHR '' '' # f @ ?r"] gettoken_symbol(2) [of "f @ ?r"] by (cases "d = 0") (simp_all add: b_def)
    show ?thesis using p q g f(2) by (subst parseredirs.simps) (auto simp: b_def mode_ok_def split: if_splits)
  qed
  then show ?case using c' x by (simp add: show_redir_def b_def)
qed

lemma reads_arg:
  assumes "reads u (EXEC a) (EXEC ws)" "u = pre @ w @ r" "word w" "r = [] \<or> \<not> word_char (hd r)"
  shows "reads u (EXEC (a @ [(length (w @ r), length r)])) (EXEC (ws @ [w]))"
  using assms token_ok_append [OF token_word(1) [OF assms(3,4)], of pre] text_of_append [of "(length (w @ r), length r)" "w @ r" pre] token_word(2) [OF assms(3,4)]
  by (auto simp: reads_def)

lemma show_words_simps [simp]: "show_words [] = []" "show_words (w # ws) = CHR '' '' # w @ show_words ws"
  by (simp_all add: show_words_def)

lemma parseargs_show:
  assumes "\<forall>x \<in> set rs. redir_ok x" "ahead ''|)&;'' rest" "\<forall>w \<in> set ws. word w" "reads u (EXEC a) (EXEC ws0)" "u = pre @ show_words ws @ show_redirs rs @ rest"
    and "length a + length ws < MAXARGS" "ws \<noteq> []"
  shows "\<exists>c'. parseargs (EXEC a) (length a) (show_words ws @ show_redirs rs @ rest) = Inr (c', rest) \<and> reads u c' (redirect (EXEC (ws0 @ ws)) rs)"
  using assms(3-)
proof (induction ws arbitrary: a ws0 pre)
  case (Cons w ws)
  let ?r = "show_words ws @ show_redirs rs @ rest"
  have w: "word w" using Cons(2) by simp
  have sp: "whitespace (CHR '' '')" "\<not> word_char (CHR '' '')" by (auto simp: whitespace_def word_char_def)
  have r: "?r = [] \<or> \<not> word_char (hd ?r)" "?r = [] \<or> whitespace (hd ?r) \<or> symbols (hd ?r)"
    using not_word_ahead [OF ahead_redirs(1) [OF assms(2)]] sp by (cases ws; auto)+
  define t where "t = (length (w @ ?r), length ?r)"
  have p: "peek (CHR '' '' # w @ ?r) ''|)&;'' = (False, w @ ?r)" using peek_word(2) [OF w, of ?r] word_hd [OF w] by auto
  have g: "gettoken (w @ ?r) = (CHR ''a'', t, dropWhile whitespace ?r)" using gettoken_word [OF w r(2)] by (simp add: t_def)
  have u: "u = (pre @ '' '') @ w @ ?r" using Cons(4) by simp
  have rd: "reads u (EXEC (a @ [t])) (EXEC (ws0 @ [w]))" unfolding t_def by (rule reads_arg [OF Cons(3) u w r(1)])
  have m: "\<not> MAXARGS \<le> length a + 1" using Cons(5) by simp
  have step: "parseargs (EXEC a) (length a) (CHR '' '' # w @ ?r) =
      (case parseredirs (EXEC (a @ [t])) ?r of Inl e \<Rightarrow> Inl e | Inr (ret1, s2) \<Rightarrow> parseargs ret1 (length a + 1) s2)"
    using p g m by (subst parseargs.simps) (simp add: parse_skip)
  show ?case
  proof (cases ws)
    case Nil
    obtain c' where c': "parseredirs (EXEC (a @ [t])) ?r = Inr (c', rest)" "reads u c' (redirect (EXEC (ws0 @ [w])) rs)"
      using parseredirs_show [OF assms(1,2) rd, of "pre @ '' '' @ w"] u Nil by auto
    then show ?thesis using step parseargs_stop [OF assms(2)] Nil by simp
  next
    case (Cons w2 ws2)
    have w2: "word w2" using Cons.prems(1) Cons by simp
    have pk: "peek ?r ''<>'' = (False, w2 @ show_words ws2 @ show_redirs rs @ rest)" using peek_word(2) [OF w2] word_hd [OF w2] Cons by auto
    then have "peek ?r ''<>'' = (False, dropWhile whitespace ?r)" using peek_snd [OF pk] by simp
    then have "parseargs (EXEC a) (length a) (CHR '' '' # w @ ?r) = parseargs (EXEC (a @ [t])) (length (a @ [t])) ?r"
      using step parseredirs_stop by (simp add: parse_skip)
    moreover obtain c' where "parseargs (EXEC (a @ [t])) (length (a @ [t])) ?r = Inr (c', rest)" "reads u c' (redirect (EXEC ((ws0 @ [w]) @ ws)) rs)"
      using Cons.IH [OF _ rd, of "pre @ '' '' @ w"] Cons.prems u Cons by auto
    ultimately show ?thesis by simp
  qed
qed simp

section \<open>The levels of the grammar\<close>

text \<open>The parser of each level reads the text \<open>s\<close> as \<open>c\<close>, whatever redirections or ampersands and then symbols of the levels above follow.\<close>

definition reads_exec :: "string tree \<Rightarrow> string \<Rightarrow> bool" where
  "reads_exec c s \<longleftrightarrow> (\<exists>K. \<forall>k \<ge> K. \<forall>rs rest. (\<forall>x \<in> set rs. redir_ok x) \<and> ahead ''|)&;'' rest \<longrightarrow>
     (\<exists>c'. parseexec k (s @ show_redirs rs @ rest) = Inr (c', rest) \<and> reads (s @ show_redirs rs @ rest) c' (redirect c rs)))"

definition reads_pipe :: "string tree \<Rightarrow> string \<Rightarrow> bool" where
  "reads_pipe c s \<longleftrightarrow> (\<exists>K. \<forall>k \<ge> K. \<forall>rest. ahead '')&;'' rest \<longrightarrow> (\<exists>c'. parsepipe k (s @ rest) = Inr (c', rest) \<and> reads (s @ rest) c' c))"

definition amps :: "nat \<Rightarrow> string" where "amps n = replicate n (CHR ''&'')"

definition reads_back :: "string tree \<Rightarrow> string \<Rightarrow> bool" where
  "reads_back c s \<longleftrightarrow> (\<exists>K. \<forall>k \<ge> K. \<forall>n rest. ahead '');'' rest \<longrightarrow>
     (\<exists>c1 r c'. parsepipe k (s @ amps n @ rest) = Inr (c1, r) \<and> parsebacks c1 r = (c', rest) \<and> reads (s @ amps n @ rest) c' ((BACK ^^ n) c)))"

definition reads_line :: "string tree \<Rightarrow> string \<Rightarrow> bool" where
  "reads_line c s \<longleftrightarrow> (\<exists>K. \<forall>k \<ge> K. \<forall>rest. ahead '')'' rest \<longrightarrow> (\<exists>c'. parseline k (s @ rest) = Inr (c', rest) \<and> reads (s @ rest) c' c))"

lemma exec_words:
  assumes "\<forall>w \<in> set ws. word w" "length ws < MAXARGS"
  shows "reads_exec (EXEC ws) (show_words ws)"
  unfolding reads_exec_def
proof (intro exI [of _ 1] allI impI)
  fix k rs rest
  assume k: "1 \<le> (k::nat)" and a: "(\<forall>x \<in> set rs. redir_ok x) \<and> ahead ''|)&;'' rest"
  then obtain j where j: "k = Suc j" by (cases k) auto
  let ?r = "show_redirs rs @ rest" and ?u = "show_words ws @ show_redirs rs @ rest"
  have r0: "reads u (EXEC []) (EXEC [])" for u by (simp add: reads_def)
  show "\<exists>c'. parseexec k ?u = Inr (c', rest) \<and> reads ?u c' (redirect (EXEC ws) rs)"
  proof (cases ws)
    case Nil
    have "peek ?r ''('' = (False, ?r)" using peek_ahead [OF ahead_redirs(1), of rest rs "''(''"] ahead_redirs(2) [of rest rs] a by auto
    then have e: "parseexec k ?u = (case parseredirs (EXEC []) ?r of Inl e \<Rightarrow> Inl e | Inr (ret, s1) \<Rightarrow> parseargs ret 0 s1)" using Nil j by simp
    obtain c' where "parseredirs (EXEC []) ?r = Inr (c', rest)" "reads ?r c' (redirect (EXEC []) rs)"
      using parseredirs_show [of rs rest ?r "EXEC []" "EXEC []" "[]"] a r0 by auto
    then show ?thesis using e parseargs_stop a Nil by simp
  next
    case (Cons w ws2)
    have w: "word w" using assms(1) Cons by simp
    have p: "peek ?u toks = (hd w \<in> set toks, w @ show_words ws2 @ ?r)" for toks using peek_word(2) [OF w] Cons by simp
    have s: "dropWhile whitespace ?u = w @ show_words ws2 @ ?r" using peek_snd [OF p [of "[]"]] by simp
    have q: "peek (w @ show_words ws2 @ ?r) ''<>'' = (False, w @ show_words ws2 @ ?r)" using peek_word(1) [OF w] word_hd [OF w] by auto
    have "parseexec k ?u = parseargs (EXEC []) 0 (w @ show_words ws2 @ ?r)"
      unfolding j parseexec.simps p using word_hd [OF w] parseredirs_stop [OF q] by simp
    also have "\<dots> = parseargs (EXEC []) 0 ?u" using parse_skip(2) [of "EXEC []" 0 ?u] s by simp
    finally show ?thesis using parseargs_show [of rs rest ws ?u "[]" "[]" "[]"] a assms r0 Cons by auto
  qed
qed

lemma exec_redir: "reads_exec c s \<Longrightarrow> word f \<Longrightarrow> mode_ok m d \<Longrightarrow> reads_exec (REDIR c f m d) (s @ show_redir f d)"
proof -
  assume c: "reads_exec c s" and f: "word f" "mode_ok m d"
  from c obtain K where K: "\<forall>k \<ge> K. \<forall>rs rest. (\<forall>x \<in> set rs. redir_ok x) \<and> ahead ''|)&;'' rest \<longrightarrow>
     (\<exists>c'. parseexec k (s @ show_redirs rs @ rest) = Inr (c', rest) \<and> reads (s @ show_redirs rs @ rest) c' (redirect c rs))" by (auto simp: reads_exec_def)
  show ?thesis unfolding reads_exec_def
  proof (intro exI [of _ K] allI impI)
    fix k rs rest
    assume k: "K \<le> k" and a: "(\<forall>x \<in> set rs. redir_ok x) \<and> ahead ''|)&;'' rest"
    then show "\<exists>c'. parseexec k ((s @ show_redir f d) @ show_redirs rs @ rest) = Inr (c', rest)
        \<and> reads ((s @ show_redir f d) @ show_redirs rs @ rest) c' (redirect (REDIR c f m d) rs)"
      using K [rule_format, OF k, of "(f, m, d) # rs" rest] f by (auto simp: redir_ok_def)
  qed
qed

lemma pipe_exec: "reads_exec c s \<Longrightarrow> reads_pipe c s"
proof -
  assume "reads_exec c s"
  then obtain K where K: "\<forall>k \<ge> K. \<forall>rs rest. (\<forall>x \<in> set rs. redir_ok x) \<and> ahead ''|)&;'' rest \<longrightarrow>
     (\<exists>c'. parseexec k (s @ show_redirs rs @ rest) = Inr (c', rest) \<and> reads (s @ show_redirs rs @ rest) c' (redirect c rs))" by (auto simp: reads_exec_def)
  show ?thesis unfolding reads_pipe_def
  proof (intro exI [of _ "Suc K"] allI impI)
    fix k rest
    assume "Suc K \<le> k" and a: "ahead '')&;'' rest"
    then obtain j where j: "k = Suc j" "K \<le> j" by (cases k) auto
    obtain c' where c': "parseexec j (s @ rest) = Inr (c', rest)" "reads (s @ rest) c' c" using K [rule_format, OF j(2), of "[]" rest] ahead_more [OF a] by auto
    have "peek rest ''|'' = (False, rest)" using peek_ahead [OF ahead_more [OF a], of "''|''"] a by (auto simp: ahead_def)
    then show "\<exists>c'. parsepipe k (s @ rest) = Inr (c', rest) \<and> reads (s @ rest) c' c" using c' j by simp
  qed
qed

lemma pipe_pipe: "reads_exec l s \<Longrightarrow> reads_pipe r t \<Longrightarrow> reads_pipe (PIPE l r) (s @ ''|'' @ t)"
proof -
  assume "reads_exec l s" "reads_pipe r t"
  then obtain K M where K: "\<forall>k \<ge> K. \<forall>rs rest. (\<forall>x \<in> set rs. redir_ok x) \<and> ahead ''|)&;'' rest \<longrightarrow>
     (\<exists>c'. parseexec k (s @ show_redirs rs @ rest) = Inr (c', rest) \<and> reads (s @ show_redirs rs @ rest) c' (redirect l rs))"
    and M: "\<forall>k \<ge> M. \<forall>rest. ahead '')&;'' rest \<longrightarrow> (\<exists>c'. parsepipe k (t @ rest) = Inr (c', rest) \<and> reads (t @ rest) c' r)"
    by (auto simp: reads_exec_def reads_pipe_def)
  show ?thesis unfolding reads_pipe_def
  proof (intro exI [of _ "Suc (K + M)"] allI impI)
    fix k rest
    assume "Suc (K + M) \<le> k" and a: "ahead '')&;'' rest"
    then obtain j where j: "k = Suc j" "K \<le> j" "M \<le> j" by (cases k) auto
    let ?b = "CHR ''|'' # t @ rest"
    obtain c1 where c1: "parseexec j (s @ ?b) = Inr (c1, ?b)" "reads (s @ ?b) c1 l" using K [rule_format, OF j(2), of "[]" ?b] by (auto simp: ahead_def)
    obtain c2 where c2: "parsepipe j (t @ rest) = Inr (c2, rest)" "reads (t @ rest) c2 r" using M [rule_format, OF j(3) a] by auto
    have p: "peek ?b ''|'' = (True, ?b)" using peek_ahead [of ?b "''|''"] by (simp add: ahead_def)
    have g: "gettoken ?b = (CHR ''|'', (Suc (length (t @ rest)), length (t @ rest)), dropWhile whitespace (t @ rest))" using gettoken_symbol(1) [of "CHR ''|''"] by simp
    have "parsepipe k (s @ ?b) = Inr (PIPE c1 c2, rest)" using j c1 c2 p g by (simp add: parse_skip)
    moreover have "reads (s @ ?b) (PIPE c1 c2) (PIPE l r)" using c1(2) reads_append [OF c2(2), of "s @ ''|''"] by (auto simp: reads_def)
    ultimately show "\<exists>c'. parsepipe k ((s @ ''|'' @ t) @ rest) = Inr (c', rest) \<and> reads ((s @ ''|'' @ t) @ rest) c' (PIPE l r)" by auto
  qed
qed

lemma parsebacks_amps: "ahead '');'' rest \<Longrightarrow> parsebacks c (amps n @ rest) = ((BACK ^^ n) c, rest)"
proof (induction n arbitrary: c)
  case 0
  have "peek rest ''&'' = (False, rest)" using peek_ahead [OF ahead_more [OF 0], of "''&''"] 0 by (auto simp: ahead_def)
  then show ?case by (subst parsebacks.simps) (simp add: amps_def)
next
  case (Suc n)
  let ?b = "CHR ''&'' # amps n @ rest"
  have a: "ahead ''<|>&;()'' (amps n @ rest)" using Suc.prems by (cases n) (auto simp: amps_def ahead_def)
  have p: "peek ?b ''&'' = (True, ?b)" using peek_ahead [of ?b "''&''"] by (simp add: ahead_def)
  have "gettoken ?b = (CHR ''&'', (Suc (length (amps n @ rest)), length (amps n @ rest)), amps n @ rest)"
    using gettoken_symbol(1) [of "CHR ''&''"] ahead_skip [OF a] by simp
  then have "parsebacks c ?b = parsebacks (BACK c) (amps n @ rest)" using p by (subst parsebacks.simps) simp
  then show ?case using Suc by (simp add: amps_def funpow_swap1)
qed

lemma reads_BACK: "reads u c' c \<Longrightarrow> reads u ((BACK ^^ n) c') ((BACK ^^ n) c)"
  by (induction n) (auto simp: reads_def)

lemma back_pipe: "reads_pipe c s \<Longrightarrow> reads_back c s"
proof -
  assume "reads_pipe c s"
  then obtain K where K: "\<forall>k \<ge> K. \<forall>rest. ahead '')&;'' rest \<longrightarrow> (\<exists>c'. parsepipe k (s @ rest) = Inr (c', rest) \<and> reads (s @ rest) c' c)" by (auto simp: reads_pipe_def)
  show ?thesis unfolding reads_back_def
  proof (intro exI [of _ K] allI impI)
    fix k n rest
    assume k: "K \<le> k" and a: "ahead '');'' rest"
    have "ahead '')&;'' (amps n @ rest)" using a by (cases n) (auto simp: amps_def ahead_def)
    then obtain c1 where "parsepipe k (s @ amps n @ rest) = Inr (c1, amps n @ rest)" "reads (s @ amps n @ rest) c1 c" using K [rule_format, OF k] by blast
    then show "\<exists>c1 r c'. parsepipe k (s @ amps n @ rest) = Inr (c1, r) \<and> parsebacks c1 r = (c', rest) \<and> reads (s @ amps n @ rest) c' ((BACK ^^ n) c)"
      using parsebacks_amps [OF a] reads_BACK by blast
  qed
qed

lemma back_back: "reads_back c s \<Longrightarrow> reads_back (BACK c) (s @ ''&'')"
proof -
  assume "reads_back c s"
  then obtain K where K: "\<forall>k \<ge> K. \<forall>n rest. ahead '');'' rest \<longrightarrow>
     (\<exists>c1 r c'. parsepipe k (s @ amps n @ rest) = Inr (c1, r) \<and> parsebacks c1 r = (c', rest) \<and> reads (s @ amps n @ rest) c' ((BACK ^^ n) c))" by (auto simp: reads_back_def)
  have e: "(s @ ''&'') @ amps n @ rest = s @ amps (Suc n) @ rest" "(BACK ^^ n) (BACK c) = (BACK ^^ Suc n) c" for n rest by (simp_all add: amps_def funpow_swap1)
  show ?thesis unfolding reads_back_def e using K by blast
qed

lemma line_back: "reads_back c s \<Longrightarrow> reads_line c s"
proof -
  assume "reads_back c s"
  then obtain K where K: "\<forall>k \<ge> K. \<forall>n rest. ahead '');'' rest \<longrightarrow>
     (\<exists>c1 r c'. parsepipe k (s @ amps n @ rest) = Inr (c1, r) \<and> parsebacks c1 r = (c', rest) \<and> reads (s @ amps n @ rest) c' ((BACK ^^ n) c))" by (auto simp: reads_back_def)
  show ?thesis unfolding reads_line_def
  proof (intro exI [of _ "Suc K"] allI impI)
    fix k rest
    assume "Suc K \<le> k" and a: "ahead '')'' rest"
    then obtain j where j: "k = Suc j" "K \<le> j" by (cases k) auto
    obtain c1 r c' where c: "parsepipe j (s @ rest) = Inr (c1, r)" "parsebacks c1 r = (c', rest)" "reads (s @ rest) c' c"
      using K [rule_format, OF j(2), of rest 0] ahead_more [OF a] by (auto simp: amps_def)
    have "peek rest '';'' = (False, rest)" using peek_ahead [OF ahead_more [OF a], of "'';''"] a by (auto simp: ahead_def)
    then show "\<exists>c'. parseline k (s @ rest) = Inr (c', rest) \<and> reads (s @ rest) c' c" using c j by simp
  qed
qed

lemma line_list: "reads_back l s \<Longrightarrow> reads_line r t \<Longrightarrow> reads_line (LIST l r) (s @ '';'' @ t)"
proof -
  assume "reads_back l s" "reads_line r t"
  then obtain K M where K: "\<forall>k \<ge> K. \<forall>n rest. ahead '');'' rest \<longrightarrow>
     (\<exists>c1 r c'. parsepipe k (s @ amps n @ rest) = Inr (c1, r) \<and> parsebacks c1 r = (c', rest) \<and> reads (s @ amps n @ rest) c' ((BACK ^^ n) l))"
    and M: "\<forall>k \<ge> M. \<forall>rest. ahead '')'' rest \<longrightarrow> (\<exists>c'. parseline k (t @ rest) = Inr (c', rest) \<and> reads (t @ rest) c' r)"
    by (auto simp: reads_back_def reads_line_def)
  show ?thesis unfolding reads_line_def
  proof (intro exI [of _ "Suc (K + M)"] allI impI)
    fix k rest
    assume "Suc (K + M) \<le> k" and a: "ahead '')'' rest"
    then obtain j where j: "k = Suc j" "K \<le> j" "M \<le> j" by (cases k) auto
    let ?b = "CHR '';'' # t @ rest"
    obtain c0 r0 c1 where c1: "parsepipe j (s @ ?b) = Inr (c0, r0)" "parsebacks c0 r0 = (c1, ?b)" "reads (s @ ?b) c1 l"
      using K [rule_format, OF j(2), of ?b 0] by (auto simp: ahead_def amps_def)
    obtain c2 where c2: "parseline j (t @ rest) = Inr (c2, rest)" "reads (t @ rest) c2 r" using M [rule_format, OF j(3) a] by auto
    have p: "peek ?b '';'' = (True, ?b)" using peek_ahead [of ?b "'';''"] by (simp add: ahead_def)
    have g: "gettoken ?b = (CHR '';'', (Suc (length (t @ rest)), length (t @ rest)), dropWhile whitespace (t @ rest))" using gettoken_symbol(1) [of "CHR '';''"] by simp
    have "parseline k (s @ ?b) = Inr (LIST c1 c2, rest)" using j c1 c2 p g by (simp add: parse_skip)
    moreover have "reads (s @ ?b) (LIST c1 c2) (LIST l r)" using c1(3) reads_append [OF c2(2), of "s @ '';''"] by (auto simp: reads_def)
    ultimately show "\<exists>c'. parseline k ((s @ '';'' @ t) @ rest) = Inr (c', rest) \<and> reads ((s @ '';'' @ t) @ rest) c' (LIST l r)" by auto
  qed
qed

lemma exec_paren: "reads_line c s \<Longrightarrow> reads_exec c (''('' @ s @ '')'')"
proof -
  assume "reads_line c s"
  then obtain K where K: "\<forall>k \<ge> K. \<forall>rest. ahead '')'' rest \<longrightarrow> (\<exists>c'. parseline k (s @ rest) = Inr (c', rest) \<and> reads (s @ rest) c' c)" by (auto simp: reads_line_def)
  show ?thesis unfolding reads_exec_def
  proof (intro exI [of _ "Suc (Suc K)"] allI impI)
    fix k rs rest
    assume "Suc (Suc K) \<le> k" and a: "(\<forall>x \<in> set rs. redir_ok x) \<and> ahead ''|)&;'' rest"
    then obtain j where j: "k = Suc (Suc j)" "K \<le> j" by (metis Suc_le_D Suc_le_mono)
    let ?r = "show_redirs rs @ rest" and ?b = "CHR '')'' # show_redirs rs @ rest" and ?u = "CHR ''('' # s @ CHR '')'' # show_redirs rs @ rest"
    obtain c1 where c1: "parseline j (s @ ?b) = Inr (c1, ?b)" "reads (s @ ?b) c1 c" using K [rule_format, OF j(2), of ?b] by (auto simp: ahead_def)
    have p: "peek ?u ''('' = (True, ?u)" "peek ?b '')'' = (True, ?b)" using peek_ahead [of ?u "''(''"] peek_ahead [of ?b "'')''"] by (simp_all add: ahead_def)
    have g: "gettoken ?u = (CHR ''('', (Suc (length (s @ ?b)), length (s @ ?b)), dropWhile whitespace (s @ ?b))"
      "gettoken ?b = (CHR '')'', (Suc (length ?r), length ?r), ?r)"
      using gettoken_symbol(1) [of "CHR ''(''" "s @ ?b"] gettoken_symbol(1) [of "CHR '')''" ?r] ahead_skip [OF ahead_redirs(1)] a by auto
    have e: "parseexec k ?u = parseredirs c1 ?r" using j p g c1 by (simp add: parse_skip)
    have r: "reads ?u c1 c" using reads_append [OF c1(2), of "''(''"] by simp
    have u: "?u = (''('' @ s @ '')'') @ show_redirs rs @ rest" by simp
    obtain c' where "parseredirs c1 ?r = Inr (c', rest)" "reads ?u c' (redirect c rs)" using parseredirs_show [OF _ _ r u] a by blast
    then show "\<exists>c'. parseexec k ((''('' @ s @ '')'') @ ?r) = Inr (c', rest) \<and> reads ((''('' @ s @ '')'') @ ?r) c' (redirect c rs)"
      unfolding u [symmetric] e by blast
  qed
qed

section \<open>Any command\<close>

definition reads_at :: "nat \<Rightarrow> string tree \<Rightarrow> string \<Rightarrow> bool" where
  "reads_at n c s = (if n = 0 then reads_line c s else if n = 1 then reads_back c s else if n = 2 then reads_pipe c s else reads_exec c s)"

lemma reads_down: "reads_at n c s \<Longrightarrow> m \<le> n \<Longrightarrow> reads_at m c s"
  using pipe_exec [of c s] back_pipe [of c s] line_back [of c s] by (auto simp: reads_at_def split: if_splits)

lemma reads_paren: "reads_at (level c) c s \<Longrightarrow> reads_at n c (paren n c s)"
proof (cases "level c < n")
  case True
  assume "reads_at (level c) c s"
  then have "reads_at 0 c s" by (rule reads_down) simp
  then have "reads_at 3 c (''('' @ s @ '')'')" using exec_paren by (simp add: reads_at_def)
  moreover have "reads_at n c x" if "reads_at 3 c x" for x
    using that reads_down [OF that, of n] by (cases "n \<le> 3") (auto simp: reads_at_def)
  ultimately show ?thesis using True by (simp only: paren_def if_True)
qed (auto intro: reads_down simp: paren_def)

lemma show_reads: "cmd_ok c \<Longrightarrow> reads_at (level c) c (show_cmd c)"
proof (induction c)
  case (EXEC ws)
  then show ?case using exec_words [of ws] by (simp add: reads_at_def)
next
  case (REDIR c f m d)
  then show ?case using reads_paren [of c "show_cmd c" 3] exec_redir by (simp add: reads_at_def)
next
  case (PIPE l r)
  then show ?case using reads_paren [of l "show_cmd l" 3] reads_paren [of r "show_cmd r" 2] pipe_pipe by (simp add: reads_at_def)
next
  case (LIST l r)
  then have "reads_at 1 l (paren 1 l (show_cmd l))" "reads_at 0 r (show_cmd r)" using reads_paren [of l "show_cmd l" 1] reads_down by auto
  then show ?case using line_list by (simp add: reads_at_def)
next
  case (BACK c)
  then show ?case using reads_paren [of c "show_cmd c" 1] back_back by (simp add: reads_at_def)
qed

section \<open>The terminated strings\<close>

lemma length_nulterminate [simp]: "length (nulterminate c buf) = length buf"
proof (induction c arbitrary: buf)
  case (EXEC argv)
  show ?case unfolding nulterminate.simps by (induction argv arbitrary: buf) (auto simp: put_nul_def)
qed (auto simp: put_nul_def)

lemma nulterminate_nth:
  "i < length buf \<Longrightarrow> \<forall>t \<in> set_tree c. snd t < length buf \<Longrightarrow>
   nulterminate c buf ! i = (if \<exists>t \<in> set_tree c. i = length buf - 1 - snd t then CHR 0x00 else buf ! i)"
proof (induction c arbitrary: buf)
  case (EXEC argv)
  then show ?case unfolding nulterminate.simps
  proof (induction argv arbitrary: buf)
    case (Cons t argv)
    then show ?case by (cases t) (auto simp: put_nul_def nth_list_update)
  qed simp
qed (auto simp: put_nul_def nth_list_update)

lemma str_at_terminated:
  assumes "t \<in> set_tree c" "\<forall>t \<in> set_tree c. token_ok s t"
  shows "str_at (nulterminate c (s @ [CHR 0x00])) t = text_of s t"
proof -
  let ?n = "length s" and ?b = "nulterminate c (s @ [CHR 0x00])"
  obtain q e where t: "t = (q, e)" by (cases t)
  have tk: "e \<le> q" "q \<le> ?n" "word (text_of s t)" using assms t by (auto simp: token_ok_def)
  have le: "\<forall>t \<in> set_tree c. snd t < length (s @ [CHR 0x00])" using assms(2) by (auto simp: token_ok_def)
  have nth: "?b ! i = (if \<exists>t \<in> set_tree c. i = ?n - snd t then CHR 0x00 else (s @ [CHR 0x00]) ! i)" if "i \<le> ?n" for i
    using nulterminate_nth [OF _ le, of i] that by simp
  have inside: "word_char (s ! (?n - q + i))" if "i < q - e" for i
  proof -
    have "text_of s t ! i = s ! (?n - q + i)" "i < length (text_of s t)" using that tk t by (auto simp: text_of_def)
    then show ?thesis using tk(3) by (auto simp: word_def dest: nth_mem)
  qed
  have kept: "?b ! (?n - q + i) = s ! (?n - q + i)" if "i < q - e" for i
  proof -
    have "?n - q + i \<noteq> ?n - snd x" if "x \<in> set_tree c" for x
      using inside [OF \<open>i < q - e\<close>] assms(2) that tk(1,2) \<open>i < q - e\<close> by (cases "snd x = 0") (auto simp: token_ok_def)
    then show ?thesis using nth [of "?n - q + i"] that tk by (auto simp: nth_append)
  qed
  have z: "?b ! (?n - e) = CHR 0x00" using nth [of "?n - e"] assms(1) t by force
  have ln: "length ?b = Suc ?n" by simp
  have "takeWhile (\<lambda>c. c \<noteq> CHR 0x00) (drop (?n - q) ?b) = take (q - e) (drop (?n - q) ?b)"
  proof (rule takeWhile_eq_take_P_nth)
    show "drop (?n - q) ?b ! i \<noteq> CHR 0x00" if "i < q - e" "i < length (drop (?n - q) ?b)" for i
      using inside [OF that(1)] kept [OF that(1)] tk ln by (auto simp: word_char_def)
    show "\<not> drop (?n - q) ?b ! (q - e) \<noteq> CHR 0x00" if "q - e < length (drop (?n - q) ?b)" using z tk ln by simp
  qed
  also have "\<dots> = take (q - e) (drop (?n - q) s)" using kept tk ln by (intro nth_equalityI) auto
  finally show ?thesis using t by (simp add: str_at_def text_of_def)
qed

lemma reads_terminated: "reads s c' c \<Longrightarrow> map_tree (str_at (nulterminate c' (s @ [CHR 0x00]))) c' = c"
  unfolding reads_def using str_at_terminated by (auto intro!: tree.map_cong0)

text \<open>
  C21. The shell's parser inverts the printer: for every command, with any nesting of pipes, lists, background commands, blocks and redirections, whose words have no blanks, symbols or NULs and whose commands have at most
  19 words, \<open>parsecmd\<close> of the printed form returns that command, with every word terminated in place and none cut by the terminator of another. On every line whatever, the parser returns: more depth of
  calls than the model grants makes no difference.
\<close>

theorem parsecmd_show:
  assumes "cmd_ok c"
  shows "(\<exists>c' buf. parsecmd (show_cmd c) = Inr (c', buf) \<and> map_tree (str_at buf) c' = c)
    \<and> (\<forall>line m. parseline (4 * length line + 4 + m) line = parseline (4 * length line + 4) line)"
proof -
  let ?s = "show_cmd c"
  have "reads_line c ?s" using reads_down [OF show_reads [OF assms], of 0] by (simp add: reads_at_def)
  then obtain K where K: "\<forall>k \<ge> K. \<exists>c'. parseline k ?s = Inr (c', []) \<and> reads ?s c' c" unfolding reads_line_def ahead_def by (metis append_Nil2)
  then obtain c' where c': "parseline (4 * length ?s + 4 + K) ?s = Inr (c', [])" "reads ?s c' c" using le_add2 by blast
  then have "parsecmd ?s = Inr (c', nulterminate c' (?s @ [CHR 0x00]))" using parseline_bound [of ?s "4 * length ?s + 4" K] by (simp add: parsecmd_def peek_def)
  then show ?thesis using reads_terminated [OF c'(2)] parseline_bound by blast
qed

definition demo_cmd :: "string tree" where
  "demo_cmd = LIST (BACK (PIPE (EXEC [''ls'', ''d'']) (REDIR (EXEC [''wc'']) ''out'' (O_WRONLY OR O_CREATE) 1))) (REDIR (LIST (EXEC [''a'']) (EXEC [''b''])) ''in'' O_RDONLY 0)"

theorem parsecmd_show_witness:
  "show_cmd demo_cmd = '' ls d| wc> out&;( a; b)< in'' \<and> (\<exists>c' buf. parsecmd (show_cmd demo_cmd) = Inr (c', buf) \<and> map_tree (str_at buf) c' = demo_cmd)"
proof -
  have "cmd_ok demo_cmd" by (auto simp: demo_cmd_def MAXARGS_def word_def word_char_def whitespace_def symbols_def mode_ok_def)
  note p = parsecmd_show [OF this]
  have "show_cmd demo_cmd = '' ls d| wc> out&;( a; b)< in''" by (simp add: demo_cmd_def show_redir_def paren_def)
  then show ?thesis using conjunct1 [OF p] by blast
qed

end
