(* ===== verification/Console.thy ===== *)
theory Console
  imports File Ring
begin

text \<open>
  The console: the screen, the line discipline for input and the device functions (\<^verbatim>\<open>console.c\<close>) and the serial port behind it (\<^verbatim>\<open>uart.c\<close>). \<open>cn_crt\<close> is the memory of the screen, \<open>cn_pos\<close> the cursor that its ports hold, \<open>cn_uart\<close> what has been sent to the serial port (\<open>None\<close> when there is none). The interrupt handler is given the
  characters that \<open>getc\<close> returns before -1. \<open>panic\<close> itself, which prints its message and stops the machine, is the error value that carries the message.
\<close>

definition INPUT_BUF :: nat where "INPUT_BUF = 128"
definition BACKSPACE :: int where "BACKSPACE = 0x100"

record console =
  cn_buf :: "byte list"
  cn_r :: "32 word"
  cn_w :: "32 word"
  cn_e :: "32 word"
  cn_panicked :: bool
  cn_crt :: "16 word list"
  cn_pos :: nat
  cn_uart :: "byte list option"

section \<open>Output\<close>

definition uartputc :: "int \<Rightarrow> console \<Rightarrow> console" where
  "uartputc x con = con\<lparr>cn_uart := map_option (\<lambda>out. out @ [word_of_int x]) (cn_uart con)\<rparr>"

text \<open>Scrolling: \<open>memmove\<close> of 23 lines and \<open>memset\<close> from the new position to the end of line 24.\<close>

definition scroll :: "nat \<Rightarrow> 16 word list \<Rightarrow> 16 word list" where
  "scroll pos crt =
     (let crt1 = take (23 * 80) (drop 80 crt) @ drop (23 * 80) crt
      in take pos crt1 @ replicate (24 * 80 - pos) 0 @ drop (24 * 80) crt1)"

definition cgaputc :: "int \<Rightarrow> console \<Rightarrow> console result" where
  "cgaputc x con =
     (let pos = cn_pos con; crt = cn_crt con
      in bindE (if x = 10 then Inr (pos + (80 - pos mod 80), crt)
                else if x = BACKSPACE then Inr (if pos > 0 then pos - 1 else pos, crt)
                else if pos < length crt then Inr (pos + 1, crt[pos := (word_of_int x AND 0xff) OR 0x0700]) else Inl Undef)
           (\<lambda>(pos1, crt1).
            if pos1 > 25 * 80 then panic ''pos under/overflow''
            else let (pos2, crt2) = (if pos1 div 80 \<ge> 24 then (pos1 - 80, scroll (pos1 - 80) crt1) else (pos1, crt1))
              in if pos2 < length crt2 then Inr (con\<lparr>cn_pos := pos2, cn_crt := crt2[pos2 := 0x20 OR 0x0700]\<rparr>) else Inl Undef))"

definition consputc :: "int \<Rightarrow> console \<Rightarrow> console result" where
  "consputc x con =
     (if cn_panicked con then Inl NoReturn
      else cgaputc x (if x = BACKSPACE then uartputc 8 (uartputc 32 (uartputc 8 con)) else uartputc x con))"

fun consputs :: "int list \<Rightarrow> console \<Rightarrow> console result" where
  "consputs [] con = Inr con"
| "consputs (x # xs) con = bindE (consputc x con) (consputs xs)"

section \<open>Input\<close>

definition CTRL :: "char \<Rightarrow> int" where
  "CTRL x = of_char x - of_char (CHR ''@'')"

text \<open>The loop of control-U, which ends within \<open>e - w\<close> steps.\<close>

fun kill_line :: "nat \<Rightarrow> console \<Rightarrow> console result" where
  "kill_line 0 con = Inr con"
| "kill_line (Suc n) con =
     (if cn_e con \<noteq> cn_w con \<and> cn_buf con ! unat ((cn_e con - 1) mod of_nat INPUT_BUF) \<noteq> 10
      then bindE (consputc BACKSPACE (con\<lparr>cn_e := cn_e con - 1\<rparr>)) (kill_line n)
      else Inr con)"

text \<open>One character of input. The result says whether a line is complete, so that readers are woken.\<close>

definition console_key :: "int \<Rightarrow> console \<Rightarrow> (bool \<times> console) result" where
  "console_key x con =
     (if x = CTRL (CHR ''P'') then Inr (False, con)
      else if x = CTRL (CHR ''U'') then bindE (kill_line (unat (cn_e con - cn_w con)) con) (\<lambda>con1. Inr (False, con1))
      else if x = CTRL (CHR ''H'') \<or> x = 0x7f
      then if cn_e con \<noteq> cn_w con then bindE (consputc BACKSPACE (con\<lparr>cn_e := cn_e con - 1\<rparr>)) (\<lambda>con1. Inr (False, con1)) else Inr (False, con)
      else if x \<noteq> 0 \<and> cn_e con - cn_r con < of_nat INPUT_BUF
      then let x1 = (if x = 13 then 10 else x)
           in bindE (consputc x1 (con\<lparr>cn_buf := (cn_buf con)[unat (cn_e con mod of_nat INPUT_BUF) := word_of_int x1], cn_e := cn_e con + 1\<rparr>)) (\<lambda>con1.
              if x1 = 10 \<or> x1 = CTRL (CHR ''D'') \<or> cn_e con1 = cn_r con1 + of_nat INPUT_BUF
              then Inr (True, con1\<lparr>cn_w := cn_e con1\<rparr>) else Inr (False, con1))
      else Inr (False, con))"

section \<open>In the kernel\<close>

record consoled = fsys +
  f_cons :: console

type_synonym ('x, 'z) cstate = "('x consoled_scheme, 'z) kstate_scheme"

definition ConsLock :: lockid where "ConsLock = OtherLock 6"
definition input_chan :: "chan option" where "input_chan = Some (Chan_addr 6)"

definition set_cons :: "console \<Rightarrow> ('x, 'z) cstate \<Rightarrow> ('x, 'z) cstate" where
  "set_cons con S = upd_env (\<lambda>e. e\<lparr>f_cons := con\<rparr>) S"

fun console_keys :: "nat \<Rightarrow> int list \<Rightarrow> ('x, 'z) cstate \<Rightarrow> ('x, 'z) cstate result" where
  "console_keys c [] S = Inr S"
| "console_keys c (x # xs) S =
     bindE (console_key x (f_cons (k_env S))) (\<lambda>(line, con).
     bindE (if line then wakeup c input_chan (set_cons con S) else Inr (set_cons con S)) (console_keys c xs))"

definition consoleintr :: "(32 word \<Rightarrow> 32 word) \<Rightarrow> (nat \<Rightarrow> 32 word) \<Rightarrow> nat \<Rightarrow> int list \<Rightarrow> ('x, 'z) cstate \<Rightarrow> ('x, 'z) cstate result" where
  "consoleintr mem ebp c keys S =
     bindE (acquire c ConsLock S) (\<lambda>S1.
     bindE (console_keys c keys S1) (\<lambda>S2.
     bindE (release c ConsLock S2) (\<lambda>S3.
     if CTRL (CHR ''P'') \<in> set keys then procdump mem ebp S3 else Inr S3)))"

text \<open>
  The loop of \<open>consoleread\<close> with \<open>n\<close> characters to go, after \<open>got\<close>. It sleeps with what is left to do; \<open>Ret None\<close> is the return of a killed process. The lock is released by the caller, but for the sleep.
\<close>

fun consoleread_loop :: "nat \<Rightarrow> nat \<Rightarrow> byte list \<Rightarrow> ('x, 'z) cstate \<Rightarrow> ((byte list option, nat \<times> byte list) sect \<times> ('x, 'z) cstate) result" where
  "consoleread_loop c 0 got S = Inr (Ret (Some got), S)"
| "consoleread_loop c (Suc n) got S =
     (let con = f_cons (k_env S)
      in if cn_r con = cn_w con
         then case myproc c S of None \<Rightarrow> nullderef
           | Some p \<Rightarrow>
               if p_killed (proc_at S p) then Inr (Ret None, S)
               else bindE (sleep c input_chan (Some ConsLock) S) (\<lambda>S1. Inr (Blocked (Suc n, got), S1))
         else let x = cn_buf con ! unat (cn_r con mod of_nat INPUT_BUF); S1 = set_cons (con\<lparr>cn_r := cn_r con + 1\<rparr>) S
              in if x = 4 then Inr (Ret (Some got), if got \<noteq> [] then S else S1)
                 else if x = 10 then Inr (Ret (Some (got @ [x])), S1)
                 else consoleread_loop c n (got @ [x]) S1)"

definition consoleread_on :: "nat \<Rightarrow> nat \<Rightarrow> nat \<Rightarrow> byte list \<Rightarrow> ('x, 'z) cstate \<Rightarrow> ((int \<times> byte list, nat \<times> byte list) sect \<times> ('x, 'z) cstate) result" where
  "consoleread_on c ip n got S =
     bindE (consoleread_loop c n got S) (\<lambda>(r, S1).
     case r of Blocked x \<Rightarrow> Inr (Blocked x, S1)
     | Ret v \<Rightarrow> bindE (release c ConsLock S1) (\<lambda>S2. bindE (ilock c (Some ip) S2) (\<lambda>S3.
         Inr (Ret (case v of None \<Rightarrow> (-1, []) | Some bs \<Rightarrow> (int (length bs), bs)), S3))))"

definition consoleread :: "nat \<Rightarrow> nat \<Rightarrow> 32 word \<Rightarrow> ('x, 'z) cstate \<Rightarrow> ((int \<times> byte list, nat \<times> byte list) sect \<times> ('x, 'z) cstate) result" where
  "consoleread c ip n S =
     bindE (iunlock c (Some ip) S) (\<lambda>S1. bindE (acquire c ConsLock S1) (consoleread_on c ip (nat (sint n)) []))"

definition consolewrite :: "nat \<Rightarrow> nat \<Rightarrow> byte list \<Rightarrow> 32 word \<Rightarrow> ('x, 'z) cstate \<Rightarrow> (int \<times> ('x, 'z) cstate) result" where
  "consolewrite c ip buf n S =
     bindE (iunlock c (Some ip) S) (\<lambda>S1. bindE (acquire c ConsLock S1) (\<lambda>S2.
     bindE (consputs (map uint (take (nat (sint n)) buf)) (f_cons (k_env S2))) (\<lambda>con.
     bindE (release c ConsLock (set_cons con S2)) (\<lambda>S3. bindE (ilock c (Some ip) S3) (\<lambda>S4. Inr (sint n, S4))))))"

text \<open>
  The entry of the console in \<open>devsw\<close>, on CPU \<open>c\<close>. A read that would sleep is outside what \<open>readi\<close> is modelled for, like a wait for a sleep lock. \<open>ioapicenable\<close> programs the interrupt controller and is left out.
\<close>

definition CONSOLE :: nat where "CONSOLE = 1"

definition console_dev :: "nat \<Rightarrow> ('x consoled_ext fsys_ext, 'z) devsw" where
  "console_dev c = \<lparr>
     dev_read = Some (\<lambda>ip n S. bindE (consoleread c ip n S) (\<lambda>(r, S1). case r of Ret v \<Rightarrow> Inr (v, S1) | Blocked _ \<Rightarrow> Inl Spin)),
     dev_write = Some (consolewrite c)\<rparr>"

definition consoleinit :: "nat \<Rightarrow> ('x consoled_ext, 'z) devices \<Rightarrow> ('x, 'z) cstate \<Rightarrow> ('x consoled_ext, 'z) devices \<times> ('x, 'z) cstate" where
  "consoleinit c dv S = (dv(CONSOLE := console_dev c), initlock ConsLock ''console'' S)"

section \<open>The serial port\<close>

text \<open>\<open>uartgetc\<close> on the line status and the data register; the characters of one interrupt are those until the status has no data.\<close>

definition uartgetc :: "bool \<Rightarrow> byte \<Rightarrow> byte \<Rightarrow> int" where
  "uartgetc uart lsr data = (if \<not> uart then -1 else if lsr AND 1 = 0 then -1 else uint data)"

definition uartintr :: "(32 word \<Rightarrow> 32 word) \<Rightarrow> (nat \<Rightarrow> 32 word) \<Rightarrow> nat \<Rightarrow> (byte \<times> byte) list \<Rightarrow> ('x, 'z) cstate \<Rightarrow> ('x, 'z) cstate result" where
  "uartintr mem ebp c ports S =
     consoleintr mem ebp c (takeWhile (\<lambda>x. x \<ge> 0) (map (\<lambda>(lsr, data). uartgetc (cn_uart (f_cons (k_env S)) \<noteq> None) lsr data) ports)) S"

end
