(* ===== verification/Kbd.thy ===== *)
theory Kbd
  imports Console
begin

text \<open>
  The keyboard (\<^verbatim>\<open>kbd.c\<close>, \<^verbatim>\<open>kbd.h\<close>): scan codes to characters. \<open>kbdgetc\<close> is given the status and the data byte of the controller and the variable \<open>shift\<close>.
\<close>

definition CTL_SHIFT :: "32 word" where "CTL_SHIFT = 3"
definition CAPSLOCK :: "32 word" where "CAPSLOCK = 8"
definition E0ESC :: "32 word" where "E0ESC = 64"

text \<open>A table that lists its first entries, and names some of the others.\<close>

definition table :: "byte list \<Rightarrow> (nat \<times> byte) list \<Rightarrow> nat \<Rightarrow> byte" where
  "table xs named i = (case map_of named i of Some v \<Rightarrow> v | None \<Rightarrow> if i < length xs then xs ! i else 0)"

definition codes :: "string \<Rightarrow> byte list" where
  "codes s = map of_char s"

definition shiftcode :: "nat \<Rightarrow> byte" where
  "shiftcode = table [] [(0x1D, 2), (0x2A, 1), (0x36, 1), (0x38, 4), (0x9D, 2), (0xB8, 4)]"

definition togglecode :: "nat \<Rightarrow> byte" where
  "togglecode = table [] [(0x3A, 8), (0x45, 16), (0x46, 32)]"

definition special_keys :: "(nat \<times> byte) list" where
  "special_keys = [(0xC8, 0xE2), (0xD0, 0xE3), (0xC9, 0xE6), (0xD1, 0xE7), (0xCB, 0xE4), (0xCD, 0xE5), (0x97, 0xE0), (0xCF, 0xE1), (0xD2, 0xE8), (0xD3, 0xE9)]"

definition keypad :: "byte list" where
  "keypad = [0] @ codes ''*'' @ [0] @ codes '' '' @ replicate 13 0 @ codes ''789-456+1230.'' @ replicate 4 0"

definition normalmap :: "nat \<Rightarrow> byte" where
  "normalmap = table ([0, 0x1B] @ codes ''1234567890-='' @ [8, 9] @ codes ''qwertyuiop[]'' @ [10, 0] @ codes ''asdfghjkl;'' @ [0x27, 0x60, 0, 0x5C]
     @ codes ''zxcvbnm,./'' @ keypad) ([(0x9C, 10), (0xB5, 0x2F)] @ special_keys)"

definition shiftmap :: "nat \<Rightarrow> byte" where
  "shiftmap = table ([0, 0x1B] @ codes ''!@#$%^&*()_+'' @ [8, 9] @ codes ''QWERTYUIOP{}'' @ [10, 0] @ codes ''ASDFGHJKL:'' @ [0x22, 0x7E, 0, 0x7C]
     @ codes ''ZXCVBNM<>?'' @ keypad) ([(0x9C, 10), (0xB5, 0x2F)] @ special_keys)"

definition ctlmap :: "nat \<Rightarrow> byte" where
  "ctlmap = table (replicate 16 0 @ map (\<lambda>x. x - 0x40) (codes ''QWERTYUIOP'') @ [0, 0, 13, 0] @ map (\<lambda>x. x - 0x40) (codes ''ASDFGHJKL'') @ [0, 0, 0, 0, 0x5C - 0x40]
     @ map (\<lambda>x. x - 0x40) (codes ''ZXCVBNM'') @ [0, 0, 0x2F - 0x40, 0, 0]) ([(0x9C, 13), (0xB5, 0x2F - 0x40)] @ special_keys)"

definition charcode :: "32 word \<Rightarrow> nat \<Rightarrow> byte" where
  "charcode s = (if s = 0 then normalmap else if s = 1 then shiftmap else ctlmap)"

definition kbdgetc :: "byte \<Rightarrow> byte \<Rightarrow> 32 word \<Rightarrow> int \<times> 32 word" where
  "kbdgetc st data shift =
     (if st AND 1 = 0 then (-1, shift)
      else if data = 0xE0 then (0, shift OR E0ESC)
      else if data AND 0x80 \<noteq> 0
      then let d = (if shift AND E0ESC \<noteq> 0 then data else data AND 0x7F)
           in (0, shift AND NOT (ucast (shiftcode (unat d)) OR E0ESC))
      else let (d, s) = (if shift AND E0ESC \<noteq> 0 then (data OR 0x80, shift AND NOT E0ESC) else (data, shift));
               s1 = s OR ucast (shiftcode (unat d));
               s2 = s1 XOR ucast (togglecode (unat d));
               x = uint (charcode (s2 AND CTL_SHIFT) (unat d))
           in (if s2 AND CAPSLOCK \<noteq> 0
               then if 0x61 \<le> x \<and> x \<le> 0x7A then x + (0x41 - 0x61) else if 0x41 \<le> x \<and> x \<le> 0x5A then x + (0x61 - 0x41) else x
               else x, s2))"

text \<open>The characters of one interrupt, from the bytes that the controller has ready; the handler reads on until it has none.\<close>

fun kbd_chars :: "byte list \<Rightarrow> 32 word \<Rightarrow> int list \<times> 32 word" where
  "kbd_chars [] shift = ([], shift)"
| "kbd_chars (d # ds) shift = (case kbdgetc 1 d shift of (x, s1) \<Rightarrow> case kbd_chars ds s1 of (xs, s2) \<Rightarrow> (x # xs, s2))"

definition kbdintr :: "(32 word \<Rightarrow> 32 word) \<Rightarrow> (nat \<Rightarrow> 32 word) \<Rightarrow> nat \<Rightarrow> byte list \<Rightarrow> 32 word \<Rightarrow> ('x, 'z) cstate \<Rightarrow> (32 word \<times> ('x, 'z) cstate) result" where
  "kbdintr mem ebp c ds shift S = (case kbd_chars ds shift of (xs, s1) \<Rightarrow> bindE (consoleintr mem ebp c xs S) (\<lambda>S1. Inr (s1, S1)))"

end
