(* ===== verification/ConsoleFacts.thy ===== *)
theory ConsoleFacts
  imports Kbd FsDemo
begin

text \<open>
  The console refines an editor of lines: the characters that are ready to be read, and the line that is being typed. The cursor stays on the screen, so that output never stops the kernel.
\<close>

section \<open>The screen\<close>

definition screen_ok :: "console \<Rightarrow> bool" where
  "screen_ok con \<longleftrightarrow> \<not> cn_panicked con \<and> cn_pos con < 24 * 80 \<and> 25 * 80 \<le> length (cn_crt con)"

definition same_input :: "console \<Rightarrow> console \<Rightarrow> bool" where
  "same_input con con' \<longleftrightarrow> cn_buf con' = cn_buf con \<and> cn_r con' = cn_r con \<and> cn_w con' = cn_w con \<and> cn_e con' = cn_e con"

lemma length_scroll: "pos \<le> 24 * 80 \<Longrightarrow> 25 * 80 \<le> length crt \<Longrightarrow> length (scroll pos crt) = length crt"
  by (simp add: scroll_def Let_def)

lemma line_end: "pos < 24 * 80 \<Longrightarrow> pos + (80 - pos mod 80) \<le> 24 * 80" for pos :: nat
proof -
  assume "pos < 24 * 80"
  then have q: "pos div 80 < 24" by (simp add: less_mult_imp_div_less)
  have "pos = 80 * (pos div 80) + pos mod 80" "pos mod 80 < 80" by simp_all
  then have "pos + (80 - pos mod 80) = 80 * (pos div 80) + 80" by linarith
  then show ?thesis using q by linarith
qed

lemma cgaputc_ok:
  assumes "screen_ok con"
  shows "\<exists>con'. cgaputc x con = Inr con' \<and> screen_ok con' \<and> same_input con con'"
proof -
  let ?pos = "cn_pos con" and ?crt = "cn_crt con"
  have p: "?pos < 1920" "2000 \<le> length ?crt" using assms by (simp_all add: screen_ok_def)
  obtain pos1 crt1 where s: "pos1 \<le> 1920" "2000 \<le> length crt1"
    "cgaputc x con = (let (pos2, crt2) = (if pos1 div 80 \<ge> 24 then (pos1 - 80, scroll (pos1 - 80) crt1) else (pos1, crt1))
       in if pos2 < length crt2 then Inr (con\<lparr>cn_pos := pos2, cn_crt := crt2[pos2 := 0x20 OR 0x0700]\<rparr>) else Inl Undef)"
  proof -
    consider "x = 10" | "x = BACKSPACE" "x \<noteq> 10" | "x \<noteq> 10" "x \<noteq> BACKSPACE" by blast
    then show ?thesis
    proof cases
      case 1
      show ?thesis by (rule that [of "?pos + (80 - ?pos mod 80)" ?crt]) (use 1 p line_end [of ?pos] in \<open>simp_all add: cgaputc_def Let_def\<close>)
    next
      case 2
      show ?thesis by (rule that [of "?pos - 1" ?crt]) (use 2 p in \<open>auto simp: cgaputc_def Let_def\<close>)
    next
      case 3
      show ?thesis by (rule that [of "?pos + 1" "?crt[?pos := (word_of_int x AND 0xff) OR 0x0700]"]) (use 3 p in \<open>simp_all add: cgaputc_def Let_def\<close>)
    qed
  qed
  show ?thesis
  proof (cases "pos1 div 80 \<ge> 24")
    case True
    then show ?thesis using s assms length_scroll [of "pos1 - 80" crt1] by (auto simp: screen_ok_def same_input_def)
  next
    case False
    then have "pos1 < 1920" using s(1) div_le_mono [of 1920 pos1 80] by force
    then show ?thesis using False s assms by (auto simp: screen_ok_def same_input_def)
  qed
qed

lemma consputc_ok:
  assumes "screen_ok con"
  shows "\<exists>con'. consputc x con = Inr con' \<and> screen_ok con' \<and> same_input con con'"
proof -
  define con1 where "con1 = (if x = BACKSPACE then uartputc 8 (uartputc 32 (uartputc 8 con)) else uartputc x con)"
  have c1: "screen_ok con1" "same_input con con1" using assms by (simp_all add: con1_def screen_ok_def same_input_def uartputc_def)
  obtain con' where c': "cgaputc x con1 = Inr con'" "screen_ok con'" "same_input con1 con'" using cgaputc_ok [OF c1(1)] by blast
  have "consputc x con = Inr con'" using assms c'(1) by (simp add: consputc_def con1_def screen_ok_def)
  then show ?thesis using c' c1(2) by (auto simp: same_input_def)
qed

section \<open>Lines\<close>

interpretation iring: ring_buffer INPUT_BUF
  by unfold_locales (simp_all add: INPUT_BUF_def)

definition ready :: "console \<Rightarrow> byte list" where
  "ready con = ring INPUT_BUF (cn_buf con) (cn_r con) (cn_w con)"

definition typing :: "console \<Rightarrow> byte list" where
  "typing con = ring INPUT_BUF (cn_buf con) (cn_w con) (cn_e con)"

definition input_ok :: "console \<Rightarrow> bool" where
  "input_ok con \<longleftrightarrow> length (cn_buf con) = INPUT_BUF \<and> length (ready con) + length (typing con) \<le> INPUT_BUF \<and> 10 \<notin> set (typing con)"

text \<open>What a character does to the characters that are ready and to the line that is typed.\<close>

definition line_key :: "int \<Rightarrow> byte list \<times> byte list \<Rightarrow> byte list \<times> byte list" where
  "line_key x ed =
     (case ed of (rd, ln) \<Rightarrow>
        if x = CTRL (CHR ''P'') then ed
        else if x = CTRL (CHR ''U'') then (rd, [])
        else if x = CTRL (CHR ''H'') \<or> x = 0x7f then (rd, butlast ln)
        else if x \<noteq> 0 \<and> length rd + length ln < INPUT_BUF
        then let x1 = (if x = 13 then 10 else x); ln1 = ln @ [word_of_int x1]
             in if x1 = 10 \<or> x1 = CTRL (CHR ''D'') \<or> length rd + length ln1 = INPUT_BUF then (rd @ ln1, []) else (rd, ln1)
        else ed)"

lemma same_views: "same_input con con' \<Longrightarrow> ready con' = ready con \<and> typing con' = typing con \<and> (input_ok con' \<longleftrightarrow> input_ok con)"
  by (simp add: same_input_def ready_def typing_def input_ok_def)

lemma erase:
  assumes "cn_e con \<noteq> cn_w con" "input_ok con"
  shows "ready (con\<lparr>cn_e := cn_e con - 1\<rparr>) = ready con" "typing (con\<lparr>cn_e := cn_e con - 1\<rparr>) = butlast (typing con)"
    "cn_buf con ! unat ((cn_e con - 1) mod of_nat INPUT_BUF) = last (typing con)" "input_ok (con\<lparr>cn_e := cn_e con - 1\<rparr>)"
proof -
  have t: "typing con = ring INPUT_BUF (cn_buf con) (cn_w con) (cn_e con - 1) @ [cn_buf con ! unat ((cn_e con - 1) mod of_nat INPUT_BUF)]"
    unfolding typing_def by (rule iring.ring_butlast) (use assms(1) in simp)
  show r: "ready (con\<lparr>cn_e := cn_e con - 1\<rparr>) = ready con" by (simp add: ready_def)
  show b: "typing (con\<lparr>cn_e := cn_e con - 1\<rparr>) = butlast (typing con)" using t by (simp add: typing_def)
  show "cn_buf con ! unat ((cn_e con - 1) mod of_nat INPUT_BUF) = last (typing con)" using t by simp
  have "set (butlast (typing con)) \<subseteq> set (typing con)" "length (butlast (typing con)) \<le> length (typing con)" by (auto dest: in_set_butlastD)
  then show "input_ok (con\<lparr>cn_e := cn_e con - 1\<rparr>)" using assms(2) unfolding input_ok_def r b by auto
qed

lemma typing_Nil: "typing con = [] \<longleftrightarrow> cn_e con = cn_w con"
proof -
  have "typing con = [] \<longleftrightarrow> length (typing con) = 0" by simp
  also have "\<dots> \<longleftrightarrow> cn_e con - cn_w con = 0" unfolding typing_def by (simp add: unat_eq_0)
  finally show ?thesis by simp
qed

lemma kill_line_ok:
  assumes "screen_ok con" "input_ok con" "n = length (typing con)"
  shows "\<exists>con'. kill_line n con = Inr con' \<and> screen_ok con' \<and> input_ok con' \<and> ready con' = ready con \<and> typing con' = []"
  using assms
proof (induction n arbitrary: con)
  case (Suc n)
  have ne: "cn_e con \<noteq> cn_w con" using Suc.prems(3) typing_Nil [of con] by auto
  note E = erase [OF ne Suc.prems(2)]
  let ?con = "con\<lparr>cn_e := cn_e con - 1\<rparr>"
  have "typing con \<noteq> []" using Suc.prems(3) by auto
  then have nn: "last (typing con) \<noteq> 10" using Suc.prems(2) last_in_set by (fastforce simp: input_ok_def)
  have "screen_ok ?con" using Suc.prems(1) by (simp add: screen_ok_def)
  then obtain con1 where c1: "consputc BACKSPACE ?con = Inr con1" "screen_ok con1" "same_input ?con con1" using consputc_ok by blast
  note V = same_views [OF c1(3)]
  have "n = length (typing con1)" using V E(2) Suc.prems(3) by simp
  then obtain con' where "kill_line n con1 = Inr con'" "screen_ok con'" "input_ok con'" "ready con' = ready con1" "typing con' = []"
    using Suc.IH [of con1] c1(2) V E(4) by auto
  then show ?case using ne nn E(1,3) c1(1) V by simp
qed simp

lemma ctrl_codes [simp]: "CTRL (CHR ''P'') = 16" "CTRL (CHR ''U'') = 21" "CTRL (CHR ''H'') = 8" "CTRL (CHR ''D'') = 4"
  by (simp_all add: CTRL_def)

lemma room: "input_ok con \<Longrightarrow> unat (cn_e con - cn_r con) = length (ready con) + length (typing con)"
  using add_distance [of "cn_w con" "cn_r con" "cn_e con"] by (simp add: input_ok_def ready_def typing_def INPUT_BUF_def)

lemma type_char:
  fixes b :: byte
  assumes "input_ok con" "length (ready con) + length (typing con) < INPUT_BUF"
  defines "con1 \<equiv> con\<lparr>cn_buf := (cn_buf con)[unat (cn_e con mod of_nat INPUT_BUF) := b], cn_e := cn_e con + 1\<rparr>"
  shows "ready con1 = ready con" "typing con1 = typing con @ [b]" "b \<noteq> 10 \<Longrightarrow> input_ok con1"
    "ready (con1\<lparr>cn_w := cn_e con1\<rparr>) = ready con @ typing con @ [b]" "typing (con1\<lparr>cn_w := cn_e con1\<rparr>) = []" "input_ok (con1\<lparr>cn_w := cn_e con1\<rparr>)"
proof -
  note R = room [OF assms(1)]
  have l: "length (cn_buf con) = INPUT_BUF" using assms(1) by (simp add: input_ok_def)
  show r: "ready con1 = ready con" using iring.ring_update [of "cn_w con" "cn_r con" "cn_e con"] R assms(2) by (simp add: ready_def typing_def con1_def)
  show t: "typing con1 = typing con @ [b]" using iring.ring_snoc [OF l, of "cn_e con" "cn_w con"] assms(2) by (simp add: ready_def typing_def con1_def)
  show "b \<noteq> 10 \<Longrightarrow> input_ok con1" using assms r t l by (auto simp: input_ok_def con1_def)
  have "length (ready con1) + length (typing con1) \<le> INPUT_BUF" using assms(2) r t by simp
  then have "unat (cn_w con1 - cn_r con1) + unat (cn_e con1 - cn_w con1) < 2 ^ 32" by (simp add: ready_def typing_def INPUT_BUF_def)
  from iring.ring_append [OF this, of "cn_buf con1"]
  have a: "ready (con1\<lparr>cn_w := cn_e con1\<rparr>) = ready con1 @ typing con1" by (simp add: ready_def typing_def)
  then show "ready (con1\<lparr>cn_w := cn_e con1\<rparr>) = ready con @ typing con @ [b]" using r t by simp
  show n: "typing (con1\<lparr>cn_w := cn_e con1\<rparr>) = []" by (simp add: typing_def)
  show "input_ok (con1\<lparr>cn_w := cn_e con1\<rparr>)" using a n r t l assms(2) by (simp add: input_ok_def con1_def)
qed

lemma key_typed:
  assumes ok: "screen_ok con" "input_ok con" and x: "0 \<le> x" "x < 256"
    and typed: "x \<noteq> 16" "x \<noteq> 21" "x \<noteq> 8" "x \<noteq> 0x7f" "x \<noteq> 0" "length (ready con) + length (typing con) < INPUT_BUF"
  shows "\<exists>line con'. console_key x con = Inr (line, con') \<and> screen_ok con' \<and> input_ok con' \<and> (ready con', typing con') = line_key x (ready con, typing con)
    \<and> (line \<longleftrightarrow> length (ready con) < length (ready con'))"
proof -
  define x1 where "x1 = (if x = 13 then 10 else x)"
  define con0 where "con0 = con\<lparr>cn_buf := (cn_buf con)[unat (cn_e con mod of_nat INPUT_BUF) := word_of_int x1], cn_e := cn_e con + 1\<rparr>"
  note T = type_char [OF ok(2) typed(6), of "word_of_int x1", folded con0_def]
  have "screen_ok con0" using ok(1) by (simp add: con0_def screen_ok_def)
  then obtain con1 where c1: "consputc x1 con0 = Inr con1" "screen_ok con1" "same_input con0 con1" using consputc_ok by blast
  note V = same_views [OF c1(3)]
  have lt: "cn_e con - cn_r con < of_nat INPUT_BUF" using room [OF ok(2)] typed(6) by (simp add: word_less_nat_alt INPUT_BUF_def)
  have s: "unat (cn_e con0 - cn_r con0) = Suc (length (ready con) + length (typing con))"
    using room [OF ok(2)] typed(6) succ_distance [of "cn_e con" "cn_r con"] by (simp add: con0_def INPUT_BUF_def)
  have full: "cn_e con1 = cn_r con1 + of_nat INPUT_BUF \<longleftrightarrow> length (ready con) + length (typing con @ [b]) = INPUT_BUF" for b
  proof -
    have "cn_e con1 = cn_r con1 + of_nat INPUT_BUF \<longleftrightarrow> cn_e con0 - cn_r con0 = of_nat INPUT_BUF" using c1(3) by (auto simp: same_input_def algebra_simps)
    also have "\<dots> \<longleftrightarrow> unat (cn_e con0 - cn_r con0) = unat (of_nat INPUT_BUF :: 32 word)" by (rule word_unat_eq_iff)
    finally show ?thesis using s by (simp add: INPUT_BUF_def)
  qed
  let ?w = "con1\<lparr>cn_w := cn_e con1\<rparr>"
  have W: "same_input (con0\<lparr>cn_w := cn_e con0\<rparr>) ?w" using c1(3) by (simp add: same_input_def)
  have k: "console_key x con = (if x1 = 10 \<or> x1 = 4 \<or> cn_e con1 = cn_r con1 + of_nat INPUT_BUF then Inr (True, ?w) else Inr (False, con1))"
    using typed(1-5) lt c1(1) by (simp add: console_key_def con0_def x1_def)
  have l: "line_key x (ready con, typing con) = (if x1 = 10 \<or> x1 = 4 \<or> cn_e con1 = cn_r con1 + of_nat INPUT_BUF
      then (ready con @ typing con @ [word_of_int x1], []) else (ready con, typing con @ [word_of_int x1]))"
    using typed full by (simp add: line_key_def x1_def)
  show ?thesis
  proof (cases "x1 = 10 \<or> x1 = 4 \<or> cn_e con1 = cn_r con1 + of_nat INPUT_BUF")
    case True
    then show ?thesis using k l T(4-6) same_views [OF W] c1(2) by (auto simp: screen_ok_def)
  next
    case False
    have "word_of_int x1 \<noteq> (10 :: byte)"
    proof
      assume "word_of_int x1 = (10 :: byte)"
      then have "uint (word_of_int x1 :: byte) = 10" by simp
      then show False using False x by (auto simp: x1_def uint_word_of_int split: if_splits)
    qed
    then show ?thesis using False k l T(1-3) V c1(2) by auto
  qed
qed

lemma console_key_ok:
  assumes "screen_ok con" "input_ok con" "0 \<le> x" "x < 256"
  shows "\<exists>line con'. console_key x con = Inr (line, con') \<and> screen_ok con' \<and> input_ok con' \<and> (ready con', typing con') = line_key x (ready con, typing con)
    \<and> (line \<longleftrightarrow> length (ready con) < length (ready con'))"
proof -
  consider (dump) "x = 16" | (kill) "x = 21" | (del) "x = 8 \<or> x = 0x7f" | (typed) "x \<noteq> 16" "x \<noteq> 21" "x \<noteq> 8" "x \<noteq> 0x7f" "x \<noteq> 0" "length (ready con) + length (typing con) < INPUT_BUF"
    | (none) "x \<noteq> 16" "x \<noteq> 21" "x \<noteq> 8" "x \<noteq> 0x7f" "\<not> (x \<noteq> 0 \<and> length (ready con) + length (typing con) < INPUT_BUF)" by blast
  then show ?thesis
  proof cases
    case dump
    then show ?thesis using assms by (auto simp: console_key_def line_key_def)
  next
    case kill
    have "unat (cn_e con - cn_w con) = length (typing con)" by (simp add: typing_def)
    then obtain con' where "kill_line (unat (cn_e con - cn_w con)) con = Inr con'" "screen_ok con'" "input_ok con'" "ready con' = ready con" "typing con' = []"
      using kill_line_ok [OF assms(1,2)] by metis
    then show ?thesis using kill by (auto simp: console_key_def line_key_def)
  next
    case del
    show ?thesis
    proof (cases "cn_e con = cn_w con")
      case True
      then show ?thesis using del assms typing_Nil [of con] by (auto simp: console_key_def line_key_def)
    next
      case False
      note E = erase [OF False assms(2)]
      let ?con = "con\<lparr>cn_e := cn_e con - 1\<rparr>"
      have "screen_ok ?con" using assms(1) by (simp add: screen_ok_def)
      then obtain con1 where c1: "consputc BACKSPACE ?con = Inr con1" "screen_ok con1" "same_input ?con con1" using consputc_ok by blast
      then show ?thesis using same_views [OF c1(3)] E del False by (auto simp: console_key_def line_key_def)
    qed
  next
    case typed
    then show ?thesis by (rule key_typed [OF assms])
  next
    case none
    have "\<not> (x \<noteq> 0 \<and> cn_e con - cn_r con < of_nat INPUT_BUF)" using none(5) room [OF assms(2)] by (auto simp: word_less_nat_alt INPUT_BUF_def)
    then show ?thesis using none assms by (auto simp: console_key_def line_key_def)
  qed
qed

section \<open>The interrupt handler\<close>

lemma wake_proc_idem: "map (wake_proc ch) (map (wake_proc ch) ps) = map (wake_proc ch) ps"
  by (simp add: wake_proc_def)

lemma cons_env [simp]: "f_cons (k_env (set_cons con S)) = con" "k_procs (set_cons con S) = k_procs S" "held c lk mo (set_cons con S) = held c lk mo S"
  by (simp_all add: set_cons_def)

lemma line_key_grows: "length (fst ed) \<le> length (fst (line_key x ed))"
  by (cases ed) (auto simp: line_key_def Let_def)

lemma line_keys_grow: "length (fst ed) \<le> length (fst (fold line_key xs ed))"
proof (induction xs arbitrary: ed)
  case (Cons x xs)
  show ?case using order_trans [OF line_key_grows Cons [of "line_key x ed"]] by simp
qed simp

lemma console_keys_ok:
  assumes "held c ConsLock mo S" "screen_ok (f_cons (k_env S))" "input_ok (f_cons (k_env S))" "\<forall>x \<in> set keys. 0 \<le> x \<and> x < 256"
  shows "\<exists>S'. console_keys c keys S = Inr S' \<and> held c ConsLock mo S' \<and> screen_ok (f_cons (k_env S')) \<and> input_ok (f_cons (k_env S'))
    \<and> (ready (f_cons (k_env S')), typing (f_cons (k_env S'))) = fold line_key keys (ready (f_cons (k_env S)), typing (f_cons (k_env S)))
    \<and> k_procs S' = (if length (ready (f_cons (k_env S))) < length (ready (f_cons (k_env S'))) then map (wake_proc input_chan) (k_procs S) else k_procs S)"
  using assms
proof (induction keys arbitrary: S)
  case (Cons x keys)
  let ?con = "f_cons (k_env S)"
  obtain line con1 where k: "console_key x ?con = Inr (line, con1)" "screen_ok con1" "input_ok con1" "(ready con1, typing con1) = line_key x (ready ?con, typing ?con)"
    "line \<longleftrightarrow> length (ready ?con) < length (ready con1)" using console_key_ok [OF Cons.prems(2,3)] Cons.prems(4) by force
  define S1 where "S1 = (if line then wakeup1 input_chan (set_cons con1 S) else set_cons con1 S)"
  have h: "held c ConsLock mo (set_cons con1 S)" using Cons.prems(1) by simp
  have "console_keys c (x # keys) S = console_keys c keys S1" using k(1) held_wakeup(1) [OF h] by (simp add: S1_def)
  moreover have H: "held c ConsLock mo S1" using h held_wakeup(2) [OF h] by (simp add: S1_def)
  have e: "f_cons (k_env S1) = con1" "k_procs S1 = (if line then map (wake_proc input_chan) (k_procs S) else k_procs S)" by (simp_all add: S1_def wakeup1_def)
  obtain S' where S': "console_keys c keys S1 = Inr S'" "held c ConsLock mo S'" "screen_ok (f_cons (k_env S'))" "input_ok (f_cons (k_env S'))"
    "(ready (f_cons (k_env S')), typing (f_cons (k_env S'))) = fold line_key keys (ready con1, typing con1)"
    "k_procs S' = (if length (ready con1) < length (ready (f_cons (k_env S'))) then map (wake_proc input_chan) (k_procs S1) else k_procs S1)"
    using Cons.IH [OF H] k(2,3) Cons.prems(4) e(1) by auto
  have "length (ready con1) \<le> length (ready (f_cons (k_env S')))" using line_keys_grow [of "(ready con1, typing con1)" keys] S'(5) by (metis fst_conv)
  moreover have "length (ready ?con) \<le> length (ready con1)" using line_key_grows [of "(ready ?con, typing ?con)" x] k(4) by (metis fst_conv)
  ultimately have "k_procs S' = (if length (ready ?con) < length (ready (f_cons (k_env S'))) then map (wake_proc input_chan) (k_procs S) else k_procs S)"
    using S'(6) e(2) k(5) wake_proc_idem by auto
  then show ?case using S' k(4) \<open>console_keys c (x # keys) S = console_keys c keys S1\<close> by auto
qed simp

text \<open>What a reader gets from the characters that are ready: \<open>None\<close> when it has to wait for more.\<close>

fun take_line :: "nat \<Rightarrow> byte list \<Rightarrow> byte list \<Rightarrow> (byte list \<times> byte list) option" where
  "take_line 0 acc rd = Some (acc, rd)"
| "take_line (Suc n) acc [] = None"
| "take_line (Suc n) acc (x # rd) =
     (if x = 4 then Some (acc, if acc = [] then rd else x # rd) else if x = 10 then Some (acc @ [x], rd) else take_line n (acc @ [x]) rd)"

lemma read_char:
  assumes "input_ok con" "cn_r con \<noteq> cn_w con"
  defines "con1 \<equiv> con\<lparr>cn_r := cn_r con + 1\<rparr>"
  shows "ready con = cn_buf con ! unat (cn_r con mod of_nat INPUT_BUF) # ready con1" "typing con1 = typing con" "input_ok con1"
proof -
  show r: "ready con = cn_buf con ! unat (cn_r con mod of_nat INPUT_BUF) # ready con1" using iring.ring_Cons [OF assms(2)] by (simp add: ready_def con1_def)
  show t: "typing con1 = typing con" by (simp add: typing_def con1_def)
  show "input_ok con1" using assms(1) r t by (auto simp: input_ok_def con1_def)
qed

lemma consoleread_loop_ok:
  assumes "input_ok (f_cons (k_env S))" "take_line n acc (ready (f_cons (k_env S))) = Some (bs, rest)"
  shows "\<exists>S'. consoleread_loop c n acc S = Inr (Ret (Some bs), S') \<and> input_ok (f_cons (k_env S')) \<and> ready (f_cons (k_env S')) = rest
    \<and> typing (f_cons (k_env S')) = typing (f_cons (k_env S)) \<and> k_procs S' = k_procs S"
  using assms
proof (induction n arbitrary: acc S)
  case (Suc n)
  let ?con = "f_cons (k_env S)"
  have ne: "cn_r ?con \<noteq> cn_w ?con" using Suc.prems(2) by (auto simp: ready_def)
  note R = read_char [OF Suc.prems(1) ne]
  define x where "x = cn_buf ?con ! unat (cn_r ?con mod of_nat INPUT_BUF)"
  define S1 where "S1 = set_cons (?con\<lparr>cn_r := cn_r ?con + 1\<rparr>) S"
  have l: "consoleread_loop c (Suc n) acc S = (if x = 4 then Inr (Ret (Some acc), if acc \<noteq> [] then S else S1)
      else if x = 10 then Inr (Ret (Some (acc @ [x])), S1) else consoleread_loop c n (acc @ [x]) S1)" using ne by (simp add: x_def S1_def Let_def)
  have e: "f_cons (k_env S1) = ?con\<lparr>cn_r := cn_r ?con + 1\<rparr>" "k_procs S1 = k_procs S" by (simp_all add: S1_def)
  show ?case
  proof (cases "x = 4 \<or> x = 10")
    case True
    then show ?thesis using Suc.prems l e R by (auto simp flip: x_def)
  next
    case False
    have "take_line n (acc @ [x]) (ready (f_cons (k_env S1))) = Some (bs, rest)" "input_ok (f_cons (k_env S1))" using Suc.prems(2) False R e by (auto simp flip: x_def)
    then show ?thesis using Suc.IH [of S1 "acc @ [x]"] l e R False by (auto simp flip: x_def)
  qed
qed simp

text \<open>
  C20. The console is an editor of lines. On a screen whose cursor is in its first 24 lines, the interrupt handler takes any characters but control-P, which asks for a listing of the processes, without panic and leaves the cursor there; the characters ready for readers and the line being typed change
  as \<open>line_key\<close> says, control-U, backspace and the bound of 128 characters included, and the sleeping readers are woken just when a line has become ready. A reader gets what \<open>take_line\<close> takes from the
  characters ready, at most one line, and a control-D that ends a line that is not empty stays for the next read.
\<close>

theorem console_lines:
  fixes S :: "('x, 'z) cstate"
  defines "con \<equiv> f_cons (k_env S)"
  assumes "at_ok c mo S" "screen_ok con" "input_ok con" "\<forall>x \<in> set keys. 0 \<le> x \<and> x < 256 \<and> x \<noteq> CTRL (CHR ''P'')"
  shows "(\<exists>S'. consoleintr mem ebp c keys S = Inr S' \<and> at_ok c mo S' \<and> screen_ok (f_cons (k_env S')) \<and> input_ok (f_cons (k_env S'))
      \<and> (ready (f_cons (k_env S')), typing (f_cons (k_env S'))) = fold line_key keys (ready con, typing con)
      \<and> k_procs S' = (if length (ready con) < length (ready (f_cons (k_env S'))) then map (wake_proc input_chan) (k_procs S) else k_procs S))
    \<and> (\<forall>n bs rest. take_line n [] (ready con) = Some (bs, rest) \<longrightarrow>
      (\<exists>S'. consoleread_loop c n [] S = Inr (Ret (Some bs), S') \<and> input_ok (f_cons (k_env S')) \<and> ready (f_cons (k_env S')) = rest \<and> typing (f_cons (k_env S')) = typing con))"
proof (intro conjI allI impI)
  have lk: "ConsLock \<noteq> PtableLock" by (simp add: ConsLock_def)
  note A = held_acquire [OF assms(2) lk]
  have e: "f_cons (k_env (enter c ConsLock S)) = con" "k_procs (enter c ConsLock S) = k_procs S" by (simp_all add: enter_def upd_lock_def con_def)
  obtain S1 where S1: "console_keys c keys (enter c ConsLock S) = Inr S1" "held c ConsLock mo S1" "screen_ok (f_cons (k_env S1))" "input_ok (f_cons (k_env S1))"
    "(ready (f_cons (k_env S1)), typing (f_cons (k_env S1))) = fold line_key keys (ready con, typing con)"
    "k_procs S1 = (if length (ready con) < length (ready (f_cons (k_env S1))) then map (wake_proc input_chan) (k_procs S) else k_procs S)"
    using console_keys_ok [OF A(2)] assms(3-5) unfolding e by blast
  note R = held_release [OF S1(2)]
  have "consoleintr mem ebp c keys S = Inr (depart c ConsLock S1)" using A(1) S1(1) R(1) assms(5) by (auto simp: consoleintr_def)
  then show "\<exists>S'. consoleintr mem ebp c keys S = Inr S' \<and> at_ok c mo S' \<and> screen_ok (f_cons (k_env S')) \<and> input_ok (f_cons (k_env S'))
      \<and> (ready (f_cons (k_env S')), typing (f_cons (k_env S'))) = fold line_key keys (ready con, typing con)
      \<and> k_procs S' = (if length (ready con) < length (ready (f_cons (k_env S'))) then map (wake_proc input_chan) (k_procs S) else k_procs S)"
    using R(2) S1(3-6) by (auto simp: depart_def upd_cpu_def upd_lock_def)
next
  fix n bs rest
  assume "take_line n [] (ready con) = Some (bs, rest)"
  then show "\<exists>S'. consoleread_loop c n [] S = Inr (Ret (Some bs), S') \<and> input_ok (f_cons (k_env S')) \<and> ready (f_cons (k_env S')) = rest \<and> typing (f_cons (k_env S')) = typing con"
    using consoleread_loop_ok [of S n "[]" bs rest c] assms(4) unfolding con_def by auto
qed

definition demo_console :: console where
  "demo_console = \<lparr>cn_buf = replicate 128 0, cn_r = 0, cn_w = 0, cn_e = 0, cn_panicked = False, cn_crt = replicate 2000 0, cn_pos = 0, cn_uart = None\<rparr>"

definition demo_tty :: consoled where
  "demo_tty = \<lparr>f_disk = [], f_writes = [], f_buf = [], f_lru = [], f_log = f_log demo_log,
     f_sb = \<lparr>sb_size = 0, sb_nblocks = 0, sb_ninodes = 0, sb_nlog = 0, sb_logstart = 0, sb_inodestart = 0, sb_bmapstart = 0\<rparr>, f_inode = [],
     f_file = [], f_pipe = (\<lambda>_. pipe_init []), f_user = [], f_cons = demo_console\<rparr>"

theorem console_lines_witness:
  "\<exists>S'. consoleintr (\<lambda>_. 0) (\<lambda>_. 0) 0 [104, 105, 0x7f, 13, 120] (demo_fs demo_tty) = Inr S' \<and> ready (f_cons (k_env S')) = [104, 10] \<and> typing (f_cons (k_env S')) = [120]"
proof -
  have a: "at_ok 0 (Some (0, 0)) (demo_fs demo_tty)" using demo_fs_ctx(1) [of demo_tty] by (simp add: fctx_def)
  have e: "f_cons (k_env (demo_fs demo_tty)) = demo_console" by (simp add: demo_fs_ctx demo_tty_def)
  have "screen_ok demo_console" "input_ok demo_console" and r: "ready demo_console = []" "typing demo_console = []"
    by (simp_all add: demo_console_def screen_ok_def input_ok_def ready_def typing_def INPUT_BUF_def)
  moreover have "fold line_key [104, 105, 0x7f, 13, 120] ([], []) = ([104, 10], [120])" by (simp add: line_key_def INPUT_BUF_def)
  ultimately show ?thesis using console_lines [OF a, of "[104, 105, 0x7f, 13, 120]" "\<lambda>_. 0" "\<lambda>_. 0"] unfolding e r by auto
qed

end
