(* ===== verification/Mp.thy ===== *)
theory Mp
  imports KString Proc
begin

text \<open>
  The search for the description of a multiprocessor that the BIOS leaves in memory (\<^verbatim>\<open>mp.c\<close>, \<^verbatim>\<open>mp.h\<close>). Structures are read from the bytes of memory at their offsets. The loop over the table of
  processors is a partial function: \<open>None\<close> means that it does not end.
\<close>

unbundle bit_operations_syntax

definition load16 :: "addr \<Rightarrow> bmem \<Rightarrow> 16 word" where
  "load16 a m = ucast (m a) OR push_bit 8 (ucast (m (a + 1)))"

text \<open>\<open>memcmp\<close> with the four characters of a signature.\<close>

definition signature :: "bmem \<Rightarrow> addr \<Rightarrow> string \<Rightarrow> bool" where
  "signature m p s \<longleftrightarrow> map (\<lambda>i. m (p + of_nat i)) [0..<4] = map of_char s"

definition sum_bytes :: "bmem \<Rightarrow> addr \<Rightarrow> nat \<Rightarrow> byte" where
  "sum_bytes m a len = foldl (\<lambda>s i. s + m (a + of_nat i)) 0 [0..<len]"

text \<open>\<open>n\<close> structures of 16 bytes are left to look at.\<close>

fun mpsearch_loop :: "bmem \<Rightarrow> nat \<Rightarrow> addr \<Rightarrow> addr option" where
  "mpsearch_loop m 0 p = None"
| "mpsearch_loop m (Suc n) p = (if signature m p ''_MP_'' \<and> sum_bytes m p 16 = 0 then Some p else mpsearch_loop m n (p + 16))"

definition mpsearch1 :: "bmem \<Rightarrow> addr \<Rightarrow> nat \<Rightarrow> addr option result" where
  "mpsearch1 m a len = bindE (P2V a) (\<lambda>p. Inr (mpsearch_loop m (len div 16) p))"

definition mpsearch :: "bmem \<Rightarrow> addr option result" where
  "mpsearch m =
     bindE (P2V 0x400) (\<lambda>bda.
     let p = push_bit 4 (push_bit 8 (ucast (m (bda + 0x0F))) OR ucast (m (bda + 0x0E))) :: addr;
         q = (push_bit 8 (ucast (m (bda + 0x14))) OR ucast (m (bda + 0x13))) * 1024 :: addr
     in bindE (if p \<noteq> 0 then mpsearch1 m p 1024 else mpsearch1 m (q - 1024) 1024) (\<lambda>r.
        case r of Some mp \<Rightarrow> Inr (Some mp) | None \<Rightarrow> mpsearch1 m 0xF0000 0x10000))"

definition mp_physaddr :: "bmem \<Rightarrow> addr \<Rightarrow> addr" where "mp_physaddr m mp = load32 (mp + 4) m"
definition mp_imcrp :: "bmem \<Rightarrow> addr \<Rightarrow> byte" where "mp_imcrp m mp = m (mp + 12)"
definition conf_length :: "bmem \<Rightarrow> addr \<Rightarrow> 16 word" where "conf_length m conf = load16 (conf + 4) m"
definition conf_version :: "bmem \<Rightarrow> addr \<Rightarrow> byte" where "conf_version m conf = m (conf + 6)"
definition conf_lapicaddr :: "bmem \<Rightarrow> addr \<Rightarrow> addr" where "conf_lapicaddr m conf = load32 (conf + 36) m"

definition mpconfig :: "bmem \<Rightarrow> (addr \<times> addr) option result" where
  "mpconfig m =
     bindE (mpsearch m) (\<lambda>r.
     case r of None \<Rightarrow> Inr None
     | Some mp \<Rightarrow>
         if mp_physaddr m mp = 0 then Inr None
         else bindE (P2V (mp_physaddr m mp)) (\<lambda>conf.
           Inr (if \<not> signature m conf ''PCMP'' then None
                else if conf_version m conf \<noteq> 1 \<and> conf_version m conf \<noteq> 4 then None
                else if sum_bytes m conf (unat (conf_length m conf)) \<noteq> 0 then None
                else Some (mp, conf))))"

text \<open>What \<open>mpinit\<close> finds: the identifiers of the processors, of which \<open>cpus\<close> has room for \<open>NCPU\<close>, and that of the I/O APIC.\<close>

record mpinfo =
  mp_cpus :: "byte list"
  mp_ioapicid :: byte

definition add_cpu :: "byte \<Rightarrow> mpinfo \<Rightarrow> mpinfo" where
  "add_cpu x i = (if length (mp_cpus i) < NCPU then i\<lparr>mp_cpus := mp_cpus i @ [x]\<rparr> else i)"

text \<open>In the default case \<open>break\<close> leaves the \<open>switch\<close> but not the loop, and \<open>p\<close> stays where it is.\<close>

partial_function (option) mp_scan :: "bmem \<Rightarrow> addr \<Rightarrow> addr \<Rightarrow> bool \<Rightarrow> mpinfo \<Rightarrow> (bool \<times> mpinfo) option" where
  "mp_scan m p e ismp i =
     (if p < e
      then if m p = 0 then mp_scan m (p + 20) e ismp (add_cpu (m (p + 1)) i)
           else if m p = 2 then mp_scan m (p + 8) e ismp (i\<lparr>mp_ioapicid := m (p + 1)\<rparr>)
           else if m p = 1 \<or> m p = 3 \<or> m p = 4 then mp_scan m (p + 8) e ismp i
           else mp_scan m p e False i
      else Some (ismp, i))"

text \<open>The address of the local APIC, what the table says, and whether the IMCR has to be set.\<close>

definition mpinit :: "bmem \<Rightarrow> mpinfo \<Rightarrow> (addr \<times> mpinfo \<times> bool) result option" where
  "mpinit m i =
     (case mpconfig m of
        Inl err \<Rightarrow> Some (Inl err)
      | Inr None \<Rightarrow> Some (panic ''Expect to run on an SMP'')
      | Inr (Some (mp, conf)) \<Rightarrow>
          case mp_scan m (conf + 44) (conf + ucast (conf_length m conf)) True i of None \<Rightarrow> None
          | Some (ismp, i1) \<Rightarrow>
              Some (if \<not> ismp then panic (''Didn'' @ [CHR 0x27] @ ''t find a suitable machine'') else Inr (conf_lapicaddr m conf, i1, mp_imcrp m mp \<noteq> 0)))"

section \<open>What the table may hold\<close>

datatype entry = Cpu byte | Ioapic byte | Skipped byte | Unknown byte

text \<open>The entries that lie in memory one after the other from \<open>p\<close> on. Nothing is said of what follows an entry of unknown type, whose length is unknown.\<close>

fun entry_size :: "entry \<Rightarrow> nat" where
  "entry_size (Cpu x) = 20" | "entry_size (Ioapic x) = 8" | "entry_size (Skipped t) = 8" | "entry_size (Unknown t) = 1"

fun entry_at :: "bmem \<Rightarrow> addr \<Rightarrow> entry \<Rightarrow> bool" where
  "entry_at m p (Cpu x) = (m p = 0 \<and> m (p + 1) = x)"
| "entry_at m p (Ioapic x) = (m p = 2 \<and> m (p + 1) = x)"
| "entry_at m p (Skipped t) = (m p = t \<and> t \<in> {1, 3, 4})"
| "entry_at m p (Unknown t) = (m p = t \<and> t \<notin> {0, 1, 2, 3, 4})"

fun table_at :: "bmem \<Rightarrow> addr \<Rightarrow> entry list \<Rightarrow> bool" where
  "table_at m p [] = True"
| "table_at m p (x # xs) = (entry_at m p x \<and> ((\<exists>t. x = Unknown t) \<or> table_at m (p + of_nat (entry_size x)) xs))"

definition table_size :: "entry list \<Rightarrow> nat" where
  "table_size xs = sum_list (map entry_size xs)"

fun cpu_ids :: "entry list \<Rightarrow> byte list" where
  "cpu_ids [] = []" | "cpu_ids (Cpu x # xs) = x # cpu_ids xs" | "cpu_ids (_ # xs) = cpu_ids xs"

fun last_ioapic :: "byte \<Rightarrow> entry list \<Rightarrow> byte" where
  "last_ioapic d [] = d" | "last_ioapic d (Ioapic x # xs) = last_ioapic x xs" | "last_ioapic d (_ # xs) = last_ioapic d xs"

lemma scan_unknown:
  assumes "p < e" "m p \<notin> {0, 1, 2, 3, 4}"
  shows "mp_scan m p e ismp i = None"
proof -
  have "mp_scan m p e ismp i \<noteq> Some r" for r
  proof
    assume "mp_scan m p e ismp i = Some r"
    then show False using assms
    proof (induction rule: mp_scan.raw_induct [rotated, consumes 1])
      case (1 f m p e ismp i r)
      have "f m p e False i = Some r" using 1(2-) by (auto split: if_splits)
      then show ?case using 1(1) 1(3-) by (cases r) blast
    qed
  qed
  then show ?thesis by (cases "mp_scan m p e ismp i") auto
qed

definition known :: "entry \<Rightarrow> bool" where
  "known x \<longleftrightarrow> (\<forall>t. x \<noteq> Unknown t)"

lemma table_size_simps [simp]: "table_size [] = 0" "table_size (x # xs) = entry_size x + table_size xs"
  by (simp_all add: table_size_def)

lemma entry_step:
  assumes "known x" "entry_at m p x" "p < e"
  shows "mp_scan m p e ismp i = mp_scan m (p + of_nat (entry_size x)) e ismp (case x of Cpu y \<Rightarrow> add_cpu y i | Ioapic y \<Rightarrow> i\<lparr>mp_ioapicid := y\<rparr> | _ \<Rightarrow> i)"
  using assms by (subst mp_scan.simps, cases x) (auto simp: known_def)

lemma inside:
  fixes p :: addr
  assumes "unat p + (k + n) < 2 ^ 32" "0 < k"
  shows "p < p + of_nat (k + n)" "unat (p + of_nat k) + n < 2 ^ 32" "p + of_nat k + of_nat n = p + of_nat (k + n)"
proof -
  have a: "unat (p + of_nat j) = unat p + j" if "unat p + j < 2 ^ 32" for j using that by (simp add: unat_word_ariths unat_of_nat)
  have u: "unat (p + of_nat (k + n)) = unat p + (k + n)" "unat (p + of_nat k) = unat p + k" by (rule a, use assms in simp)+
  show "p < p + of_nat (k + n)" unfolding word_less_nat_alt u using assms(2) by simp
  show "unat (p + of_nat k) + n < 2 ^ 32" unfolding u using assms(1) by simp
  show "p + of_nat k + of_nat n = p + of_nat (k + n)" by simp
qed

lemma entry_size_pos: "0 < entry_size x"
  by (cases x) auto

definition found :: "entry list \<Rightarrow> mpinfo \<Rightarrow> mpinfo" where
  "found xs i = i\<lparr>mp_cpus := mp_cpus i @ take (NCPU - length (mp_cpus i)) (cpu_ids xs), mp_ioapicid := last_ioapic (mp_ioapicid i) xs\<rparr>"

lemma found_step: "found xs (case x of Cpu y \<Rightarrow> add_cpu y i | Ioapic y \<Rightarrow> i\<lparr>mp_ioapicid := y\<rparr> | _ \<Rightarrow> i) = found (x # xs) i"
proof (cases x)
  case (Cpu y)
  show ?thesis
  proof (cases "NCPU - length (mp_cpus i)")
    case (Suc n)
    then have "NCPU - Suc (length (mp_cpus i)) = n" by simp
    then show ?thesis using Cpu Suc by (auto simp: found_def add_cpu_def)
  qed (use Cpu in \<open>auto simp: found_def add_cpu_def\<close>)
qed (auto simp: found_def)

lemma scan_table:
  assumes "table_at m p xs" "unat p + table_size xs < 2 ^ 32"
  shows "mp_scan m p (p + of_nat (table_size xs)) ismp i = (if \<forall>x \<in> set xs. known x then Some (ismp, found xs i) else None)"
  using assms
proof (induction xs arbitrary: p i)
  case Nil
  have "mp_scan m p p ismp i = Some (ismp, i)" by (subst mp_scan.simps) simp
  then show ?case by (simp add: found_def)
next
  case (Cons x xs)
  note I = inside [of p "entry_size x" "table_size xs"]
  have e: "p < p + of_nat (table_size (x # xs))" using I(1) Cons.prems(2) entry_size_pos by (simp add: add.assoc)
  show ?case
  proof (cases "known x")
    case True
    let ?p = "p + of_nat (entry_size x)"
    have t: "table_at m ?p xs" "entry_at m p x" using Cons.prems(1) True by (auto simp: known_def)
    have "unat ?p + table_size xs < 2 ^ 32" using I(2) Cons.prems(2) entry_size_pos by (simp add: add.assoc)
    note ih = Cons.IH [OF t(1) this]
    have "mp_scan m p (p + of_nat (table_size (x # xs))) ismp i =
        mp_scan m ?p (?p + of_nat (table_size xs)) ismp (case x of Cpu y \<Rightarrow> add_cpu y i | Ioapic y \<Rightarrow> i\<lparr>mp_ioapicid := y\<rparr> | _ \<Rightarrow> i)"
      using entry_step [OF True t(2) e] by (simp add: add.assoc)
    then show ?thesis unfolding ih found_step using True by simp
  next
    case False
    then obtain t where "x = Unknown t" by (auto simp: known_def)
    then have "mp_scan m p (p + of_nat (table_size (x # xs))) ismp i = None" using scan_unknown [OF e] Cons.prems(1) by auto
    then show ?thesis using False by simp
  qed
qed

text \<open>
  C23. \<open>mpinit\<close> on a configuration table with the entries \<open>xs\<close>. If all of them are of a known type it returns, with the identifiers of the first \<open>NCPU\<close> processors in order, and that of the last I/O APIC. If one is of
  another type it does not return: the loop stays at that entry for ever, and the panic after the loop for a machine that is not suitable is never reached.
\<close>

theorem mpinit_table:
  assumes "mpconfig m = Inr (Some (mp, conf))" "table_at m (conf + 44) xs" "unat (conf_length m conf) = 44 + table_size xs" "unat conf + unat (conf_length m conf) < 2 ^ 32"
  shows "mpinit m i = (if \<forall>x \<in> set xs. known x then Some (Inr (conf_lapicaddr m conf, found xs i, mp_imcrp m mp \<noteq> 0)) else None)"
proof -
  have c: "ucast (conf_length m conf) = (of_nat (44 + table_size xs) :: addr)" using assms(3) by (metis of_nat_unat)
  then have e: "conf + ucast (conf_length m conf) = conf + 44 + of_nat (table_size xs)" by simp
  have "unat (conf + 44) = unat conf + 44" using assms(3,4) by (simp add: unat_word_ariths)
  then have "unat (conf + 44) + table_size xs < 2 ^ 32" using assms(3,4) by simp
  from scan_table [OF assms(2) this, of True i] show ?thesis using assms(1) by (simp add: mpinit_def e)
qed

text \<open>A machine with one processor, and with an entry of an unknown type when \<open>bad\<close>.\<close>

definition demo_mp :: "bool \<Rightarrow> bmem" where
  "demo_mp bad = (\<lambda>a. case map_of ([(0x8000040E, 0xC0), (0x8000040F, 0x9F),
       (0x8009FC00, 0x5F), (0x8009FC01, 0x4D), (0x8009FC02, 0x50), (0x8009FC03, 0x5F), (0x8009FC05, 0x50), (0x8009FC06, 0x0F), (0x8009FC0A, 0x46),
       (0x800F5000, 0x50), (0x800F5001, 0x43), (0x800F5002, 0x4D), (0x800F5003, 0x50), (0x800F5004, if bad then 65 else 64), (0x800F5006, 4),
       (0x800F5007, if bad then 0x7B else 0x85), (0x800F502D, 7), (0x800F5040, if bad then 9 else 0)]) a of Some b \<Rightarrow> b | None \<Rightarrow> 0)"

lemma demo_mp_bytes: "signature (demo_mp b) 0x8009FC00 ''_MP_''" "sum_bytes (demo_mp b) 0x8009FC00 16 = 0" "mp_physaddr (demo_mp b) 0x8009FC00 = 0xF5000"
  by (simp_all add: signature_def sum_bytes_def demo_mp_def mp_physaddr_def load32_def upt_rec)

lemma demo_mp_conf: "signature (demo_mp b) 0x800F5000 ''PCMP''" "conf_version (demo_mp b) 0x800F5000 = 4" "conf_length (demo_mp b) 0x800F5000 = (if b then 65 else 64)"
  "sum_bytes (demo_mp b) 0x800F5000 (if b then 65 else 64) = 0"
  by (cases b; simp add: signature_def demo_mp_def conf_version_def conf_length_def load16_def sum_bytes_def upt_rec)+

lemma demo_mp_config: "mpconfig (demo_mp b) = Inr (Some (0x8009FC00, 0x800F5000))"
proof -
  have "demo_mp b 0x8000040E = 0xC0" "demo_mp b 0x8000040F = 0x9F" by (simp_all add: demo_mp_def)
  moreover have "mpsearch_loop (demo_mp b) 64 0x8009FC00 = Some 0x8009FC00" using mpsearch_loop.simps(2) [of "demo_mp b" 63 "0x8009FC00"] demo_mp_bytes [of b] by simp
  ultimately have "mpsearch (demo_mp b) = Inr (Some 0x8009FC00)" by (simp add: mpsearch_def P2V_def KERNBASE_def mpsearch1_def)
  then show ?thesis using demo_mp_bytes(3) [of b] demo_mp_conf [of b] by (cases b) (simp_all add: mpconfig_def P2V_def KERNBASE_def)
qed

theorem mpinit_table_witness:
  "mpinit (demo_mp True) \<lparr>mp_cpus = [], mp_ioapicid = 0\<rparr> = None
   \<and> mpinit (demo_mp False) \<lparr>mp_cpus = [], mp_ioapicid = 0\<rparr> = Some (Inr (0, \<lparr>mp_cpus = [7], mp_ioapicid = 0\<rparr>, False))"
proof -
  have t: "table_at (demo_mp b) 0x800F502C (Cpu 7 # (if b then [Unknown 9] else []))" for b by (simp add: demo_mp_def)
  have l: "conf_lapicaddr (demo_mp b) 0x800F5000 = 0" "mp_imcrp (demo_mp b) 0x8009FC00 = 0" for b by (simp_all add: conf_lapicaddr_def load32_def demo_mp_def mp_imcrp_def)
  show ?thesis
    using mpinit_table [OF demo_mp_config [of True], of "[Cpu 7, Unknown 9]" "\<lparr>mp_cpus = [], mp_ioapicid = 0\<rparr>"] t [of True] demo_mp_conf(3) [of True]
      mpinit_table [OF demo_mp_config [of False], of "[Cpu 7]" "\<lparr>mp_cpus = [], mp_ioapicid = 0\<rparr>"] t [of False] demo_mp_conf(3) [of False] l
    by (simp add: known_def found_def NCPU_def)
qed

end
