(* ===== verification/Frame.thy ===== *)
theory Frame
  imports Dir
begin

text \<open>
  What the file system leaves alone. \<open>only_wakes S S'\<close> says that the levels of the scheduler, the sets, the clock and the processes that the CPUs run are the same in both states, and that no
  entry of the process table differs but for sleeping processes that have been made runnable. \<open>stays R st S m\<close> says that \<open>m\<close>, when it returns, returns a state in the relation \<open>R\<close> to \<open>S\<close>. The rules
  \<open>keeps\<close> follow the structure of the code, so that the lemma for an operation follows from those for the operations that it calls.
\<close>

named_theorems keeps

definition stays :: "('s \<Rightarrow> 's \<Rightarrow> bool) \<Rightarrow> ('a \<Rightarrow> 's) \<Rightarrow> 's \<Rightarrow> 'a result \<Rightarrow> bool" where
  "stays R st s m \<longleftrightarrow> (\<forall>x. m = Inr x \<longrightarrow> R s (st x))"

lemma stays_bind [keeps]: "stays R (\<lambda>x. x) s m \<Longrightarrow> (\<And>t. m = Inr t \<Longrightarrow> R s t \<Longrightarrow> stays R st s (f t)) \<Longrightarrow> stays R st s (bindE m f)"
  by (cases m) (auto simp: stays_def)

lemma stays_bind_pair [keeps]: "stays R snd s m \<Longrightarrow> (\<And>x t. m = Inr (x, t) \<Longrightarrow> R s t \<Longrightarrow> stays R st s (f x t)) \<Longrightarrow> stays R st s (bindE m (case_prod f))"
  by (cases m) (auto simp: stays_def)

lemma stays_value: "(\<And>x. m = Inr x \<Longrightarrow> stays R st s (f x)) \<Longrightarrow> stays R st s (bindE m f)"
  by (cases m) (auto simp: stays_def)

lemma stays_basic [simp]: "stays R st s (Inl e)" "stays R st s (panic msg)" "stays R st s nullderef" "stays R st s (Inr x) = R s (st x)"
  by (simp_all add: stays_def panic_def nullderef_def)

lemma stays_splits [keeps]:
  "(b \<Longrightarrow> stays R st s m) \<Longrightarrow> (\<not> b \<Longrightarrow> stays R st s n) \<Longrightarrow> stays R st s (if b then m else n)"
  "(y = None \<Longrightarrow> stays R st s m) \<Longrightarrow> (\<And>x. y = Some x \<Longrightarrow> stays R st s (g x)) \<Longrightarrow> stays R st s (case y of None \<Rightarrow> m | Some x \<Rightarrow> g x)"
  "(\<And>u v. p = (u, v) \<Longrightarrow> stays R st s (h u v)) \<Longrightarrow> stays R st s (case p of (u, v) \<Rightarrow> h u v)"
  "(\<And>u v. p = (u, v) \<Longrightarrow> stays R st s (k u v t)) \<Longrightarrow> stays R st s ((case p of (u, v) \<Rightarrow> k u v) t)"
  "stays R st s (l z) \<Longrightarrow> stays R st s (Let z l)"
  by (auto split: option.split prod.split)

lemma staysD: "stays R st s m \<Longrightarrow> m = Inr x \<Longrightarrow> R s (st x)"
  by (simp add: stays_def)

section \<open>Locks\<close>

definition same_mach :: "'z mach_scheme \<Rightarrow> 'z mach_scheme \<Rightarrow> bool" where
  "same_mach S S' \<longleftrightarrow> mach.more S' = mach.more S \<and> map c_proc (cpus S') = map c_proc (cpus S) \<and> map c_queue (cpus S') = map c_queue (cpus S)"

lemma same_mach_trans: "same_mach S T \<Longrightarrow> same_mach T U \<Longrightarrow> same_mach S U"
  by (simp add: same_mach_def)

lemma same_mach_refl [simp]: "same_mach S S"
  by (simp add: same_mach_def)

lemma same_upd_cpu [keeps]:
  assumes "same_mach S T" "\<And>x. c_proc (f x) = c_proc x" "\<And>x. c_queue (f x) = c_queue x"
  shows "same_mach S (upd_cpu c f T)"
proof (rule same_mach_trans [OF assms(1)])
  show "same_mach T (upd_cpu c f T)" using assms(2,3) by (auto simp: same_mach_def upd_cpu_def nth_list_update_if intro!: nth_equalityI)
qed

lemma same_upd_lock [keeps]: "same_mach S T \<Longrightarrow> same_mach S (upd_lock l f T)"
  by (simp add: same_mach_def upd_lock_def)

lemma same_pushcli [keeps]: "same_mach S T \<Longrightarrow> same_mach S (pushcli c T)"
  by (auto simp: pushcli_def Let_def intro!: keeps)

lemma same_popcli [keeps]: "same_mach S T \<Longrightarrow> stays same_mach (\<lambda>x. x) S (popcli c T)"
  by (auto simp: popcli_def Let_def intro!: keeps)

lemma same_holding [keeps]: "same_mach S T \<Longrightarrow> stays same_mach snd S (holding c l T)"
  by (auto simp: holding_def Let_def intro!: keeps)

lemma same_acquire [keeps]: "same_mach S T \<Longrightarrow> stays same_mach (\<lambda>x. x) S (acquire c l T)"
  by (auto simp: acquire_def intro!: keeps)

lemma same_release [keeps]: "same_mach S T \<Longrightarrow> stays same_mach (\<lambda>x. x) S (release c l T)"
  by (auto simp: release_def intro!: keeps)

section \<open>The kernel around the file system\<close>

definition woken :: "proc \<Rightarrow> proc \<Rightarrow> bool" where
  "woken x y \<longleftrightarrow> y = x \<or> p_state x = SLEEPING \<and> y = x\<lparr>p_state := RUNNABLE\<rparr>"

definition only_wakes :: "('e, 'z) kstate_scheme \<Rightarrow> ('e, 'z) kstate_scheme \<Rightarrow> bool" where
  "only_wakes S S' \<longleftrightarrow> list_all2 woken (k_procs S) (k_procs S') \<and> map c_proc (cpus S') = map c_proc (cpus S) \<and> map c_queue (cpus S') = map c_queue (cpus S)
     \<and> k_active S' = k_active S \<and> k_expired S' = k_expired S \<and> k_levels S' = k_levels S \<and> k_initproc S' = k_initproc S \<and> k_nextpid S' = k_nextpid S \<and> k_ticks S' = k_ticks S
     \<and> k_schedlog_active S' = k_schedlog_active S \<and> k_schedlog_lasttick S' = k_schedlog_lasttick S \<and> k_first S' = k_first S \<and> k_kpgdir S' = k_kpgdir S"

lemma woken_trans: "woken x y \<Longrightarrow> woken y z \<Longrightarrow> woken x z"
  by (auto simp: woken_def)

lemma only_wakes_refl [simp]: "only_wakes S S"
  by (simp add: only_wakes_def woken_def list.rel_refl)

lemma only_wakes_trans: "only_wakes S T \<Longrightarrow> only_wakes T U \<Longrightarrow> only_wakes S U"
  using list_all2_trans [of woken woken woken] woken_trans unfolding only_wakes_def by (metis (no_types, lifting))

lemma only_wakes_mach: "same_mach S T \<Longrightarrow> only_wakes S T"
  by (cases S; cases T) (auto simp: same_mach_def only_wakes_def woken_def list.rel_refl)

lemma only_wakes_env [simp]: "only_wakes S0 (upd_env f S) = only_wakes S0 S" "only_wakes S0 (set_env e S) = only_wakes S0 S" "only_wakes S0 (S\<lparr>k_out := x\<rparr>) = only_wakes S0 S"
  by (simp_all add: only_wakes_def upd_env_def set_env_def)

lemma wakes_acquire [keeps]: "only_wakes S0 S \<Longrightarrow> stays only_wakes (\<lambda>x. x) S0 (acquire c l S)"
  by (auto simp: stays_def dest!: staysD [OF same_acquire [OF same_mach_refl]] only_wakes_mach intro: only_wakes_trans)

lemma wakes_release [keeps]: "only_wakes S0 S \<Longrightarrow> stays only_wakes (\<lambda>x. x) S0 (release c l S)"
  by (auto simp: stays_def dest!: staysD [OF same_release [OF same_mach_refl]] only_wakes_mach intro: only_wakes_trans)

lemma wakes_initlock [keeps]: "only_wakes S0 S \<Longrightarrow> only_wakes S0 (initlock l nm S)"
  by (simp add: only_wakes_def initlock_def upd_lock_def)

lemma wakes_wakeup1: "only_wakes S0 S \<Longrightarrow> only_wakes S0 (wakeup1 ch S)"
proof (rule only_wakes_trans)
  show "only_wakes S (wakeup1 ch S)" by (auto simp: only_wakes_def wakeup1_def woken_def wake_proc_def list_all2_conv_all_nth)
qed

lemma wakes_wakeup [keeps]: "only_wakes S0 S \<Longrightarrow> stays only_wakes (\<lambda>x. x) S0 (wakeup c ch S)"
  by (auto simp: wakeup_def intro!: keeps wakes_wakeup1)

lemma wakes_kprintf [keeps]: "only_wakes S0 S \<Longrightarrow> stays only_wakes (\<lambda>x. x) S0 (kprintf fmt as S)"
  by (auto simp: kprintf_def stays_def bindE_eq_Inr)

section \<open>Sleep locks\<close>

locale lock_frame =
  fixes R :: "('e, 'z) kstate_scheme \<Rightarrow> ('e, 'z) kstate_scheme \<Rightarrow> bool"
  assumes r_acquire [keeps]: "R S0 S \<Longrightarrow> stays R (\<lambda>x. x) S0 (acquire c l S)"
    and r_release [keeps]: "R S0 S \<Longrightarrow> stays R (\<lambda>x. x) S0 (release c l S)"
    and r_wakeup [keeps]: "R S0 S \<Longrightarrow> stays R (\<lambda>x. x) S0 (wakeup c ch S)"
    and r_initlock [keeps]: "R S0 S \<Longrightarrow> R S0 (initlock l nm S)"
begin

text \<open>A section that takes a lock, changes the state of the part and releases the lock, or sleeps.\<close>

lemma r_section:
  assumes "R S0 S" "\<And>T. R S0 T \<Longrightarrow> R S0 (upd_env f T)" "acquire c l S = Inr T" "release c l (upd_env f T) = Inr U"
  shows "R S0 U"
  using staysD [OF r_release] staysD [OF r_acquire [OF assms(1)] assms(3)] assms(2,4) by metis

lemma r_locksleep:
  assumes "\<And>f T. R S0 T \<Longrightarrow> R S0 (upd_env (sr_upd r f) T)" "R S0 S"
  shows "stays R (\<lambda>x. x) S0 (locksleep r c S)"
  unfolding stays_def
proof (intro allI impI)
  fix U assume "locksleep r c S = Inr U"
  then obtain T f where "acquire c (sr_lk r) S = Inr T" "release c (sr_lk r) (upd_env (sr_upd r f) T) = Inr U"
    by (auto simp: locksleep_def acquiresleep_def bindE_eq_Inr nullderef_def split: if_splits option.splits)
  then show "R S0 U" using r_section [OF assms(2)] assms(1) by blast
qed

lemma r_releasesleep:
  assumes "\<And>f T. R S0 T \<Longrightarrow> R S0 (upd_env (sr_upd r f) T)" "R S0 S"
  shows "stays R (\<lambda>x. x) S0 (releasesleep r c S)"
  unfolding releasesleep_def using assms(2) by (intro keeps assms(1) | simp)+

lemma r_holdingsleep [keeps]: "R S0 S \<Longrightarrow> stays R snd S0 (holdingsleep r c S)"
  by (unfold holdingsleep_def) (intro keeps | simp)+

end

section \<open>The cache and the log\<close>

lemma find_member: "find P xs = Some x \<Longrightarrow> x \<in> set xs"
  by (induction xs) (auto split: if_splits)

text \<open>
  What is asked of \<open>R\<close> for the cache and the log: that it does not notice changes of a buffer or of the log that leave the sizes of their arrays. \<open>bok i\<close> says that there is a buffer \<open>i\<close>.
\<close>

definition data_fits :: "(buf \<Rightarrow> buf) \<Rightarrow> bool" where
  "data_fits f \<longleftrightarrow> (\<forall>b. length (b_data b) = BSIZE \<longrightarrow> length (b_data (f b)) = BSIZE)"

lemma data_fits_basic [keeps]:
  "data_fits (\<lambda>b. b\<lparr>b_flags := fl b\<rparr>)" "data_fits (\<lambda>b. b\<lparr>b_refcnt := r b\<rparr>)" "data_fits (\<lambda>b. b\<lparr>b_lock := k b\<rparr>)"
  "data_fits (\<lambda>b. b\<lparr>b_dev := d, b_blockno := n, b_flags := 0, b_refcnt := 1\<rparr>)"
  by (simp_all add: data_fits_def)

locale cache_frame = lock_frame R
  for R :: "('x logged_scheme, 'z) kstate_scheme \<Rightarrow> ('x logged_scheme, 'z) kstate_scheme \<Rightarrow> bool" +
  fixes bok :: "nat \<Rightarrow> bool"
  assumes r_buf [keeps]: "R S0 S \<Longrightarrow> data_fits f \<Longrightarrow> R S0 (upd_env (upd_buf i f) S)"
    and r_log [keeps]: "R S0 S \<Longrightarrow> (\<And>l. length (l_block (g l)) = length (l_block l)) \<Longrightarrow> R S0 (upd_env (upd_log g) S)"
    and r_used [keeps]: "bok i \<Longrightarrow> R S0 S \<Longrightarrow> R S0 (upd_env (\<lambda>e. e\<lparr>f_lru := i # remove1 i (f_lru e)\<rparr>) S)"
    and r_load [keeps]: "n < length (f_disk (k_env S)) \<Longrightarrow> R S0 S \<Longrightarrow> R S0 (upd_env (\<lambda>e. upd_buf i (\<lambda>b. b\<lparr>b_data := f_disk e ! n, b_flags := fl b\<rparr>) e) S)"
    and r_store [keeps]: "bok i \<Longrightarrow> R S0 S \<Longrightarrow> R S0 (upd_env (\<lambda>e. upd_buf i (\<lambda>b. b\<lparr>b_flags := fl b\<rparr>)
           (e\<lparr>f_disk := (f_disk e)[n := b_data (buf_at (k_env S) i)], f_writes := f_writes e @ ws\<rparr>)) S)"
    and r_copy [keeps]: "bok j \<Longrightarrow> R S0 S \<Longrightarrow> R S0 (upd_env (\<lambda>e. upd_buf i (\<lambda>b. b\<lparr>b_data := b_data (buf_at e j)\<rparr>) e) S)"
    and r_head: "bok i \<Longrightarrow> R S0 S \<Longrightarrow> R S0 T \<Longrightarrow> put_blocks is (f_log (k_env S)) (put32 0 v (data_of i T)) = Inr xs \<Longrightarrow>
           R S0 (upd_env (upd_buf i (\<lambda>b. b\<lparr>b_data := xs\<rparr>)) T)"
    and r_read: "R S0 S \<Longrightarrow> head_blocks is xs ((f_log (k_env S))\<lparr>l_n := num\<rparr>) = Inr l \<Longrightarrow> R S0 (upd_env (upd_log (\<lambda>_. l)) S)"
    and r_logged [keeps]: "R S0 S \<Longrightarrow> R S0 (upd_env (\<lambda>e. upd_buf i (\<lambda>b. b\<lparr>b_flags := fl b\<rparr>) (upd_log (\<lambda>l. l\<lparr>l_block := (l_block l)[k := bno], l_n := cnt l\<rparr>) e)) S)"
    and r_lru: "R S0 S \<Longrightarrow> i \<in> set (f_lru (k_env S)) \<Longrightarrow> bok i"
begin

lemma r_buf_lock [keeps]: "R S0 S \<Longrightarrow> stays R (\<lambda>x. x) S0 (locksleep (buf_lock i) c S)" "R S0 S \<Longrightarrow> stays R (\<lambda>x. x) S0 (releasesleep (buf_lock i) c S)"
  by (rule r_locksleep r_releasesleep; simp add: buf_lock_def r_buf data_fits_def)+

lemma r_iderw [keeps]: "bok i \<Longrightarrow> R S0 S \<Longrightarrow> stays R (\<lambda>x. x) S0 (iderw c i S)"
  by (unfold iderw_def) (intro keeps conjI impI | simp)+

lemma r_bget [keeps]: "R S0 S \<Longrightarrow> stays R snd S0 (bget c dev b S)"
  by (unfold bget_def) (intro keeps conjI impI | simp)+

lemma bget_bok:
  assumes "R S0 S" "bget c dev b S = Inr (i, T)"
  shows "bok i"
proof -
  obtain S1 where S1: "acquire c BcacheLock S = Inr S1" and i: "i \<in> set (f_lru (k_env S1))"
    using assms(2) by (auto simp: bget_def Let_def bindE_eq_Inr split: option.splits) (auto dest: find_member)
  show ?thesis by (rule r_lru [OF staysD [OF r_acquire [OF assms(1)] S1] i])
qed

lemma r_bread [keeps]: "R S0 S \<Longrightarrow> stays R snd S0 (bread c dev b S)"
  by (unfold bread_def) (intro keeps | (rule bget_bok, assumption, assumption) | simp)+

lemma r_bok: "R S0 S \<Longrightarrow> bread c dev b S = Inr (i, T) \<Longrightarrow> bok i"
  by (auto simp: bread_def bindE_eq_Inr split: if_splits intro: bget_bok)

lemma r_bwrite [keeps]: "bok i \<Longrightarrow> R S0 S \<Longrightarrow> stays R (\<lambda>x. x) S0 (bwrite c i S)"
  by (unfold bwrite_def) (intro keeps conjI impI | simp)+

lemma r_brelse [keeps]: "bok i \<Longrightarrow> R S0 S \<Longrightarrow> stays R (\<lambda>x. x) S0 (brelse c i S)"
  by (unfold brelse_def) (intro keeps conjI impI | simp)+

lemmas stays_values [keeps] = stays_value [where m = "log_block l t" for l t]

lemma r_install_one [keeps]: "R S0 S \<Longrightarrow> stays R (\<lambda>x. x) S0 (install_one c t S)"
  by (unfold install_one_def) (intro keeps conjI impI | (rule r_bok, assumption, assumption) | simp)+

lemma r_install_loop [keeps]: "R S0 S \<Longrightarrow> stays R (\<lambda>x. x) S0 (install_loop c ts S)"
  by (induction ts arbitrary: S, simp_all) (intro keeps conjI impI | simp)+

lemma r_install_trans [keeps]: "R S0 S \<Longrightarrow> stays R (\<lambda>x. x) S0 (install_trans c S)"
  by (unfold install_trans_def) (intro keeps conjI impI | simp)+

lemma r_write_one [keeps]: "R S0 S \<Longrightarrow> stays R (\<lambda>x. x) S0 (write_one c t S)"
  by (unfold write_one_def) (intro keeps conjI impI | (rule r_bok, assumption, assumption) | simp)+

lemma r_write_loop [keeps]: "R S0 S \<Longrightarrow> stays R (\<lambda>x. x) S0 (write_loop c ts S)"
  by (induction ts arbitrary: S, simp_all) (intro keeps conjI impI | simp)+

lemma r_write_log [keeps]: "R S0 S \<Longrightarrow> stays R (\<lambda>x. x) S0 (write_log c S)"
  by (unfold write_log_def) (intro keeps conjI impI | simp)+

lemma r_put_blocks [keeps]:
  assumes "bok i" "R S0 S" "R S0 T" "\<And>xs. R S0 (upd_env (upd_buf i (\<lambda>b. b\<lparr>b_data := xs\<rparr>)) T) \<Longrightarrow> stays R st S0 (f xs)"
  shows "stays R st S0 (bindE (put_blocks is (f_log (k_env S)) (put32 0 v (data_of i T))) f)"
  by (rule stays_value) (rule assms(4) [OF r_head [OF assms(1-3)]])

lemma r_head_blocks [keeps]:
  assumes "R S0 S" "\<And>l. R S0 (upd_env (upd_log (\<lambda>_. l)) S) \<Longrightarrow> stays R st S0 (f l)"
  shows "stays R st S0 (bindE (head_blocks is xs ((f_log (k_env S))\<lparr>l_n := num\<rparr>)) f)"
  by (rule stays_value) (rule assms(2) [OF r_read [OF assms(1)]])

lemma r_heads [keeps]: "R S0 S \<Longrightarrow> stays R (\<lambda>x. x) S0 (write_head c S)" "R S0 S \<Longrightarrow> stays R (\<lambda>x. x) S0 (read_head c S)"
  by (unfold write_head_def read_head_def) (assumption | rule keeps | (rule r_bok, assumption, assumption))+

lemma r_recover [keeps]: "R S0 S \<Longrightarrow> stays R (\<lambda>x. x) S0 (recover_from_log c S)"
  by (unfold recover_from_log_def) (intro keeps | simp)+

lemma r_readsb [keeps]: "R S0 S \<Longrightarrow> stays R snd S0 (readsb c dev S)"
  by (unfold readsb_def) (intro keeps | (rule r_bok, assumption, assumption) | simp)+

lemma r_initlog [keeps]: "R S0 S \<Longrightarrow> stays R (\<lambda>x. x) S0 (initlog c dev S)"
  by (unfold initlog_def) (intro keeps | simp)+

lemma r_start_op [keeps]:
  assumes "R S0 S"
  shows "stays R (\<lambda>x. x) S0 (start_op c S)"
  unfolding stays_def
proof (intro allI impI)
  fix U assume "start_op c S = Inr U"
  then obtain T where "acquire c LogLock S = Inr T" "release c LogLock (upd_env (upd_log (\<lambda>l. l\<lparr>l_outstanding := l_outstanding l + 1\<rparr>)) T) = Inr U"
    by (auto simp: start_op_def begin_op_def Let_def bindE_eq_Inr split: if_splits)
  then show "R S0 U" by (rule r_section [OF assms, rotated]) (rule keeps; simp)
qed

lemma r_commit [keeps]: "R S0 S \<Longrightarrow> stays R (\<lambda>x. x) S0 (commit c S)"
  by (unfold commit_def) (intro keeps conjI impI | simp)+

lemma r_end_op [keeps]: "R S0 S \<Longrightarrow> stays R (\<lambda>x. x) S0 (end_op c S)"
  by (unfold end_op_def) (intro keeps conjI impI | simp)+

lemma r_log_write [keeps]: "R S0 S \<Longrightarrow> stays R (\<lambda>x. x) S0 (log_write c i S)"
  by (unfold log_write_def) (intro keeps conjI impI | simp)+

end

end
