(* ===== verification/FsFrame.thy ===== *)
theory FsFrame
  imports Frame
begin

text \<open>
  The operations of the file system above the cache and the log (\<^verbatim>\<open>fs.c\<close>): what the cache and the log keep, and the single changes of an inode keep, the operations keep. Here it is proved that no change of a
  block runs over its end: of the bitmap, of an inode, of an indirect block, of data. \<open>ok i\<close> says that there is an inode \<open>i\<close> in the cache.
\<close>

definition fits :: "(block \<Rightarrow> block) \<Rightarrow> bool" where
  "fits f \<longleftrightarrow> (\<forall>xs. length xs = BSIZE \<longrightarrow> length (f xs) = BSIZE)"

definition addrs_fit :: "(inode \<Rightarrow> inode) \<Rightarrow> bool" where
  "addrs_fit f \<longleftrightarrow> (\<forall>x. length (i_addrs x) = Suc NDIRECT \<longrightarrow> length (i_addrs (f x)) = Suc NDIRECT)"

text \<open>The functions of the devices are to do as the file system does.\<close>

definition devs_stay :: "(('x icached_scheme, 'z) kstate_scheme \<Rightarrow> ('x icached_scheme, 'z) kstate_scheme \<Rightarrow> bool) \<Rightarrow> (nat \<Rightarrow> ('x, 'z) devsw) \<Rightarrow> bool" where
  "devs_stay R dv \<longleftrightarrow> (\<forall>i f ip n S0 S. dev_read (dv i) = Some f \<longrightarrow> R S0 S \<longrightarrow> stays R snd S0 (f ip n S))
     \<and> (\<forall>i f ip src n S0 S. dev_write (dv i) = Some f \<longrightarrow> R S0 S \<longrightarrow> stays R snd S0 (f ip src n S))"

lemma devs_stayD:
  "devs_stay R dv \<Longrightarrow> dev_read (dv i) = Some f \<Longrightarrow> R S0 S \<Longrightarrow> stays R snd S0 (f ip n S)"
  "devs_stay R dv \<Longrightarrow> dev_write (dv i) = Some g \<Longrightarrow> R S0 S \<Longrightarrow> stays R snd S0 (g ip src n S)"
  unfolding devs_stay_def by blast+

section \<open>Changes within a block\<close>

lemma splice_length: "k + length ys \<le> length xs \<Longrightarrow> length (splice k ys xs) = length xs"
  by (simp add: splice_def)

lemma fits_update [keeps]: "fits (\<lambda>xs. xs[k := g xs])" "fits (\<lambda>_. replicate BSIZE x)"
  by (simp_all add: fits_def)

lemma addrs_fit_basic [keeps]:
  "addrs_fit (\<lambda>x. x\<lparr>i_ref := r x\<rparr>)" "addrs_fit (\<lambda>x. x\<lparr>i_valid := v\<rparr>)" "addrs_fit (\<lambda>x. x\<lparr>i_size := n\<rparr>)" "addrs_fit (\<lambda>x. x\<lparr>i_type := ty\<rparr>)"
  "addrs_fit (\<lambda>x. x\<lparr>i_addrs := (i_addrs x)[k := a]\<rparr>)" "addrs_fit (\<lambda>x. x\<lparr>i_dev := d, i_inum := n, i_ref := 1, i_valid := False\<rparr>)"
  by (simp_all add: addrs_fit_def)

lemma addrs_fit_load [keeps]: "addrs_fit (load_inode (get_dinode k xs))"
  by (simp add: addrs_fit_def load_inode_def get_dinode_def NDIRECT_def)

lemma dinode_off_bound: "dinode_off inum \<le> 448"
proof -
  have "unat (inum mod IPB) < 8" by (simp add: IPB_def unat_mod)
  then show ?thesis by (simp add: dinode_off_def)
qed

lemma put_length:
  "length xs = BSIZE \<Longrightarrow> k + 2 \<le> BSIZE \<Longrightarrow> length (put16 k v xs) = BSIZE"
  "length xs = BSIZE \<Longrightarrow> k + 4 \<le> BSIZE \<Longrightarrow> length (put32 k w xs) = BSIZE"
  by (simp_all add: put16_def put32_def splice_length)

lemma put32s_length: "length xs = BSIZE \<Longrightarrow> k + 4 * length ws \<le> BSIZE \<Longrightarrow> length (put32s k ws xs) = BSIZE"
  by (induction ws arbitrary: k xs) (simp_all add: put_length)

lemma fits_dinode: "length (d_addrs d) = Suc NDIRECT \<Longrightarrow> fits (put_dinode (dinode_off inum) d)"
  unfolding fits_def put_dinode_def using dinode_off_bound [of inum]
  by (intro allI impI put32s_length put_length) (simp_all add: BSIZE_def NDIRECT_def)

lemma fits_new_dinode [keeps]: "fits (\<lambda>xs. put16 (dinode_off inum) ty (splice (dinode_off inum) (replicate 64 0) xs))"
  using dinode_off_bound [of inum] by (auto simp: fits_def put16_def splice_length BSIZE_def)

lemma fits_indirect [keeps]: "n - NDIRECT < NINDIRECT \<Longrightarrow> fits (put32 (4 * (n - NDIRECT)) a)"
  unfolding fits_def by (intro allI impI put_length) (simp_all add: NINDIRECT_def BSIZE_def)

lemma fits_data [keeps]: "fits (splice (unat (off mod 512)) (take (unat (min left (512 - off mod 512))) src))" for off left :: "32 word"
proof -
  have o: "unat (off mod 512) < 512" by (simp add: unat_mod)
  then have "off mod 512 \<le> 512" by (simp add: word_le_nat_alt)
  then have "unat (512 - off mod 512) = 512 - unat (off mod 512)" by (simp add: unat_sub)
  then have "unat (min left (512 - off mod 512)) \<le> 512 - unat (off mod 512)" by (metis min.cobounded2 word_le_nat_alt)
  then have "unat (off mod 512) + length (take (unat (min left (512 - off mod 512))) src) \<le> 512" using o by simp
  then show ?thesis by (simp add: fits_def splice_length BSIZE_def)
qed

section \<open>Positions in the inode cache\<close>

lemma find_range: "find P [0..<n] = Some i \<Longrightarrow> i < n"
  by (auto simp: find_Some_iff)

lemma iget_range: "iget c dev inum S = Inr (ip, S') \<Longrightarrow> ip < NINODE"
  by (auto simp: iget_def Let_def bindE_eq_Inr dest: find_range split: option.splits)

lemma ialloc_loop_range: "ialloc_loop c dev ty is S = Inr (ip, S') \<Longrightarrow> ip < NINODE"
  by (induction "is" arbitrary: S) (auto simp: Let_def bindE_eq_Inr dest: iget_range split: if_splits)

lemma ialloc_range: "ialloc c dev ty S = Inr (ip, S') \<Longrightarrow> ip < NINODE"
  by (auto simp: ialloc_def dest: ialloc_loop_range)

lemma dirlookup_loop_range: "dirlookup_loop dv c dp nm offs S = Inr (Some (ip, off), S') \<Longrightarrow> ip < NINODE"
  by (induction offs arbitrary: S) (auto simp: Let_def bindE_eq_Inr dest: iget_range split: if_splits)

lemma dirlookup_range: "dirlookup dv c dp nm S = Inr (Some (ip, off), S') \<Longrightarrow> ip < NINODE"
  by (auto simp: dirlookup_def dest: dirlookup_loop_range split: if_splits)

section \<open>The interface\<close>

locale fs_frame = cache_frame R bok
  for R :: "('x icached_scheme, 'z) kstate_scheme \<Rightarrow> ('x icached_scheme, 'z) kstate_scheme \<Rightarrow> bool" and bok :: "nat \<Rightarrow> bool" +
  fixes ok :: "nat \<Rightarrow> bool"
  assumes r_ok: "i < NINODE \<Longrightarrow> ok i"
    and r_inode [keeps]: "R S0 S \<Longrightarrow> addrs_fit g \<Longrightarrow> R S0 (upd_env (upd_inode i g) S)"
    and r_dinode [keeps]: "R S0 S \<Longrightarrow> R S0 T \<Longrightarrow> ok ip \<Longrightarrow> R S0 (edit i (put_dinode (dinode_off n) (dinode_of (inode_at (k_env S) ip))) T)"
begin

lemma r_edit [keeps]: "R S0 S \<Longrightarrow> fits f \<Longrightarrow> R S0 (edit i f S)"
  unfolding edit_def by (rule r_buf) (simp_all add: fits_def data_fits_def)

lemma r_inode_lock [keeps]: "R S0 S \<Longrightarrow> stays R (\<lambda>x. x) S0 (locksleep (inode_lock i) c S)" "R S0 S \<Longrightarrow> stays R (\<lambda>x. x) S0 (releasesleep (inode_lock i) c S)"
  by (rule r_locksleep r_releasesleep; simp add: inode_lock_def r_inode addrs_fit_def)+

lemma r_bzero [keeps]: "R S0 S \<Longrightarrow> stays R (\<lambda>x. x) S0 (bzero c dev b S)"
  by (unfold bzero_def Let_def) (intro keeps conjI impI | (rule r_bok, assumption, assumption) | simp)+

lemma r_balloc_loop [keeps]: "R S0 S \<Longrightarrow> stays R snd S0 (balloc_loop c dev bs S)"
  by (induction bs arbitrary: S, simp_all add: Let_def) (intro keeps conjI impI | (rule r_bok, assumption, assumption) | simp)+

lemma r_balloc [keeps]: "R S0 S \<Longrightarrow> stays R snd S0 (balloc c dev S)"
  by (unfold balloc_def Let_def) (intro keeps conjI impI | (rule r_bok, assumption, assumption) | simp)+

lemma r_bfree [keeps]: "R S0 S \<Longrightarrow> stays R (\<lambda>x. x) S0 (bfree c dev b S)"
  by (unfold bfree_def Let_def) (intro keeps conjI impI | (rule r_bok, assumption, assumption) | simp)+

lemma r_iget [keeps]: "R S0 S \<Longrightarrow> stays R snd S0 (iget c dev inum S)"
  by (unfold iget_def Let_def) (intro keeps conjI impI | (rule r_bok, assumption, assumption) | simp)+

lemma r_ialloc_loop [keeps]: "R S0 S \<Longrightarrow> stays R snd S0 (ialloc_loop c dev ty is S)"
  by (induction "is" arbitrary: S, simp_all add: Let_def) (intro keeps conjI impI | (rule r_bok, assumption, assumption) | simp)+

lemma r_ialloc [keeps]: "R S0 S \<Longrightarrow> stays R snd S0 (ialloc c dev ty S)"
  by (unfold ialloc_def Let_def) (intro keeps conjI impI | (rule r_bok, assumption, assumption) | simp)+

lemma r_iupdate [keeps]: "ok ip \<Longrightarrow> R S0 S \<Longrightarrow> stays R (\<lambda>x. x) S0 (iupdate c ip S)"
  by (unfold iupdate_def Let_def) (intro keeps conjI impI | (rule r_bok, assumption, assumption) | simp)+

lemma r_idup [keeps]: "R S0 S \<Longrightarrow> stays R snd S0 (idup c ip S)"
  by (unfold idup_def Let_def) (intro keeps conjI impI | (rule r_bok, assumption, assumption) | simp)+

lemma r_ilock [keeps]: "R S0 S \<Longrightarrow> stays R (\<lambda>x. x) S0 (ilock c ipo S)"
  by (unfold ilock_def Let_def) (intro keeps conjI impI | (rule r_bok, assumption, assumption) | simp)+

lemma r_iunlock [keeps]: "R S0 S \<Longrightarrow> stays R (\<lambda>x. x) S0 (iunlock c ipo S)"
  by (unfold iunlock_def Let_def) (intro keeps conjI impI | (rule r_bok, assumption, assumption) | simp)+

lemma r_bmap [keeps]: "R S0 S \<Longrightarrow> stays R snd S0 (bmap c ip bn S)"
  by (unfold bmap_def Let_def) (intro keeps conjI impI | (rule r_bok, assumption, assumption) | simp)+

lemma r_itrunc_direct [keeps]: "R S0 S \<Longrightarrow> stays R (\<lambda>x. x) S0 (itrunc_direct c ip is S)"
proof (induction "is" arbitrary: S)
  case (Cons i "is")
  show ?case unfolding itrunc_direct.simps Let_def by (intro keeps Cons | (rule r_bok, assumption, assumption) | simp)+
qed simp

lemma r_itrunc_indirect [keeps]: "R S0 S \<Longrightarrow> stays R (\<lambda>x. x) S0 (itrunc_indirect c ip bp js S)"
  by (induction js arbitrary: S, simp_all add: Let_def) (intro keeps conjI impI | (rule r_bok, assumption, assumption) | simp)+

lemma r_itrunc [keeps]: "ok ip \<Longrightarrow> R S0 S \<Longrightarrow> stays R (\<lambda>x. x) S0 (itrunc c ip S)"
  by (unfold itrunc_def Let_def) (intro keeps conjI impI | (rule r_bok, assumption, assumption) | simp)+

lemma r_iput [keeps]: "ok ip \<Longrightarrow> R S0 S \<Longrightarrow> stays R (\<lambda>x. x) S0 (iput c ip S)"
  by (unfold iput_def Let_def) (intro keeps conjI impI | (rule r_bok, assumption, assumption) | simp)+

lemma r_iunlockput [keeps]: "ok ip \<Longrightarrow> R S0 S \<Longrightarrow> stays R (\<lambda>x. x) S0 (iunlockput c ip S)"
  by (unfold iunlockput_def Let_def) (intro keeps conjI impI | (rule r_bok, assumption, assumption) | simp)+

lemma r_readi_loop [keeps]: "R S0 S \<Longrightarrow> stays R snd S0 (readi_loop k c ip off left S)"
  by (induction k arbitrary: off left S, simp_all add: Let_def) (intro keeps conjI impI | (rule r_bok, assumption, assumption) | simp)+

lemma r_writei_loop [keeps]: "R S0 S \<Longrightarrow> stays R snd S0 (writei_loop k c ip src off left S)"
  by (induction k arbitrary: src off left S, simp_all add: Let_def) (intro keeps conjI impI | (rule r_bok, assumption, assumption) | simp)+

lemma r_readi [keeps]: "devs_stay R dv \<Longrightarrow> R S0 S \<Longrightarrow> stays R snd S0 (readi dv c ip off n S)"
  by (unfold readi_def Let_def) (intro keeps conjI impI | (rule r_bok, assumption, assumption) | (simp; fail) | erule (2) devs_stayD)+

lemma r_writei [keeps]: "ok ip \<Longrightarrow> devs_stay R dv \<Longrightarrow> R S0 S \<Longrightarrow> stays R snd S0 (writei dv c ip src off n S)"
  by (unfold writei_def Let_def) (intro keeps conjI impI | (rule r_bok, assumption, assumption) | (simp; fail) | erule (2) devs_stayD)+

lemma r_dirlookup_loop [keeps]: "devs_stay R dv \<Longrightarrow> R S0 S \<Longrightarrow> stays R snd S0 (dirlookup_loop dv c dp nm offs S)"
  by (induction offs arbitrary: S, simp_all add: Let_def) (intro keeps conjI impI | (rule r_bok, assumption, assumption) | simp)+

lemma r_dirlookup [keeps]: "devs_stay R dv \<Longrightarrow> R S0 S \<Longrightarrow> stays R snd S0 (dirlookup dv c dp nm S)"
  by (unfold dirlookup_def Let_def) (intro keeps conjI impI | (rule r_bok, assumption, assumption) | simp)+

lemma r_dirlink_loop [keeps]: "devs_stay R dv \<Longrightarrow> R S0 S \<Longrightarrow> stays R snd S0 (dirlink_loop dv c dp fin offs S)"
  by (induction offs arbitrary: S, simp_all add: Let_def) (intro keeps conjI impI | (rule r_bok, assumption, assumption) | simp)+

lemma r_dirlink [keeps]: "ok dp \<Longrightarrow> devs_stay R dv \<Longrightarrow> R S0 S \<Longrightarrow> stays R snd S0 (dirlink dv c dp nm inum S)"
  by (unfold dirlink_def Let_def) (intro keeps conjI impI | (rule r_bok, assumption, assumption) | simp add: r_ok dirlookup_range)+

lemma r_namex_loop [keeps]: "ok ip \<Longrightarrow> devs_stay R dv \<Longrightarrow> R S0 S \<Longrightarrow> stays R snd S0 (namex_loop k dv c path parent nm ip S)"
  by (induction k arbitrary: path nm ip S, simp_all add: Let_def) (intro keeps conjI impI | (rule r_bok, assumption, assumption) | simp add: r_ok dirlookup_range)+

lemma r_namex [keeps]: "(\<And>p d. myproc c S = Some p \<Longrightarrow> p_cwd (proc_at S p) = Some d \<Longrightarrow> ok d) \<Longrightarrow> devs_stay R dv \<Longrightarrow> R S0 S \<Longrightarrow> stays R snd S0 (namex dv c path parent nm S)"
  by (unfold namex_def Let_def) (intro keeps conjI impI | (rule r_bok, assumption, assumption) | (auto simp: idup_def nullderef_def bindE_eq_Inr intro: r_ok dest: iget_range split: if_splits option.splits; fail))+

lemma r_namei [keeps]: "(\<And>p d. myproc c S = Some p \<Longrightarrow> p_cwd (proc_at S p) = Some d \<Longrightarrow> ok d) \<Longrightarrow> devs_stay R dv \<Longrightarrow> R S0 S \<Longrightarrow> stays R snd S0 (namei dv nm c path S)"
  by (unfold namei_def Let_def) (intro keeps conjI impI | (rule r_bok, assumption, assumption) | simp)+

lemma r_nameiparent [keeps]: "(\<And>p d. myproc c S = Some p \<Longrightarrow> p_cwd (proc_at S p) = Some d \<Longrightarrow> ok d) \<Longrightarrow> devs_stay R dv \<Longrightarrow> R S0 S \<Longrightarrow> stays R snd S0 (nameiparent dv c path nm S)"
  by (unfold nameiparent_def Let_def) (intro keeps conjI impI | (rule r_bok, assumption, assumption) | simp)+

end

end
