(* ===== verification/FsTypes.thy ===== *)
theory FsTypes
  imports FsFrame FsDemo
begin

text \<open>
  Two uses of the interface of FsFrame: the file system leaves the processes and the scheduler alone, and it keeps the types of its own state, the sizes of the tables, blocks and lists that C declares as arrays.
\<close>

section \<open>Processes and scheduler\<close>

interpretation wakes: fs_frame only_wakes "\<lambda>_. True" "\<lambda>_. True"
  by unfold_locales (auto simp: edit_def intro!: keeps)

section \<open>The types of the file system\<close>

definition fs_typed :: "'x icached_scheme \<Rightarrow> bool" where
  "fs_typed e \<longleftrightarrow> (\<forall>b \<in> set (f_disk e). length b = BSIZE) \<and> length (f_buf e) = NBUF \<and> (\<forall>b \<in> set (f_buf e). length (b_data b) = BSIZE)
     \<and> distinct (f_lru e) \<and> set (f_lru e) = {..<NBUF} \<and> length (l_block (f_log e)) = LOGSIZE
     \<and> length (f_inode e) = NINODE \<and> (\<forall>x \<in> set (f_inode e). length (i_addrs x) = Suc NDIRECT)"

definition types_kept :: "('x icached_scheme, 'z) kstate_scheme \<Rightarrow> ('x icached_scheme, 'z) kstate_scheme \<Rightarrow> bool" where
  "types_kept S0 S \<longleftrightarrow> fs_typed (k_env S) \<and> length (f_disk (k_env S)) = length (f_disk (k_env S0))"

lemma types_env: "types_kept S0 S \<Longrightarrow> k_env T = k_env S \<Longrightarrow> types_kept S0 T"
  by (simp add: types_kept_def)

lemma all_update:
  assumes "\<forall>x \<in> set xs. P x" "i < length xs \<Longrightarrow> P v"
  shows "\<forall>x \<in> set (xs[i := v]). P x"
  using assms set_update_subset_insert [of xs i v] by (cases "i < length xs") (auto simp: list_update_beyond)

lemma types_buf:
  assumes "types_kept S0 S" "data_fits f"
  shows "types_kept S0 (upd_env (upd_buf i f) S)"
proof -
  have "\<forall>b \<in> set ((f_buf (k_env S))[i := f (buf_at (k_env S) i)]). length (b_data b) = BSIZE"
    by (rule all_update) (use assms in \<open>auto simp: types_kept_def fs_typed_def data_fits_def\<close>)
  then show ?thesis using assms(1) by (simp add: types_kept_def fs_typed_def upd_env_def set_env_def upd_buf_def)
qed

lemma types_data:
  assumes "types_kept S0 S" "length xs = BSIZE"
  shows "types_kept S0 (upd_env (\<lambda>e. upd_buf i (\<lambda>b. b\<lparr>b_data := xs\<rparr>) e) S)"
  by (rule types_buf) (use assms in \<open>simp_all add: data_fits_def\<close>)

lemma types_inode:
  assumes "types_kept S0 S" "addrs_fit h"
  shows "types_kept S0 (upd_env (upd_inode i h) S)"
proof -
  have "\<forall>x \<in> set ((f_inode (k_env S))[i := h (inode_at (k_env S) i)]). length (i_addrs x) = Suc NDIRECT"
    by (rule all_update) (use assms in \<open>auto simp: types_kept_def fs_typed_def addrs_fit_def\<close>)
  then show ?thesis using assms(1) by (simp add: types_kept_def fs_typed_def upd_env_def set_env_def upd_inode_def)
qed

lemma types_mach: "types_kept S0 S \<Longrightarrow> same_mach S T \<Longrightarrow> types_kept S0 T"
  by (cases S; cases T) (auto simp: same_mach_def types_kept_def)

lemma types_acquire [keeps]: "types_kept S0 S \<Longrightarrow> stays types_kept (\<lambda>x. x) S0 (acquire c l S)"
  by (auto simp: stays_def dest!: staysD [OF same_acquire [OF same_mach_refl]] intro: types_mach)

lemma types_release [keeps]: "types_kept S0 S \<Longrightarrow> stays types_kept (\<lambda>x. x) S0 (release c l S)"
  by (auto simp: stays_def dest!: staysD [OF same_release [OF same_mach_refl]] intro: types_mach)

lemma types_wakeup: "types_kept S0 S \<Longrightarrow> stays types_kept (\<lambda>x. x) S0 (wakeup c ch S)"
  unfolding wakeup_def by (intro keeps; (rule types_env)?; simp add: wakeup1_def)

lemma put_blocks_length: "put_blocks is l xs = Inr ys \<Longrightarrow> length xs = BSIZE \<Longrightarrow> length (l_block l) = LOGSIZE \<Longrightarrow> length ys = BSIZE"
  by (induction "is" arbitrary: xs) (auto simp: bindE_eq_Inr log_block_def put_length BSIZE_def LOGSIZE_def MAXOPBLOCKS_def split: if_splits)

lemma head_blocks_length: "head_blocks is xs l = Inr l1 \<Longrightarrow> length (l_block l1) = length (l_block l)"
  by (induction "is" arbitrary: l) (auto split: if_splits)

section \<open>The changes that the cache and the log make\<close>

lemma upd_env_here: "upd_env (\<lambda>e. f e e) S = upd_env (f (k_env S)) S"
  by (simp add: upd_env_def)

lemma upd_env_twice: "upd_env (\<lambda>e. f (g e)) S = upd_env f (upd_env g S)"
  by (simp add: upd_env_def set_env_def)

lemma types_initlock: "types_kept S0 S \<Longrightarrow> types_kept S0 (initlock l nm S)"
  by (simp add: types_kept_def initlock_def upd_lock_def)

lemma types_log: "types_kept S0 S \<Longrightarrow> length (l_block (g (f_log (k_env S)))) = length (l_block (f_log (k_env S))) \<Longrightarrow> types_kept S0 (upd_env (upd_log g) S)"
  by (simp add: types_kept_def fs_typed_def upd_env_def set_env_def upd_log_def)

lemma types_lru: "i < NBUF \<Longrightarrow> types_kept S0 S \<Longrightarrow> types_kept S0 (upd_env (\<lambda>e. e\<lparr>f_lru := i # remove1 i (f_lru e)\<rparr>) S)"
  by (auto simp: types_kept_def fs_typed_def upd_env_def set_env_def)

lemma types_load:
  assumes "n < length (f_disk (k_env S))" "types_kept S0 S"
  shows "types_kept S0 (upd_env (\<lambda>e. upd_buf i (\<lambda>b. b\<lparr>b_data := f_disk e ! n, b_flags := fl b\<rparr>) e) S)"
  unfolding upd_env_here [of "\<lambda>e. upd_buf i (\<lambda>b. b\<lparr>b_data := f_disk e ! n, b_flags := fl b\<rparr>)"]
  by (rule types_buf) (use assms in \<open>auto simp: data_fits_def types_kept_def fs_typed_def\<close>)

lemma types_store:
  assumes "i < NBUF" "types_kept S0 S"
  shows "types_kept S0 (upd_env (\<lambda>e. upd_buf i (\<lambda>b. b\<lparr>b_flags := fl b\<rparr>) (e\<lparr>f_disk := (f_disk e)[n := data_of i S], f_writes := f_writes e @ ws\<rparr>)) S)"
  unfolding upd_env_twice [of "upd_buf i (\<lambda>b. b\<lparr>b_flags := fl b\<rparr>)" "\<lambda>e. e\<lparr>f_disk := (f_disk e)[n := data_of i S], f_writes := f_writes e @ ws\<rparr>"]
proof (rule types_buf)
  have "\<forall>b \<in> set ((f_disk (k_env S))[n := data_of i S]). length b = BSIZE"
    by (rule all_update) (use assms in \<open>auto simp: types_kept_def fs_typed_def\<close>)
  then show "types_kept S0 (upd_env (\<lambda>e. e\<lparr>f_disk := (f_disk e)[n := data_of i S], f_writes := f_writes e @ ws\<rparr>) S)"
    using assms(2) by (simp add: types_kept_def fs_typed_def upd_env_def set_env_def)
qed (simp add: data_fits_def)

lemma types_copy:
  assumes "j < NBUF" "types_kept S0 S"
  shows "types_kept S0 (upd_env (\<lambda>e. upd_buf i (\<lambda>b. b\<lparr>b_data := b_data (buf_at e j)\<rparr>) e) S)"
  unfolding upd_env_here [of "\<lambda>e. upd_buf i (\<lambda>b. b\<lparr>b_data := b_data (buf_at e j)\<rparr>)"]
  by (rule types_data [OF assms(2)]) (use assms in \<open>auto simp: types_kept_def fs_typed_def\<close>)

lemma types_head:
  assumes "i < NBUF" "types_kept S0 S" "types_kept S0 T" "put_blocks is (f_log (k_env S)) (put32 0 v (data_of i T)) = Inr xs"
  shows "types_kept S0 (upd_env (upd_buf i (\<lambda>b. b\<lparr>b_data := xs\<rparr>)) T)"
proof (rule types_data [OF assms(3)])
  have "length (put32 0 v (data_of i T)) = BSIZE" by (rule put_length) (use assms(1,3) in \<open>auto simp: types_kept_def fs_typed_def BSIZE_def\<close>)
  then show "length xs = BSIZE" using put_blocks_length [OF assms(4)] assms(2) by (simp add: types_kept_def fs_typed_def)
qed

lemma types_read: "types_kept S0 S \<Longrightarrow> head_blocks is xs ((f_log (k_env S))\<lparr>l_n := num\<rparr>) = Inr l \<Longrightarrow> types_kept S0 (upd_env (upd_log (\<lambda>_. l)) S)"
  by (rule types_log) (auto dest: head_blocks_length)

lemma types_logged:
  assumes "types_kept S0 S"
  shows "types_kept S0 (upd_env (\<lambda>e. upd_buf i (\<lambda>b. b\<lparr>b_flags := fl b\<rparr>) (upd_log (\<lambda>l. l\<lparr>l_block := (l_block l)[k := bno], l_n := cnt l\<rparr>) e)) S)"
  unfolding upd_env_twice [of "upd_buf i (\<lambda>b. b\<lparr>b_flags := fl b\<rparr>)" "upd_log (\<lambda>l. l\<lparr>l_block := (l_block l)[k := bno], l_n := cnt l\<rparr>)"] by (intro types_buf types_log assms) (simp_all add: data_fits_def)

lemma types_dinode:
  assumes "types_kept S0 S" "types_kept S0 T" "ip < NINODE"
  shows "types_kept S0 (edit i (put_dinode (dinode_off n) (dinode_of (inode_at (k_env S) ip))) T)"
proof -
  have "length (d_addrs (dinode_of (inode_at (k_env S) ip))) = Suc NDIRECT" using assms(1,3) by (simp add: types_kept_def fs_typed_def dinode_of_def)
  from fits_dinode [OF this] show ?thesis unfolding edit_def by (intro types_buf assms(2)) (simp add: fits_def data_fits_def)
qed

interpretation types: fs_frame types_kept "\<lambda>i. i < NBUF" "\<lambda>i. i < NINODE"
proof unfold_locales
  show "types_kept S0 S \<Longrightarrow> (\<And>l. length (l_block (g l)) = length (l_block l)) \<Longrightarrow> types_kept S0 (upd_env (upd_log g) S)" for S0 S g by (rule types_log)
  show "types_kept S0 S \<Longrightarrow> i \<in> set (f_lru (k_env S)) \<Longrightarrow> i < NBUF" for S0 S i by (auto simp: types_kept_def fs_typed_def)
qed (fact types_acquire types_release types_wakeup types_initlock types_buf types_lru types_load types_store types_copy types_head types_read types_logged types_inode types_dinode
    | assumption)+

section \<open>The operations together\<close>


text \<open>A disk of 40 empty blocks and empty caches.\<close>

definition demo_fsys :: icached where
  "demo_fsys = \<lparr>f_disk = demo_disk, f_writes = [], f_buf = replicate NBUF (buf_zero\<lparr>b_data := replicate BSIZE 0\<rparr>), f_lru = [0..<NBUF],
     f_log = \<lparr>l_start = 2, l_size = 10, l_outstanding = 0, l_committing = False, l_dev = 1, l_n = 0, l_block = replicate LOGSIZE 0\<rparr>, f_sb = superblock_of (demo_disk ! 1),
     f_inode = replicate NINODE \<lparr>i_dev = 1, i_inum = 1, i_ref = 0, i_lock = sl_zero, i_valid = False, i_type = 0, i_major = 0, i_minor = 0, i_nlink = 0, i_size = 0, i_addrs = replicate (Suc NDIRECT) 0\<rparr>\<rparr>"

lemma demo_fsys_typed: "fs_typed demo_fsys"
  using demo_disk_facts(1,2) by (auto simp: fs_typed_def demo_fsys_def in_set_conv_nth atLeast0LessThan)

definition demo_files :: "icached kstate" where
  "demo_files = upd_proc 0 (\<lambda>x. x\<lparr>p_cwd := Some 0\<rparr>) (demo_fs demo_fsys)"

lemma demo_files_facts: "k_env demo_files = demo_fsys" "myproc 0 demo_files = Some 0" "p_cwd (proc_at demo_files 0) = Some 0"
  using demo_run_mode(2,3) by (simp_all add: demo_files_def demo_fs_def upd_proc_def with_env_def myproc_def)


end
