(* ===== verification/Exec.thy ===== *)
theory Exec
  imports Console Vm Sysfile
begin

text \<open>
  Replacing the program of a process (\<^verbatim>\<open>exec.c\<close>, \<^verbatim>\<open>elf.h\<close>). \<open>exec\<close> works on the file system and on the memory of the kernel at once. \<open>f_mem\<close> is that memory in the state below the process table. The routines of
  \<^verbatim>\<open>vm.c\<close> run on it through \<open>mem_call\<close>, with the CPUs, the locks and the output of the kernel; \<open>km_sys\<close> carries the rest of the kernel along, for \<open>loaduvm\<close>, which reads the file. The jumps to \<open>bad\<close>
  are the value \<open>None\<close>.
\<close>

unbundle bit_operations_syntax

record memd = consoled +
  f_mem :: kmem

record 's kmem_sys = kmem +
  km_sys :: 's

type_synonym ('x, 'z) xstate = "('x memd_scheme, 'z) kstate_scheme"

definition enter_mem :: "('x, 'z) xstate \<Rightarrow> ('x, 'z) xstate kmem_sys" where
  "enter_mem S = kmem.extend ((f_mem (k_env S))\<lparr>cpus := cpus S, locks := locks S, km_out := k_out S\<rparr>) (kmem_sys.fields S)"

definition leave_mem :: "('x, 'z) xstate kmem_sys \<Rightarrow> ('x, 'z) xstate" where
  "leave_mem M = upd_env (\<lambda>e. e\<lparr>f_mem := kmem.truncate M\<rparr>) ((km_sys M)\<lparr>cpus := cpus M, locks := locks M, k_out := km_out M\<rparr>)"

definition mem_call :: "(('x, 'z) xstate kmem_sys \<Rightarrow> ('a \<times> ('x, 'z) xstate kmem_sys) result) \<Rightarrow> ('x, 'z) xstate \<Rightarrow> ('a \<times> ('x, 'z) xstate) result" where
  "mem_call f S = bindE (f (enter_mem S)) (\<lambda>(x, M). Inr (x, leave_mem M))"

definition mem_run :: "(('x, 'z) xstate kmem_sys \<Rightarrow> ('x, 'z) xstate kmem_sys result) \<Rightarrow> ('x, 'z) xstate \<Rightarrow> ('x, 'z) xstate result" where
  "mem_run f S = bindE (f (enter_mem S)) (\<lambda>M. Inr (leave_mem M))"

section \<open>Executable files\<close>

text \<open>The fields that \<open>exec\<close> reads, at their offsets.\<close>

definition ELF_MAGIC :: "32 word" where "ELF_MAGIC = 0x464C457F"
definition ELF_PROG_LOAD :: "32 word" where "ELF_PROG_LOAD = 1"

record elfhdr =
  elf_magic :: "32 word"
  elf_entry :: "32 word"
  elf_phoff :: "32 word"
  elf_phnum :: "16 word"

definition elfhdr_of :: "byte list \<Rightarrow> elfhdr" where
  "elfhdr_of bs = \<lparr>elf_magic = get32 0 bs, elf_entry = get32 24 bs, elf_phoff = get32 28 bs, elf_phnum = get16 44 bs\<rparr>"

record proghdr =
  ph_type :: "32 word"
  ph_off :: "32 word"
  ph_vaddr :: "32 word"
  ph_filesz :: "32 word"
  ph_memsz :: "32 word"

definition proghdr_of :: "byte list \<Rightarrow> proghdr" where
  "proghdr_of bs = \<lparr>ph_type = get32 0 bs, ph_off = get32 4 bs, ph_vaddr = get32 8 bs, ph_filesz = get32 16 bs, ph_memsz = get32 20 bs\<rparr>"

section \<open>Loading the program\<close>

text \<open>\<open>readi\<close> into the memory of the kernel at \<open>v\<close>.\<close>

definition store_bytes :: "addr \<Rightarrow> byte list \<Rightarrow> 'z kmem_scheme \<Rightarrow> 'z kmem_scheme" where
  "store_bytes v bs M = set_mem (\<lambda>a. if unat (a - v) < length bs then bs ! unat (a - v) else km_mem M a) M"

definition readi_mem :: "('x memd_ext consoled_ext, 'z) devices \<Rightarrow> nat \<Rightarrow> nat \<Rightarrow> addr \<Rightarrow> 32 word \<Rightarrow> 32 word \<Rightarrow> ('x, 'z) xstate kmem_sys \<Rightarrow> (int \<times> ('x, 'z) xstate kmem_sys) result" where
  "readi_mem dv c ip v off n M =
     bindE (readi dv c ip off n (leave_mem M)) (\<lambda>((r, bs), S). Inr (r, store_bytes v bs (enter_mem S)))"

text \<open>The program headers from \<open>off\<close> on, \<open>k\<close> of them; the size of the image so far is \<open>sz\<close>.\<close>

fun exec_load :: "('x memd_ext consoled_ext, 'z) devices \<Rightarrow> nat \<Rightarrow> nat \<Rightarrow> addr \<Rightarrow> nat \<Rightarrow> 32 word \<Rightarrow> 32 word \<Rightarrow> ('x, 'z) xstate \<Rightarrow> (32 word option \<times> ('x, 'z) xstate) result" where
  "exec_load dv c ip pgdir 0 off sz S = Inr (Some sz, S)"
| "exec_load dv c ip pgdir (Suc k) off sz S =
     bindE (readi dv c ip off 32 S) (\<lambda>((r, bs), S1).
     if r \<noteq> 32 then Inr (None, S1)
     else let ph = proghdr_of bs
       in if ph_type ph \<noteq> ELF_PROG_LOAD then exec_load dv c ip pgdir k (off + 32) sz S1
          else if ph_memsz ph < ph_filesz ph then Inr (None, S1)
          else if ph_vaddr ph + ph_memsz ph < ph_vaddr ph then Inr (None, S1)
          else bindE (mem_call (allocuvm c pgdir sz (ph_vaddr ph + ph_memsz ph)) S1) (\<lambda>(sz1, S2).
            if sz1 = 0 then Inr (None, S2)
            else if ph_vaddr ph mod PGSIZE \<noteq> 0 then Inr (None, S2)
            else bindE (mem_call (loaduvm (readi_mem dv c ip) c pgdir (ph_vaddr ph) (ph_off ph) (ph_filesz ph)) S2) (\<lambda>(r, S3).
              if r < 0 then Inr (None, S3) else exec_load dv c ip pgdir k (off + 32) sz1 S3)))"

text \<open>From the header of the file to the loaded image: the page directory, 0 if there is none yet, and the size and the entry point of the image.\<close>

definition exec_image :: "('x memd_ext consoled_ext, 'z) devices \<Rightarrow> nat \<Rightarrow> nat \<Rightarrow> ('x, 'z) xstate \<Rightarrow> ((addr \<times> (32 word \<times> 32 word) option) \<times> ('x, 'z) xstate) result" where
  "exec_image dv c ip S =
     bindE (readi dv c ip 0 52 S) (\<lambda>((r, bs), S1).
     if r \<noteq> 52 then Inr ((0, None), S1)
     else let elf = elfhdr_of bs
       in if elf_magic elf \<noteq> ELF_MAGIC then Inr ((0, None), S1)
          else bindE (mem_call (setupkvm c) S1) (\<lambda>(pgdir, S2).
            if pgdir = 0 then Inr ((0, None), S2)
            else bindE (exec_load dv c ip pgdir (unat (elf_phnum elf)) (elf_phoff elf) 0 S2) (\<lambda>(szo, S3).
              Inr ((pgdir, map_option (\<lambda>sz. (sz, elf_entry elf)) szo), S3))))"

section \<open>The stack\<close>

text \<open>
  \<open>copyout\<close> of bytes that lie outside of the memory of the kernel or on its stack: the arguments, which are in the memory of the process, and \<open>ustack\<close>.
\<close>

fun copyout_bytes :: "nat \<Rightarrow> nat \<Rightarrow> addr \<Rightarrow> addr \<Rightarrow> byte list \<Rightarrow> 'z kmem_scheme \<Rightarrow> (int \<times> 'z kmem_scheme) result" where
  "copyout_bytes 0 c pgdir va bs M = (if bs \<noteq> [] then Inl NoReturn else Inr (0, M))"
| "copyout_bytes (Suc k) c pgdir va bs M =
     (if bs \<noteq> []
      then let va0 = PGROUNDDOWN va
        in bindE (uva2ka c pgdir va0 M) (\<lambda>(pa0, M1).
           if pa0 = 0 then Inr (-1, M1)
           else let n = unat (PGSIZE - (va - va0))
             in copyout_bytes k c pgdir (va0 + PGSIZE) (drop n bs) (store_bytes (pa0 + (va - va0)) (take n bs) M1))
      else Inr (0, M))"

text \<open>The arguments from \<open>argc\<close> on, pushed below \<open>sp\<close>; the addresses of those that have been pushed are \<open>ptrs\<close>.\<close>

fun exec_push :: "nat \<Rightarrow> addr \<Rightarrow> byte list list \<Rightarrow> nat \<Rightarrow> 32 word \<Rightarrow> 32 word list \<Rightarrow> ('x, 'z) xstate \<Rightarrow> ((32 word \<times> 32 word list) option \<times> ('x, 'z) xstate) result" where
  "exec_push c pgdir [] argc sp ptrs S = Inr (Some (sp, ptrs), S)"
| "exec_push c pgdir (arg # argv) argc sp ptrs S =
     (if argc \<ge> MAXARG then Inr (None, S)
      else let sp1 = (sp - (of_nat (length arg) + 1)) AND NOT 3
        in bindE (mem_call (copyout_bytes (length arg + 1) c pgdir sp1 (arg @ [0])) S) (\<lambda>(r, S1).
           if r < 0 then Inr (None, S1) else exec_push c pgdir argv (Suc argc) sp1 (ptrs @ [sp1]) S1))"

definition word_bytes :: "32 word list \<Rightarrow> byte list" where
  "word_bytes ws = put32s 0 ws (replicate (4 * length ws) 0)"

definition exec_stack :: "nat \<Rightarrow> addr \<Rightarrow> 32 word \<Rightarrow> byte list list \<Rightarrow> ('x, 'z) xstate \<Rightarrow> ((32 word \<times> 32 word) option \<times> ('x, 'z) xstate) result" where
  "exec_stack c pgdir sz0 argv S =
     (let sz1 = PGROUNDUP sz0
      in bindE (mem_call (allocuvm c pgdir sz1 (sz1 + 2 * PGSIZE)) S) (\<lambda>(sz, S1).
         if sz = 0 then Inr (None, S1)
         else bindE (mem_run (clearpteu c pgdir (sz - 2 * PGSIZE)) S1) (\<lambda>S2.
           bindE (exec_push c pgdir argv 0 sz [] S2) (\<lambda>(po, S3).
           case po of None \<Rightarrow> Inr (None, S3)
           | Some (sp, ptrs) \<Rightarrow>
              let argc = of_nat (length ptrs); ustack = [0xFFFFFFFF, argc, sp - (argc + 1) * 4] @ ptrs @ [0]; sp1 = sp - (3 + argc + 1) * 4
              in bindE (mem_call (copyout_bytes (4 * length ustack) c pgdir sp1 (word_bytes ustack)) S3) (\<lambda>(r, S4).
                 if r < 0 then Inr (None, S4) else Inr (Some (sz, sp1), S4))))))"

section \<open>The call\<close>

definition exec_bad :: "nat \<Rightarrow> addr \<Rightarrow> nat option \<Rightarrow> ('x, 'z) xstate \<Rightarrow> (int \<times> ('x, 'z) xstate) result" where
  "exec_bad c pgdir ipo S =
     bindE (if pgdir \<noteq> 0 then mem_run (freevm c pgdir) S else Inr S) (\<lambda>S1.
     bindE (case ipo of None \<Rightarrow> Inr S1 | Some ip \<Rightarrow> bindE (iunlockput c ip S1) (end_op c)) (\<lambda>S2. Inr (-1, S2)))"

text \<open>The last element of the path, as \<open>safestrcpy\<close> puts it into the 16 characters of the name.\<close>

definition prog_name :: "byte list \<Rightarrow> string" where
  "prog_name path = map (\<lambda>b. char_of (unat b)) (take 15 (rev (takeWhile (\<lambda>b. b \<noteq> slash) (rev path))))"

definition exec_commit :: "nat \<Rightarrow> byte list \<Rightarrow> addr \<Rightarrow> 32 word \<Rightarrow> 32 word \<Rightarrow> 32 word \<Rightarrow> ('x, 'z) xstate \<Rightarrow> (int \<times> ('x, 'z) xstate) result" where
  "exec_commit c path pgdir sz entry sp S =
     (case myproc c S of None \<Rightarrow> nullderef
      | Some p \<Rightarrow>
         let old = p_pgdir (proc_at S p);
             S1 = upd_proc p (\<lambda>x. x\<lparr>p_name := prog_name path, p_pgdir := pgdir, p_sz := sz, p_tf := (p_tf x)\<lparr>tf_eip := entry, tf_esp := sp\<rparr>\<rparr>) S
         in bindE (switchuvm c (Some p) S1) (\<lambda>S2. bindE (mem_run (freevm c old) S2) (\<lambda>S3. Inr (0, S3))))"

definition exec :: "('x memd_ext consoled_ext, 'z) devices \<Rightarrow> byte list \<Rightarrow> nat \<Rightarrow> byte list \<Rightarrow> byte list list \<Rightarrow> ('x, 'z) xstate \<Rightarrow> (int \<times> ('x, 'z) xstate) result" where
  "exec dv nm c path argv S =
     bindE (start_op c S) (\<lambda>S1.
     bindE (namei dv nm c path S1) (\<lambda>(ipo, S2).
     case ipo of
       None \<Rightarrow> bindE (end_op c S2) (\<lambda>S3. bindE (kprintf ''exec: fail\<newline>'' [] S3) (\<lambda>S4. Inr (-1, S4)))
     | Some ip \<Rightarrow>
        bindE (ilock c (Some ip) S2) (\<lambda>S3.
        bindE (exec_image dv c ip S3) (\<lambda>((pgdir, img), S4).
        case img of None \<Rightarrow> exec_bad c pgdir (Some ip) S4
        | Some (sz, entry) \<Rightarrow>
           bindE (iunlockput c ip S4) (\<lambda>S5.
           bindE (end_op c S5) (\<lambda>S6.
           bindE (exec_stack c pgdir sz argv S6) (\<lambda>(st, S7).
           case st of None \<Rightarrow> exec_bad c pgdir None S7
           | Some (sz1, sp) \<Rightarrow> exec_commit c path pgdir sz1 entry sp S7)))))))"

text \<open>The argument of \<open>sys_exec\<close>.\<close>

definition exec_call :: "('x memd_ext consoled_ext, 'z) devices \<Rightarrow> byte list \<Rightarrow> byte list \<Rightarrow> byte list list \<Rightarrow> ('x memd_ext consoled_ext, 'z) fs_call" where
  "exec_call dv nm path argv c S = bindE (exec dv nm c path argv S) (\<lambda>(r, S1). Inr (Ret r, S1))"

end
