(* ===== verification/ExecFacts.thy ===== *)
theory ExecFacts
  imports Exec FsTypes VmMap
begin

text \<open>
  What \<open>exec\<close> changes: on failure nothing of the process, on success its program. The memory routines keep the rest of the kernel in the sense of Frame, through \<open>mem_wakes\<close>.
\<close>

section \<open>The memory routines\<close>

definition mem_wakes :: "('x, 'z) xstate kmem_sys \<Rightarrow> ('x, 'z) xstate kmem_sys \<Rightarrow> bool" where
  "mem_wakes M0 M \<longleftrightarrow> only_wakes (leave_mem M0) (leave_mem M)"

lemma leave_mem_sel [simp]:
  "k_procs (leave_mem M) = k_procs (km_sys M)" "cpus (leave_mem M) = cpus M" "k_active (leave_mem M) = k_active (km_sys M)" "k_expired (leave_mem M) = k_expired (km_sys M)"
  "k_levels (leave_mem M) = k_levels (km_sys M)" "k_initproc (leave_mem M) = k_initproc (km_sys M)" "k_nextpid (leave_mem M) = k_nextpid (km_sys M)" "k_ticks (leave_mem M) = k_ticks (km_sys M)"
  "k_schedlog_active (leave_mem M) = k_schedlog_active (km_sys M)" "k_schedlog_lasttick (leave_mem M) = k_schedlog_lasttick (km_sys M)" "k_first (leave_mem M) = k_first (km_sys M)"
  "k_kpgdir (leave_mem M) = k_kpgdir (km_sys M)"
  by (simp_all add: leave_mem_def upd_env_def set_env_def)

lemma enter_mem_sel [simp]: "km_sys (enter_mem S) = S" "cpus (enter_mem S) = cpus S"
  by (simp_all add: enter_mem_def kmem.extend_def kmem_sys.fields_def)

lemma only_wakes_leave: "only_wakes S (leave_mem (enter_mem T)) = only_wakes S T" "only_wakes (leave_mem (enter_mem T)) S = only_wakes T S"
  by (simp_all add: only_wakes_def)

lemma mem_wakes_upd [simp]:
  "mem_wakes M0 (M\<lparr>km_mem := m\<rparr>) = mem_wakes M0 M" "mem_wakes M0 (M\<lparr>km_freelist := r\<rparr>) = mem_wakes M0 M" "mem_wakes M0 (M\<lparr>km_out := out\<rparr>) = mem_wakes M0 M"
  by (simp_all add: mem_wakes_def only_wakes_def)

lemma mem_wakes_set [simp]:
  "mem_wakes M0 (set_mem m M) = mem_wakes M0 M" "mem_wakes M0 (put_word a w M) = mem_wakes M0 M" "mem_wakes M0 (clear_page a M) = mem_wakes M0 M" "mem_wakes M0 (store_bytes v bs M) = mem_wakes M0 M"
  by (simp_all add: set_mem_def put_word_def clear_page_def store_bytes_def)

lemma mem_mach: "mem_wakes M0 M \<Longrightarrow> same_mach M T \<Longrightarrow> mem_wakes M0 T"
  by (cases M; cases T) (auto simp: same_mach_def mem_wakes_def only_wakes_def)

lemma mem_locking [keeps]:
  "mem_wakes M0 M \<Longrightarrow> stays mem_wakes (\<lambda>x. x) M0 (locking acquire c M)" "mem_wakes M0 M \<Longrightarrow> stays mem_wakes (\<lambda>x. x) M0 (locking release c M)"
  by (auto simp: locking_def stays_def dest!: staysD [OF same_acquire [OF same_mach_refl]] staysD [OF same_release [OF same_mach_refl]] intro: mem_mach split: if_splits)

lemmas stays_translation [keeps] = stays_value [where m = "V2P a" for a] stays_value [where m = "P2V a" for a]

lemma mem_kfree [keeps]: "mem_wakes M0 M \<Longrightarrow> stays mem_wakes (\<lambda>x. x) M0 (kfree c v M)"
  by (unfold kfree_def) (intro keeps | simp)+

lemma mem_kalloc [keeps]: "mem_wakes M0 M \<Longrightarrow> stays mem_wakes snd M0 (kalloc c M)"
  by (unfold kalloc_def) (intro keeps | simp)+

lemma mem_walkpgdir [keeps]: "mem_wakes M0 M \<Longrightarrow> stays mem_wakes snd M0 (walkpgdir c pgdir va alloc M)"
  by (unfold walkpgdir_def) (intro keeps | simp)+

lemma mem_mappages_loop [keeps]: "mem_wakes M0 M \<Longrightarrow> stays mem_wakes snd M0 (mappages_loop k c pgdir a lst pa perm M)"
  by (induction k arbitrary: a pa M) (simp_all, (intro keeps conjI impI | simp)+)

lemma mem_mappages [keeps]: "mem_wakes M0 M \<Longrightarrow> stays mem_wakes snd M0 (mappages c pgdir va sz pa perm M)"
  by (unfold mappages_def) (intro keeps | simp)+

lemma mem_deallocuvm_loop [keeps]: "mem_wakes M0 M \<Longrightarrow> stays mem_wakes (\<lambda>x. x) M0 (deallocuvm_loop k c pgdir a oldsz M)"
  by (induction k arbitrary: a M) (simp_all, (intro keeps conjI impI | simp)+)

lemma mem_deallocuvm [keeps]: "mem_wakes M0 M \<Longrightarrow> stays mem_wakes snd M0 (deallocuvm c pgdir oldsz newsz M)"
  by (unfold deallocuvm_def) (intro keeps | simp)+

lemma mem_freevm_loop [keeps]: "mem_wakes M0 M \<Longrightarrow> stays mem_wakes (\<lambda>x. x) M0 (freevm_loop c pgdir is M)"
  by (induction "is" arbitrary: M) (simp_all, (intro keeps conjI impI | simp)+)

lemma mem_freevm [keeps]: "mem_wakes M0 M \<Longrightarrow> stays mem_wakes (\<lambda>x. x) M0 (freevm c pgdir M)"
  by (unfold freevm_def) (intro keeps | simp)+

lemma mem_setupkvm_loop [keeps]: "mem_wakes M0 M \<Longrightarrow> stays mem_wakes snd M0 (setupkvm_loop c pgdir ks M)"
  by (induction ks arbitrary: M) (simp, clarsimp, (intro keeps conjI impI | simp)+)

lemma mem_setupkvm [keeps]: "mem_wakes M0 M \<Longrightarrow> stays mem_wakes snd M0 (setupkvm c M)"
  by (unfold setupkvm_def) (intro keeps | simp)+

lemma mem_allocuvm_loop [keeps]: "mem_wakes M0 M \<Longrightarrow> stays mem_wakes snd M0 (allocuvm_loop k c pgdir a oldsz newsz M)"
  by (induction k arbitrary: a M) (simp_all, (intro keeps conjI impI | simp)+)

lemma mem_allocuvm [keeps]: "mem_wakes M0 M \<Longrightarrow> stays mem_wakes snd M0 (allocuvm c pgdir oldsz newsz M)"
  by (unfold allocuvm_def) (intro keeps | simp)+

lemma mem_clearpteu [keeps]: "mem_wakes M0 M \<Longrightarrow> stays mem_wakes (\<lambda>x. x) M0 (clearpteu c pgdir uva M)"
  by (unfold clearpteu_def) (intro keeps | simp)+

lemma mem_uva2ka [keeps]: "mem_wakes M0 M \<Longrightarrow> stays mem_wakes snd M0 (uva2ka c pgdir uva M)"
  by (unfold uva2ka_def) (intro keeps | simp)+

lemma mem_copyout_bytes [keeps]: "mem_wakes M0 M \<Longrightarrow> stays mem_wakes snd M0 (copyout_bytes k c pgdir va bs M)"
  by (induction k arbitrary: va bs M) (simp_all, (intro keeps conjI impI | simp)+)

lemma mem_readi_mem [keeps]: "devs_stay only_wakes dv \<Longrightarrow> mem_wakes M0 M \<Longrightarrow> stays mem_wakes snd M0 (readi_mem dv c ip v off n M)"
  unfolding stays_def readi_mem_def mem_wakes_def
  by (auto simp: bindE_eq_Inr mem_wakes_set(4) [unfolded mem_wakes_def] only_wakes_leave dest!: staysD [OF wakes.r_readi])

lemma mem_loaduvm_loop [keeps]:
  "devs_stay only_wakes dv \<Longrightarrow> mem_wakes M0 M \<Longrightarrow> stays mem_wakes snd M0 (loaduvm_loop (readi_mem dv c ip) k c pgdir a off sz i M)"
  by (induction k arbitrary: i M) (simp_all, (intro keeps conjI impI | simp)+)

lemma mem_loaduvm [keeps]: "devs_stay only_wakes dv \<Longrightarrow> mem_wakes M0 M \<Longrightarrow> stays mem_wakes snd M0 (loaduvm (readi_mem dv c ip) c pgdir a off sz M)"
  by (unfold loaduvm_def) (intro keeps | simp)+

section \<open>The parts of exec\<close>

lemma mem_wakes_start: "mem_wakes (enter_mem S) M \<Longrightarrow> only_wakes S0 S \<Longrightarrow> only_wakes S0 (leave_mem M)"
  unfolding mem_wakes_def only_wakes_leave using only_wakes_trans by blast

lemma wakes_mem_call [keeps]:
  assumes "only_wakes S0 S" "\<And>M0 M. mem_wakes M0 M \<Longrightarrow> stays mem_wakes snd M0 (f M)"
  shows "stays only_wakes snd S0 (mem_call f S)"
proof -
  have "stays mem_wakes snd (enter_mem S) (f (enter_mem S))" by (rule assms(2)) (simp add: mem_wakes_def)
  then show ?thesis using mem_wakes_start [OF _ assms(1)] by (auto simp: mem_call_def stays_def bindE_eq_Inr)
qed

lemma wakes_mem_run [keeps]:
  assumes "only_wakes S0 S" "\<And>M0 M. mem_wakes M0 M \<Longrightarrow> stays mem_wakes (\<lambda>x. x) M0 (f M)"
  shows "stays only_wakes (\<lambda>x. x) S0 (mem_run f S)"
proof -
  have "stays mem_wakes (\<lambda>x. x) (enter_mem S) (f (enter_mem S))" by (rule assms(2)) (simp add: mem_wakes_def)
  then show ?thesis using mem_wakes_start [OF _ assms(1)] by (auto simp: mem_run_def stays_def bindE_eq_Inr)
qed

lemma wakes_exec_load [keeps]: "devs_stay only_wakes dv \<Longrightarrow> only_wakes S0 S \<Longrightarrow> stays only_wakes snd S0 (exec_load dv c ip pgdir k off sz S)"
  by (induction k arbitrary: off sz S) (simp_all, (intro keeps conjI impI | simp)+)

lemma wakes_exec_image [keeps]: "devs_stay only_wakes dv \<Longrightarrow> only_wakes S0 S \<Longrightarrow> stays only_wakes snd S0 (exec_image dv c ip S)"
  by (unfold exec_image_def) (intro keeps | simp)+

lemma wakes_exec_push [keeps]: "only_wakes S0 S \<Longrightarrow> stays only_wakes snd S0 (exec_push c pgdir argv argc sp ptrs S)"
  by (induction argv arbitrary: argc sp ptrs S) (simp_all, (intro keeps conjI impI | simp)+)

lemma wakes_exec_stack [keeps]: "only_wakes S0 S \<Longrightarrow> stays only_wakes snd S0 (exec_stack c pgdir sz argv S)"
  by (unfold exec_stack_def) (intro keeps | simp)+

lemma wakes_exec_bad [keeps]: "only_wakes S0 S \<Longrightarrow> stays only_wakes snd S0 (exec_bad c pgdir ipo S)"
  by (unfold exec_bad_def) (intro keeps | simp)+

lemma same_switchuvm [keeps]: "same_mach S T \<Longrightarrow> stays same_mach (\<lambda>x. x) S (switchuvm c po T)"
  by (unfold switchuvm_def) (intro keeps | simp)+

lemma wakes_switchuvm [keeps]: "only_wakes S0 S \<Longrightarrow> stays only_wakes (\<lambda>x. x) S0 (switchuvm c po S)"
  by (auto simp: stays_def dest!: staysD [OF same_switchuvm [OF same_mach_refl]] only_wakes_mach intro: only_wakes_trans)

section \<open>The console as a device\<close>

lemma wakes_set_cons [simp]: "only_wakes S0 (set_cons con S) = only_wakes S0 S"
  by (simp add: set_cons_def)

lemma consoleread_loop_wakes: "consoleread_loop c n acc S = Inr (Ret v, S') \<Longrightarrow> only_wakes S0 S \<Longrightarrow> only_wakes S0 S'"
  by (induction n arbitrary: acc S) (auto simp: Let_def bindE_eq_Inr nullderef_def split: if_splits option.splits)

lemma consoleread_wakes:
  assumes "consoleread c ip n S = Inr (Ret v, T)" "only_wakes S0 S"
  shows "only_wakes S0 T"
proof -
  obtain S1 S2 where S1: "iunlock c (Some ip) S = Inr S1" and S2: "acquire c ConsLock S1 = Inr S2" and on: "consoleread_on c ip (nat (sint n)) [] S2 = Inr (Ret v, T)"
    using assms(1) by (auto simp: consoleread_def bindE_eq_Inr)
  obtain x S3 where x: "consoleread_loop c (nat (sint n)) [] S2 = Inr (x, S3)" using on by (auto simp: consoleread_on_def bindE_eq_Inr)
  then obtain u S4 where S3: "consoleread_loop c (nat (sint n)) [] S2 = Inr (Ret u, S3)" and S4: "release c ConsLock S3 = Inr S4" and T: "ilock c (Some ip) S4 = Inr T"
    using on by (cases x) (auto simp: consoleread_on_def bindE_eq_Inr)
  have "only_wakes S0 S2" using staysD [OF wakes_acquire S2] staysD [OF wakes.r_iunlock S1] assms(2) by blast
  then have "only_wakes S0 S3" by (rule consoleread_loop_wakes [OF S3])
  then show ?thesis using staysD [OF wakes.r_ilock T] staysD [OF wakes_release S4] by blast
qed

lemma consolewrite_wakes: "only_wakes S0 S \<Longrightarrow> stays only_wakes snd S0 (consolewrite c ip src n S)"
  by (unfold consolewrite_def) (intro keeps stays_value [where m = "consputs xs con" for xs con] | simp)+

lemma console_read_dev: "only_wakes S0 S \<Longrightarrow> stays only_wakes snd S0 (bindE (consoleread c ip n S) (\<lambda>(r, S1). case r of Ret v \<Rightarrow> Inr (v, S1) | Blocked _ \<Rightarrow> Inl Spin))"
proof (cases "consoleread c ip n S")
  case (Inr x)
  assume "only_wakes S0 S"
  then show ?thesis using Inr consoleread_wakes by (cases x; cases "fst x") auto
qed simp

lemma console_stays: "devs_stay only_wakes (\<lambda>i. if i = CONSOLE then console_dev c else \<lparr>dev_read = None, dev_write = None\<rparr>)"
  unfolding devs_stay_def console_dev_def using console_read_dev consolewrite_wakes by (auto split: if_splits)

section \<open>The size of the new image\<close>

lemma mem_call_allocuvm:
  assumes "mem_call (allocuvm c pgdir oldsz newsz) S = Inr (s, S')" "s \<noteq> 0"
  shows "newsz < KERNBASE" "s = max oldsz newsz"
  using assms by (auto simp: mem_call_def bindE_eq_Inr dest: allocuvm_size)

lemma mem_call_allocuvm_less: "mem_call (allocuvm c pgdir oldsz newsz) S = Inr (s, S') \<Longrightarrow> s \<noteq> 0 \<Longrightarrow> oldsz < KERNBASE \<Longrightarrow> s < KERNBASE"
  using mem_call_allocuvm [of c pgdir oldsz newsz S s S'] by simp

lemma exec_load_size:
  "exec_load dv c ip pgdir k off sz S = Inr (Some sz', S') \<Longrightarrow> sz < KERNBASE \<Longrightarrow> sz' < KERNBASE"
proof (induction k arbitrary: off sz S)
  case (Suc k)
  show ?case using Suc.prems
    by (auto simp: Let_def bindE_eq_Inr split: if_splits) (blast intro: Suc.IH mem_call_allocuvm_less)+
qed simp

lemma exec_image_size: "exec_image dv c ip S = Inr ((pgdir, Some (sz, start)), S') \<Longrightarrow> sz < KERNBASE"
  by (auto simp: exec_image_def Let_def bindE_eq_Inr KERNBASE_def dest!: exec_load_size split: if_splits)

lemma exec_stack_size:
  assumes "exec_stack c pgdir sz0 argv S = Inr (Some (sz, sp), S')" "sz0 < KERNBASE"
  shows "sz = PGROUNDUP sz0 + 2 * PGSIZE" "sz < KERNBASE" "sz mod PGSIZE = 0" "2 * PGSIZE \<le> sz"
proof -
  let ?a = "PGROUNDUP sz0" let ?n = "?a + 2 * PGSIZE"
  obtain S1 where "mem_call (allocuvm c pgdir ?a ?n) S = Inr (sz, S1)" "sz \<noteq> 0"
    using assms(1) by (auto simp: exec_stack_def Let_def bindE_eq_Inr split: if_splits option.splits)
  note A = mem_call_allocuvm [OF this]
  have u: "unat sz0 < 2 ^ 31" using assms(2) by (simp add: word_less_nat_alt KERNBASE_def)
  have P: "?a mod PGSIZE = 0" "unat ?a = (unat sz0 + 4095) div 4096 * 4096" by (rule PGROUNDUP_props; use u in simp)+
  have "unat ?a \<le> unat sz0 + 4095" unfolding P(2) by simp
  then have n: "unat ?n = unat ?a + 8192" using u by (simp add: unat_word_ariths PGSIZE_def)
  then have le: "?a \<le> ?n" by (simp add: word_le_nat_alt)
  then show s: "sz = ?n" using A(2) by (simp add: max_def)
  show "sz < KERNBASE" using s A(1) by simp
  show "2 * PGSIZE \<le> sz" using n s by (simp add: word_le_nat_alt PGSIZE_def)
  have "unat ?n mod 4096 = 0" using n P(2) by simp
  then show "sz mod PGSIZE = 0" unfolding s by (simp add: word_unat_eq_iff unat_mod PGSIZE_def)
qed

section \<open>The result of exec\<close>

text \<open>The change of the process when \<open>exec\<close> succeeds.\<close>

definition new_image :: "byte list \<Rightarrow> addr \<Rightarrow> 32 word \<Rightarrow> 32 word \<Rightarrow> 32 word \<Rightarrow> proc \<Rightarrow> proc" where
  "new_image path pgdir sz start sp x = x\<lparr>p_name := prog_name path, p_pgdir := pgdir, p_sz := sz, p_tf := (p_tf x)\<lparr>tf_eip := start, tf_esp := sp\<rparr>\<rparr>"

lemma running_same:
  assumes "only_wakes S S'" "p < length (k_procs S)" "p_state (proc_at S p) = RUNNING"
  shows "proc_at S' p = proc_at S p" "length (k_procs S') = length (k_procs S)"
  using assms by (auto simp: only_wakes_def woken_def list_all2_conv_all_nth)

lemma myproc_same:
  assumes "only_wakes S S'"
  shows "myproc c S' = myproc c S \<or> \<not> c < length (cpus S)"
proof -
  have m: "map c_proc (cpus S') = map c_proc (cpus S)" using assms by (simp add: only_wakes_def)
  then have "length (cpus S') = length (cpus S)" by (metis length_map)
  then show ?thesis using arg_cong [OF m, of "\<lambda>xs. xs ! c"] by (cases "c < length (cpus S)") (simp_all add: myproc_def)
qed

lemma only_wakes_upd_proc:
  assumes "only_wakes S T" "p < length (k_procs S)" "p_state (proc_at S p) = RUNNING"
  shows "only_wakes (upd_proc p f S) (upd_proc p f T)"
proof -
  have "list_all2 woken ((k_procs S)[p := f (proc_at S p)]) ((k_procs T)[p := f (proc_at T p)])"
    unfolding running_same(1) [OF assms] by (rule list_all2_update_cong) (use assms(1) in \<open>simp_all add: only_wakes_def woken_def\<close>)
  then show ?thesis using assms(1) by (simp add: only_wakes_def upd_proc_def)
qed

lemma exec_commit_result:
  assumes "exec_commit c path pgdir sz start sp S = Inr (r, S')" "myproc c S = Some p" "p < length (k_procs S)"
  shows "r = 0 \<and> KERNBASE \<le> pgdir \<and> only_wakes (upd_proc p (new_image path pgdir sz start sp) S) S'"
proof -
  let ?T = "upd_proc p (new_image path pgdir sz start sp) S"
  obtain S2 where S2: "switchuvm c (Some p) ?T = Inr S2" "mem_run (freevm c (p_pgdir (proc_at S p))) S2 = Inr S'" and r: "r = 0"
    using assms(1,2) by (auto simp: exec_commit_def Let_def bindE_eq_Inr new_image_def [abs_def])
  have "only_wakes ?T S2" by (rule staysD [OF wakes_switchuvm S2(1)]) simp
  then have "only_wakes ?T S'" by (rule staysD [OF wakes_mem_run S2(2)]) (rule mem_freevm)
  moreover have "p_pgdir (proc_at ?T p) = pgdir" using assms(3) by (simp add: new_image_def)
  then have "KERNBASE \<le> pgdir" using S2(1) by (auto simp: switchuvm_def Let_def bindE_eq_Inr V2P_def split: if_splits)
  ultimately show ?thesis using r by simp
qed

text \<open>The end of \<open>exec\<close> for the file \<open>ip\<close>, which is locked.\<close>

lemma exec_file_result:
  assumes d: "devs_stay only_wakes dv" and w: "only_wakes S0 S"
    and e: "bindE (exec_image dv c ip S) (\<lambda>((pgdir, img), S4).
        case img of None \<Rightarrow> exec_bad c pgdir (Some ip) S4
        | Some (sz, start) \<Rightarrow> bindE (iunlockput c ip S4) (\<lambda>S5. bindE (end_op c S5) (\<lambda>S6. bindE (exec_stack c pgdir sz argv S6) (\<lambda>(st, S7).
           case st of None \<Rightarrow> exec_bad c pgdir None S7 | Some (sz1, sp) \<Rightarrow> exec_commit c path pgdir sz1 start sp S7)))) = Inr (r, S')"
  shows "r = -1 \<and> only_wakes S0 S' \<or>
    (\<exists>T pgdir sz start sp. only_wakes S0 T \<and> sz < KERNBASE \<and> sz mod PGSIZE = 0 \<and> 2 * PGSIZE \<le> sz \<and> exec_commit c path pgdir sz start sp T = Inr (r, S'))"
proof -
  have bad: "r = -1 \<and> only_wakes S0 S'" if "exec_bad c pgdir ipo T = Inr (r, S')" "only_wakes S0 T" for pgdir ipo T
    using that staysD [OF wakes_exec_bad that(1)] by (auto simp: exec_bad_def bindE_eq_Inr)
  obtain pgdir img S4 where S4: "exec_image dv c ip S = Inr ((pgdir, img), S4)" using e by (auto simp: bindE_eq_Inr)
  have w4: "only_wakes S0 S4" using staysD [OF wakes_exec_image [OF d w] S4] by simp
  show ?thesis
  proof (cases img)
    case None
    then show ?thesis using e S4 bad [OF _ w4] by simp
  next
    case (Some x)
    then obtain sz start where x: "img = Some (sz, start)" by (cases x) simp
    obtain S5 S6 st S7 where S5: "iunlockput c ip S4 = Inr S5" and S6: "end_op c S5 = Inr S6" and S7: "exec_stack c pgdir sz argv S6 = Inr (st, S7)"
      and f: "(case st of None \<Rightarrow> exec_bad c pgdir None S7 | Some (sz1, sp) \<Rightarrow> exec_commit c path pgdir sz1 start sp S7) = Inr (r, S')"
      using e S4 x by (auto simp: bindE_eq_Inr)
    have "only_wakes S0 S5" by (rule staysD [OF wakes.r_iunlockput [OF _ w4] S5]) simp
    then have "only_wakes S0 S6" by (rule staysD [OF wakes.r_end_op S6])
    then have w7: "only_wakes S0 S7" using staysD [OF wakes_exec_stack S7] by simp
    show ?thesis
    proof (cases st)
      case None
      then show ?thesis using f bad [OF _ w7] by simp
    next
      case (Some y)
      then obtain sz1 sp where y: "st = Some (sz1, sp)" by (cases y) simp
      note Z = exec_stack_size [OF S7 [unfolded y] exec_image_size [OF S4 [unfolded x]]]
      have "exec_commit c path pgdir sz1 start sp S7 = Inr (r, S')" using f y by simp
      with w7 Z(2-4) show ?thesis by (intro disjI2 exI conjI)
    qed
  qed
qed

text \<open>
  C12. \<open>exec\<close> all or nothing. When it returns -1 the process is as it was: no field of its entry in the process table has changed, nor has anything of the other processes but that sleeping ones may have been woken, nor the scheduler. It
  returns 0 only with a complete new image: then the name, the page directory, the size, and the instruction and stack pointers have changed, and nothing else; the size is a multiple of the page size, holds at least the guard
  page and the stack, and lies below the kernel's half of the address space.
\<close>

theorem exec_result:
  assumes "exec dv nm c path argv S = Inr (r, S')" "devs_stay only_wakes dv" "c < length (cpus S)"
    and "myproc c S = Some p" "p < length (k_procs S)" "p_state (proc_at S p) = RUNNING"
  shows "r = -1 \<and> only_wakes S S' \<and> proc_at S' p = proc_at S p \<or>
    r = 0 \<and> (\<exists>pgdir sz start sp. KERNBASE \<le> pgdir \<and> sz < KERNBASE \<and> sz mod PGSIZE = 0 \<and> 2 * PGSIZE \<le> sz
      \<and> only_wakes (upd_proc p (new_image path pgdir sz start sp) S) S' \<and> proc_at S' p = new_image path pgdir sz start sp (proc_at S p))"
proof -
  have same: "proc_at U p = proc_at S p" if "only_wakes S U" for U using running_same(1) [OF that assms(5,6)] .
  obtain S1 S2 ipo where S1: "start_op c S = Inr S1" and S2: "namei dv nm c path S1 = Inr (ipo, S2)" using assms(1) by (auto simp: exec_def bindE_eq_Inr)
  have "only_wakes S S1" by (rule staysD [OF wakes.r_start_op S1]) simp
  then have w2: "only_wakes S S2" using staysD [OF wakes.r_namei S2] assms(2) by simp
  have "r = -1 \<and> only_wakes S S' \<or>
    (\<exists>T pgdir sz start sp. only_wakes S T \<and> sz < KERNBASE \<and> sz mod PGSIZE = 0 \<and> 2 * PGSIZE \<le> sz \<and> exec_commit c path pgdir sz start sp T = Inr (r, S'))"
  proof (cases ipo)
    case None
    then obtain S3 where S3: "end_op c S2 = Inr S3" "kprintf ''exec: fail\<newline>'' [] S3 = Inr S'" "r = -1" using assms(1) S1 S2 by (auto simp: exec_def bindE_eq_Inr)
    have "only_wakes S S3" by (rule staysD [OF wakes.r_end_op [OF w2] S3(1)])
    then show ?thesis using staysD [OF wakes_kprintf S3(2)] S3(3) by simp
  next
    case (Some ip)
    then obtain S3 where S3: "ilock c (Some ip) S2 = Inr S3" using assms(1) S1 S2 by (auto simp: exec_def bindE_eq_Inr)
    have w3: "only_wakes S S3" by (rule staysD [OF wakes.r_ilock [OF w2] S3])
    show ?thesis by (rule exec_file_result [OF assms(2) w3]) (use assms(1) S1 S2 S3 Some in \<open>simp add: exec_def\<close>)
  qed
  then show ?thesis
  proof (elim disjE exE conjE)
    fix T pgdir sz start sp
    assume T: "only_wakes S T" "sz < KERNBASE" "sz mod PGSIZE = 0" "2 * PGSIZE \<le> sz" "exec_commit c path pgdir sz start sp T = Inr (r, S')"
    have my: "myproc c T = Some p" "p < length (k_procs T)" using myproc_same [OF T(1), of c] running_same(2) [OF T(1) assms(5,6)] assms(3-5) by auto
    note C = exec_commit_result [OF T(5) my]
    let ?f = "new_image path pgdir sz start sp"
    have "only_wakes (upd_proc p ?f S) (upd_proc p ?f T)" by (rule only_wakes_upd_proc [OF T(1) assms(5,6)])
    then have o: "only_wakes (upd_proc p ?f S) S'" using only_wakes_trans C by blast
    have "proc_at S' p = ?f (proc_at S p)" using running_same(1) [OF o] assms(5,6) by (simp add: new_image_def)
    with conjunct1 [OF C] conjunct1 [OF conjunct2 [OF C]] T(2-4) o show ?thesis by (intro disjI2 exI conjI)
  qed (use same in blast)
qed

section \<open>A file that is not a program\<close>

interpretation inol: sleep_lock "inode_lock i" "\<lambda>e. i < length (f_inode e)" for i
  by unfold_locales (simp_all add: inode_lock_def upd_inode_def)

lemma start_op_ends:
  assumes "fctx c m pr S" "\<not> l_committing (f_log (k_env S))" "l_n (f_log (k_env S)) + (l_outstanding (f_log (k_env S)) + 1) * 10 \<le> 30"
  shows "ends c m pr (upd_log (\<lambda>l. l\<lparr>l_outstanding := l_outstanding l + 1\<rparr>) (k_env S)) (start_op c S)"
proof -
  let ?f = "upd_log (\<lambda>l. l\<lparr>l_outstanding := l_outstanding l + 1\<rparr>)"
  obtain S1 where S1: "acquire c LogLock S = Inr S1" "held c LogLock (Some m) S1" "proc_at S1 (fst m) = pr" "k_env S1 = k_env S"
    using fctx_acquire [OF assms(1)] by (auto simp: LogLock_def)
  have "ends c m pr (?f (k_env S)) (release c LogLock (upd_env ?f S1))" using fctx_release [of c LogLock m "upd_env ?f S1" pr] S1 by simp
  then show ?thesis using S1 assms(2,3) by (auto simp: start_op_def begin_op_def ends_def params_defs)
qed

lemma iget_hit:
  assumes "fctx c m pr S" "find (\<lambda>i. i_ref (inode_at (k_env S) i) > 0 \<and> i_dev (inode_at (k_env S) i) = dev \<and> i_inum (inode_at (k_env S) i) = inum) [0..<NINODE] = Some ip"
  shows "gives c m pr ip (upd_inode ip (\<lambda>x. x\<lparr>i_ref := i_ref x + 1\<rparr>) (k_env S)) (iget c dev inum S)"
proof -
  let ?f = "upd_inode ip (\<lambda>x. x\<lparr>i_ref := i_ref x + 1\<rparr>)"
  obtain S1 where S1: "acquire c IcacheLock S = Inr S1" "held c IcacheLock (Some m) S1" "proc_at S1 (fst m) = pr" "k_env S1 = k_env S"
    using fctx_acquire [OF assms(1)] by (auto simp: IcacheLock_def)
  have "ends c m pr (?f (k_env S)) (release c IcacheLock (upd_env ?f S1))" using fctx_release [of c IcacheLock m "upd_env ?f S1" pr] S1 by simp
  then show ?thesis using S1 assms(2) by (auto simp: iget_def Let_def ends_def gives_def)
qed

lemma ilock_ends:
  assumes "fctx c m pr S" "ip < length (f_inode (k_env S))" "1 \<le> i_ref (inode_at (k_env S) ip)" "i_valid (inode_at (k_env S) ip)" "\<not> sl_locked (i_lock (inode_at (k_env S) ip))"
  shows "ends c m pr (sr_upd (inode_lock ip) (\<lambda>l. l\<lparr>sl_locked := True, sl_pid := p_pid pr\<rparr>) (k_env S)) (ilock c (Some ip) S)"
  using inol.lock_gives [OF assms(1,2)] assms(2-5) by (auto simp: ilock_def ends_def inode_lock_def upd_inode_def)

lemma iunlock_ends:
  assumes "fctx c m pr S" "1 \<le> i_ref (inode_at (k_env S) ip)" "sl_locked (i_lock (inode_at (k_env S) ip))" "sl_pid (i_lock (inode_at (k_env S) ip)) = p_pid pr"
  shows "ends c m pr (sr_upd (inode_lock ip) (\<lambda>l. l\<lparr>sl_locked := False, sl_pid := 0\<rparr>) (k_env S)) (iunlock c (Some ip) S)"
proof -
  have "gives c m pr True (k_env S) (holdingsleep (inode_lock ip) c S)" using inol.holding_gives [OF assms(1), of ip] assms(3,4) by (simp add: inode_lock_def)
  then obtain S1 where "holdingsleep (inode_lock ip) c S = Inr (True, S1)" "fctx c m pr S1" "k_env S1 = k_env S" by (auto simp: gives_def)
  then show ?thesis using inol.unlock_ends [of c m pr S1 ip] assms(2) by (simp add: iunlock_def)
qed

lemma iput_ends:
  assumes "fctx c m pr S" "ip < length (f_inode (k_env S))" "i_nlink (inode_at (k_env S) ip) \<noteq> 0" "\<not> sl_locked (i_lock (inode_at (k_env S) ip))"
  shows "ends c m pr (upd_inode ip (\<lambda>x. x\<lparr>i_ref := i_ref x - 1\<rparr>) (sr_upd (inode_lock ip) (\<lambda>l. l\<lparr>sl_locked := False, sl_pid := 0\<rparr>)
    (sr_upd (inode_lock ip) (\<lambda>l. l\<lparr>sl_locked := True, sl_pid := p_pid pr\<rparr>) (k_env S)))) (iput c ip S)"
proof -
  obtain S1 where S1: "locksleep (inode_lock ip) c S = Inr S1" "fctx c m pr S1" "k_env S1 = sr_upd (inode_lock ip) (\<lambda>l. l\<lparr>sl_locked := True, sl_pid := p_pid pr\<rparr>) (k_env S)"
    using inol.lock_gives [OF assms(1,2)] assms(4) by (auto simp: ends_def inode_lock_def)
  have n: "i_nlink (inode_at (k_env S1) ip) \<noteq> 0" using S1(3) assms(2,3) by (simp add: inode_lock_def upd_inode_def)
  obtain S2 where S2: "releasesleep (inode_lock ip) c S1 = Inr S2" "fctx c m pr S2" "k_env S2 = sr_upd (inode_lock ip) (\<lambda>l. l\<lparr>sl_locked := False, sl_pid := 0\<rparr>) (k_env S1)"
    using inol.unlock_ends [OF S1(2), of ip] by (auto simp: ends_def)
  have "IcacheLock \<noteq> PtableLock" by (simp add: IcacheLock_def)
  from fctx_section(1) [OF S2(2) this] show ?thesis using S1 S2 n by (simp add: iput_def)
qed

lemma end_op_empty:
  assumes "fctx c m pr S" "l_outstanding (f_log (k_env S)) = 1" "\<not> l_committing (f_log (k_env S))" "l_n (f_log (k_env S)) \<le> 0"
  shows "\<exists>e. ends c m pr e (end_op c S)"
proof -
  have lk: "LogLock \<noteq> PtableLock" by (simp add: LogLock_def)
  let ?f = "upd_log (\<lambda>l. l\<lparr>l_outstanding := l_outstanding l - 1\<rparr>)" and ?g = "upd_log (\<lambda>l. l\<lparr>l_committing := True\<rparr>)" and ?h = "upd_log (\<lambda>l. l\<lparr>l_committing := False\<rparr>)"
  obtain S1 where S1: "acquire c LogLock S = Inr S1" "held c LogLock (Some m) S1" "proc_at S1 (fst m) = pr" "k_env S1 = k_env S" using fctx_acquire [OF assms(1) lk] by blast
  obtain S2 where S2: "release c LogLock (upd_env ?g (upd_env ?f S1)) = Inr S2" "fctx c m pr S2" "k_env S2 = ?g (?f (k_env S))"
    using fctx_release [of c LogLock m "upd_env ?g (upd_env ?f S1)" pr] S1 by (auto simp: ends_def)
  have c: "commit c S2 = Inr S2" using S2(3) assms(4) by (simp add: commit_def upd_log_def)
  obtain S3 where S3: "acquire c LogLock S2 = Inr S3" "held c LogLock (Some m) S3" "proc_at S3 (fst m) = pr" using fctx_acquire [OF S2(2) lk] by blast
  obtain S4 where S4: "wakeup c log_chan (upd_env ?h S3) = Inr S4" "held c LogLock (Some m) S4" "proc_at S4 (fst m) = pr"
    using fctx_wakeup [of c LogLock m "upd_env ?h S3" pr log_chan] S3 by auto
  show ?thesis using fctx_release [OF S4(2,3)] S1 S2(1) c S3(1) S4(1) assms(2,3) by (auto simp: end_op_def Let_def upd_log_def [of "\<lambda>l. l\<lparr>l_outstanding := l_outstanding l - 1\<rparr>"])
qed

text \<open>A root directory whose inode is in the cache, and empty.\<close>

definition demo_image :: memd where
  "demo_image = \<lparr>f_disk = [], f_writes = [], f_buf = [], f_lru = [], f_log = \<lparr>l_start = 2, l_size = 10, l_outstanding = 0, l_committing = False, l_dev = 1, l_n = 0, l_block = []\<rparr>,
     f_sb = \<lparr>sb_size = 0, sb_nblocks = 0, sb_ninodes = 0, sb_nlog = 0, sb_logstart = 0, sb_inodestart = 0, sb_bmapstart = 0\<rparr>,
     f_inode = [\<lparr>i_dev = 1, i_inum = 1, i_ref = 1, i_lock = sl_zero, i_valid = True, i_type = 1, i_major = 0, i_minor = 0, i_nlink = 1, i_size = 0, i_addrs = []\<rparr>],
     f_file = [], f_pipe = (\<lambda>_. pipe_init []), f_user = [],
     f_cons = \<lparr>cn_buf = [], cn_r = 0, cn_w = 0, cn_e = 0, cn_panicked = False, cn_crt = [], cn_pos = 0, cn_uart = None\<rparr>,
     f_mem = \<lparr>cpus = [], locks = (\<lambda>_. \<lparr>lk_locked = False, lk_name = [], lk_cpu = None\<rparr>), km_use_lock = True, km_freelist = 0, km_mem = (\<lambda>_. 0), km_end = 0, km_data = 0, km_out = []\<rparr>\<rparr>"

definition no_devs :: "nat \<Rightarrow> ('x, 'z) devsw" where
  "no_devs i = \<lparr>dev_read = None, dev_write = None\<rparr>"

lemma demo_exec_run: "\<exists>S'. exec no_devs (replicate 14 0) 0 [slash] [] (demo_fs demo_image) = Inr (-1, S')"
proof -
  let ?S = "demo_fs demo_image" let ?pr = "proc_at demo_run 0"
  note E = demo_image_def sl_zero_def upd_log_def upd_inode_def inode_lock_def
  have c0: "fctx 0 (0, 0) ?pr ?S" "k_env ?S = demo_image" by (rule demo_fs_ctx)+
  obtain S1 where S1: "start_op 0 ?S = Inr S1" "fctx 0 (0, 0) ?pr S1" "k_env S1 = upd_log (\<lambda>l. l\<lparr>l_outstanding := l_outstanding l + 1\<rparr>) demo_image"
    using start_op_ends [OF c0(1)] c0(2) by (auto simp: ends_def demo_image_def)
  have u: "[0..<NINODE] = 0 # [1..<50]" by (simp add: NINODE_def upt_rec)
  obtain S2 where S2: "iget 0 1 1 S1 = Inr (0, S2)" "fctx 0 (0, 0) ?pr S2" "k_env S2 = upd_inode 0 (\<lambda>x. x\<lparr>i_ref := i_ref x + 1\<rparr>) (k_env S1)"
    using iget_hit [OF S1(2), of 1 1 0] S1(3) u by (auto simp: gives_def E)
  have n: "namei no_devs (replicate 14 0) 0 [slash] S1 = Inr (Some 0, S2)"
    using S2(1) by (simp add: namei_def namex_def skipelem_def slash_def ROOTDEV_def ROOTINO_def Let_def)
  obtain S3 where S3: "ilock 0 (Some 0) S2 = Inr S3" "fctx 0 (0, 0) ?pr S3" "k_env S3 = sr_upd (inode_lock 0) (\<lambda>l. l\<lparr>sl_locked := True, sl_pid := p_pid ?pr\<rparr>) (k_env S2)"
    using ilock_ends [OF S2(2), of 0] S2(3) S1(3) by (auto simp: ends_def E)
  have i: "exec_image no_devs 0 0 S3 = Inr ((0, None), S3)" using S3(3) S2(3) S1(3) by (simp add: exec_image_def readi_def E T_DEV_def)
  obtain S4 where S4: "iunlock 0 (Some 0) S3 = Inr S4" "fctx 0 (0, 0) ?pr S4" "k_env S4 = sr_upd (inode_lock 0) (\<lambda>l. l\<lparr>sl_locked := False, sl_pid := 0\<rparr>) (k_env S3)"
    using iunlock_ends [OF S3(2), of 0] S3(3) S2(3) S1(3) by (auto simp: ends_def E)
  obtain S5 e where S5: "iput 0 0 S4 = Inr S5" "fctx 0 (0, 0) ?pr S5" "f_log (k_env S5) = f_log (k_env S4)"
    using iput_ends [OF S4(2), of 0] S4(3) S3(3) S2(3) S1(3) by (auto simp: ends_def E)
  obtain S6 where "end_op 0 S5 = Inr S6" using end_op_empty [OF S5(2)] S5(3) S4(3) S3(3) S2(3) S1(3) by (auto simp: ends_def E)
  then have "exec_bad 0 0 (Some 0) S3 = Inr (-1, S6)" using S4(1) S5(1) by (simp add: exec_bad_def iunlockput_def)
  then show ?thesis using S1(1) n S3(1) i by (simp add: exec_def)
qed

theorem exec_result_witness:
  "\<exists>S'. exec no_devs (replicate 14 0) 0 [slash] [] (demo_fs demo_image) = Inr (-1, S') \<and> proc_at S' 0 = proc_at (demo_fs demo_image) 0"
proof -
  obtain S' where S': "exec no_devs (replicate 14 0) 0 [slash] [] (demo_fs demo_image) = Inr (-1, S')" using demo_exec_run by blast
  have p: "placed 0 0 0 demo_run" by (rule demo_run_mode(1))
  have l: "0 < length (cpus (demo_fs demo_image))" using demo_run_facts(3) by (simp add: demo_fs_def run_ok_def quiet_def cpu_ok_def)
  have s: "p_state (proc_at (demo_fs demo_image) 0) = RUNNING" "myproc 0 (demo_fs demo_image) = Some 0" "0 < length (k_procs (demo_fs demo_image))"
    using demo_run_mode(2,3) demo_run_facts(6) placedD [OF p] by (simp_all add: demo_fs_def myproc_def)
  have "devs_stay only_wakes no_devs" by (simp add: devs_stay_def no_devs_def)
  from exec_result [OF S' this l s(2,3,1)] show ?thesis using S' by auto
qed

end
