(* ===== verification/Spec2Isabelle.thy ===== *)
theory Spec2Isabelle
  imports Policy Sysfile Ulib VmMap FsDemo DirFacts Grep ShellPrint ConsoleFacts Mp FsTypes ExecFacts
begin

text \<open>
  A verification of xv6 with the Rotating Staircase Deadline scheduler. All file names are under \<^verbatim>\<open>src/\<close>.

  \<^bold>\<open>The program.\<close> The kernel is a set of tables behind spin locks: the processes and the levels of the scheduler (\<^verbatim>\<open>proc.c\<close>), entered by traps (\<^verbatim>\<open>trap.c\<close>) and system calls (\<^verbatim>\<open>syscall.c\<close>, \<^verbatim>\<open>sysproc.c\<close>, \<^verbatim>\<open>sysfile.c\<close>), on top
  of page tables (\<^verbatim>\<open>vm.c\<close>) and an allocator of pages (\<^verbatim>\<open>kalloc.c\<close>), and of a file system in layers: disk, buffer cache (\<^verbatim>\<open>bio.c\<close>), log (\<^verbatim>\<open>log.c\<close>), inodes, directories and paths (\<^verbatim>\<open>fs.c\<close>), open files (\<^verbatim>\<open>file.c\<close>), pipes (\<^verbatim>\<open>pipe.c\<close>)
  and the console (\<^verbatim>\<open>console.c\<close>, \<^verbatim>\<open>uart.c\<close>, \<^verbatim>\<open>kbd.c\<close>). \<^verbatim>\<open>exec.c\<close> joins the two sides. User programs with their library (\<^verbatim>\<open>ulib.c\<close>, \<^verbatim>\<open>printf.c\<close>) and the shell (\<^verbatim>\<open>sh.c\<close>) run on the system calls.

  \<^bold>\<open>The model.\<close> Kernel code is a function from a state to a result: \<open>Inr\<close> the value and the new state, or \<open>Inl\<close> an error (Prelude): a \<open>panic\<close> with its message, a lock that is never released to this CPU, a loop that does not end,
  undefined behaviour of C. Machine integers keep their width. A call that can put the process to sleep is cut at the sleep: a section either returns or says that the process sleeps, and other processes run in between. States are records
  that extend one another: CPUs and locks (\<open>mach\<close>), the process table (\<open>kstate\<close>), and in its field \<open>k_env\<close> the state of the parts below, \<open>bcache\<close>, \<open>logged\<close>, \<open>icached\<close>, \<open>fsys\<close>, \<open>consoled\<close>, \<open>memd\<close>. Pointers into tables are positions, null
  pointers \<open>None\<close> or the address 0.

  \<^bold>\<open>Theories and sources.\<close>
  \<^item> Prelude: \<^verbatim>\<open>param.h\<close>, \<^verbatim>\<open>rsdl.h\<close>, \<^verbatim>\<open>memlayout.h\<close>, results and C integers. Spinlock: \<^verbatim>\<open>spinlock.c\<close> with the CPU records, and mutual exclusion for every interleaving of the memory accesses.
  \<^item> Proc, LevelQueue, Sched, ProcOps, Trap: \<^verbatim>\<open>proc.h\<close>, \<^verbatim>\<open>proc.c\<close>, \<^verbatim>\<open>trap.c\<close> and the address space switches of \<^verbatim>\<open>vm.c\<close>. One turn of \<open>scheduler\<close> is \<open>scheduler_pick\<close> up to the switch and \<open>scheduler_after\<close> from the return; \<open>resume\<close> is what a
    process does when it is switched to. A level is a FIFO list (locale \<open>fifo\<close>).
  \<^item> SchedFacts, Staircase, KOps, KInv, KSteps, KFork, KRun: the invariant of process table and levels, that every operation keeps it and does not panic, and the reachable states \<open>kreach\<close> over events. Rsdl, Family, Policy: the scheduling policy and
    the process operations on reachable states. Demo: concrete reachable states.
  \<^item> Monitor, Sleeplock, Ring, Pipe: sections under one spin lock, \<^verbatim>\<open>sleeplock.c\<close>, and the pipe as a ring (locale \<open>ring_buffer\<close>, shared with the console).
  \<^item> Bio, Ondisk, Log, Fs, Dir, File, Sysfile: \<^verbatim>\<open>bio.c\<close> with \<^verbatim>\<open>memide.c\<close>, \<^verbatim>\<open>fs.h\<close>, \<^verbatim>\<open>log.c\<close>, \<^verbatim>\<open>fs.c\<close>, \<^verbatim>\<open>file.c\<close>, \<^verbatim>\<open>sysfile.c\<close>. BioFacts, LogFacts, Crash, FsDemo: transparency of the cache and atomicity of transactions. DirFacts: paths and termination.
    Frame, FsFrame, FsTypes: rules that follow the code, in three locales that extend one another (\<open>lock_frame\<close>, \<open>cache_frame\<close>, \<open>fs_frame\<close>), used for two relations: the file system leaves processes and scheduler alone, and it keeps the sizes of its arrays.
  \<^item> KString, Kalloc, Vm, VmMap: memory as bytes, \<^verbatim>\<open>string.c\<close>, \<^verbatim>\<open>kalloc.c\<close>, \<^verbatim>\<open>vm.c\<close>. Exec, ExecFacts: \<^verbatim>\<open>exec.c\<close>, \<^verbatim>\<open>elf.h\<close>.
  \<^item> Console, Kbd, ConsoleFacts: \<^verbatim>\<open>console.c\<close>, \<^verbatim>\<open>uart.c\<close>, \<^verbatim>\<open>kbd.c\<close>, \<^verbatim>\<open>kbd.h\<close>. Mp: \<^verbatim>\<open>mp.c\<close>, \<^verbatim>\<open>mp.h\<close>. Syscall: \<^verbatim>\<open>syscall.c\<close>, \<^verbatim>\<open>sysproc.c\<close>.
  \<^item> Printf, Ulib, User, Grep, Shell, ShellFacts, ShellPrint: \<^verbatim>\<open>printf.c\<close>, \<^verbatim>\<open>ulib.c\<close>, the user programs, \<^verbatim>\<open>grep.c\<close>, \<^verbatim>\<open>sh.c\<close>, over a record of the system calls.

  \<^bold>\<open>What is shown.\<close> On one CPU every event from a reachable state leads to a reachable state or to an error of the parts below: the process code neither panics nor deadlocks, and the levels hold exactly the live processes. The policy is stated of the
  handlers: who runs next, where processes go when their quantum or that of their level ends, what the exchange of the sets does, and that a ready process is dispatched. \<open>sleep\<close> loses no wakeup. \<open>priofork\<close>, \<open>exit\<close>, \<open>wait\<close> and \<open>exec\<close> have their full effect
  or leave the process alone. A transaction survives a crash at any of its disk writes whole or not at all. Pipes are FIFO; the console is an editor of lines; page tables map what \<open>mappages\<close> is asked to map; system call arguments lie inside the process.
  The shell parses every printed command back, and \<open>grep\<close> prints the lines in which a pattern occurs.

  \<^bold>\<open>Bounds.\<close> Loops with a bound in the model: walking a path takes at most one step more than the path has bytes; \<open>readi\<close>, \<open>writei\<close>, \<open>filewrite\<close> and \<open>copyout\<close> move a byte at least in each round, so that the number of bytes is enough; loops over pages
  have the number of pages of their range; the shell's parsers call each other at most four times for each character; control-U deletes what is between the indices. For paths, file contents and the shell it is proved that more makes no difference; in the
  memory code a bound that is reached would be the error \<open>NoReturn\<close>. Loops that may run for ever (strings without NUL, the table of \<^verbatim>\<open>mp.c\<close>, programs that wait for input) are partial functions.

  \<^bold>\<open>Limits of the model.\<close> The invariant of the process table is for one CPU; several CPUs appear in the exclusion of \<open>acquire\<close> and in the wakeup that waits. The operations of the parts below that the process code calls (\<open>kops\<close>) act on \<open>k_env\<close> alone: wakeups made inside
  them are events of their own. Code of the file system is modelled for executions that find sleep locks and the log free; otherwise it is the error \<open>Spin\<close>, and the section that sleeps is modelled apart (\<open>acquiresleep\<close>, \<open>begin_op\<close>). \<open>f_writes\<close> and \<open>f_user\<close> record
  what has been written to the disk and to user memory; no code reads them. Output of the kernel is \<open>k_out\<close>; \<open>f_cons\<close> is the console device. \<open>malloc\<close> in the shell is taken to succeed.

  \<^bold>\<open>Not modelled.\<close> The start of the machine (\<^verbatim>\<open>main.c\<close> apart from what it calls, \<^verbatim>\<open>bootmain.c\<close>, the assembly), because it is hardware set-up; the device registers of \<^verbatim>\<open>lapic.c\<close>, \<^verbatim>\<open>ioapic.c\<close>, \<^verbatim>\<open>picirq.c\<close>, \<open>uartinit\<close> and \<open>seginit\<close>, because they hold no state that the kernel
  reads; \<^verbatim>\<open>ide.c\<close>, whose interface \<^verbatim>\<open>memide.c\<close> provides; \<^verbatim>\<open>mkfs.c\<close>, a program of the host; \<^verbatim>\<open>umalloc.c\<close>; the test programs, which only make system calls and print.
\<close>

end
